(* ===== verification/Prelude.thy ===== *)
theory Prelude
  imports Main "HOL-Library.Word" "HOL-Library.Signed_Division"
begin

text \<open>
  The shared vocabulary of the development: the C types and the two failure shapes the
  components use, a small state-and-stop calculus for code that may end the process, and
  the generic facts on lists, words and invariants that the component theories rely on.

  C code that can end the process (\<open>exit\<close>, \<open>abort\<close>, a dereferenced null pointer)
  is a \<open>prog\<close>: a function from the state to an outcome and the state at that point.
  Code that only returns error codes is written with plain state passing.
\<close>

unbundle bit_operations_syntax

section \<open>Names for the C types\<close>

type_synonym u8 = "8 word"
type_synonym u16 = "16 word"
type_synonym u32 = "32 word"
type_synonym u64 = "64 word"

text \<open>A C string or byte buffer is the list of its bytes; the terminator is written out.\<close>

type_synonym bytes = "u8 list"

section \<open>Collections\<close>

named_theorems pres_rules \<open>preservation of a state predicate, one rule per construct\<close>
named_theorems keeps_rules \<open>preservation on return, one rule per construct\<close>
named_theorems prog_simps \<open>unfolding of the state-and-stop combinators\<close>
named_theorems wp_simps \<open>weakest preconditions, one equation per construct\<close>
named_theorems errno_simps \<open>values of the errno constants\<close>

section \<open>Programs that may stop\<close>

type_synonym ('s, 'e, 'a) prog = "'s \<Rightarrow> ('e + 'a) \<times> 's"

definition ret :: "'a \<Rightarrow> ('s, 'e, 'a) prog" where
  "ret x = (\<lambda>s. (Inr x, s))"

definition stop :: "'e \<Rightarrow> ('s, 'e, 'a) prog" where
  "stop e = (\<lambda>s. (Inl e, s))"

definition andthen :: "('s, 'e, 'a) prog \<Rightarrow> ('a \<Rightarrow> ('s, 'e, 'b) prog) \<Rightarrow> ('s, 'e, 'b) prog" where
  "andthen m f = (\<lambda>s. case m s of (Inl e, t) \<Rightarrow> (Inl e, t) | (Inr x, t) \<Rightarrow> f x t)"

definition seqp :: "('s, 'e, 'a) prog \<Rightarrow> ('s, 'e, 'b) prog \<Rightarrow> ('s, 'e, 'b) prog" where
  "seqp m n = andthen m (\<lambda>_. n)"

definition getp :: "('s \<Rightarrow> 'a) \<Rightarrow> ('s, 'e, 'a) prog" where
  "getp f = (\<lambda>s. (Inr (f s), s))"

definition modp :: "('s \<Rightarrow> 's) \<Rightarrow> ('s, 'e, unit) prog" where
  "modp f = (\<lambda>s. (Inr (), f s))"

definition whenp :: "bool \<Rightarrow> ('s, 'e, unit) prog \<Rightarrow> ('s, 'e, unit) prog" where
  "whenp b m = (if b then m else ret ())"

lemmas prog_defs [prog_simps] = ret_def stop_def andthen_def seqp_def getp_def modp_def whenp_def

lemma andthen_ret [simp]: "andthen (ret x) f = f x"
  by (simp add: prog_defs)

lemma andthen_stop [simp]: "andthen (stop e) f = stop e"
  by (simp add: prog_defs)

lemma andthen_assoc: "andthen (andthen m f) g = andthen m (\<lambda>x. andthen (f x) g)"
  by (auto simp: andthen_def fun_eq_iff split: prod.splits sum.splits)

lemma seqp_assoc: "seqp (seqp m n) p = seqp m (seqp n p)"
  by (simp add: seqp_def andthen_assoc)

fun seqs :: "('s, 'e, unit) prog list \<Rightarrow> ('s, 'e, unit) prog" where
  "seqs [] = ret ()"
| "seqs (m # ms) = seqp m (seqs ms)"

lemma seqs_append: "seqs (ms @ ns) = seqp (seqs ms) (seqs ns)"
  by (induction ms) (simp_all add: seqp_def andthen_assoc)

subsection \<open>Preserving a state predicate\<close>

text \<open>
  \<open>pres I m\<close>: from a state with \<open>I\<close>, the program ends in a state with \<open>I\<close>,
  whether it returns or stops. The rules below follow the combinators, so a preservation
  proof of a whole handler is one application of the collection.
\<close>

definition pres :: "('s \<Rightarrow> bool) \<Rightarrow> ('s, 'e, 'a) prog \<Rightarrow> bool" where
  "pres I m \<longleftrightarrow> (\<forall>s. I s \<longrightarrow> I (snd (m s)))"

lemma presI: "(\<And>s. I s \<Longrightarrow> I (snd (m s))) \<Longrightarrow> pres I m"
  by (simp add: pres_def)

lemma presD: "pres I m \<Longrightarrow> I s \<Longrightarrow> I (snd (m s))"
  by (simp add: pres_def)

lemma pres_ret [pres_rules]: "pres I (ret x)"
  by (simp add: pres_def ret_def)

lemma pres_stop [pres_rules]: "pres I (stop e)"
  by (simp add: pres_def stop_def)

lemma pres_getp [pres_rules]: "pres I (getp f)"
  by (simp add: pres_def getp_def)

lemma pres_modp: "(\<And>s. I s \<Longrightarrow> I (f s)) \<Longrightarrow> pres I (modp f)"
  by (simp add: pres_def modp_def)

lemma pres_andthen [pres_rules]:
  assumes m: "pres I m" and f: "\<And>x. pres I (f x)"
  shows "pres I (andthen m f)"
proof (rule presI)
  fix s assume "I s"
  with m have "I (snd (m s))" by (rule presD)
  then show "I (snd (andthen m f s))"
    using f by (auto simp: andthen_def pres_def split: prod.splits sum.splits)
qed

lemma pres_seqp [pres_rules]: "pres I m \<Longrightarrow> pres I n \<Longrightarrow> pres I (seqp m n)"
  by (simp add: seqp_def pres_andthen)

lemma pres_whenp [pres_rules]: "(b \<Longrightarrow> pres I m) \<Longrightarrow> pres I (whenp b m)"
  by (simp add: whenp_def pres_ret)

lemma pres_if [pres_rules]:
  "(b \<Longrightarrow> pres I m) \<Longrightarrow> (\<not> b \<Longrightarrow> pres I n) \<Longrightarrow> pres I (if b then m else n)"
  by simp

lemma pres_case_option [pres_rules]:
  "(x = None \<Longrightarrow> pres I m) \<Longrightarrow> (\<And>y. x = Some y \<Longrightarrow> pres I (f y)) \<Longrightarrow> pres I (case_option m f x)"
  by (cases x) simp_all

lemma pres_case_prod [pres_rules]:
  "(\<And>a b. pres I (f a b)) \<Longrightarrow> pres I (case_prod f x)"
  by (cases x) simp

lemma pres_case_sum [pres_rules]:
  "(\<And>a. pres I (f a)) \<Longrightarrow> (\<And>b. pres I (g b)) \<Longrightarrow> pres I (case_sum f g x)"
  by (cases x) simp_all

lemma pres_Let [pres_rules]: "(\<And>y. pres I (f y)) \<Longrightarrow> pres I (Let x f)"
  by (simp add: Let_def)

lemma pres_seqs [pres_rules]: "(\<And>m. m \<in> set ms \<Longrightarrow> pres I m) \<Longrightarrow> pres I (seqs ms)"
  by (induction ms) (simp_all add: pres_rules)

lemma pres_conj: "pres I m \<Longrightarrow> pres J m \<Longrightarrow> pres (\<lambda>s. I s \<and> J s) m"
  by (simp add: pres_def)

text \<open>
  \<open>keeps I m\<close>: from a state with \<open>I\<close>, if the program returns, it returns in a state with
  \<open>I\<close>. This is the form for code whose failures end the process half-way.
\<close>

definition keeps :: "('s \<Rightarrow> bool) \<Rightarrow> ('s, 'e, 'a) prog \<Rightarrow> bool" where
  "keeps I m \<longleftrightarrow> (\<forall>s x t. I s \<longrightarrow> m s = (Inr x, t) \<longrightarrow> I t)"

lemma keepsD: "keeps I m \<Longrightarrow> I s \<Longrightarrow> m s = (Inr x, t) \<Longrightarrow> I t"
  by (auto simp: keeps_def)

lemma keeps_ret [keeps_rules]: "keeps I (ret x)"
  by (simp add: keeps_def ret_def)

lemma keeps_stop [keeps_rules]: "keeps I (stop e)"
  by (simp add: keeps_def stop_def)

lemma keeps_getp [keeps_rules]: "keeps I (getp f)"
  by (simp add: keeps_def getp_def)

lemma keeps_modp: "(\<And>s. I s \<Longrightarrow> I (f s)) \<Longrightarrow> keeps I (modp f)"
  by (simp add: keeps_def modp_def)

lemma keeps_andthen [keeps_rules]:
  assumes m: "keeps I m" and f: "\<And>x. keeps I (f x)"
  shows "keeps I (andthen m f)"
  unfolding keeps_def
proof (intro allI impI)
  fix s y t assume "I s" and a: "andthen m f s = (Inr y, t)"
  obtain v u where v: "m s = (v, u)" by (cases "m s")
  with a obtain x where "v = Inr x" and r: "f x u = (Inr y, t)"
    by (cases v) (auto simp: andthen_def)
  with v \<open>I s\<close> have "I u" by (auto intro: keepsD[OF m])
  then show "I t" using r by (rule keepsD[OF f])
qed

lemma keeps_seqp [keeps_rules]: "keeps I m \<Longrightarrow> keeps I n \<Longrightarrow> keeps I (seqp m n)"
  by (simp add: seqp_def keeps_andthen)

lemma keeps_whenp [keeps_rules]: "(b \<Longrightarrow> keeps I m) \<Longrightarrow> keeps I (whenp b m)"
  by (simp add: whenp_def keeps_ret)

lemma keeps_if [keeps_rules]:
  "(b \<Longrightarrow> keeps I m) \<Longrightarrow> (\<not> b \<Longrightarrow> keeps I n) \<Longrightarrow> keeps I (if b then m else n)"
  by simp

lemma keeps_case_option [keeps_rules]:
  "(x = None \<Longrightarrow> keeps I m) \<Longrightarrow> (\<And>y. x = Some y \<Longrightarrow> keeps I (f y)) \<Longrightarrow> keeps I (case_option m f x)"
  by (cases x) simp_all

lemma keeps_case_list [keeps_rules]:
  "(x = [] \<Longrightarrow> keeps I m) \<Longrightarrow> (\<And>y ys. x = y # ys \<Longrightarrow> keeps I (f y ys)) \<Longrightarrow> keeps I (case_list m f x)"
  by (cases x) simp_all

lemma keeps_case_prod [keeps_rules]: "(\<And>a b. keeps I (f a b)) \<Longrightarrow> keeps I (case_prod f x)"
  by (cases x) simp

lemma keeps_Let [keeps_rules]: "(\<And>y. keeps I (f y)) \<Longrightarrow> keeps I (Let x f)"
  by (simp add: Let_def)

lemma keeps_seqs [keeps_rules]: "(\<And>m. m \<in> set ms \<Longrightarrow> keeps I m) \<Longrightarrow> keeps I (seqs ms)"
  by (induction ms) (simp_all add: keeps_rules)

subsection \<open>Weakest preconditions\<close>

text \<open>
  \<open>wp m Q E s\<close>: run from \<open>s\<close>, the program returns with \<open>Q\<close> or stops with \<open>E\<close>. As
  programs are total functions this is a statement about an outcome that exists; with
  \<open>E\<close> false it says the program returns.
\<close>

definition wp :: "('s, 'e, 'a) prog \<Rightarrow> ('a \<Rightarrow> 's \<Rightarrow> bool) \<Rightarrow> ('e \<Rightarrow> 's \<Rightarrow> bool) \<Rightarrow> 's \<Rightarrow> bool" where
  "wp m Q E s = (case m s of (Inl e, t) \<Rightarrow> E e t | (Inr x, t) \<Rightarrow> Q x t)"

lemma wp_ret [wp_simps]: "wp (ret x) Q E = Q x"
  by (simp add: wp_def ret_def fun_eq_iff)

lemma wp_stop [wp_simps]: "wp (stop e) Q E = E e"
  by (simp add: wp_def stop_def fun_eq_iff)

lemma wp_getp [wp_simps]: "wp (getp f) Q E = (\<lambda>s. Q (f s) s)"
  by (simp add: wp_def getp_def fun_eq_iff)

lemma wp_modp [wp_simps]: "wp (modp f) Q E = (\<lambda>s. Q () (f s))"
  by (simp add: wp_def modp_def fun_eq_iff)

lemma wp_andthen [wp_simps]: "wp (andthen m f) Q E = wp m (\<lambda>x. wp (f x) Q E) E"
  by (simp add: wp_def andthen_def fun_eq_iff split: prod.split sum.split)

lemma wp_seqp [wp_simps]: "wp (seqp m n) Q E = wp m (\<lambda>_. wp n Q E) E"
  by (simp add: seqp_def wp_andthen)

lemma wp_whenp [wp_simps]: "wp (whenp b m) Q E = (if b then wp m Q E else Q ())"
  by (simp add: whenp_def wp_ret)

lemma wp_if [wp_simps]: "wp (if b then m else n) Q E = (if b then wp m Q E else wp n Q E)"
  by simp

lemma wp_case_option [wp_simps]:
  "wp (case_option m f x) Q E = (case x of None \<Rightarrow> wp m Q E | Some y \<Rightarrow> wp (f y) Q E)"
  by (cases x) simp_all

lemma wp_case_list [wp_simps]:
  "wp (case_list m f x) Q E = (case x of [] \<Rightarrow> wp m Q E | y # ys \<Rightarrow> wp (f y ys) Q E)"
  by (cases x) simp_all

lemma wp_mono: "wp m Q E s \<Longrightarrow> (\<And>x t. Q x t \<Longrightarrow> Q' x t) \<Longrightarrow> (\<And>e t. E e t \<Longrightarrow> E' e t) \<Longrightarrow> wp m Q' E' s"
  by (auto simp: wp_def split: prod.splits sum.splits)

lemma wp_conj: "wp m Q E s \<Longrightarrow> wp m Q' E' s \<Longrightarrow> wp m (\<lambda>x t. Q x t \<and> Q' x t) (\<lambda>e t. E e t \<and> E' e t) s"
  by (auto simp: wp_def split: prod.splits sum.splits)

lemma wp_returns: "wp m Q (\<lambda>_ _. False) s \<Longrightarrow> \<exists>x t. m s = (Inr x, t) \<and> Q x t"
  by (auto simp: wp_def split: prod.splits sum.splits)

section \<open>Reachable states\<close>

text \<open>
  The one induction every state machine here needs: an invariant of the start states that
  each step keeps holds in every state reached by a finite run.
\<close>

locale transition_system =
  fixes start :: "'s \<Rightarrow> bool" and step :: "'s \<Rightarrow> 's \<Rightarrow> bool" and inv :: "'s \<Rightarrow> bool"
  assumes inv_start: "start s \<Longrightarrow> inv s"
    and inv_step: "inv s \<Longrightarrow> step s t \<Longrightarrow> inv t"
begin

lemma inv_run: "step\<^sup>*\<^sup>* s t \<Longrightarrow> inv s \<Longrightarrow> inv t"
  by (induction rule: rtranclp_induct) (auto intro: inv_step)

lemma inv_reachable: "start s \<Longrightarrow> step\<^sup>*\<^sup>* s t \<Longrightarrow> inv t"
  by (blast intro: inv_run inv_start)

end

section \<open>Encoders and decoders\<close>

text \<open>
  The contract of a print/parse pair: decoding an encoded value gives it back. Clients get
  injectivity of the encoder and the decoder's behaviour on its range.
\<close>

locale codec =
  fixes valid :: "'a \<Rightarrow> bool" and encode :: "'a \<Rightarrow> 'b" and decode :: "'b \<Rightarrow> 'a option"
  assumes decode_encode: "valid x \<Longrightarrow> decode (encode x) = Some x"
begin

lemma encode_inject: "valid x \<Longrightarrow> valid y \<Longrightarrow> encode x = encode y \<longleftrightarrow> x = y"
  by (metis decode_encode option.inject)

lemma encode_inj_on: "inj_on encode {x. valid x}"
  by (rule inj_onI) (simp add: encode_inject)

end

section \<open>C strings\<close>

text \<open>The bytes before the first terminator, as \<open>strlen\<close> sees them.\<close>

definition cstr :: "bytes \<Rightarrow> bytes" where
  "cstr b = takeWhile (\<lambda>c. c \<noteq> 0) b"

definition terminated :: "bytes \<Rightarrow> bool" where
  "terminated b \<longleftrightarrow> 0 \<in> set b"

lemma cstr_no_nul [simp]: "0 \<notin> set (cstr b)"
  by (auto simp: cstr_def dest: set_takeWhileD)

lemma cstr_append_nul [simp]: "0 \<notin> set s \<Longrightarrow> cstr (s @ 0 # t) = s"
  by (induction s) (auto simp: cstr_def)

lemma cstr_no_nul_id: "0 \<notin> set s \<Longrightarrow> cstr s = s"
  by (induction s) (auto simp: cstr_def)

lemma cstr_Cons: "cstr (c # b) = (if c = 0 then [] else c # cstr b)"
  by (simp add: cstr_def)

lemma cstr_Nil [simp]: "cstr [] = []"
  by (simp add: cstr_def)

lemma terminated_split: "terminated b \<Longrightarrow> \<exists>t. b = cstr b @ 0 # t"
proof (induction b)
  case Nil
  then show ?case by (simp add: terminated_def)
next
  case (Cons c b)
  show ?case
  proof (cases "c = 0")
    case False
    with Cons have "\<exists>t. b = cstr b @ 0 # t" by (auto simp: terminated_def)
    with False show ?thesis by (auto simp: cstr_Cons)
  qed (simp add: cstr_Cons)
qed

lemma cstr_length: "length (cstr b) \<le> length b"
  by (simp add: cstr_def length_takeWhile_le)

section \<open>Bits\<close>

lemma and_push_mask_eq_0:
  fixes w :: "'a::len word"
  assumes "n < LENGTH('a)"
  shows "w AND NOT (push_bit n 1 - 1) = 0 \<longleftrightarrow> (\<forall>i. bit w i \<longrightarrow> i < n)"
proof -
  have "push_bit n 1 - 1 = (mask n :: 'a word)"
    by (simp add: mask_eq_exp_minus_1 push_bit_eq_mult)
  moreover have "w AND NOT (mask n) = 0 \<longleftrightarrow> (\<forall>i. bit w i \<longrightarrow> i < n)"
    by (auto simp: bit_eq_iff bit_simps dest: bit_imp_le_length)
  ultimately show ?thesis by simp
qed

lemma word_eqI_bits:
  fixes v w :: "'a::len word"
  assumes "\<And>i. i < LENGTH('a) \<Longrightarrow> bit v i \<longleftrightarrow> bit w i"
  shows "v = w"
  using assms by (auto simp: bit_eq_iff dest: bit_imp_le_length)

end
