(* ===== verification/Kqueue.thy ===== *)
theory Kqueue
  imports Prelude
begin

text \<open>
  The operating-system interface under \<open>src/epoll-shim\<close>: the calls \<open>kqueue\<close>,
  \<open>kevent\<close>, \<open>fstat\<close>, \<open>poll\<close>, \<open>close\<close>, \<open>read\<close> and \<open>calloc\<close> are parameters
  of the shim, collected in \<open>kqueue_sys\<close> over an arbitrary kernel state. The locale
  \<open>kqueue_kernel\<close> states what the kevent manual page promises about user events; a
  functional kernel that keeps these promises closes the theory.

  The numeric values of flags and error codes are those of the Darwin system headers, the
  only platform the top-level build adds the shim for.
\<close>

unbundle bit_operations_syntax

section \<open>Constants of the system headers\<close>

definition EINVAL :: int where [errno_simps]: "EINVAL = 22"
definition EBADF :: int where [errno_simps]: "EBADF = 9"
definition ENOENT :: int where [errno_simps]: "ENOENT = 2"
definition EMFILE :: int where [errno_simps]: "EMFILE = 24"
definition EAGAIN :: int where [errno_simps]: "EAGAIN = 35"

abbreviation EV_ADD :: u16 where "EV_ADD \<equiv> 0x0001"
abbreviation EV_DELETE :: u16 where "EV_DELETE \<equiv> 0x0002"
abbreviation EV_ENABLE :: u16 where "EV_ENABLE \<equiv> 0x0004"
abbreviation EV_DISABLE :: u16 where "EV_DISABLE \<equiv> 0x0008"
abbreviation EV_CLEAR :: u16 where "EV_CLEAR \<equiv> 0x0020"
abbreviation EV_RECEIPT :: u16 where "EV_RECEIPT \<equiv> 0x0040"
abbreviation EV_OOBAND :: u16 where "EV_OOBAND \<equiv> 0x2000"
abbreviation EV_ERROR :: u16 where "EV_ERROR \<equiv> 0x4000"
abbreviation EV_EOF :: u16 where "EV_EOF \<equiv> 0x8000"

abbreviation POLLIN :: u16 where "POLLIN \<equiv> 0x0001"
abbreviation POLLOUT :: u16 where "POLLOUT \<equiv> 0x0004"
abbreviation POLLHUP :: u16 where "POLLHUP \<equiv> 0x0010"

datatype evfilt = EVFILT_READ | EVFILT_WRITE | EVFILT_SIGNAL | EVFILT_USER | EVFILT_OTHER

datatype filetype = FT_FIFO | FT_SOCK | FT_OTHER

record kevent =
  kev_ident :: u64
  kev_filter :: evfilt
  kev_flags :: u16
  kev_fflags :: u32
  kev_data :: int
  kev_udata :: u64

record timespec =
  tv_sec :: int
  tv_nsec :: int

text \<open>The macro \<open>EV_SET\<close>, with the fields in its argument order.\<close>

definition EV_SET :: "u64 \<Rightarrow> evfilt \<Rightarrow> u16 \<Rightarrow> u32 \<Rightarrow> int \<Rightarrow> u64 \<Rightarrow> kevent" where
  "EV_SET i f fl ff d u =
     \<lparr>kev_ident = i, kev_filter = f, kev_flags = fl, kev_fflags = ff, kev_data = d, kev_udata = u\<rparr>"

lemma EV_SET_sel [simp]:
  "kev_ident (EV_SET i f fl ff d u) = i"
  "kev_filter (EV_SET i f fl ff d u) = f"
  "kev_flags (EV_SET i f fl ff d u) = fl"
  "kev_fflags (EV_SET i f fl ff d u) = ff"
  "kev_data (EV_SET i f fl ff d u) = d"
  "kev_udata (EV_SET i f fl ff d u) = u"
  by (simp_all add: EV_SET_def)

section \<open>The system calls as parameters\<close>

text \<open>
  \<open>sys_kevent S k kq changes n timeout\<close> is the call with \<open>n\<close> slots of event list:
  \<open>Inl\<close> carries the error number of a \<open>-1\<close> return, \<open>Inr\<close> the events placed.
\<close>

record 'k kqueue_sys =
  sys_kqueue :: "'k \<Rightarrow> (int + int) \<times> 'k"
  sys_kevent :: "'k \<Rightarrow> int \<Rightarrow> kevent list \<Rightarrow> nat \<Rightarrow> timespec option \<Rightarrow> (int + kevent list) \<times> 'k"
  sys_fstat :: "'k \<Rightarrow> int \<Rightarrow> int + filetype"
  sys_poll :: "'k \<Rightarrow> int \<Rightarrow> u16 \<Rightarrow> int \<times> u16"
  sys_close :: "'k \<Rightarrow> int \<Rightarrow> (int + unit) \<times> 'k"
  sys_read :: "'k \<Rightarrow> int \<Rightarrow> nat \<Rightarrow> (int + bytes) \<times> 'k"
  sys_calloc :: "'k \<Rightarrow> bool \<times> 'k"

text \<open>The shim's view of the process: the thread's \<open>errno\<close> and the kernel.\<close>

record 'k shim =
  errno :: int
  kern :: 'k

definition do_kevent ::
  "'k kqueue_sys \<Rightarrow> int \<Rightarrow> kevent list \<Rightarrow> nat \<Rightarrow> timespec option \<Rightarrow> 'k shim
     \<Rightarrow> kevent list option \<times> 'k shim" where
  "do_kevent S kq ch n to st =
     (case sys_kevent S (kern st) kq ch n to of
        (Inl e, k') \<Rightarrow> (None, st\<lparr>errno := e, kern := k'\<rparr>)
      | (Inr evs, k') \<Rightarrow> (Some evs, st\<lparr>kern := k'\<rparr>))"

definition do_kqueue :: "'k kqueue_sys \<Rightarrow> 'k shim \<Rightarrow> int \<times> 'k shim" where
  "do_kqueue S st =
     (case sys_kqueue S (kern st) of
        (Inl e, k') \<Rightarrow> (-1, st\<lparr>errno := e, kern := k'\<rparr>)
      | (Inr fd, k') \<Rightarrow> (fd, st\<lparr>kern := k'\<rparr>))"

section \<open>What the kernel promises about user events\<close>

definition is_user :: "kevent \<Rightarrow> bool" where
  "is_user e \<longleftrightarrow> kev_filter e = EVFILT_USER"

definition is_io :: "kevent \<Rightarrow> bool" where
  "is_io e \<longleftrightarrow> kev_filter e = EVFILT_READ \<or> kev_filter e = EVFILT_WRITE"

definition user_change :: "kevent \<Rightarrow> (u64 \<Rightarrow> bool) \<Rightarrow> (u64 \<Rightarrow> bool)" where
  "user_change e r =
     (if kev_flags e = EV_ADD then r(kev_ident e := True)
      else if kev_flags e = EV_DELETE then r(kev_ident e := False)
      else r)"

definition receipt_for :: "(u64 \<Rightarrow> bool) \<Rightarrow> kevent \<Rightarrow> kevent \<Rightarrow> bool" where
  "receipt_for r c e \<longleftrightarrow>
     kev_flags e AND EV_ERROR \<noteq> 0 \<and> kev_data e = (if r (kev_ident c) then 0 else ENOENT)"

locale kqueue_kernel =
  fixes S :: "'k kqueue_sys" and reg :: "'k \<Rightarrow> int \<Rightarrow> u64 \<Rightarrow> bool"
  assumes user_changes:
    "\<lbrakk>list_all is_user ch; list_all (\<lambda>e. kev_flags e = EV_ADD \<or> kev_flags e = EV_DELETE) ch;
      sys_kevent S k kq ch 0 None = (Inr evs, k')\<rbrakk>
       \<Longrightarrow> reg k' = (reg k)(kq := fold user_change ch (reg k kq))"
  and user_query:
    "\<lbrakk>list_all is_user ch; list_all (\<lambda>e. kev_flags e = EV_RECEIPT) ch;
      sys_kevent S k kq ch (length ch) None = (Inr evs, k')\<rbrakk>
       \<Longrightarrow> list_all2 (receipt_for (reg k kq)) ch evs \<and> reg k' = reg k"
  and query_error:
    "\<lbrakk>list_all is_user ch; list_all (\<lambda>e. kev_flags e = EV_RECEIPT) ch;
      sys_kevent S k kq ch (length ch) None = (Inl e, k')\<rbrakk>
       \<Longrightarrow> reg k' = reg k"
  and error_positive: "sys_kevent S k kq ch n to = (Inl e, k') \<Longrightarrow> 0 < e"
  and event_count: "sys_kevent S k kq ch n to = (Inr evs, k') \<Longrightarrow> length evs \<le> n"
  and io_changes:
    "\<lbrakk>list_all is_io ch; sys_kevent S k kq ch n to = (res, k')\<rbrakk> \<Longrightarrow> reg k' = reg k"

section \<open>A functional kernel with these promises\<close>

record ref_kernel =
  rk_notes :: "(int \<times> u64 \<times> evfilt) list"
  rk_pending :: "kevent list"
  rk_next :: int
  rk_type :: "int \<Rightarrow> filetype"

definition ref_apply :: "int \<Rightarrow> kevent \<Rightarrow> (int \<times> u64 \<times> evfilt) list
    \<Rightarrow> int \<times> (int \<times> u64 \<times> evfilt) list" where
  "ref_apply kq e ns =
     (let key = (kq, kev_ident e, kev_filter e) in
      if kev_flags e AND EV_ADD \<noteq> 0 then (0, List.insert key ns)
      else if key \<notin> set ns then (ENOENT, ns)
      else if kev_flags e AND EV_DELETE \<noteq> 0 then (0, removeAll key ns)
      else (0, ns))"

fun ref_changes :: "int \<Rightarrow> kevent list \<Rightarrow> nat \<Rightarrow> (int \<times> u64 \<times> evfilt) list
    \<Rightarrow> (int + kevent list) \<times> (int \<times> u64 \<times> evfilt) list" where
  "ref_changes kq [] n ns = (Inr [], ns)"
| "ref_changes kq (e # es) n ns =
     (case ref_apply kq e ns of (err, ns') \<Rightarrow>
        if err \<noteq> 0 \<or> kev_flags e AND EV_RECEIPT \<noteq> 0 then
          (if 0 < n then
             (case ref_changes kq es (n - 1) ns' of
                (Inl x, ns'') \<Rightarrow> (Inl x, ns'')
              | (Inr evs, ns'') \<Rightarrow>
                  (Inr (e\<lparr>kev_flags := kev_flags e OR EV_ERROR, kev_data := err\<rparr> # evs), ns''))
           else if err \<noteq> 0 then (Inl err, ns')
           else ref_changes kq es n ns')
        else ref_changes kq es n ns')"

definition ref_kevent :: "ref_kernel \<Rightarrow> int \<Rightarrow> kevent list \<Rightarrow> nat \<Rightarrow> timespec option
    \<Rightarrow> (int + kevent list) \<times> ref_kernel" where
  "ref_kevent k kq ch n to =
     (if kq < 0 then (Inl EBADF, k)
      else case ref_changes kq ch n (rk_notes k) of
        (Inl e, ns) \<Rightarrow> (Inl e, k\<lparr>rk_notes := ns\<rparr>)
      | (Inr evs, ns) \<Rightarrow>
          if evs \<noteq> [] then (Inr evs, k\<lparr>rk_notes := ns\<rparr>)
          else (Inr (take n (rk_pending k)), k\<lparr>rk_notes := ns, rk_pending := drop n (rk_pending k)\<rparr>))"

definition ref_sys :: "ref_kernel kqueue_sys" where
  "ref_sys =
     \<lparr>sys_kqueue = (\<lambda>k. (Inr (max 0 (rk_next k)), k\<lparr>rk_next := max 0 (rk_next k) + 1\<rparr>)),
      sys_kevent = ref_kevent,
      sys_fstat = (\<lambda>k fd. Inr (rk_type k fd)),
      sys_poll = (\<lambda>k fd ev. (0, 0)),
      sys_close = (\<lambda>k fd. (Inr (), k)),
      sys_read = (\<lambda>k fd n. (Inr [], k)),
      sys_calloc = (\<lambda>k. (True, k))\<rparr>"

definition ref_reg :: "ref_kernel \<Rightarrow> int \<Rightarrow> u64 \<Rightarrow> bool" where
  "ref_reg k kq i \<longleftrightarrow> (kq, i, EVFILT_USER) \<in> set (rk_notes k)"

definition notes_reg :: "(int \<times> u64 \<times> evfilt) list \<Rightarrow> int \<Rightarrow> u64 \<Rightarrow> bool" where
  "notes_reg ns q i \<longleftrightarrow> (q, i, EVFILT_USER) \<in> set ns"

lemma ref_reg_notes: "ref_reg k = notes_reg (rk_notes k)"
  by (simp add: fun_eq_iff ref_reg_def notes_reg_def)

lemma ref_apply_user:
  assumes "is_user e" "kev_flags e = EV_ADD \<or> kev_flags e = EV_DELETE"
    and "ref_apply kq e ns = (0, ns')"
  shows "notes_reg ns' = (notes_reg ns)(kq := user_change e (notes_reg ns kq))"
  using assms
  by (auto simp: ref_apply_def notes_reg_def user_change_def is_user_def fun_eq_iff Let_def
      ENOENT_def split: if_splits)

lemma ref_changes_user:
  assumes "list_all is_user ch" "list_all (\<lambda>e. kev_flags e = EV_ADD \<or> kev_flags e = EV_DELETE) ch"
    and "ref_changes kq ch 0 ns = (Inr evs, ns')"
  shows "notes_reg ns' = (notes_reg ns)(kq := fold user_change ch (notes_reg ns kq))"
  using assms
proof (induction ch arbitrary: ns)
  case Nil
  then show ?case by simp
next
  case (Cons e es)
  obtain err ns1 where ap: "ref_apply kq e ns = (err, ns1)" by fastforce
  from Cons.prems ap have "err = 0" and rest: "ref_changes kq es 0 ns1 = (Inr evs, ns')"
    by (auto split: if_splits)
  from Cons.prems \<open>err = 0\<close> ap
  have "notes_reg ns1 = (notes_reg ns)(kq := user_change e (notes_reg ns kq))"
    by (intro ref_apply_user) simp_all
  with Cons.IH [OF _ _ rest] Cons.prems(1,2) show ?case by (auto simp: fun_eq_iff)
qed

lemma ref_changes_query:
  assumes "list_all is_user ch" "list_all (\<lambda>e. kev_flags e = EV_RECEIPT) ch"
  shows "\<exists>evs. ref_changes kq ch (length ch) ns = (Inr evs, ns)
    \<and> list_all2 (receipt_for (notes_reg ns kq)) ch evs"
  using assms
proof (induction ch)
  case Nil
  then show ?case by simp
next
  case (Cons e es)
  then obtain evs where evs: "ref_changes kq es (length es) ns = (Inr evs, ns)"
    and all: "list_all2 (receipt_for (notes_reg ns kq)) es evs" by auto
  let ?err = "if (kq, kev_ident e, EVFILT_USER) \<in> set ns then 0 else ENOENT"
  let ?e = "e\<lparr>kev_flags := kev_flags e OR EV_ERROR, kev_data := ?err\<rparr>"
  have "receipt_for (notes_reg ns kq) e ?e"
    using Cons.prems by (simp add: receipt_for_def notes_reg_def)
  moreover have "ref_changes kq (e # es) (length (e # es)) ns = (Inr (?e # evs), ns)"
    using Cons.prems evs by (simp add: ref_apply_def is_user_def Let_def)
  ultimately show ?case using all by auto
qed

lemma ref_changes_error: "ref_changes kq ch n ns = (Inl e, ns') \<Longrightarrow> 0 < e"
  by (induction kq ch n ns arbitrary: ns' rule: ref_changes.induct)
    (auto simp: ref_apply_def Let_def ENOENT_def split: if_splits prod.splits sum.splits)

lemma ref_changes_count: "ref_changes kq ch n ns = (Inr evs, ns') \<Longrightarrow> length evs \<le> n"
  by (induction kq ch n ns arbitrary: evs ns' rule: ref_changes.induct)
    (fastforce split: if_splits prod.splits sum.splits)+

lemma ref_apply_io: "is_io e \<Longrightarrow> ref_apply kq e ns = (err, ns') \<Longrightarrow> notes_reg ns' = notes_reg ns"
  by (auto simp: ref_apply_def notes_reg_def is_io_def fun_eq_iff Let_def split: if_splits)

lemma ref_changes_io:
  assumes "list_all is_io ch" "ref_changes kq ch n ns = (res, ns')"
  shows "notes_reg ns' = notes_reg ns"
  using assms
proof (induction kq ch n ns arbitrary: res ns' rule: ref_changes.induct)
  case (1 kq n ns)
  then show ?case by simp
next
  case (2 kq e es n ns)
  obtain err ns1 where ap: "ref_apply kq e ns = (err, ns1)" by fastforce
  have eq: "notes_reg ns1 = notes_reg ns"
    using ref_apply_io [OF _ ap] "2.prems"(1) by simp
  have "\<exists>m r. ref_changes kq es m ns1 = (r, ns') \<or> ns' = ns1"
    using "2.prems"(2) ap by (auto split: if_splits prod.splits sum.splits)
  moreover have "notes_reg t = notes_reg ns1" if "ref_changes kq es m ns1 = (r, t)"
      and "ref_changes kq (e # es) n ns = (res, t)" for m r t
    using that "2.IH" ap "2.prems"(1) by (auto split: if_splits prod.splits sum.splits)
  ultimately show ?case using eq "2.prems"(2) by metis
qed

interpretation ref: kqueue_kernel ref_sys ref_reg
proof
  fix ch :: "kevent list" and k k' :: ref_kernel and kq evs
  assume u: "list_all is_user ch"
    and f: "list_all (\<lambda>e. kev_flags e = EV_ADD \<or> kev_flags e = EV_DELETE) ch"
    and r: "sys_kevent ref_sys k kq ch 0 None = (Inr evs, k')"
  obtain res ns where c: "ref_changes kq ch 0 (rk_notes k) = (res, ns)" by fastforce
  with r obtain evs' where "res = Inr evs'" and "rk_notes k' = ns"
    by (auto simp: ref_sys_def ref_kevent_def split: sum.splits if_splits)
  with ref_changes_user [OF u f] c
  show "ref_reg k' = (ref_reg k)(kq := fold user_change ch (ref_reg k kq))"
    by (simp add: ref_reg_notes)
next
  fix ch :: "kevent list" and k k' :: ref_kernel and kq evs
  assume u: "list_all is_user ch" and f: "list_all (\<lambda>e. kev_flags e = EV_RECEIPT) ch"
    and r: "sys_kevent ref_sys k kq ch (length ch) None = (Inr evs, k')"
  from ref_changes_query [OF u f, of kq "rk_notes k"] r
  show "list_all2 (receipt_for (ref_reg k kq)) ch evs \<and> ref_reg k' = ref_reg k"
    by (auto simp: ref_sys_def ref_kevent_def ref_reg_notes split: if_splits)
next
  fix ch :: "kevent list" and k k' :: ref_kernel and kq e
  assume u: "list_all is_user ch" and f: "list_all (\<lambda>e. kev_flags e = EV_RECEIPT) ch"
    and r: "sys_kevent ref_sys k kq ch (length ch) None = (Inl e, k')"
  from ref_changes_query [OF u f, of kq "rk_notes k"] r
  show "ref_reg k' = ref_reg k"
    by (auto simp: ref_sys_def ref_kevent_def split: if_splits)
next
  fix k k' :: ref_kernel and kq ch n to e
  assume "sys_kevent ref_sys k kq ch n to = (Inl e, k')"
  then obtain ns where "ref_changes kq ch n (rk_notes k) = (Inl e, ns) \<or> e = EBADF"
    by (auto simp: ref_sys_def ref_kevent_def split: prod.splits sum.splits if_splits)
  then show "0 < e" by (auto dest: ref_changes_error simp: EBADF_def)
next
  fix k k' :: ref_kernel and kq ch n to evs
  assume "sys_kevent ref_sys k kq ch n to = (Inr evs, k')"
  then show "length evs \<le> n"
    by (auto simp: ref_sys_def ref_kevent_def dest: ref_changes_count split: prod.splits sum.splits if_splits)
next
  fix ch :: "kevent list" and k k' :: ref_kernel and kq n to res
  assume io: "list_all is_io ch" and r: "sys_kevent ref_sys k kq ch n to = (res, k')"
  obtain res' ns where c: "ref_changes kq ch n (rk_notes k) = (res', ns)" by fastforce
  with r have "rk_notes k' = ns \<or> k' = k"
    by (auto simp: ref_sys_def ref_kevent_def split: sum.splits if_splits)
  with ref_changes_io [OF io c] show "ref_reg k' = ref_reg k"
    by (auto simp: ref_reg_notes)
qed

section \<open>What the kernel promises about descriptors\<close>

text \<open>
  \<open>opened k\<close> is the set of descriptors open in the process. A new kqueue has a fresh,
  non-negative descriptor; closing one closes no other; the remaining calls open and close
  nothing.
\<close>

locale descriptor_kernel =
  fixes S :: "'k kqueue_sys" and opened :: "'k \<Rightarrow> int set"
  assumes kqueue_fresh:
      "sys_kqueue S k = (Inr fd, k') \<Longrightarrow> 0 \<le> fd \<and> fd \<notin> opened k \<and> opened k' = insert fd (opened k)"
    and kqueue_fails: "sys_kqueue S k = (Inl e, k') \<Longrightarrow> opened k' = opened k"
    and close_one: "sys_close S k fd = (r, k') \<Longrightarrow> opened k - {fd} \<subseteq> opened k'"
    and kevent_opened: "sys_kevent S k kq ch n to = (res, k') \<Longrightarrow> opened k' = opened k"
    and read_opened: "sys_read S k fd n = (rd, k') \<Longrightarrow> opened k' = opened k"
    and calloc_opened: "sys_calloc S k = (b, k') \<Longrightarrow> opened k' = opened k"

definition ref_opened :: "ref_kernel \<Rightarrow> int set" where
  "ref_opened k = {0..<max 0 (rk_next k)}"

interpretation ref_fd: descriptor_kernel ref_sys ref_opened
  by unfold_locales (auto simp: ref_sys_def ref_opened_def ref_kevent_def split: if_splits prod.splits sum.splits)

end
