(* ===== verification/Epoll.thy ===== *)
theory Epoll
  imports Kqueue
begin

text \<open>
  \<open>src/epoll-shim/src/epoll.c\<close>: epoll on top of kqueue. The shim has no memory of its
  own. For every registered descriptor it keeps twelve flag bits inside the kernel, as the
  presence or absence of twelve user events (\<open>kqueue_save_state\<close>,
  \<open>kqueue_load_state\<close>), and translates registrations (\<open>epoll_ctl\<close>) and reported
  events (\<open>epoll_wait\<close>) between the two interfaces.

  The lemmas show that the flag store is a store (what is saved is what is loaded, for
  each descriptor separately), what a registration leaves in it, and what the reported
  event masks may contain.
\<close>

unbundle bit_operations_syntax

abbreviation EPOLLIN :: u32 where "EPOLLIN \<equiv> 0x001"
abbreviation EPOLLPRI :: u32 where "EPOLLPRI \<equiv> 0x002"
abbreviation EPOLLOUT :: u32 where "EPOLLOUT \<equiv> 0x004"
abbreviation EPOLLERR :: u32 where "EPOLLERR \<equiv> 0x008"
abbreviation EPOLLHUP :: u32 where "EPOLLHUP \<equiv> 0x010"
abbreviation EPOLLRDHUP :: u32 where "EPOLLRDHUP \<equiv> 0x2000"
abbreviation EPOLLET :: u32 where "EPOLLET \<equiv> 0x80000000"

abbreviation EPOLL_CLOEXEC :: int where "EPOLL_CLOEXEC \<equiv> 0x1000000"
abbreviation EPOLL_CTL_ADD :: int where "EPOLL_CTL_ADD \<equiv> 1"
abbreviation EPOLL_CTL_DEL :: int where "EPOLL_CTL_DEL \<equiv> 2"
abbreviation EPOLL_CTL_MOD :: int where "EPOLL_CTL_MOD \<equiv> 3"

abbreviation KQUEUE_STATE_REGISTERED :: u16 where "KQUEUE_STATE_REGISTERED \<equiv> 0x1"
abbreviation KQUEUE_STATE_EPOLLIN :: u16 where "KQUEUE_STATE_EPOLLIN \<equiv> 0x2"
abbreviation KQUEUE_STATE_EPOLLOUT :: u16 where "KQUEUE_STATE_EPOLLOUT \<equiv> 0x4"
abbreviation KQUEUE_STATE_EPOLLRDHUP :: u16 where "KQUEUE_STATE_EPOLLRDHUP \<equiv> 0x8"
abbreviation KQUEUE_STATE_EPOLLPRI :: u16 where "KQUEUE_STATE_EPOLLPRI \<equiv> 0x10"
abbreviation KQUEUE_STATE_ISFIFO :: u16 where "KQUEUE_STATE_ISFIFO \<equiv> 0x40"
abbreviation KQUEUE_STATE_ISSOCK :: u16 where "KQUEUE_STATE_ISSOCK \<equiv> 0x80"

abbreviation KEY_BITS :: nat where "KEY_BITS \<equiv> 20"
abbreviation VAL_BITS :: nat where "VAL_BITS \<equiv> 12"

record epoll_event =
  events :: u32
  data :: u64

section \<open>Creating an instance\<close>

definition epoll_create :: "'k kqueue_sys \<Rightarrow> int \<Rightarrow> 'k shim \<Rightarrow> int \<times> 'k shim" where
  "epoll_create S sz st = do_kqueue S st"

definition epoll_create1 :: "'k kqueue_sys \<Rightarrow> int \<Rightarrow> 'k shim \<Rightarrow> int \<times> 'k shim" where
  "epoll_create1 S flags st =
     (if flags \<noteq> EPOLL_CLOEXEC then (-1, st\<lparr>errno := EINVAL\<rparr>) else do_kqueue S st)"

section \<open>The flag store\<close>

definition state_key :: "u32 \<Rightarrow> nat \<Rightarrow> u64" where
  "state_key key i = ucast (key OR push_bit KEY_BITS (push_bit i (1 :: u32)))"

definition save_kevs :: "u32 \<Rightarrow> u16 \<Rightarrow> kevent list" where
  "save_kevs key val =
     concat (map (\<lambda>i.
       EV_SET (state_key key i) EVFILT_USER EV_ADD 0 0 0 #
       (if val AND push_bit i 1 = 0 then [EV_SET (state_key key i) EVFILT_USER EV_DELETE 0 0 0] else []))
     [0..<VAL_BITS])"

definition kqueue_save_state ::
  "'k kqueue_sys \<Rightarrow> int \<Rightarrow> u32 \<Rightarrow> u16 \<Rightarrow> 'k shim \<Rightarrow> int \<times> 'k shim" where
  "kqueue_save_state S kq key val st =
     (if key AND NOT (push_bit KEY_BITS 1 - 1) \<noteq> 0 \<or> val AND NOT (push_bit VAL_BITS 1 - 1) \<noteq> 0
      then (- EINVAL, st)
      else
        let oe = errno st in
        case do_kevent S kq (save_kevs key val) 0 None st of
          (None, st') \<Rightarrow> (- errno st', st'\<lparr>errno := oe\<rparr>)
        | (Some _, st') \<Rightarrow> (0, st'))"

definition load_kevs :: "u32 \<Rightarrow> kevent list" where
  "load_kevs key =
     map (\<lambda>i. EV_SET (state_key key i) EVFILT_USER EV_RECEIPT 0 0 0) [0..<VAL_BITS]"

fun load_loop :: "nat \<Rightarrow> u16 \<Rightarrow> kevent list \<Rightarrow> int + u16" where
  "load_loop i nval [] = Inr nval"
| "load_loop i nval (e # es) =
     (if kev_flags e AND EV_ERROR = 0 then Inl (- EINVAL)
      else if kev_data e = 0 then load_loop (Suc i) (nval OR ucast (push_bit i (1 :: u32))) es
      else if kev_data e \<noteq> ENOENT then Inl (- EINVAL)
      else load_loop (Suc i) nval es)"

text \<open>The third argument is the caller's \<open>*val\<close>, which an error leaves as it was.\<close>

definition kqueue_load_state ::
  "'k kqueue_sys \<Rightarrow> int \<Rightarrow> u32 \<Rightarrow> u16 \<Rightarrow> 'k shim \<Rightarrow> int \<times> u16 \<times> 'k shim" where
  "kqueue_load_state S kq key val st =
     (if key AND NOT (push_bit KEY_BITS 1 - 1) \<noteq> 0 then (- EINVAL, val, st)
      else
        let oe = errno st in
        case do_kevent S kq (load_kevs key) VAL_BITS None st of
          (None, st') \<Rightarrow> (- errno st', val, st'\<lparr>errno := oe\<rparr>)
        | (Some kev, st') \<Rightarrow>
            (case load_loop 0 0 kev of
               Inl e \<Rightarrow> (e, val, st')
             | Inr nval \<Rightarrow> (0, nval, st')))"

section \<open>Registration\<close>

text \<open>The two \<open>SET_FLAG\<close> macros: the first only sets, the second also clears.\<close>

definition set_flag :: "u32 \<Rightarrow> u32 \<Rightarrow> u16 \<Rightarrow> u16 \<Rightarrow> u16" where
  "set_flag evs flag sflag flags = (if evs AND flag \<noteq> 0 then flags OR sflag else flags)"

definition put_flag :: "u32 \<Rightarrow> u32 \<Rightarrow> u16 \<Rightarrow> u16 \<Rightarrow> u16" where
  "put_flag evs flag sflag flags =
     (if evs AND flag \<noteq> 0 then flags OR sflag else flags AND NOT sflag)"

definition ctl_add_flags :: "u32 \<Rightarrow> u16" where
  "ctl_add_flags evs =
     set_flag evs EPOLLPRI KQUEUE_STATE_EPOLLPRI
       (set_flag evs EPOLLRDHUP KQUEUE_STATE_EPOLLRDHUP
         (set_flag evs EPOLLOUT KQUEUE_STATE_EPOLLOUT
           (set_flag evs EPOLLIN KQUEUE_STATE_EPOLLIN KQUEUE_STATE_REGISTERED)))"

definition ctl_mod_flags :: "u32 \<Rightarrow> u16 \<Rightarrow> u16" where
  "ctl_mod_flags evs flags =
     put_flag evs EPOLLPRI KQUEUE_STATE_EPOLLPRI
       (put_flag evs EPOLLRDHUP KQUEUE_STATE_EPOLLRDHUP
         (put_flag evs EPOLLOUT KQUEUE_STATE_EPOLLOUT
           (put_flag evs EPOLLIN KQUEUE_STATE_EPOLLIN flags)))"

definition ctl_extra :: "u32 \<Rightarrow> u16" where
  "ctl_extra evs = (if evs AND EPOLLET \<noteq> 0 then EV_CLEAR else 0)"

text \<open>
  The three operations up to the first \<open>kqueue_save_state\<close>: the pair of kernel changes
  and the flags to store, or the error number of the early return.
\<close>

definition ctl_prepare ::
  "int \<Rightarrow> int \<Rightarrow> epoll_event \<Rightarrow> u16 \<Rightarrow> int + kevent list \<times> u16" where
  "ctl_prepare op fd2 ev flags =
     (let ident = word_of_int fd2; extra = ctl_extra (events ev) in
      if op = EPOLL_CTL_ADD then
        Inr ([EV_SET ident EVFILT_READ
                (EV_ADD OR (if events ev AND EPOLLIN \<noteq> 0 then 0 else EV_DISABLE) OR extra) 0 0 (data ev),
              EV_SET ident EVFILT_WRITE
                (EV_ADD OR (if events ev AND EPOLLOUT \<noteq> 0 then 0 else EV_DISABLE) OR extra) 0 0 (data ev)],
             ctl_add_flags (events ev))
      else if op = EPOLL_CTL_DEL then
        (if flags AND KQUEUE_STATE_REGISTERED = 0 then Inl ENOENT
         else Inr ([EV_SET ident EVFILT_READ EV_DELETE 0 0 0,
                    EV_SET ident EVFILT_WRITE EV_DELETE 0 0 0], 0))
      else if op = EPOLL_CTL_MOD then
        (if flags AND KQUEUE_STATE_REGISTERED = 0 then Inl ENOENT
         else Inr ([EV_SET ident EVFILT_READ
                (if events ev AND EPOLLIN \<noteq> 0 then EV_ENABLE OR extra else EV_DISABLE OR extra) 0 0 (data ev),
              EV_SET ident EVFILT_WRITE
                (if events ev AND EPOLLOUT \<noteq> 0 then EV_ENABLE OR extra else EV_DISABLE OR extra) 0 0 (data ev)],
             ctl_mod_flags (events ev) flags))
      else Inl EINVAL)"

text \<open>The loop over the two receipts; \<open>None\<close> is the end of the loop.\<close>

fun ctl_receipts :: "nat \<Rightarrow> kevent list \<Rightarrow> int option" where
  "ctl_receipts i [] = None"
| "ctl_receipts i (e # es) =
     (if kev_flags e AND EV_ERROR = 0 then Some EINVAL
      else if i = 1 \<and> kev_data e = EINVAL then ctl_receipts (Suc i) es
      else if kev_data e \<noteq> 0 then Some (kev_data e)
      else ctl_receipts (Suc i) es)"

definition ctl_type_flags :: "filetype \<Rightarrow> u16 \<Rightarrow> u16" where
  "ctl_type_flags t flags =
     (case t of FT_FIFO \<Rightarrow> flags OR KQUEUE_STATE_ISFIFO
      | FT_SOCK \<Rightarrow> flags OR KQUEUE_STATE_ISSOCK
      | FT_OTHER \<Rightarrow> flags)"

definition ctl_apply ::
  "'k kqueue_sys \<Rightarrow> int \<Rightarrow> int \<Rightarrow> kevent list \<Rightarrow> u16 \<Rightarrow> 'k shim \<Rightarrow> int \<times> 'k shim" where
  "ctl_apply S fd fd2 kev flags st =
     (case kqueue_save_state S fd (word_of_int fd2) flags st of (e, st) \<Rightarrow>
      if e < 0 then (-1, st\<lparr>errno := e\<rparr>)
      else
        case do_kevent S fd (map (\<lambda>k. k\<lparr>kev_flags := kev_flags k OR EV_RECEIPT\<rparr>) kev) 2 None st of
          (None, st) \<Rightarrow> (-1, st)
        | (Some evs, st) \<Rightarrow>
            if length evs \<noteq> 2 then (-1, st\<lparr>errno := EINVAL\<rparr>)
            else
              case ctl_receipts 0 evs of
                Some err \<Rightarrow> (-1, st\<lparr>errno := err\<rparr>)
              | None \<Rightarrow>
                  (case sys_fstat S (kern st) fd2 of
                     Inl err \<Rightarrow> (-1, st\<lparr>errno := err\<rparr>)
                   | Inr t \<Rightarrow>
                       (case kqueue_save_state S fd (word_of_int fd2) (ctl_type_flags t flags) st of (e, st) \<Rightarrow>
                          if e < 0 then (-1, st\<lparr>errno := e\<rparr>) else (0, st))))"

definition ev_bits :: u32 where
  "ev_bits = EPOLLIN OR EPOLLOUT OR EPOLLHUP OR EPOLLRDHUP OR EPOLLERR OR EPOLLPRI OR EPOLLET"

text \<open>
  A null \<open>ev\<close> is \<open>None\<close>. It reaches the operations only for \<open>EPOLL_CTL_DEL\<close>, which
  does not read it; any event stands in for it there.
\<close>

definition epoll_ctl ::
  "'k kqueue_sys \<Rightarrow> int \<Rightarrow> int \<Rightarrow> int \<Rightarrow> epoll_event option \<Rightarrow> 'k shim \<Rightarrow> int \<times> 'k shim" where
  "epoll_ctl S fd op fd2 ev st =
     (if (ev = None \<and> op \<noteq> EPOLL_CTL_DEL) \<or> (case ev of None \<Rightarrow> False | Some e \<Rightarrow> events e AND NOT ev_bits \<noteq> 0)
      then (-1, st\<lparr>errno := EINVAL\<rparr>)
      else if fd2 < 0 \<or> word_of_int fd2 AND NOT (push_bit KEY_BITS (1 :: u32) - 1) \<noteq> 0
      then (-1, st\<lparr>errno := EBADF\<rparr>)
      else
        case kqueue_load_state S fd (word_of_int fd2) 0 st of (e, flags, st) \<Rightarrow>
        if e < 0 then (-1, st\<lparr>errno := e\<rparr>)
        else
          case ctl_prepare op fd2 (case ev of None \<Rightarrow> \<lparr>events = 0, data = 0\<rparr> | Some e \<Rightarrow> e) flags of
            Inl err \<Rightarrow> (-1, st\<lparr>errno := err\<rparr>)
          | Inr (kev, flags) \<Rightarrow> ctl_apply S fd fd2 kev flags st)"

section \<open>Waiting\<close>

definition wait_timeout :: "int \<Rightarrow> timespec option" where
  "wait_timeout to =
     (let timeout = (if to > 0 then \<lparr>tv_sec = to sdiv 1000, tv_nsec = (to smod 1000) * 1000 * 1000\<rparr>
                     else \<lparr>tv_sec = 0, tv_nsec = 0\<rparr>)
      in if to \<ge> 0 then Some timeout else None)"

text \<open>
  The end-of-file part of the loop body: the mask to add, the read bit possibly taken out
  of \<open>events\<close>, or \<open>None\<close> for the filter the code says should not happen.
\<close>

definition wait_sock :: "'k kqueue_sys \<Rightarrow> kevent \<Rightarrow> u16 \<Rightarrow> u32 \<Rightarrow> 'k shim \<Rightarrow> u32" where
  "wait_sock S e flags epoll_event st =
     (case sys_poll S (kern st) (sint (ucast (kev_ident e) :: u32)) (POLLIN OR POLLOUT OR POLLHUP) of
        (r, revents) \<Rightarrow>
        if r = 1 then
          let a = (if revents AND POLLHUP \<noteq> 0 then
                     (let a = (if flags AND KQUEUE_STATE_EPOLLIN \<noteq> 0 then epoll_event OR EPOLLIN else epoll_event);
                          a = (if flags AND KQUEUE_STATE_EPOLLRDHUP \<noteq> 0 then a OR EPOLLRDHUP else a)
                      in a OR EPOLLHUP)
                   else epoll_event);
              a = (if revents AND POLLIN \<noteq> 0 \<and> flags AND KQUEUE_STATE_EPOLLIN \<noteq> 0 then a OR EPOLLIN else a)
          in if revents AND POLLOUT \<noteq> 0 \<and> flags AND KQUEUE_STATE_EPOLLOUT \<noteq> 0 then a OR EPOLLOUT else a
        else epoll_event)"

definition wait_eof :: "'k kqueue_sys \<Rightarrow> kevent \<Rightarrow> u16 \<Rightarrow> u32 \<Rightarrow> 'k shim \<Rightarrow> u32 option" where
  "wait_eof S e flags evs st =
     (if flags AND KQUEUE_STATE_ISFIFO \<noteq> 0 then
        (case kev_filter e of
           EVFILT_READ \<Rightarrow>
             Some ((if kev_data e = 0 then evs AND NOT EPOLLIN else evs) OR EPOLLHUP)
         | EVFILT_WRITE \<Rightarrow> Some (evs OR EPOLLERR)
         | _ \<Rightarrow> None)
      else if flags AND KQUEUE_STATE_ISSOCK \<noteq> 0 then
        (case kev_filter e of
           EVFILT_READ \<Rightarrow>
             Some (evs OR wait_sock S e flags
               (if flags AND KQUEUE_STATE_EPOLLRDHUP \<noteq> 0 then EPOLLIN OR EPOLLRDHUP else EPOLLIN) st)
         | EVFILT_WRITE \<Rightarrow> Some (evs OR wait_sock S e flags EPOLLOUT st)
         | _ \<Rightarrow> None)
      else Some (evs OR EPOLLHUP))"

text \<open>The out-of-band part and the filter and error bits.\<close>

definition wait_pri :: "'k kqueue_sys \<Rightarrow> int \<Rightarrow> kevent \<Rightarrow> 'k shim \<Rightarrow> u32 \<times> 'k shim" where
  "wait_pri S fd e st =
     (if kev_flags e AND EV_OOBAND \<noteq> 0 then
        (case kqueue_load_state S fd (ucast (kev_ident e)) 0 st of (_, flags, st) \<Rightarrow>
           (if flags AND KQUEUE_STATE_EPOLLPRI \<noteq> 0 then EPOLLPRI else 0, st))
      else (0, st))"

definition wait_base :: "kevent \<Rightarrow> u32 \<Rightarrow> u32" where
  "wait_base e evs =
     (let evs = (case kev_filter e of
                   EVFILT_READ \<Rightarrow> evs OR EPOLLIN
                 | EVFILT_WRITE \<Rightarrow> evs OR EPOLLOUT
                 | _ \<Rightarrow> evs)
      in if kev_flags e AND EV_ERROR \<noteq> 0 then evs OR EPOLLERR else evs)"

definition wait_one :: "'k kqueue_sys \<Rightarrow> int \<Rightarrow> kevent \<Rightarrow> 'k shim \<Rightarrow> u32 option \<times> 'k shim" where
  "wait_one S fd e st =
     (case wait_pri S fd e st of (evs, st) \<Rightarrow>
        let evs = wait_base e evs in
        if kev_flags e AND EV_EOF \<noteq> 0 then
          let evs = (if kev_fflags e \<noteq> 0 then evs OR EPOLLERR else evs) in
          case kqueue_load_state S fd (ucast (kev_ident e)) 0 st of (_, flags, st) \<Rightarrow>
            (wait_eof S e flags evs st, st)
        else (Some evs, st))"

text \<open>The loop: the return value and the array slots written so far.\<close>

fun wait_loop :: "'k kqueue_sys \<Rightarrow> int \<Rightarrow> kevent list \<Rightarrow> epoll_event list \<Rightarrow> int \<Rightarrow> 'k shim
    \<Rightarrow> int \<times> epoll_event list \<times> 'k shim" where
  "wait_loop S fd [] out n st = (n, out, st)"
| "wait_loop S fd (e # es) out n st =
     (case wait_one S fd e st of
        (None, st) \<Rightarrow> (-1, out, st)
      | (Some evs, st) \<Rightarrow> wait_loop S fd es (out @ [\<lparr>events = evs, data = kev_udata e\<rparr>]) n st)"

definition epoll_wait ::
  "'k kqueue_sys \<Rightarrow> int \<Rightarrow> int \<Rightarrow> int \<Rightarrow> 'k shim \<Rightarrow> int \<times> epoll_event list \<times> 'k shim" where
  "epoll_wait S fd cnt to st =
     (if cnt < 1 then (-1, [], st\<lparr>errno := EINVAL\<rparr>)
      else
        let cnt = (if cnt > 32 then 32 else cnt) in
        case do_kevent S fd [] (nat cnt) (wait_timeout to) st of
          (None, st) \<Rightarrow> (-1, [], st)
        | (Some evlist, st) \<Rightarrow> wait_loop S fd evlist [] (int (length evlist)) st)"

section \<open>The flag store is a store\<close>

lemma bit_state_key:
  assumes "i < VAL_BITS"
  shows "bit (state_key key i) n \<longleftrightarrow> n < 32 \<and> (bit key n \<or> n = KEY_BITS + i)"
  using assms by (auto simp: state_key_def bit_simps dest: bit_imp_le_length)

definition ok_key :: "u32 \<Rightarrow> bool" where
  "ok_key key \<longleftrightarrow> key AND NOT (push_bit KEY_BITS 1 - 1) = 0"

definition ok_val :: "u16 \<Rightarrow> bool" where
  "ok_val val \<longleftrightarrow> val AND NOT (push_bit VAL_BITS 1 - 1) = 0"

lemma ok_key_bits: "ok_key key \<longleftrightarrow> (\<forall>n. bit key n \<longrightarrow> n < KEY_BITS)"
  unfolding ok_key_def by (rule and_push_mask_eq_0) simp

lemma ok_val_bits: "ok_val val \<longleftrightarrow> (\<forall>n. bit val n \<longrightarrow> n < VAL_BITS)"
  unfolding ok_val_def by (rule and_push_mask_eq_0) simp

lemma state_key_inject:
  assumes "ok_key k" "ok_key k'" "i < VAL_BITS" "j < VAL_BITS"
  shows "state_key k i = state_key k' j \<longleftrightarrow> k = k' \<and> i = j"
proof
  assume eq: "state_key k i = state_key k' j"
  then have b: "n < 32 \<Longrightarrow> (bit k n \<or> n = KEY_BITS + i) = (bit k' n \<or> n = KEY_BITS + j)" for n
    using assms(3,4) by (metis bit_state_key)
  from b [of "KEY_BITS + i"] assms have "i = j"
    by (auto simp: ok_key_bits)
  moreover have "bit k n = bit k' n" if "n < 32" for n
    using b [OF that] assms(1,2) unfolding ok_key_bits
    by (metis add_less_same_cancel1 not_less0)
  then have "k = k'" by (intro word_eqI_bits) simp
  ultimately show "k = k' \<and> i = j" by simp
qed simp

definition stored :: "(u64 \<Rightarrow> bool) \<Rightarrow> u32 \<Rightarrow> u16" where
  "stored r key = horner_sum of_bool 2 (map (\<lambda>i. r (state_key key i)) [0..<VAL_BITS])"

lemma bit_stored: "bit (stored r key) n \<longleftrightarrow> n < VAL_BITS \<and> r (state_key key n)"
  by (auto simp: stored_def bit_horner_sum_bit_word_iff)

lemma fold_user_save:
  "fold user_change (concat (map (\<lambda>i.
       EV_SET (state_key key i) EVFILT_USER EV_ADD 0 0 0 #
       (if val AND push_bit i 1 = 0 then [EV_SET (state_key key i) EVFILT_USER EV_DELETE 0 0 0] else [])) is)) r
   = fold (\<lambda>i r. r(state_key key i := bit val i)) is r"
proof (induction "is" arbitrary: r)
  case (Cons i "is")
  have "(val AND push_bit i 1 = 0) \<longleftrightarrow> \<not> bit val i"
    by (simp add: bit_iff_and_push_bit_not_eq_0)
  with Cons show ?case by (simp add: user_change_def)
qed simp

lemma fold_upd_other: "x \<notin> g ` set is \<Longrightarrow> fold (\<lambda>i r. r(g i := b i)) is r x = r x"
  by (induction "is" arbitrary: r) auto

lemma fold_upd_key:
  assumes "inj_on g (set is)" "i \<in> set is"
  shows "fold (\<lambda>i r. r(g i := b i)) is r (g i) = b i"
  using assms
proof (induction "is" arbitrary: r)
  case (Cons j "is")
  show ?case
  proof (cases "i \<in> set is")
    case True
    with Cons show ?thesis by auto
  next
    case False
    with Cons.prems have "i = j" "g i \<notin> g ` set is"
      by (auto simp: inj_on_def)
    then show ?thesis by (simp add: fold_upd_other fun_upd_same del: fun_upd_apply)
  qed
qed simp

lemma stored_save:
  assumes "ok_key key" "ok_key key'" "ok_val val"
  shows "stored (fold user_change (save_kevs key val) r) key' = (if key' = key then val else stored r key')"
proof (rule word_eqI_bits)
  fix n
  let ?r = "fold (\<lambda>i r. r(state_key key i := bit val i)) [0..<VAL_BITS] r"
  have "inj_on (state_key key) (set [0..<VAL_BITS])"
    using state_key_inject [OF assms(1,1)] by (auto simp: inj_on_def)
  then have same: "?r (state_key key n) = bit val n" if "n < VAL_BITS"
    using that by (intro fold_upd_key) auto
  have other: "?r (state_key key' n) = r (state_key key' n)" if "key' \<noteq> key" "n < VAL_BITS"
    using that state_key_inject [OF assms(2,1)] by (intro fold_upd_other) auto
  have eq: "fold user_change (save_kevs key val) r = ?r"
    unfolding save_kevs_def by (rule fold_user_save)
  show "bit (stored (fold user_change (save_kevs key val) r) key') n =
      bit (if key' = key then val else stored r key') n"
    unfolding eq using same other assms(3) by (auto simp: bit_stored ok_val_bits)
qed

lemma load_loop_receipts:
  assumes "list_all2 (receipt_for r) (map (\<lambda>i. EV_SET (f i) EVFILT_USER EV_RECEIPT 0 0 0) [i..<i + n]) evs"
    and "i + n \<le> 16"
  shows "\<exists>w. load_loop i nval evs = Inr w
    \<and> (\<forall>m. bit w m \<longleftrightarrow> bit nval m \<or> (i \<le> m \<and> m < i + n \<and> r (f m)))"
  using assms
proof (induction n arbitrary: i nval evs)
  case 0
  then show ?case by auto
next
  case (Suc n)
  have split: "[i..<i + Suc n] = i # [Suc i..<Suc i + n]"
    by (simp add: upt_conv_Cons)
  from Suc.prems(1) obtain e es where evs: "evs = e # es"
    and e: "receipt_for r (EV_SET (f i) EVFILT_USER EV_RECEIPT 0 0 0) e"
    and es: "list_all2 (receipt_for r) (map (\<lambda>i. EV_SET (f i) EVFILT_USER EV_RECEIPT 0 0 0) [Suc i..<Suc i + n]) es"
    unfolding split list.map list_all2_Cons1 by blast
  let ?nval = "if r (f i) then nval OR ucast (push_bit i (1 :: u32)) else nval"
  have "load_loop i nval evs = load_loop (Suc i) ?nval es"
    using e by (simp add: evs receipt_for_def ENOENT_def)
  moreover have nv: "bit ?nval m \<longleftrightarrow> bit nval m \<or> (m = i \<and> r (f i))" for m
    using Suc.prems(2) by (auto simp: bit_simps)
  moreover obtain w where "load_loop (Suc i) ?nval es = Inr w"
    and w: "\<And>m. bit w m \<longleftrightarrow> bit ?nval m \<or> (Suc i \<le> m \<and> m < Suc i + n \<and> r (f m))"
    using Suc.IH [OF es, of ?nval] Suc.prems(2) by auto
  moreover have "bit w m \<longleftrightarrow> bit nval m \<or> (i \<le> m \<and> m < i + Suc n \<and> r (f m))" for m
    unfolding w nv by (cases "m = i") auto
  ultimately show ?case by simp
qed

lemma load_loop_stored:
  assumes "list_all2 (receipt_for r) (load_kevs key) evs"
  shows "load_loop 0 0 evs = Inr (stored r key)"
proof -
  obtain w where w: "load_loop 0 0 evs = Inr w"
    and bits: "\<forall>m. bit w m \<longleftrightarrow> m < VAL_BITS \<and> r (state_key key m)"
    using load_loop_receipts [of r "state_key key" 0 VAL_BITS evs 0] assms
    by (auto simp: load_kevs_def)
  have "w = stored r key"
    by (rule word_eqI_bits) (simp add: bits bit_stored)
  with w show ?thesis by simp
qed

lemma save_kevs_user:
  "list_all is_user (save_kevs key val)"
  "list_all (\<lambda>e. kev_flags e = EV_ADD \<or> kev_flags e = EV_DELETE) (save_kevs key val)"
  by (auto simp: save_kevs_def list_all_iff is_user_def split: if_splits)

lemma load_kevs_user:
  "list_all is_user (load_kevs key)"
  "list_all (\<lambda>e. kev_flags e = EV_RECEIPT) (load_kevs key)"
  "length (load_kevs key) = VAL_BITS"
  by (auto simp: load_kevs_def list_all_iff is_user_def)

text \<open>
  The interface \<open>epoll_ctl\<close> and \<open>epoll_wait\<close> rely on: a store from descriptors to flag
  words whose loads return what was last saved and whose failed operations are visible as
  negative results.
\<close>

locale flag_store =
  fixes save :: "'key \<Rightarrow> 'v \<Rightarrow> 's \<Rightarrow> int \<times> 's"
    and load :: "'key \<Rightarrow> 'v \<Rightarrow> 's \<Rightarrow> int \<times> 'v \<times> 's"
    and content :: "'s \<Rightarrow> 'key \<Rightarrow> 'v"
    and okk :: "'key \<Rightarrow> bool" and okv :: "'v \<Rightarrow> bool"
  assumes save_content:
      "\<lbrakk>okk k; okv v; okk k'; save k v s = (0, s')\<rbrakk> \<Longrightarrow> content s' k' = (if k' = k then v else content s k')"
    and save_result: "\<lbrakk>okk k; okv v; save k v s = (r, s')\<rbrakk> \<Longrightarrow> r \<le> 0"
    and load_content:
      "\<lbrakk>okk k; load k v0 s = (r, v, s')\<rbrakk> \<Longrightarrow> r \<le> 0 \<and> (r = 0 \<longrightarrow> v = content s k) \<and> (r < 0 \<longrightarrow> v = v0)"
    and load_keeps: "\<lbrakk>okk k; load k v0 s = (r, v, s')\<rbrakk> \<Longrightarrow> content s' = content s"
    and content_ok: "okv (content s k)"
begin

lemma load_after_save:
  assumes "okk k" "okv v" "save k v s = (0, s1)" "load k v0 s1 = (0, w, s2)"
  shows "w = v"
  using load_content [OF assms(1,4)] save_content [OF assms(1,2,1,3)] by simp

lemma load_after_other_save:
  assumes "okk k" "okv v" "okk k'" "k' \<noteq> k" "save k v s = (0, s1)" "load k' v0 s1 = (0, w, s2)"
  shows "w = content s k'"
  using load_content [OF assms(3,6)] save_content [OF assms(1,2,3,5)] assms(4) by simp

end

definition kq_content :: "('k \<Rightarrow> int \<Rightarrow> u64 \<Rightarrow> bool) \<Rightarrow> int \<Rightarrow> 'k shim \<Rightarrow> u32 \<Rightarrow> u16" where
  "kq_content reg kq st key = stored (reg (kern st) kq) key"

lemma save_state_result:
  assumes "kqueue_save_state S kq key val st = (r, st')" "ok_key key" "ok_val val"
  obtains (ok) evs where
      "sys_kevent S (kern st) kq (save_kevs key val) 0 None = (Inr evs, kern st')"
      "r = 0" "errno st' = errno st"
  | (err) e where
      "sys_kevent S (kern st) kq (save_kevs key val) 0 None = (Inl e, kern st')"
      "r = - e" "errno st' = errno st"
proof -
  obtain res k' where k: "sys_kevent S (kern st) kq (save_kevs key val) 0 None = (res, k')"
    by fastforce
  show thesis
  proof (cases res)
    case (Inl e)
    with k assms have "r = - e" "kern st' = k'" "errno st' = errno st"
      by (auto simp: kqueue_save_state_def do_kevent_def ok_key_def ok_val_def)
    with k Inl show thesis by (intro err) simp_all
  next
    case (Inr evs)
    with k assms have "r = 0" "st' = st\<lparr>kern := k'\<rparr>"
      by (auto simp: kqueue_save_state_def do_kevent_def ok_key_def ok_val_def)
    with k Inr show thesis by (intro ok) simp_all
  qed
qed

lemma load_state_result:
  assumes "kqueue_load_state S kq key val st = (r, v, st')" "ok_key key"
  obtains (ok) evs where
      "sys_kevent S (kern st) kq (load_kevs key) (length (load_kevs key)) None = (Inr evs, kern st')"
      "(r, v) = (case load_loop 0 0 evs of Inl e \<Rightarrow> (e, val) | Inr nval \<Rightarrow> (0, nval))"
      "errno st' = errno st"
  | (err) e where
      "sys_kevent S (kern st) kq (load_kevs key) (length (load_kevs key)) None = (Inl e, kern st')"
      "r = - e" "v = val" "errno st' = errno st"
proof -
  obtain res k' where k: "sys_kevent S (kern st) kq (load_kevs key) VAL_BITS None = (res, k')"
    by fastforce
  show thesis
  proof (cases res)
    case (Inl e)
    with k assms have "r = - e" "v = val" "kern st' = k'" "errno st' = errno st"
      by (auto simp: kqueue_load_state_def do_kevent_def ok_key_def)
    with k Inl show thesis by (intro err) (simp_all add: load_kevs_user(3))
  next
    case (Inr evs)
    with k assms have "(r, v) = (case load_loop 0 0 evs of Inl e \<Rightarrow> (e, val) | Inr nval \<Rightarrow> (0, nval))"
        "st' = st\<lparr>kern := k'\<rparr>"
      by (auto simp: kqueue_load_state_def do_kevent_def ok_key_def split: sum.splits)
    with k Inr show thesis by (intro ok) (simp_all add: load_kevs_user(3))
  qed
qed

sublocale kqueue_kernel \<subseteq> fs: flag_store "kqueue_save_state S kq" "kqueue_load_state S kq"
    "kq_content reg kq" ok_key ok_val for kq
proof
  fix k k' :: u32 and v s s'
  assume ok: "ok_key k" "ok_val v" "ok_key k'" and sv: "kqueue_save_state S kq k v s = (0, s')"
  from sv ok(1,2)
  obtain evs where "sys_kevent S (kern s) kq (save_kevs k v) 0 None = (Inr evs, kern s')"
    by (cases rule: save_state_result) (use error_positive in fastforce)+
  from user_changes [OF save_kevs_user this]
  show "kq_content reg kq s' k' = (if k' = k then v else kq_content reg kq s k')"
    by (simp add: kq_content_def stored_save [OF ok(1,3,2)])
next
  fix k v s r s'
  assume "ok_key k" "ok_val v" "kqueue_save_state S kq k v s = (r, s')"
  then show "r \<le> 0"
    by (elim save_state_result) (use error_positive in fastforce)+
next
  fix k v0 s r v s'
  assume ok: "ok_key k" and ld: "kqueue_load_state S kq k v0 s = (r, v, s')"
  from ld ok
  have "(r \<le> 0 \<and> (r = 0 \<longrightarrow> v = kq_content reg kq s k) \<and> (r < 0 \<longrightarrow> v = v0))
      \<and> kq_content reg kq s' = kq_content reg kq s"
  proof (cases rule: load_state_result)
    case (ok evs)
    from user_query [OF load_kevs_user(1,2) ok(1)]
    have "list_all2 (receipt_for (reg (kern s) kq)) (load_kevs k) evs" "reg (kern s') = reg (kern s)"
      by simp_all
    with ok(2) show ?thesis
      by (simp add: load_loop_stored kq_content_def [abs_def])
  next
    case (err e)
    from query_error [OF load_kevs_user(1,2) err(1)] error_positive [OF err(1)] err(2,3)
    show ?thesis by (simp add: kq_content_def [abs_def])
  qed
  then show "r \<le> 0 \<and> (r = 0 \<longrightarrow> v = kq_content reg kq s k) \<and> (r < 0 \<longrightarrow> v = v0)"
    and "kq_content reg kq s' = kq_content reg kq s" by simp_all
next
  show "ok_val (kq_content reg kq s k)" for s k
    by (simp add: kq_content_def ok_val_bits bit_stored)
qed


lemma mask_small: "w AND NOT (push_bit n 1 - 1) = 0 \<longleftrightarrow> unat w < 2 ^ n" if "n < LENGTH('a)"
  for w :: "'a::len word"
proof -
  have "w AND NOT (push_bit n 1 - 1) = 0 \<longleftrightarrow> (\<forall>i. bit w i \<longrightarrow> i < n)"
    by (rule and_push_mask_eq_0 [OF that])
  also have "\<dots> \<longleftrightarrow> take_bit n w = w"
    using bit_imp_le_length [of w] by (auto simp: bit_eq_iff bit_simps)
  also have "\<dots> \<longleftrightarrow> unat w < 2 ^ n"
    by (simp add: word_unat_eq_iff unsigned_take_bit_eq take_bit_nat_eq_self_iff)
  finally show ?thesis .
qed

lemma ok_key_unat: "ok_key key \<longleftrightarrow> unat key < 2 ^ KEY_BITS"
  unfolding ok_key_def by (rule mask_small) simp

lemma ok_val_unat: "ok_val val \<longleftrightarrow> unat val < 2 ^ VAL_BITS"
  unfolding ok_val_def by (rule mask_small) simp

lemma key_check: "key AND NOT (push_bit KEY_BITS (1 :: u32) - 1) \<noteq> 0 \<longleftrightarrow> \<not> unat key < 2 ^ KEY_BITS"
  using mask_small [of KEY_BITS key] by simp

lemma ok_val_or [simp]: "ok_val (a OR b) \<longleftrightarrow> ok_val a \<and> ok_val b"
  by (auto simp: ok_val_bits bit_or_iff)

lemma ok_val_and: "ok_val a \<Longrightarrow> ok_val (a AND b)"
  by (auto simp: ok_val_bits bit_and_iff)

lemma ok_val_flags:
  "ok_val 0" "ok_val (ctl_add_flags evs)" "ok_val flags \<Longrightarrow> ok_val (ctl_mod_flags evs flags)"
proof -
  have n: "ok_val 0x1" "ok_val 0x2" "ok_val 0x4" "ok_val 0x8" "ok_val 0x10" "ok_val 0"
    by (simp_all add: ok_val_unat)
  have s: "ok_val sf \<Longrightarrow> ok_val fl \<Longrightarrow> ok_val (set_flag evs f sf fl) \<and> ok_val (put_flag evs f sf fl)" for f sf fl
    by (simp add: set_flag_def put_flag_def ok_val_and)
  show "ok_val 0" "ok_val (ctl_add_flags evs)" "ok_val flags \<Longrightarrow> ok_val (ctl_mod_flags evs flags)"
    unfolding ctl_add_flags_def ctl_mod_flags_def by (simp_all add: n s)
qed

lemma ok_val_type_flags: "ok_val flags \<Longrightarrow> ok_val (ctl_type_flags t flags)"
  by (cases t) (simp_all add: ctl_type_flags_def, simp_all add: ok_val_unat)

definition has :: "'a::len word \<Rightarrow> 'a word \<Rightarrow> bool" where
  "has w f \<longleftrightarrow> w AND f \<noteq> 0"

lemma has_bit:
  "has (w :: u16) 0x1 = bit w 0" "has (w :: u16) 0x2 = bit w 1" "has (w :: u16) 0x4 = bit w 2"
  "has (w :: u16) 0x8 = bit w 3" "has (w :: u16) 0x10 = bit w 4"
  "has (w :: u16) 0x40 = bit w 6" "has (w :: u16) 0x80 = bit w 7"
  using bit_iff_and_push_bit_not_eq_0 [of w 0] bit_iff_and_push_bit_not_eq_0 [of w 1]
    bit_iff_and_push_bit_not_eq_0 [of w 2] bit_iff_and_push_bit_not_eq_0 [of w 3]
    bit_iff_and_push_bit_not_eq_0 [of w 4] bit_iff_and_push_bit_not_eq_0 [of w 6]
    bit_iff_and_push_bit_not_eq_0 [of w 7]
  by (simp_all add: has_def)

text \<open>The stored word says exactly which of the four event kinds were asked for.\<close>

definition records_events :: "u16 \<Rightarrow> u32 \<Rightarrow> bool" where
  "records_events w evs \<longleftrightarrow>
     has w KQUEUE_STATE_REGISTERED \<and>
     (has w KQUEUE_STATE_EPOLLIN \<longleftrightarrow> has evs EPOLLIN) \<and>
     (has w KQUEUE_STATE_EPOLLOUT \<longleftrightarrow> has evs EPOLLOUT) \<and>
     (has w KQUEUE_STATE_EPOLLRDHUP \<longleftrightarrow> has evs EPOLLRDHUP) \<and>
     (has w KQUEUE_STATE_EPOLLPRI \<longleftrightarrow> has evs EPOLLPRI)"

lemma flag_bits:
  "bit (set_flag evs f sf fl) n \<longleftrightarrow> bit fl n \<or> has evs f \<and> bit sf n"
  "bit (put_flag evs f sf fl) n \<longleftrightarrow> bit fl n \<and> \<not> bit sf n \<or> has evs f \<and> (bit sf n \<or> bit fl n)"
  by (auto simp: set_flag_def put_flag_def has_def bit_simps dest: bit_imp_le_length)

lemma records_add: "records_events (ctl_add_flags evs) evs"
  by (simp add: records_events_def has_bit ctl_add_flags_def flag_bits)

lemma records_mod: "has flags KQUEUE_STATE_REGISTERED \<Longrightarrow> records_events (ctl_mod_flags evs flags) evs"
  by (auto simp: records_events_def has_bit ctl_mod_flags_def flag_bits)

lemma records_type: "records_events (ctl_type_flags t w) evs \<longleftrightarrow> records_events w evs"
  by (cases t) (simp_all add: records_events_def has_bit ctl_type_flags_def bit_or_iff)

section \<open>What a registration leaves in the store\<close>

context kqueue_kernel
begin

lemma do_kevent_io:
  assumes "list_all is_io ch" "do_kevent S fd ch n to st = (res, st')"
  shows "kq_content reg q st' = kq_content reg q st"
  using assms io_changes
  by (fastforce simp: do_kevent_def kq_content_def [abs_def] split: prod.splits sum.splits)

lemma ctl_apply_content:
  assumes ok: "ok_key (word_of_int fd2)" "ok_val flags" "\<And>t. ok_val (ctl_type_flags t flags)"
    and io: "list_all is_io kev"
    and run: "ctl_apply S fd fd2 kev flags st = (0, st')"
  shows "\<exists>t. \<forall>k. ok_key k \<longrightarrow> kq_content reg fd st' k =
    (if k = word_of_int fd2 then ctl_type_flags t flags else kq_content reg fd st k)"
proof -
  let ?kev = "map (\<lambda>k. k\<lparr>kev_flags := kev_flags k OR EV_RECEIPT\<rparr>) kev"
  from run obtain s1 evs s2 t s3 where
    s1: "kqueue_save_state S fd (word_of_int fd2) flags st = (0, s1)" and
    s2: "do_kevent S fd ?kev 2 None s1 = (Some evs, s2)" and
    s3: "kqueue_save_state S fd (word_of_int fd2) (ctl_type_flags t flags) s2 = (0, s3)" and
    st': "st' = s3"
    using fs.save_result [OF ok(1,2)] fs.save_result [OF ok(1,3)]
    by (fastforce simp: ctl_apply_def split: prod.splits if_splits option.splits sum.splits)
  have "list_all is_io ?kev"
    using io by (auto simp: list_all_iff is_io_def)
  from do_kevent_io [OF this s2] fs.save_content [OF ok(1,2) _ s1] fs.save_content [OF ok(1,3) _ s3]
  show ?thesis unfolding st' by auto
qed

lemma epoll_ctl_content:
  assumes run: "epoll_ctl S fd op fd2 ev st = (0, st')"
  obtains flags kev flags' t e where
    "0 \<le> fd2" "ok_key (word_of_int fd2)" "flags = kq_content reg fd st (word_of_int fd2)"
    "e = (case ev of None \<Rightarrow> \<lparr>events = 0, data = 0\<rparr> | Some e \<Rightarrow> e)"
    "ctl_prepare op fd2 e flags = Inr (kev, flags')"
    "\<forall>k. ok_key k \<longrightarrow> kq_content reg fd st' k =
      (if k = word_of_int fd2 then ctl_type_flags t flags' else kq_content reg fd st k)"
proof -
  let ?e = "case ev of None \<Rightarrow> \<lparr>events = 0, data = 0\<rparr> | Some e \<Rightarrow> e"
  obtain r flags s1 where ld: "kqueue_load_state S fd (word_of_int fd2) 0 st = (r, flags, s1)"
    by (metis prod_cases3)
  have fd2: "0 \<le> fd2" "ok_key (word_of_int fd2)"
    using run by (auto simp: epoll_ctl_def ok_key_def split: if_splits)
  from ld run have "\<not> r < 0"
    by (auto simp: epoll_ctl_def split: if_splits)
  with fs.load_content [OF fd2(2) ld] have flags: "flags = kq_content reg fd st (word_of_int fd2)"
    by auto
  from ld run obtain kev flags' where
    prep: "ctl_prepare op fd2 ?e flags = Inr (kev, flags')" and
    app: "ctl_apply S fd fd2 kev flags' s1 = (0, st')"
    by (auto simp: epoll_ctl_def split: if_splits sum.splits prod.splits)
  have "list_all is_io kev"
    using prep by (auto simp: ctl_prepare_def Let_def is_io_def split: if_splits)
  moreover have ok: "ok_val flags'" "\<And>t. ok_val (ctl_type_flags t flags')"
    using prep fs.content_ok [of fd st "word_of_int fd2"] flags
    by (auto intro!: ok_val_type_flags simp: ctl_prepare_def Let_def ok_val_flags split: if_splits)
  ultimately obtain t where "\<forall>k. ok_key k \<longrightarrow> kq_content reg fd st' k =
      (if k = word_of_int fd2 then ctl_type_flags t flags' else kq_content reg fd s1 k)"
    using ctl_apply_content [OF fd2(2) ok _ app] by blast
  with fs.load_keeps [OF fd2(2) ld] show thesis
    by (intro that [OF fd2 flags refl prep, of t]) simp
qed

lemma store_roundtrip:
  assumes "ok_key key" "ok_val val" "kqueue_save_state S kq key val st = (0, st1)"
    and "ok_key key'" "kqueue_load_state S kq key' v0 st1 = (0, w, st2)"
  shows "w = (if key' = key then val else kq_content reg kq st key')"
  using fs.load_content [OF assms(4,5)] fs.save_content [OF assms(1,2,4,3)] by simp

lemma load_is_content:
  "ok_key key \<Longrightarrow> kqueue_load_state S kq key v0 st = (0, w, st') \<Longrightarrow> w = kq_content reg kq st key"
  using fs.load_content by blast

lemma load_outcome:
  assumes "ok_key key" "kqueue_load_state S kq key v0 st = (r, w, st')"
  shows "r < 0 \<and> w = v0 \<or> r = 0 \<and> w = kq_content reg kq st key"
  using fs.load_content [OF assms] by auto

end

section \<open>Properties\<close>

text \<open>
  C2: the flag store is a store. After a successful \<open>kqueue_save_state\<close> of a value under a
  descriptor, \<open>kqueue_load_state\<close> of that descriptor returns the value, and for every
  other descriptor it returns what it returned before, on every kernel that treats user
  events as the kevent manual page says.
\<close>

theorem state_roundtrip:
  assumes K: "kqueue_kernel S reg"
    and key: "unat key < 2 ^ 20" "unat key' < 2 ^ 20" and val: "unat val < 2 ^ 12"
    and save: "kqueue_save_state S kq key val st = (0, st1)"
    and load: "kqueue_load_state S kq key' v0 st1 = (0, w, st2)"
    and before: "kqueue_load_state S kq key' v0 st = (0, w0, st3)"
  shows "w = (if key' = key then val else w0)"
proof -
  have ok: "ok_key key" "ok_key key'" "ok_val val"
    using key val by (simp_all add: ok_key_unat ok_val_unat)
  from kqueue_kernel.store_roundtrip [OF K ok(1,3) save ok(2) load]
    kqueue_kernel.load_is_content [OF K ok(2) before]
  show ?thesis by simp
qed

definition ref_start :: "ref_kernel shim" where
  "ref_start = \<lparr>errno = 0, kern =
     \<lparr>rk_notes = [], rk_pending = [], rk_next = 3, rk_type = (\<lambda>_. FT_SOCK)\<rparr>\<rparr>"

definition ev_in :: epoll_event where
  "ev_in = \<lparr>events = EPOLLIN, data = 42\<rparr>"

lemmas ref_eval = ev_in_def ref_sys_def ref_start_def ref_kevent_def ref_apply_def do_kevent_def
  errno_simps save_kevs_def load_kevs_def state_key_def upt_rec

theorem state_roundtrip_witness:
  "\<exists>st1 st2 st3.
     kqueue_save_state ref_sys 3 7 5 ref_start = (0, st1) \<and>
     kqueue_load_state ref_sys 3 7 0 st1 = (0, 5, st2) \<and>
     kqueue_load_state ref_sys 3 7 0 ref_start = (0, 0, st3)"
proof -
  obtain st1 where a: "kqueue_save_state ref_sys 3 7 5 ref_start = (0, st1)"
    by (simp add: kqueue_save_state_def ref_eval)
  then obtain w st2 where b: "kqueue_load_state ref_sys 3 7 0 st1 = (0, w, st2)"
    by (auto simp: kqueue_save_state_def kqueue_load_state_def ref_eval)
  obtain st3 where c: "kqueue_load_state ref_sys 3 7 0 ref_start = (0, 0, st3)"
    by (simp add: kqueue_load_state_def ref_eval)
  have "w = 5"
    using state_roundtrip [OF ref.kqueue_kernel_axioms _ _ _ a b c] by simp
  with a b c show ?thesis by blast
qed

text \<open>
  C4: a successful \<open>EPOLL_CTL_ADD\<close> or \<open>EPOLL_CTL_MOD\<close> leaves in the flag store exactly
  the requested event kinds, together with the registered mark: whatever was stored for the
  descriptor before, a later load sees each of the four kinds if and only if the event asked
  for it. The flags of every other descriptor are what they were.
\<close>

theorem ctl_records_events:
  assumes K: "kqueue_kernel S reg"
    and run: "epoll_ctl S fd op fd2 (Some ev) st = (0, st')"
    and op: "op = EPOLL_CTL_ADD \<or> op = EPOLL_CTL_MOD"
    and load: "kqueue_load_state S fd key v0 st' = (0, w, st'')" and key: "unat key < 2 ^ 20"
    and before: "kqueue_load_state S fd key v0 st = (0, w0, st0)"
  shows "if key = word_of_int fd2 then records_events w (events ev) else w = w0"
proof -
  from key have ok: "ok_key key" by (simp add: ok_key_unat)
  from K run show ?thesis
  proof (rule kqueue_kernel.epoll_ctl_content)
    fix flags kev flags' t e
    assume e: "e = (case Some ev of None \<Rightarrow> \<lparr>events = 0, data = 0\<rparr> | Some e \<Rightarrow> e)"
      and prep: "ctl_prepare op fd2 e flags = Inr (kev, flags')"
      and cont: "\<forall>k. ok_key k \<longrightarrow> kq_content reg fd st' k =
        (if k = word_of_int fd2 then ctl_type_flags t flags' else kq_content reg fd st k)"
    have "records_events flags' (events ev)"
      using prep op e by (auto simp: ctl_prepare_def Let_def records_add records_mod has_def split: if_splits)
    with cont ok kqueue_kernel.load_is_content [OF K ok load] kqueue_kernel.load_is_content [OF K ok before]
    show ?thesis by (simp add: records_type)
  qed
qed

lemmas ctl_eval = epoll_ctl_def ctl_apply_def ctl_prepare_def ctl_add_flags_def set_flag_def
  ctl_extra_def ctl_type_flags_def ev_bits_def kqueue_save_state_def kqueue_load_state_def

theorem ctl_records_events_witness:
  "\<exists>st' w st'' st0. epoll_ctl ref_sys 3 EPOLL_CTL_ADD 5 (Some ev_in) ref_start = (0, st') \<and>
     kqueue_load_state ref_sys 3 5 0 ref_start = (0, 0, st0) \<and>
     kqueue_load_state ref_sys 3 5 0 st' = (0, w, st'') \<and> records_events w EPOLLIN"
proof -
  obtain st' where a: "epoll_ctl ref_sys 3 EPOLL_CTL_ADD 5 (Some ev_in) ref_start = (0, st')"
    by (simp add: ctl_eval ref_eval)
  then obtain w st'' where b: "kqueue_load_state ref_sys 3 5 0 st' = (0, w, st'')"
    by (auto simp: ctl_eval ref_eval)
  obtain st0 where c: "kqueue_load_state ref_sys 3 5 0 ref_start = (0, 0, st0)"
    by (simp add: kqueue_load_state_def ref_eval)
  have "records_events w EPOLLIN"
    using ctl_records_events [OF ref.kqueue_kernel_axioms a _ b _ c] by (simp add: ev_in_def)
  with a b c show ?thesis by blast
qed

text \<open>
  C18: after a successful \<open>EPOLL_CTL_DEL\<close> the descriptor is not registered: a further
  \<open>EPOLL_CTL_DEL\<close>, with or without an event, and an \<open>EPOLL_CTL_MOD\<close> with any event fail: with
  \<open>EINVAL\<close> when the event itself is not acceptable, and otherwise with \<open>ENOENT\<close> unless reading the
  flags fails.
\<close>

theorem ctl_del_unregisters:
  assumes K: "kqueue_kernel S reg"
    and del: "epoll_ctl S fd EPOLL_CTL_DEL fd2 ev0 st = (0, st1)"
    and again: "epoll_ctl S fd op fd2 ev st1 = (r, st2)"
    and op: "op = EPOLL_CTL_DEL \<or> op = EPOLL_CTL_MOD"
  shows "r = -1 \<and> (if (ev = None \<and> op = EPOLL_CTL_MOD) \<or> (\<exists>e. ev = Some e \<and> events e AND NOT ev_bits \<noteq> 0)
    then errno st2 = EINVAL else errno st2 = ENOENT \<or> errno st2 < 0)"
  using K del
proof (rule kqueue_kernel.epoll_ctl_content)
  fix flags kev flags' t e
  assume fd2: "0 \<le> fd2" and ok: "ok_key (word_of_int fd2)"
    and prep: "ctl_prepare EPOLL_CTL_DEL fd2 e flags = Inr (kev, flags')"
    and cont: "\<forall>k. ok_key k \<longrightarrow> kq_content reg fd st1 k =
      (if k = word_of_int fd2 then ctl_type_flags t flags' else kq_content reg fd st k)"
  have "flags' = 0"
    using prep by (auto simp: ctl_prepare_def Let_def split: if_splits)
  with cont ok have c: "kq_content reg fd st1 (word_of_int fd2) = ctl_type_flags t 0" by simp
  have unreg: "ctl_type_flags t 0 AND KQUEUE_STATE_REGISTERED = 0"
    by (cases t) (simp_all add: ctl_type_flags_def)
  obtain q w s where ld: "kqueue_load_state S fd (word_of_int fd2) 0 st1 = (q, w, s)"
    by (metis prod_cases3)
  from kqueue_kernel.load_outcome [OF K ok ld] c unreg again ld fd2 ok op
  show ?thesis
    by (cases ev) (auto simp: epoll_ctl_def ctl_prepare_def ok_key_def Let_def errno_simps split: if_splits)
qed

theorem ctl_del_unregisters_witness:
  "\<exists>st0 st1 st2 st3. epoll_ctl ref_sys 3 EPOLL_CTL_ADD 5 (Some ev_in) ref_start = (0, st0) \<and>
     epoll_ctl ref_sys 3 EPOLL_CTL_DEL 5 None st0 = (0, st1) \<and>
     epoll_ctl ref_sys 3 EPOLL_CTL_DEL 5 None st1 = (-1, st2) \<and> (errno st2 = ENOENT \<or> errno st2 < 0) \<and>
     epoll_ctl ref_sys 3 EPOLL_CTL_MOD 5 (Some ev_in) st1 = (-1, st3) \<and> (errno st3 = ENOENT \<or> errno st3 < 0)"
proof -
  obtain st0 where a: "epoll_ctl ref_sys 3 EPOLL_CTL_ADD 5 (Some ev_in) ref_start = (0, st0)"
    by (simp add: ctl_eval ref_eval)
  then obtain st1 where b: "epoll_ctl ref_sys 3 EPOLL_CTL_DEL 5 None st0 = (0, st1)"
    by (auto simp: ctl_eval ref_eval)
  obtain r st2 where c: "epoll_ctl ref_sys 3 EPOLL_CTL_DEL 5 None st1 = (r, st2)"
    by fastforce
  obtain q st3 where d: "epoll_ctl ref_sys 3 EPOLL_CTL_MOD 5 (Some ev_in) st1 = (q, st3)"
    by fastforce
  from ctl_del_unregisters [OF ref.kqueue_kernel_axioms b c] ctl_del_unregisters [OF ref.kqueue_kernel_axioms b d] a b c d
  show ?thesis
    by (auto simp: ev_in_def ev_bits_def)
qed

text \<open>
  A registration that is rejected by the argument checks (no event where one is needed,
  an event bit outside the supported set, a descriptor that is negative or needs more than
  twenty bits) returns -1 with \<open>EINVAL\<close> or \<open>EBADF\<close> and does not touch the kernel.
\<close>

theorem ctl_rejects:
  assumes "(ev = None \<and> op \<noteq> EPOLL_CTL_DEL) \<or> (\<exists>e. ev = Some e \<and> events e AND NOT ev_bits \<noteq> 0)
      \<or> fd2 < 0 \<or> \<not> unat (word_of_int fd2 :: u32) < 2 ^ 20"
  shows "\<exists>e \<in> {EINVAL, EBADF}. epoll_ctl S fd op fd2 ev st = (-1, st\<lparr>errno := e\<rparr>)"
  using assms unfolding epoll_ctl_def key_check by (auto split: option.splits)

theorem ctl_rejects_witness:
  "\<exists>e \<in> {EINVAL, EBADF}. epoll_ctl ref_sys 3 EPOLL_CTL_ADD (-1) (Some ev_in) ref_start
     = (-1, ref_start\<lparr>errno := e\<rparr>)"
  by (rule ctl_rejects) simp

text \<open>
  When reading the flags fails in the kernel (a stale epoll descriptor, say), \<open>epoll_ctl\<close>
  stores the negated error number in \<open>errno\<close>: callers that compare \<open>errno\<close> with
  \<open>EBADF\<close> do not see it.
\<close>

theorem ctl_errno_negated:
  assumes K: "kqueue_kernel S reg"
    and args: "0 \<le> fd2" "unat (word_of_int fd2 :: u32) < 2 ^ 20" "events ev AND NOT ev_bits = 0"
    and fails: "sys_kevent S (kern st) fd (load_kevs (word_of_int fd2)) 12 None = (Inl e, k')"
  shows "epoll_ctl S fd op fd2 (Some ev) st = (-1, st\<lparr>errno := - e, kern := k'\<rparr>) \<and> - e < 0"
proof -
  have "0 < e" by (rule kqueue_kernel.error_positive [OF K fails])
  then show ?thesis
    using args fails unfolding epoll_ctl_def kqueue_load_state_def key_check
    by (simp add: do_kevent_def Let_def)
qed

theorem ctl_errno_negated_witness:
  "epoll_ctl ref_sys (-1) EPOLL_CTL_ADD 5 (Some ev_in) ref_start
     = (-1, ref_start\<lparr>errno := -9\<rparr>)"
  using ctl_errno_negated [OF ref.kqueue_kernel_axioms, of 5 ev_in ref_start "-1" 9 "kern ref_start" EPOLL_CTL_ADD]
  by (simp add: ref_eval ev_bits_def)

definition known_events :: "u32 \<Rightarrow> bool" where
  "known_events m \<longleftrightarrow>
     m AND NOT (EPOLLIN OR EPOLLPRI OR EPOLLOUT OR EPOLLERR OR EPOLLHUP OR EPOLLRDHUP) = 0"

lemma known_events_bits: "known_events m \<longleftrightarrow> (\<forall>n. bit m n \<longrightarrow> bit (0x201f :: u32) n)"
proof -
  have "known_events m \<longleftrightarrow> m AND 0x201f = m"
    unfolding known_events_def by (auto simp: bit_eq_iff bit_simps)
  also have "\<dots> \<longleftrightarrow> (\<forall>n. bit m n \<longrightarrow> bit (0x201f :: u32) n)"
    unfolding bit_eq_iff bit_and_iff using bit_imp_le_length [of m] by (auto simp del: bit_numeral_simps)
  finally show ?thesis .
qed

lemma known_or [simp]: "known_events (a OR b) \<longleftrightarrow> known_events a \<and> known_events b"
  by (auto simp: known_events_bits bit_or_iff simp del: bit_numeral_simps)

lemma known_and [simp]: "known_events a \<Longrightarrow> known_events (a AND b)"
  by (auto simp: known_events_bits bit_and_iff simp del: bit_numeral_simps)

lemma known_consts [simp]:
  "known_events 0" "known_events EPOLLIN" "known_events EPOLLPRI" "known_events EPOLLOUT"
  "known_events EPOLLERR" "known_events EPOLLHUP" "known_events EPOLLRDHUP"
  by (simp_all add: known_events_def)

lemma wait_sock_known: "known_events m \<Longrightarrow> known_events (wait_sock S e flags m st)"
  by (simp add: wait_sock_def Let_def split: prod.split)

lemma wait_eof_known: "known_events m \<Longrightarrow> wait_eof S e flags m st = Some m' \<Longrightarrow> known_events m'"
  by (auto simp: wait_eof_def wait_sock_known known_events_def [of "0x2001"] split: if_splits evfilt.splits)

lemma wait_base_known: "known_events m \<Longrightarrow> known_events (wait_base e m)"
  by (simp add: wait_base_def Let_def split: evfilt.split)

lemma wait_pri_known: "wait_pri S fd e st = (m, st') \<Longrightarrow> known_events m"
  by (auto simp: wait_pri_def split: if_splits prod.splits)

text \<open>The loop body taken apart: the part before the end-of-file test, then the rest.\<close>

lemma wait_one_cases:
  assumes "wait_one S fd e st = (Some m, st')" and "wait_pri S fd e st = (evs, s1)"
  obtains (plain) "kev_flags e AND EV_EOF = 0" "m = wait_base e evs"
  | (eof) r flags m0 s2 where "kqueue_load_state S fd (ucast (kev_ident e)) 0 s1 = (r, flags, s2)"
      "m0 = wait_base e evs \<or> m0 = wait_base e evs OR EPOLLERR" "wait_eof S e flags m0 s2 = Some m"
proof (cases "kev_flags e AND EV_EOF = 0")
  case True
  with assms show thesis by (intro plain) (simp_all add: wait_one_def)
next
  case False
  obtain r flags s2 where ld: "kqueue_load_state S fd (ucast (kev_ident e)) 0 s1 = (r, flags, s2)"
    by (metis prod_cases3)
  with False assms
  have "wait_eof S e flags (if kev_fflags e \<noteq> 0 then wait_base e evs OR EPOLLERR else wait_base e evs) s2 = Some m"
    by (auto simp: wait_one_def Let_def split del: if_split)
  with ld show thesis by (intro eof) auto
qed

lemma wait_one_known:
  assumes "wait_one S fd e st = (Some m, st')"
  shows "known_events m"
proof -
  obtain evs s1 where pri: "wait_pri S fd e st = (evs, s1)" by fastforce
  have base: "known_events (wait_base e evs)"
    using pri by (simp add: wait_pri_known wait_base_known)
  from assms pri show ?thesis
  proof (cases rule: wait_one_cases)
    case (eof r flags m0 s2)
    from eof(2) base have "known_events m0" by auto
    then show ?thesis using eof(3) by (rule wait_eof_known)
  qed (simp add: base)
qed

lemma wait_loop_result:
  assumes "wait_loop S fd evs out n st = (r, out', st')" "\<forall>e \<in> set out. known_events (events e)"
  shows "(\<forall>e \<in> set out'. known_events (events e)) \<and> length out' \<le> length out + length evs
    \<and> (r = n \<and> length out' = length out + length evs \<or> r = -1)"
  using assms
proof (induction evs arbitrary: out st)
  case Nil
  then show ?case by simp
next
  case (Cons e evs)
  obtain om s1 where one: "wait_one S fd e st = (om, s1)" by fastforce
  show ?case
  proof (cases om)
    case None
    then have "r = -1 \<and> out' = out" using Cons.prems(1) one by simp
    then show ?thesis using Cons.prems(2) by simp
  next
    case (Some m)
    let ?out = "out @ [\<lparr>events = m, data = kev_udata e\<rparr>]"
    from Cons.prems(1) one Some have "wait_loop S fd evs ?out n s1 = (r, out', st')" by simp
    moreover have "\<forall>x \<in> set ?out. known_events (events x)"
      using Cons.prems(2) wait_one_known [OF one [unfolded Some]] by simp
    ultimately have "(\<forall>e \<in> set out'. known_events (events e)) \<and> length out' \<le> length ?out + length evs
        \<and> (r = n \<and> length out' = length ?out + length evs \<or> r = -1)"
      by (rule Cons.IH)
    then show ?thesis by simp
  qed
qed

text \<open>
  C15: \<open>epoll_wait\<close> never writes past the caller's array or its own buffer of 32 events,
  returns the number of events it wrote or -1, and every mask it reports is made of the six
  epoll event bits it knows.
\<close>

theorem wait_reports:
  assumes K: "kqueue_kernel S reg" and run: "epoll_wait S fd cnt to st = (r, out, st')"
  shows "length out \<le> 32 \<and> int (length out) \<le> max cnt 0 \<and> (r = int (length out) \<or> r = -1) \<and>
    (\<forall>e \<in> set out. known_events (events e))"
proof (cases "cnt < 1")
  case True
  with run show ?thesis by (simp add: epoll_wait_def)
next
  case False
  let ?n = "if cnt > 32 then 32 else cnt"
  obtain res s1 where kv: "do_kevent S fd [] (nat ?n) (wait_timeout to) st = (res, s1)" by fastforce
  show ?thesis
  proof (cases res)
    case None
    with False run kv show ?thesis by (auto simp: epoll_wait_def Let_def split: if_splits)
  next
    case (Some evs)
    with kv have "length evs \<le> nat ?n"
      using kqueue_kernel.event_count [OF K]
      by (fastforce simp: do_kevent_def split: prod.splits sum.splits)
    moreover from False run kv Some have "wait_loop S fd evs [] (int (length evs)) s1 = (r, out, st')"
      by (simp add: epoll_wait_def Let_def split: if_splits)
    ultimately show ?thesis
      using wait_loop_result [of S fd evs "[]" "int (length evs)" s1 r out st'] False
      by (auto simp: le_nat_iff split: if_splits)
  qed
qed

definition read_eof :: kevent where
  "read_eof = EV_SET 5 EVFILT_READ EV_EOF 0 0 42"

definition ref_waiting :: "ref_kernel shim" where
  "ref_waiting = ref_start\<lparr>kern := (kern ref_start)\<lparr>rk_pending := [read_eof]\<rparr>\<rparr>"

lemmas wait_eval = ref_waiting_def read_eof_def epoll_wait_def wait_timeout_def wait_one_def
  wait_pri_def wait_base_def wait_eof_def kqueue_load_state_def

theorem wait_reports_witness:
  "\<exists>st'. epoll_wait ref_sys 3 1 (-1) ref_waiting = (1, [\<lparr>events = EPOLLIN OR EPOLLHUP, data = 42\<rparr>], st')
     \<and> known_events (EPOLLIN OR EPOLLHUP)"
proof -
  obtain st' where a:
    "epoll_wait ref_sys 3 1 (-1) ref_waiting = (1, [\<lparr>events = EPOLLIN OR EPOLLHUP, data = 42\<rparr>], st')"
    by (simp add: wait_eval ref_eval)
  from wait_reports [OF ref.kqueue_kernel_axioms a] a show ?thesis by auto
qed

lemma has_or [simp]: "has (a OR b) f \<longleftrightarrow> has a f \<or> has b f" for f :: "'a::len word"
  by (auto simp: has_def bit_eq_iff bit_simps)

lemma has_and_sub: "has (a AND b) f \<Longrightarrow> has a f" for f :: "'a::len word"
  by (auto simp: has_def bit_eq_iff bit_simps)

lemma has_consts [simp]:
  "\<not> has 0 f" "\<not> has EPOLLIN EPOLLRDHUP" "\<not> has EPOLLOUT EPOLLRDHUP" "\<not> has EPOLLERR EPOLLRDHUP"
  "\<not> has EPOLLHUP EPOLLRDHUP" "\<not> has EPOLLPRI EPOLLRDHUP" "\<not> has EPOLLIN EPOLLPRI"
  "\<not> has EPOLLOUT EPOLLPRI" "\<not> has EPOLLERR EPOLLPRI" "\<not> has EPOLLHUP EPOLLPRI"
  "\<not> has EPOLLRDHUP EPOLLPRI" "\<not> has (0x2001 :: u32) EPOLLPRI"
  by (simp_all add: has_def)

lemma wait_base_has: "f = EPOLLRDHUP \<or> f = EPOLLPRI \<Longrightarrow> has (wait_base e m) f \<longleftrightarrow> has m f"
  by (auto simp: wait_base_def Let_def split: evfilt.split)

lemma wait_sock_has:
  "has (wait_sock S e flags m st) EPOLLRDHUP \<Longrightarrow> has m EPOLLRDHUP \<or> has flags KQUEUE_STATE_EPOLLRDHUP"
  "has (wait_sock S e flags m st) EPOLLPRI \<Longrightarrow> has m EPOLLPRI"
  by (auto simp: wait_sock_def Let_def has_def [of flags] split: prod.splits if_splits)

lemma wait_eof_has:
  assumes "wait_eof S e flags m st = Some m'"
  shows "has m' EPOLLRDHUP \<Longrightarrow> has m EPOLLRDHUP \<or> has flags KQUEUE_STATE_EPOLLRDHUP"
    and "has m' EPOLLPRI \<Longrightarrow> has m EPOLLPRI"
  using assms
  by (auto simp: wait_eof_def has_def [of flags] dest: has_and_sub dest!: wait_sock_has
      split: if_splits evfilt.splits)

context kqueue_kernel
begin

lemma wait_pri_flags:
  assumes "ok_key (ucast (kev_ident e))" "wait_pri S fd e st = (evs, s1)"
  shows "\<not> has evs EPOLLRDHUP"
    and "has evs EPOLLPRI \<longrightarrow> has (kq_content reg fd st (ucast (kev_ident e))) KQUEUE_STATE_EPOLLPRI"
    and "kq_content reg fd s1 = kq_content reg fd st"
proof -
  obtain r flags s2 where ld: "kqueue_load_state S fd (ucast (kev_ident e)) 0 st = (r, flags, s2)"
    by (metis prod_cases3)
  from load_outcome [OF assms(1) ld] fs.load_keeps [OF assms(1) ld] assms(2) ld
  show "\<not> has evs EPOLLRDHUP"
    and "has evs EPOLLPRI \<longrightarrow> has (kq_content reg fd st (ucast (kev_ident e))) KQUEUE_STATE_EPOLLPRI"
    and "kq_content reg fd s1 = kq_content reg fd st"
    by (auto simp: wait_pri_def has_def split: if_splits)
qed

end

text \<open>
  C16: the masks follow the flags stored for the descriptor. \<open>EPOLLRDHUP\<close> is reported only
  to a caller that asked for it, and so is \<open>EPOLLPRI\<close>.
\<close>

theorem wait_respects_flags:
  assumes K: "kqueue_kernel S reg" and key: "unat (ucast (kev_ident e) :: u32) < 2 ^ 20"
    and run: "wait_one S fd e st = (Some m, st')"
    and c: "c = kq_content reg fd st (ucast (kev_ident e))"
  shows "(has m EPOLLRDHUP \<longrightarrow> has c KQUEUE_STATE_EPOLLRDHUP) \<and> (has m EPOLLPRI \<longrightarrow> has c KQUEUE_STATE_EPOLLPRI)"
proof -
  have ok: "ok_key (ucast (kev_ident e))" using key by (simp add: ok_key_unat)
  obtain evs s1 where pri: "wait_pri S fd e st = (evs, s1)" by fastforce
  from kqueue_kernel.wait_pri_flags [OF K ok pri]
  have ev: "\<not> has evs EPOLLRDHUP" "has evs EPOLLPRI \<longrightarrow> has c KQUEUE_STATE_EPOLLPRI"
    and s1: "kq_content reg fd s1 = kq_content reg fd st" by (simp_all add: c)
  from run pri show ?thesis
  proof (cases rule: wait_one_cases)
    case plain
    with ev show ?thesis by (simp add: wait_base_has)
  next
    case (eof r flags m0 s2)
    from eof(2) ev have "\<not> has m0 EPOLLRDHUP" "has m0 EPOLLPRI \<longrightarrow> has c KQUEUE_STATE_EPOLLPRI"
      by (auto simp: wait_base_has)
    moreover have "has flags f \<Longrightarrow> has c f" for f
      using kqueue_kernel.load_outcome [OF K ok eof(1)] s1 c by auto
    ultimately show ?thesis using wait_eof_has [OF eof(3)] by blast
  qed
qed

theorem wait_respects_flags_witness:
  "\<exists>st'. wait_one ref_sys 3 read_eof ref_waiting = (Some (EPOLLIN OR EPOLLHUP), st') \<and>
     \<not> has (EPOLLIN OR EPOLLHUP) EPOLLRDHUP"
proof -
  obtain st' where a: "wait_one ref_sys 3 read_eof ref_waiting = (Some (EPOLLIN OR EPOLLHUP), st')"
    by (simp add: wait_eval ref_eval)
  have "kq_content ref_reg 3 ref_waiting 5 = 0"
    by (simp add: kq_content_def stored_def ref_reg_def ref_waiting_def ref_start_def upt_rec)
  with wait_respects_flags [OF ref.kqueue_kernel_axioms _ a refl] a show ?thesis
    by (auto simp: read_eof_def)
qed

text \<open>
  The time-out handed to the kernel is the caller's number of milliseconds, as a
  normalised pair of seconds and nanoseconds; a negative one means no time-out.
\<close>

theorem wait_timeout_exact:
  "case wait_timeout to of
     None \<Rightarrow> to < 0
   | Some t \<Rightarrow> tv_sec t * 1000 * 1000000 + tv_nsec t = to * 1000000 \<and>
       0 \<le> tv_sec t \<and> 0 \<le> tv_nsec t \<and> tv_nsec t < 1000000000"
proof (cases "to > 0")
  case True
  then have "to sdiv 1000 = to div 1000" "to smod 1000 = to mod 1000"
    by (simp_all add: signed_divide_int_def signed_modulo_int_def minus_mult_div_eq_mod)
  moreover have "1000000000 * (to div 1000) + 1000000 * (to mod 1000) = to * 1000000"
    using div_mult_mod_eq [of to 1000] by linarith
  moreover have "0 \<le> to mod 1000" "to mod 1000 < 1000" "0 \<le> to div 1000" using True by simp_all
  ultimately show ?thesis using True by (simp add: wait_timeout_def Let_def)
qed (simp add: wait_timeout_def)

end
