(* ===== verification/Signalfd.thy ===== *)
theory Signalfd
  imports Kqueue
begin

text \<open>
  \<open>src/epoll-shim/src/signalfd.c\<close> and \<open>src/epoll-shim/src/common.c\<close>: signal
  descriptors as kqueues. A linked list of contexts remembers which descriptors are signal
  descriptors; a closed context stays in the list with descriptor -1 and is used again.
  One mutex guards the list. The lemmas show the locking discipline (no entry point waits
  for a mutex it holds, none returns with it held), that live contexts have distinct
  descriptors in every reachable state, and what open, read and close do.
\<close>

unbundle bit_operations_syntax

abbreviation SFD_NONBLOCK :: u32 where "SFD_NONBLOCK \<equiv> 0x4"
abbreviation SFD_CLOEXEC :: u32 where "SFD_CLOEXEC \<equiv> 0x1000000"
abbreviation SIG_MAXSIG :: nat where "SIG_MAXSIG \<equiv> 128"
abbreviation siginfo_size :: nat where "siginfo_size \<equiv> 128"

record signalfd_context =
  ctx_fd :: int
  ctx_flags :: u32

text \<open>The list is in the order of its \<open>next\<close> pointers; a pointer is a position in it.\<close>

record 'k sfd =
  contexts :: "signalfd_context list"
  mtx :: bool
  shim_of :: "'k shim"

datatype sfd_stop = Deadlock | UnlockNotHeld

type_synonym ('k, 'a) sfd_prog = "('k sfd, sfd_stop, 'a) prog"

definition mutex_lock :: "('k, unit) sfd_prog" where
  "mutex_lock = (\<lambda>s. if mtx s then (Inl Deadlock, s) else (Inr (), s\<lparr>mtx := True\<rparr>))"

definition mutex_unlock :: "('k, unit) sfd_prog" where
  "mutex_unlock = (\<lambda>s. if mtx s then (Inr (), s\<lparr>mtx := False\<rparr>) else (Inl UnlockNotHeld, s))"

definition set_errno :: "int \<Rightarrow> ('k, unit) sfd_prog" where
  "set_errno e = modp (\<lambda>s. s\<lparr>shim_of := (shim_of s)\<lparr>errno := e\<rparr>\<rparr>)"

definition on_shim :: "('k shim \<Rightarrow> 'a \<times> 'k shim) \<Rightarrow> ('k, 'a) sfd_prog" where
  "on_shim f = (\<lambda>s. case f (shim_of s) of (x, h) \<Rightarrow> (Inr x, s\<lparr>shim_of := h\<rparr>))"

definition do_close :: "'k kqueue_sys \<Rightarrow> int \<Rightarrow> 'k shim \<Rightarrow> int \<times> 'k shim" where
  "do_close S fd st =
     (case sys_close S (kern st) fd of
        (Inl e, k') \<Rightarrow> (-1, st\<lparr>errno := e, kern := k'\<rparr>)
      | (Inr _, k') \<Rightarrow> (0, st\<lparr>kern := k'\<rparr>))"

definition do_read :: "'k kqueue_sys \<Rightarrow> int \<Rightarrow> nat \<Rightarrow> 'k shim \<Rightarrow> (int \<times> bytes) \<times> 'k shim" where
  "do_read S fd n st =
     (case sys_read S (kern st) fd n of
        (Inl e, k') \<Rightarrow> ((-1, []), st\<lparr>errno := e, kern := k'\<rparr>)
      | (Inr b, k') \<Rightarrow> ((int (length b), b), st\<lparr>kern := k'\<rparr>))"

definition do_calloc :: "'k kqueue_sys \<Rightarrow> 'k shim \<Rightarrow> bool \<times> 'k shim" where
  "do_calloc S st = (case sys_calloc S (kern st) of (ok, k') \<Rightarrow> (ok, st\<lparr>kern := k'\<rparr>))"

section \<open>The context list\<close>

fun find_ctx :: "int \<Rightarrow> signalfd_context list \<Rightarrow> nat option" where
  "find_ctx fd [] = None"
| "find_ctx fd (c # cs) = (if fd = ctx_fd c then Some 0 else map_option Suc (find_ctx fd cs))"

definition get_signalfd_context :: "'k kqueue_sys \<Rightarrow> int \<Rightarrow> bool \<Rightarrow> ('k, nat option) sfd_prog" where
  "get_signalfd_context S fd create_new =
     andthen (getp contexts) (\<lambda>cs.
       case find_ctx fd cs of
         Some i \<Rightarrow> ret (Some i)
       | None \<Rightarrow>
           if create_new then
             andthen (on_shim (do_calloc S)) (\<lambda>ok.
               if \<not> ok then ret None
               else seqp (modp (\<lambda>s. s\<lparr>contexts := \<lparr>ctx_fd = -1, ctx_flags = 0\<rparr> # contexts s\<rparr>)) (ret (Some 0)))
           else ret None)"

definition set_ctx_fd :: "nat \<Rightarrow> int \<Rightarrow> 'k sfd \<Rightarrow> 'k sfd" where
  "set_ctx_fd i fd s = s\<lparr>contexts := (contexts s)[i := (contexts s ! i)\<lparr>ctx_fd := fd\<rparr>]\<rparr>"

definition set_ctx_flags :: "nat \<Rightarrow> u32 \<Rightarrow> 'k sfd \<Rightarrow> 'k sfd" where
  "set_ctx_flags i fl s = s\<lparr>contexts := (contexts s)[i := (contexts s ! i)\<lparr>ctx_flags := fl\<rparr>]\<rparr>"

section \<open>Opening\<close>

definition signal_kevs :: "(int \<Rightarrow> int) \<Rightarrow> kevent list" where
  "signal_kevs sigismember =
     map (\<lambda>i. EV_SET (word_of_int (int i)) EVFILT_SIGNAL EV_ADD 0 0 0)
       (filter (\<lambda>i. sigismember (int i) \<noteq> 0) [1..<SIG_MAXSIG + 1])"

text \<open>The part of \<open>signalfd_impl\<close> after the context was found: the kqueue and its signals.\<close>

definition signalfd_attach :: "'k kqueue_sys \<Rightarrow> nat \<Rightarrow> (int \<Rightarrow> int) \<Rightarrow> u32 \<Rightarrow> ('k, int) sfd_prog" where
  "signalfd_attach S i sigs flags =
     andthen (on_shim (do_kqueue S)) (\<lambda>kq.
       seqp (modp (set_ctx_fd i kq))
         (if kq < 0 then ret (-1)
          else
            seqp (modp (set_ctx_flags i flags))
              (andthen (on_shim (do_kevent S kq (signal_kevs sigs) 0 None)) (\<lambda>r.
                 case r of
                   None \<Rightarrow> seqp (andthen (on_shim (do_close S kq)) (\<lambda>_. modp (set_ctx_fd i (-1)))) (ret (-1))
                 | Some _ \<Rightarrow> ret kq))))"

definition signalfd_impl :: "'k kqueue_sys \<Rightarrow> int \<Rightarrow> (int \<Rightarrow> int) \<Rightarrow> u32 \<Rightarrow> ('k, int) sfd_prog" where
  "signalfd_impl S fd sigs flags =
     (if fd \<noteq> -1 then seqp (set_errno EINVAL) (ret (-1))
      else if flags AND NOT (SFD_NONBLOCK OR SFD_CLOEXEC) \<noteq> 0 then seqp (set_errno EINVAL) (ret (-1))
      else
        andthen (get_signalfd_context S (-1) True) (\<lambda>ctx.
          case ctx of
            None \<Rightarrow> seqp (set_errno EMFILE) (ret (-1))
          | Some i \<Rightarrow> signalfd_attach S i sigs flags))"

definition signalfd :: "'k kqueue_sys \<Rightarrow> int \<Rightarrow> (int \<Rightarrow> int) \<Rightarrow> u32 \<Rightarrow> ('k, int) sfd_prog" where
  "signalfd S fd sigs flags =
     seqp mutex_lock
       (andthen (signalfd_impl S fd sigs flags) (\<lambda>r. seqp mutex_unlock (ret r)))"

section \<open>Reading and closing\<close>

text \<open>The zeroed result buffer with \<open>ssi_signo\<close> in its first four bytes (little endian).\<close>

definition siginfo_bytes :: "u32 \<Rightarrow> bytes" where
  "siginfo_bytes signo = map (\<lambda>i. ucast (drop_bit (8 * i) signo)) [0..<4] @ replicate (siginfo_size - 4) 0"

definition signalfd_read :: "'k kqueue_sys \<Rightarrow> nat \<Rightarrow> nat \<Rightarrow> ('k, int \<times> bytes) sfd_prog" where
  "signalfd_read S i nbytes =
     andthen (getp (\<lambda>s. contexts s ! i)) (\<lambda>ctx.
       seqp mutex_unlock
         (if nbytes \<noteq> siginfo_size then seqp (set_errno EINVAL) (ret (-1, []))
          else
            andthen (on_shim (do_kevent S (ctx_fd ctx) [] 1
                (if ctx_flags ctx AND SFD_NONBLOCK \<noteq> 0 then Some \<lparr>tv_sec = 0, tv_nsec = 0\<rparr> else None))) (\<lambda>r.
              case r of
                None \<Rightarrow> ret (-1, [])
              | Some [] \<Rightarrow> seqp (set_errno EAGAIN) (ret (-1, []))
              | Some (kev # _) \<Rightarrow> ret (int nbytes, siginfo_bytes (ucast (kev_ident kev))))))"

definition signalfd_close :: "'k kqueue_sys \<Rightarrow> nat \<Rightarrow> ('k, int) sfd_prog" where
  "signalfd_close S i =
     andthen (getp (\<lambda>s. contexts s ! i)) (\<lambda>ctx.
       andthen (on_shim (do_close S (ctx_fd ctx))) (\<lambda>r.
         seqp (modp (set_ctx_fd i (-1))) (ret r)))"

definition epoll_shim_close :: "'k kqueue_sys \<Rightarrow> int \<Rightarrow> ('k, int) sfd_prog" where
  "epoll_shim_close S fd =
     (if fd \<ge> 0 then
        seqp mutex_lock
          (andthen (get_signalfd_context S fd False) (\<lambda>ctx.
             case ctx of
               Some i \<Rightarrow> andthen (signalfd_close S i) (\<lambda>r. seqp mutex_unlock (ret r))
             | None \<Rightarrow> seqp mutex_unlock (on_shim (do_close S fd))))
      else on_shim (do_close S fd))"

definition epoll_shim_read :: "'k kqueue_sys \<Rightarrow> int \<Rightarrow> nat \<Rightarrow> ('k, int \<times> bytes) sfd_prog" where
  "epoll_shim_read S fd nbytes =
     (if fd \<ge> 0 then
        seqp mutex_lock
          (andthen (get_signalfd_context S fd False) (\<lambda>ctx.
             case ctx of
               Some i \<Rightarrow> signalfd_read S i nbytes
             | None \<Rightarrow> seqp mutex_unlock (on_shim (do_read S fd nbytes))))
      else on_shim (do_read S fd nbytes))"

section \<open>Laws of the primitives\<close>

lemma wp_mutex [wp_simps]:
  "wp mutex_lock Q E s = (if mtx s then E Deadlock s else Q () (s\<lparr>mtx := True\<rparr>))"
  "wp mutex_unlock Q E s = (if mtx s then Q () (s\<lparr>mtx := False\<rparr>) else E UnlockNotHeld s)"
  by (simp_all add: wp_def mutex_lock_def mutex_unlock_def)

lemma wp_set_errno [wp_simps]:
  "wp (set_errno e) Q E s = Q () (s\<lparr>shim_of := (shim_of s)\<lparr>errno := e\<rparr>\<rparr>)"
  by (simp add: set_errno_def wp_simps)

lemma wp_on_shim [wp_simps]:
  "wp (on_shim f) Q E s = (case f (shim_of s) of (x, h) \<Rightarrow> Q x (s\<lparr>shim_of := h\<rparr>))"
  by (simp add: wp_def on_shim_def split: prod.split)

lemma find_ctx_Some: "find_ctx fd cs = Some i \<Longrightarrow> i < length cs \<and> ctx_fd (cs ! i) = fd"
  by (induction cs arbitrary: i) (auto split: if_splits)

lemma find_ctx_None: "find_ctx fd cs = None \<longleftrightarrow> fd \<notin> ctx_fd ` set cs"
  by (induction cs) auto

lemma set_ctx_sel [simp]:
  "mtx (set_ctx_fd i fd s) = mtx s" "shim_of (set_ctx_fd i fd s) = shim_of s"
  "mtx (set_ctx_flags i fl s) = mtx s" "shim_of (set_ctx_flags i fl s) = shim_of s"
  "length (contexts (set_ctx_fd i fd s)) = length (contexts s)"
  "length (contexts (set_ctx_flags i fl s)) = length (contexts s)"
  by (simp_all add: set_ctx_fd_def set_ctx_flags_def)

section \<open>The locking discipline\<close>

text \<open>The operations that run under the mutex keep it held.\<close>

lemma get_context_mtx: "mtx s \<Longrightarrow> wp (get_signalfd_context S fd b) (\<lambda>_ t. mtx t) (\<lambda>_ _. False) s"
  by (auto simp: get_signalfd_context_def wp_simps split: option.split)

lemma signalfd_attach_mtx: "mtx s \<Longrightarrow> wp (signalfd_attach S i sigs flags) (\<lambda>_ t. mtx t) (\<lambda>_ _. False) s"
  by (auto simp: signalfd_attach_def wp_simps split: option.splits prod.splits)

lemma signalfd_impl_mtx: "mtx s \<Longrightarrow> wp (signalfd_impl S fd sigs flags) (\<lambda>_ t. mtx t) (\<lambda>_ _. False) s"
  unfolding signalfd_impl_def wp_simps
  by (auto intro!: wp_mono [OF get_context_mtx] signalfd_attach_mtx simp: wp_simps split: option.splits)

lemma signalfd_close_mtx: "mtx s \<Longrightarrow> wp (signalfd_close S i) (\<lambda>_ t. mtx t) (\<lambda>_ _. False) s"
  by (simp add: signalfd_close_def wp_simps split: prod.split)

lemma signalfd_read_mtx: "mtx s \<Longrightarrow> wp (signalfd_read S i n) (\<lambda>_ t. \<not> mtx t) (\<lambda>_ _. False) s"
  by (auto simp: signalfd_read_def wp_simps split: prod.split option.split list.split)

lemma entry_mtx:
  assumes "\<not> mtx s"
  shows "wp (signalfd S fd sigs flags) (\<lambda>r t. \<not> mtx t) (\<lambda>_ _. False) s"
    and "wp (epoll_shim_close S fd) (\<lambda>r t. \<not> mtx t) (\<lambda>_ _. False) s"
    and "wp (epoll_shim_read S fd n) (\<lambda>r t. \<not> mtx t) (\<lambda>_ _. False) s"
proof -
  note mono = wp_mono [OF get_context_mtx] wp_mono [OF signalfd_impl_mtx] wp_mono [OF signalfd_close_mtx]
    signalfd_read_mtx
  show "wp (signalfd S fd sigs flags) (\<lambda>r t. \<not> mtx t) (\<lambda>_ _. False) s"
    unfolding signalfd_def wp_simps using assms by (auto intro!: mono simp: wp_simps)
  show "wp (epoll_shim_close S fd) (\<lambda>r t. \<not> mtx t) (\<lambda>_ _. False) s"
    unfolding epoll_shim_close_def wp_simps using assms
    by (auto intro!: mono simp: wp_simps split: option.split prod.split)
  show "wp (epoll_shim_read S fd n) (\<lambda>r t. \<not> mtx t) (\<lambda>_ _. False) s"
    unfolding epoll_shim_read_def wp_simps using assms
    by (auto intro!: mono simp: wp_simps split: option.split prod.split)
qed

text \<open>
  C19: the mutex protocol of the signal descriptors. Called without the mutex, each of the
  three entry points returns (it neither waits for a mutex it already holds nor releases
  one it does not hold) and has released the mutex, on every path and whatever the kernel
  answers.
\<close>

theorem signalfd_mutex:
  assumes "\<not> mtx s"
  shows "(\<exists>r t. signalfd S fd sigs flags s = (Inr r, t) \<and> \<not> mtx t) \<and>
    (\<exists>r t. epoll_shim_close S fd s = (Inr r, t) \<and> \<not> mtx t) \<and>
    (\<exists>r t. epoll_shim_read S fd n s = (Inr r, t) \<and> \<not> mtx t)"
  using entry_mtx [OF assms] by (intro conjI wp_returns)

definition sfd_example :: "ref_kernel sfd" where
  "sfd_example = \<lparr>contexts = [], mtx = False, shim_of = \<lparr>errno = 0, kern =
     \<lparr>rk_notes = [], rk_pending = [], rk_next = 3, rk_type = (\<lambda>_. FT_OTHER)\<rparr>\<rparr>\<rparr>"

theorem signalfd_mutex_witness:
  "\<exists>r t. signalfd ref_sys (-1) (\<lambda>i. if i = 2 then 1 else 0) SFD_NONBLOCK sfd_example = (Inr r, t) \<and> \<not> mtx t"
  using signalfd_mutex [of sfd_example] by (simp add: sfd_example_def)

section \<open>Live contexts\<close>

text \<open>
  The list invariant: two live contexts are never for the same descriptor, and a live
  context's descriptor is open.
\<close>

definition live_ok :: "int set \<Rightarrow> signalfd_context list \<Rightarrow> bool" where
  "live_ok op cs \<longleftrightarrow>
     (\<forall>i < length cs. \<forall>j < length cs. ctx_fd (cs ! i) = ctx_fd (cs ! j) \<and> 0 \<le> ctx_fd (cs ! i) \<longrightarrow> i = j) \<and>
     (\<forall>i < length cs. 0 \<le> ctx_fd (cs ! i) \<longrightarrow> ctx_fd (cs ! i) \<in> op)"

lemma live_okI:
  assumes "\<And>i j. i < length cs \<Longrightarrow> j < length cs \<Longrightarrow> ctx_fd (cs ! i) = ctx_fd (cs ! j) \<Longrightarrow> 0 \<le> ctx_fd (cs ! j) \<Longrightarrow> i = j"
    and "\<And>i. i < length cs \<Longrightarrow> 0 \<le> ctx_fd (cs ! i) \<Longrightarrow> ctx_fd (cs ! i) \<in> op"
  shows "live_ok op cs"
  using assms unfolding live_ok_def by metis

lemma live_okD:
  assumes "live_ok op cs"
  shows "i < length cs \<Longrightarrow> j < length cs \<Longrightarrow> ctx_fd (cs ! i) = ctx_fd (cs ! j) \<Longrightarrow> 0 \<le> ctx_fd (cs ! j) \<Longrightarrow> i = j"
    and "i < length cs \<Longrightarrow> 0 \<le> ctx_fd (cs ! i) \<Longrightarrow> ctx_fd (cs ! i) \<in> op"
  using assms unfolding live_ok_def by metis+

lemma live_ok_cons_free:
  assumes ok: "live_ok op cs" and c: "ctx_fd c < 0"
  shows "live_ok op (c # cs)"
proof (rule live_okI)
  fix i j
  assume "i < length (c # cs)" "j < length (c # cs)" "ctx_fd ((c # cs) ! i) = ctx_fd ((c # cs) ! j)"
    "0 \<le> ctx_fd ((c # cs) ! j)"
  then show "i = j" using c live_okD(1) [OF ok] by (cases i; cases j) auto
next
  fix i
  assume "i < length (c # cs)" "0 \<le> ctx_fd ((c # cs) ! i)"
  then show "ctx_fd ((c # cs) ! i) \<in> op" using c live_okD(2) [OF ok] by (cases i) auto
qed

text \<open>Storing a descriptor in one context: a free one, or one that is open and in no other.\<close>

lemma live_ok_store:
  assumes ok: "live_ok op cs" and i: "i < length cs" and sub: "op - {ctx_fd (cs ! i)} \<subseteq> op'"
    and fd: "ctx_fd c < 0 \<or> ctx_fd c \<in> op' \<and> ctx_fd c \<notin> op"
  shows "live_ok op' (cs[i := c])"
proof (rule live_okI)
  fix a b
  assume a: "a < length (cs[i := c])" and b: "b < length (cs[i := c])"
    and eq: "ctx_fd (cs[i := c] ! a) = ctx_fd (cs[i := c] ! b)" and nn: "0 \<le> ctx_fd (cs[i := c] ! b)"
  show "a = b"
  proof (cases "a = i \<or> b = i")
    case True
    then show ?thesis
      using a b eq nn fd live_okD(2) [OF ok, of a] live_okD(2) [OF ok, of b] i
      by (auto simp: nth_list_update split: if_splits)
  next
    case False
    then show ?thesis using a b eq nn live_okD(1) [OF ok, of a b] by simp
  qed
next
  fix a
  assume a: "a < length (cs[i := c])" and nn: "0 \<le> ctx_fd (cs[i := c] ! a)"
  show "ctx_fd (cs[i := c] ! a) \<in> op'"
  proof (cases "a = i")
    case True
    then show ?thesis using nn fd i by simp
  next
    case False
    with a nn have "ctx_fd (cs ! a) \<in> op" "ctx_fd (cs ! a) \<noteq> ctx_fd (cs ! i)"
      using live_okD [OF ok] i by auto
    with sub False show ?thesis by auto
  qed
qed

lemma live_ok_flags:
  assumes ok: "live_ok op cs" and i: "i < length cs" and fd: "ctx_fd c = ctx_fd (cs ! i)"
  shows "live_ok op (cs[i := c])"
proof -
  have "ctx_fd (cs[i := c] ! a) = ctx_fd (cs ! a)" if "a < length cs" for a
    using that fd by (cases "a = i") simp_all
  then show ?thesis using live_okD [OF ok] by (intro live_okI) simp_all
qed

lemma live_ok_close_other:
  assumes "live_ok op cs" "fd < 0 \<or> fd \<notin> ctx_fd ` set cs" "op - {fd} \<subseteq> op'"
  shows "live_ok op' cs"
proof (rule live_okI)
  fix i assume i: "i < length cs" "0 \<le> ctx_fd (cs ! i)"
  then have "ctx_fd (cs ! i) \<noteq> fd"
    using assms(2) by (metis image_eqI nth_mem not_le)
  with live_okD(2) [OF assms(1) i] assms(3) show "ctx_fd (cs ! i) \<in> op'" by blast
qed (use live_okD(1) [OF assms(1)] in blast)

text \<open>The calls a program makes, one rule per entry point.\<close>

inductive sfd_step :: "'k kqueue_sys \<Rightarrow> 'k sfd \<Rightarrow> 'k sfd \<Rightarrow> bool" for S where
  open_step: "signalfd S fd sigs flags s = (Inr r, t) \<Longrightarrow> sfd_step S s t"
| close_step: "epoll_shim_close S fd s = (Inr r, t) \<Longrightarrow> sfd_step S s t"
| read_step: "epoll_shim_read S fd n s = (Inr rb, t) \<Longrightarrow> sfd_step S s t"

definition sfd_start :: "'k sfd \<Rightarrow> bool" where
  "sfd_start s \<longleftrightarrow> contexts s = [] \<and> \<not> mtx s"

context descriptor_kernel
begin

definition sfd_inv :: "'k sfd \<Rightarrow> bool" where
  "sfd_inv s \<longleftrightarrow> live_ok (opened (kern (shim_of s))) (contexts s)"

lemma do_calls_opened:
  "do_kevent S kq ch n to h = (r, h') \<Longrightarrow> opened (kern h') = opened (kern h)"
  "do_read S fd n h = (rb, h') \<Longrightarrow> opened (kern h') = opened (kern h)"
  "do_calloc S h = (b, h') \<Longrightarrow> opened (kern h') = opened (kern h)"
  by (auto simp: do_kevent_def do_read_def do_calloc_def split: prod.splits sum.splits
      dest: kevent_opened read_opened calloc_opened)

lemma do_close_opened:
  assumes "do_close S fd h = (r, h')"
  shows "opened (kern h) - {fd} \<subseteq> opened (kern h')"
proof -
  obtain res k' where c: "sys_close S (kern h) fd = (res, k')" by fastforce
  with assms have "kern h' = k'" by (auto simp: do_close_def split: sum.splits)
  with close_one [OF c] show ?thesis by simp
qed

lemma do_kqueue_opened:
  assumes "do_kqueue S h = (fd, h')"
  shows "fd < 0 \<and> opened (kern h') = opened (kern h)
    \<or> 0 \<le> fd \<and> fd \<notin> opened (kern h) \<and> opened (kern h') = insert fd (opened (kern h))"
proof -
  obtain res k' where c: "sys_kqueue S (kern h) = (res, k')" by fastforce
  show ?thesis
  proof (cases res)
    case (Inl e)
    with c assms have "fd = -1" "kern h' = k'" by (auto simp: do_kqueue_def)
    with kqueue_fails [OF c [unfolded Inl]] show ?thesis by simp
  next
    case (Inr q)
    with c assms have "fd = q" "kern h' = k'" by (auto simp: do_kqueue_def)
    with kqueue_fresh [OF c [unfolded Inr]] show ?thesis by simp
  qed
qed

lemma get_context_inv:
  assumes "sfd_inv s"
  shows "wp (get_signalfd_context S fd b)
    (\<lambda>r t. sfd_inv t \<and> (case r of None \<Rightarrow> b \<or> fd \<notin> ctx_fd ` set (contexts t)
        | Some i \<Rightarrow> i < length (contexts t) \<and> (fd = -1 \<or> \<not> b \<longrightarrow> ctx_fd (contexts t ! i) = fd))) (\<lambda>_ _. False) s"
proof (cases "find_ctx fd (contexts s)")
  case None
  then have none: "fd \<notin> ctx_fd ` set (contexts s)" by (simp add: find_ctx_None)
  obtain ok h where c: "do_calloc S (shim_of s) = (ok, h)" by fastforce
  with do_calls_opened(3) [OF c] none None assms show ?thesis
    by (simp add: get_signalfd_context_def wp_simps sfd_inv_def live_ok_cons_free)
next
  case (Some i)
  with find_ctx_Some [OF Some] assms show ?thesis
    by (simp add: get_signalfd_context_def wp_simps)
qed

lemma inv_store:
  assumes "sfd_inv s" "i < length (contexts s)"
    and "opened (kern (shim_of s)) - {ctx_fd (contexts s ! i)} \<subseteq> opened (kern h)"
    and "fd < 0 \<or> fd \<in> opened (kern h) \<and> fd \<notin> opened (kern (shim_of s))"
  shows "sfd_inv (set_ctx_fd i fd (s\<lparr>shim_of := h\<rparr>))"
  using assms unfolding sfd_inv_def set_ctx_fd_def by (simp add: live_ok_store)

lemma inv_flags: "sfd_inv s \<Longrightarrow> i < length (contexts s) \<Longrightarrow> sfd_inv (set_ctx_flags i fl s)"
  unfolding sfd_inv_def set_ctx_flags_def by (simp add: live_ok_flags)

lemma inv_same: "sfd_inv s \<Longrightarrow> opened (kern h) = opened (kern (shim_of s)) \<Longrightarrow> sfd_inv (s\<lparr>shim_of := h\<rparr>)"
  by (simp add: sfd_inv_def)

lemma inv_frame [simp]:
  "sfd_inv (s\<lparr>mtx := b\<rparr>) = sfd_inv s"
  "sfd_inv (s\<lparr>shim_of := (shim_of s)\<lparr>errno := e\<rparr>\<rparr>) = sfd_inv s"
  by (simp_all add: sfd_inv_def)

lemma open_tail_inv:
  assumes inv: "sfd_inv t" and i: "i < length (contexts t)" and free: "ctx_fd (contexts t ! i) = -1"
    and kq: "do_kqueue S (shim_of t) = (kq, h)"
  shows "sfd_inv (set_ctx_fd i kq (t\<lparr>shim_of := h\<rparr>))"
  using do_kqueue_opened [OF kq] free by (intro inv_store [OF inv i]) auto

lemma open_close_inv:
  assumes inv: "sfd_inv t" and i: "i < length (contexts t)"
    and cl: "do_close S (ctx_fd (contexts t ! i)) (shim_of t) = (r, h)"
  shows "sfd_inv (set_ctx_fd i (-1) (t\<lparr>shim_of := h\<rparr>))"
  using do_close_opened [OF cl] by (intro inv_store [OF inv i]) auto

lemma signalfd_attach_inv:
  assumes t: "sfd_inv t" "i < length (contexts t)" "ctx_fd (contexts t ! i) = -1"
  shows "wp (signalfd_attach S i sigs flags) (\<lambda>_ t. sfd_inv t) (\<lambda>_ _. False) t"
proof -
  obtain kq h where kq: "do_kqueue S (shim_of t) = (kq, h)" by fastforce
  let ?u = "set_ctx_flags i flags (set_ctx_fd i kq (t\<lparr>shim_of := h\<rparr>))"
  have u0: "sfd_inv (set_ctx_fd i kq (t\<lparr>shim_of := h\<rparr>))" by (rule open_tail_inv [OF t kq])
  then have u: "sfd_inv ?u" "i < length (contexts ?u)" "ctx_fd (contexts ?u ! i) = kq" "shim_of ?u = h"
    using t(2) by (simp_all add: inv_flags, simp_all add: set_ctx_fd_def set_ctx_flags_def)
  obtain r h1 where ev: "do_kevent S kq (signal_kevs sigs) 0 None h = (r, h1)" by fastforce
  then have v: "sfd_inv (?u\<lparr>shim_of := h1\<rparr>)"
    using u do_calls_opened(1) [OF ev] by (intro inv_same) simp_all
  obtain q h2 where cl: "do_close S kq h1 = (q, h2)" by fastforce
  have w: "sfd_inv (set_ctx_fd i (-1) (?u\<lparr>shim_of := h2\<rparr>))"
    using open_close_inv [OF v, of i q h2] cl u by simp
  from kq ev cl u0 u(4) v w show ?thesis
    by (simp add: signalfd_attach_def wp_simps split: option.split)
qed

lemma signalfd_impl_inv:
  assumes "sfd_inv s"
  shows "wp (signalfd_impl S fd sigs flags) (\<lambda>_ t. sfd_inv t) (\<lambda>_ _. False) s"
  unfolding signalfd_impl_def using assms
  by (auto intro!: wp_mono [OF get_context_inv] signalfd_attach_inv simp: wp_simps split: option.splits)

lemma signalfd_close_inv:
  assumes "sfd_inv s" "i < length (contexts s)"
  shows "wp (signalfd_close S i) (\<lambda>_ t. sfd_inv t) (\<lambda>_ _. False) s"
  using open_close_inv [OF assms] by (auto simp: signalfd_close_def wp_simps split: prod.split)

lemma signalfd_read_inv:
  assumes "sfd_inv s" "mtx s"
  shows "wp (signalfd_read S i n) (\<lambda>_ t. sfd_inv t) (\<lambda>_ _. False) s"
proof -
  have "sfd_inv (s\<lparr>mtx := False, shim_of := h\<rparr>)" if "do_kevent S fd [] 1 to (shim_of s) = (r, h)" for fd to r h
    using inv_same [of "s\<lparr>mtx := False\<rparr>"] do_calls_opened(1) [OF that] assms(1) by simp
  moreover have "sfd_inv (s\<lparr>mtx := False, shim_of := h\<lparr>errno := e\<rparr>\<rparr>)" if "do_kevent S fd [] 1 to (shim_of s) = (r, h)" for fd to r h e
    using inv_same [of "s\<lparr>mtx := False\<rparr>"] do_calls_opened(1) [OF that] assms(1) by simp
  moreover have "sfd_inv (s\<lparr>mtx := False, shim_of := (shim_of s)\<lparr>errno := e\<rparr>\<rparr>)" for e
    using inv_same [of "s\<lparr>mtx := False\<rparr>"] assms(1) by simp
  ultimately show ?thesis
    using assms(2) by (auto simp: signalfd_read_def wp_simps split: prod.split option.split list.split)
qed

lemma plain_calls_inv:
  assumes "sfd_inv s"
  shows "fd < 0 \<or> fd \<notin> ctx_fd ` set (contexts s) \<Longrightarrow> wp (on_shim (do_close S fd)) (\<lambda>_ t. sfd_inv t) (\<lambda>_ _. False) s"
    and "wp (on_shim (do_read S fd n)) (\<lambda>_ t. sfd_inv t) (\<lambda>_ _. False) s"
  using assms
  by (auto simp: wp_simps sfd_inv_def dest: do_calls_opened(2) do_close_opened intro: live_ok_close_other
      split: prod.split)

lemma entry_inv:
  assumes "sfd_inv s" "\<not> mtx s"
  shows "wp (signalfd S fd sigs flags) (\<lambda>_ t. sfd_inv t) (\<lambda>_ _. False) s"
    and "wp (epoll_shim_close S fd) (\<lambda>_ t. sfd_inv t) (\<lambda>_ _. False) s"
    and "wp (epoll_shim_read S fd n) (\<lambda>_ t. sfd_inv t) (\<lambda>_ _. False) s"
proof -
  let ?s = "s\<lparr>mtx := True\<rparr>"
  have s: "sfd_inv ?s" "mtx ?s" using assms by simp_all
  note get = wp_mono [OF wp_conj [OF get_context_inv [OF s(1)] get_context_mtx [OF s(2)]]]
  show "wp (signalfd S fd sigs flags) (\<lambda>_ t. sfd_inv t) (\<lambda>_ _. False) s"
    unfolding signalfd_def using assms(2)
    by (auto simp: wp_simps intro!: wp_mono [OF wp_conj [OF signalfd_impl_inv [OF s(1)] signalfd_impl_mtx [OF s(2)]]])
  have closing: "wp (andthen (signalfd_close S i) (\<lambda>r. seqp mutex_unlock (ret r))) (\<lambda>_ t. sfd_inv t) (\<lambda>_ _. False) t"
    if "sfd_inv t" "mtx t" "i < length (contexts t)" for t i
    using that by (auto simp: wp_simps
        intro!: wp_mono [OF wp_conj [OF signalfd_close_inv [OF that(1,3)] signalfd_close_mtx [OF that(2)]]])
  have plain: "wp (on_shim (do_close S fd)) (\<lambda>_ t. sfd_inv t) (\<lambda>_ _. False) (t\<lparr>mtx := b\<rparr>)"
    if "sfd_inv t" "fd < 0 \<or> fd \<notin> ctx_fd ` set (contexts t)" for t b
    using plain_calls_inv(1) [of "t\<lparr>mtx := b\<rparr>" fd] that by simp
  show "wp (epoll_shim_close S fd) (\<lambda>_ t. sfd_inv t) (\<lambda>_ _. False) s"
    unfolding epoll_shim_close_def using assms plain [of s False] plain_calls_inv(1) [OF assms(1), of fd]
    by (auto simp: wp_if wp_seqp wp_mutex wp_andthen [of "get_signalfd_context S fd False"] wp_case_option
        intro!: get closing plain split: option.splits)
  show "wp (epoll_shim_read S fd n) (\<lambda>_ t. sfd_inv t) (\<lambda>_ _. False) s"
    unfolding epoll_shim_read_def using assms
    by (auto simp: wp_if wp_seqp wp_mutex wp_andthen wp_case_option
        intro!: get signalfd_read_inv plain_calls_inv split: option.splits)
qed

lemma step_inv:
  assumes "sfd_step S s t" "sfd_inv s \<and> \<not> mtx s"
  shows "sfd_inv t \<and> \<not> mtx t"
  using assms
proof cases
  case (open_step fd sigs flags r)
  with entry_inv(1) [of s fd sigs flags] entry_mtx(1) [of s S fd sigs flags] assms(2) show ?thesis
    by (auto simp: wp_def)
next
  case (close_step fd r)
  with entry_inv(2) [of s fd] entry_mtx(2) [of s S fd] assms(2) show ?thesis
    by (auto simp: wp_def)
next
  case (read_step fd n rb)
  with entry_inv(3) [of s fd n] entry_mtx(3) [of s S fd n] assms(2) show ?thesis
    by (auto simp: wp_def)
qed

sublocale ts: transition_system sfd_start "sfd_step S" "\<lambda>s. sfd_inv s \<and> \<not> mtx s"
  by unfold_locales (auto simp: sfd_start_def sfd_inv_def live_ok_def dest: step_inv)

lemma reachable_inv:
  "sfd_start s0 \<Longrightarrow> (sfd_step S)\<^sup>*\<^sup>* s0 s \<Longrightarrow> live_ok (opened (kern (shim_of s))) (contexts s) \<and> \<not> mtx s"
  using ts.inv_reachable [of s0 s] by (simp add: sfd_inv_def)

end

text \<open>
  C13: in every state a program can reach through the three entry points, starting with no
  contexts, two live contexts never carry the same descriptor, so the lookup that
  \<open>read\<close> and \<open>close\<close> make finds the one context of a signal descriptor.
\<close>

theorem signalfd_live_unique:
  assumes K: "descriptor_kernel S opened" and "sfd_start s0" and "(sfd_step S)\<^sup>*\<^sup>* s0 s"
    and "i < length (contexts s)" "j < length (contexts s)"
    and "ctx_fd (contexts s ! i) = ctx_fd (contexts s ! j)" "0 \<le> ctx_fd (contexts s ! j)"
  shows "i = j"
proof -
  have "live_ok (opened (kern (shim_of s))) (contexts s)"
    using descriptor_kernel.reachable_inv [OF K assms(2,3)] by simp
  then show ?thesis using assms(4-7) by (rule live_okD)
qed

theorem signalfd_live_unique_witness:
  "\<exists>s. (sfd_step ref_sys)\<^sup>*\<^sup>* sfd_example s \<and> length (contexts s) = 1 \<and> ctx_fd (contexts s ! 0) = 3 \<and>
     (\<forall>i < 1. ctx_fd (contexts s ! i) = 3 \<longrightarrow> i = 0)"
proof -
  obtain r s where a: "signalfd ref_sys (-1) (\<lambda>_. 0) 0 sfd_example = (Inr r, s)"
      and b: "length (contexts s) = 1" "ctx_fd (contexts s ! 0) = 3"
    by (simp add: signalfd_def signalfd_impl_def signalfd_attach_def get_signalfd_context_def prog_simps
        mutex_lock_def mutex_unlock_def on_shim_def do_calloc_def do_kqueue_def do_kevent_def set_ctx_fd_def
        set_ctx_flags_def signal_kevs_def ref_sys_def sfd_example_def ref_kevent_def)
  have "sfd_start sfd_example" by (simp add: sfd_start_def sfd_example_def)
  moreover have run: "(sfd_step ref_sys)\<^sup>*\<^sup>* sfd_example s" using a by (auto intro: sfd_step.open_step)
  ultimately have "\<forall>i < 1. ctx_fd (contexts s ! i) = 3 \<longrightarrow> i = 0"
    using signalfd_live_unique [OF ref_fd.descriptor_kernel_axioms, of sfd_example s _ 0] b by auto
  with run b show ?thesis by blast
qed

lemma find_ctx_hit: "i < length cs \<Longrightarrow> ctx_fd (cs ! i) = fd \<Longrightarrow> \<exists>j. find_ctx fd cs = Some j"
  by (metis find_ctx_None imageI not_Some_eq nth_mem)

lemma attach_length: "wp (signalfd_attach S i sigs flags) (\<lambda>_ u. length (contexts u) = length (contexts t)) (\<lambda>_ _. True) t"
  by (simp add: signalfd_attach_def wp_simps split: prod.split option.split)

lemma close_frees:
  assumes "find_ctx fd (contexts s) = Some i" "0 \<le> fd" "\<not> mtx s"
  shows "wp (epoll_shim_close S fd)
    (\<lambda>_ t. contexts t = (contexts s)[i := (contexts s ! i)\<lparr>ctx_fd := -1\<rparr>]) (\<lambda>_ _. True) s"
  using assms
  by (simp add: epoll_shim_close_def get_signalfd_context_def signalfd_close_def wp_simps set_ctx_fd_def split: prod.split)

lemma open_free_length:
  assumes "find_ctx (-1) (contexts t) = Some j"
  shows "wp (signalfd S fd sigs flags) (\<lambda>_ u. length (contexts u) = length (contexts t)) (\<lambda>_ _. True) t"
proof -
  have "wp (signalfd_attach S j sigs flags)
      (\<lambda>x. wp (seqp mutex_unlock (ret x)) (\<lambda>_ u. length (contexts u) = length (contexts t)) (\<lambda>_ _. True))
      (\<lambda>_ _. True) (t\<lparr>mtx := True\<rparr>)"
    using attach_length [of S j sigs flags "t\<lparr>mtx := True\<rparr>"] by (elim wp_mono) (simp_all add: wp_simps)
  then show ?thesis
    using assms by (simp add: signalfd_def signalfd_impl_def get_signalfd_context_def wp_simps)
qed

text \<open>
  Closed contexts are used again. After \<open>close\<close> of a live signal descriptor the next
  \<open>signalfd\<close> call, whether it succeeds or not, does not make the list longer.
\<close>

theorem signalfd_slot_reused:
  assumes live: "find_ctx fd (contexts s) = Some i" "0 \<le> fd" and "\<not> mtx s"
    and cl: "epoll_shim_close S fd s = (Inr r, t)"
    and op: "signalfd S fd' sigs flags t = (Inr q, u)"
  shows "length (contexts u) = length (contexts s)"
proof -
  have i: "i < length (contexts s)" using find_ctx_Some [OF live(1)] by simp
  have t: "contexts t = (contexts s)[i := (contexts s ! i)\<lparr>ctx_fd := -1\<rparr>]"
    using close_frees [OF live assms(3), of S] cl by (simp add: wp_def)
  with i obtain j where "find_ctx (-1) (contexts t) = Some j"
    using find_ctx_hit [of i "contexts t" "-1"] by auto
  from open_free_length [OF this, of S fd' sigs flags] op t show ?thesis by (simp add: wp_def)
qed

lemmas sfd_eval = signalfd_def signalfd_impl_def signalfd_attach_def get_signalfd_context_def prog_simps
  mutex_lock_def mutex_unlock_def on_shim_def do_calloc_def do_kqueue_def do_kevent_def set_ctx_fd_def
  set_ctx_flags_def signal_kevs_def ref_sys_def sfd_example_def ref_kevent_def epoll_shim_close_def
  signalfd_close_def do_close_def set_errno_def

theorem signalfd_slot_reused_witness:
  "\<exists>s t u. signalfd ref_sys (-1) (\<lambda>_. 0) 0 sfd_example = (Inr 3, s) \<and>
     epoll_shim_close ref_sys 3 s = (Inr 0, t) \<and> signalfd ref_sys (-1) (\<lambda>_. 0) 0 t = (Inr 4, u) \<and>
     length (contexts u) = 1"
proof -
  obtain s where a: "signalfd ref_sys (-1) (\<lambda>_. 0) 0 sfd_example = (Inr 3, s)"
      and s: "length (contexts s) = 1" "find_ctx 3 (contexts s) = Some 0" "\<not> mtx s"
    by (simp add: sfd_eval)
  then obtain t where b: "epoll_shim_close ref_sys 3 s = (Inr 0, t)" by (auto simp: sfd_eval)
  obtain u where c: "signalfd ref_sys (-1) (\<lambda>_. 0) 0 t = (Inr 4, u)" using a b by (auto simp: sfd_eval)
  from signalfd_slot_reused [OF s(2) _ s(3) b c] a b c s(1) show ?thesis by auto
qed

text \<open>
  Reading from a live signal descriptor either fails or returns exactly one
  \<open>signalfd_siginfo\<close>: any other buffer size is refused with \<open>EINVAL\<close>, and a successful
  read returns 128 bytes.
\<close>

theorem signalfd_read_size:
  assumes "find_ctx fd (contexts s) = Some i" "0 \<le> fd" "\<not> mtx s"
    and "epoll_shim_read S fd n s = (Inr (r, b), t)"
  shows "(n \<noteq> 128 \<longrightarrow> r = -1 \<and> errno (shim_of t) = EINVAL) \<and> (r = -1 \<and> b = [] \<or> r = 128 \<and> length b = 128)"
proof -
  have "wp (epoll_shim_read S fd n) (\<lambda>rb t. (n \<noteq> 128 \<longrightarrow> fst rb = -1 \<and> errno (shim_of t) = EINVAL) \<and>
      (fst rb = -1 \<and> snd rb = [] \<or> fst rb = 128 \<and> length (snd rb) = 128)) (\<lambda>_ _. True) s"
    using assms(1-3)
    by (auto simp: epoll_shim_read_def get_signalfd_context_def signalfd_read_def siginfo_bytes_def wp_simps
        split: prod.split option.split list.split)
  with assms(4) show ?thesis by (simp add: wp_def)
qed

theorem signalfd_read_size_witness:
  "\<exists>s t. signalfd ref_sys (-1) (\<lambda>_. 0) 0 sfd_example = (Inr 3, s) \<and>
     epoll_shim_read ref_sys 3 64 s = (Inr (-1, []), t) \<and> errno (shim_of t) = EINVAL"
proof -
  obtain s where a: "signalfd ref_sys (-1) (\<lambda>_. 0) 0 sfd_example = (Inr 3, s)"
      and s: "find_ctx 3 (contexts s) = Some 0" "\<not> mtx s"
    by (simp add: sfd_eval)
  obtain r b t where c: "epoll_shim_read ref_sys 3 64 s = (Inr (r, b), t)"
    using entry_mtx(3) [OF s(2), of ref_sys 3 64] by (auto dest!: wp_returns)
  from signalfd_read_size [OF s(1) _ s(2) c] a c show ?thesis by auto
qed

end
