(* ===== verification/Eglut_State.thy ===== *)
theory Eglut_State
  imports Prelude Complex_Main
begin

text \<open>
  The data model of eglut, the windowing layer of the launcher: the two structures of
  \<^verbatim>\<open>eglutint.h\<close>, the static variables of \<^verbatim>\<open>eglut_x11.c\<close> and \<^verbatim>\<open>xinput.c\<close>, and the events
  the X server delivers.

  Xlib, EGL, libXi, libpng and the application's callbacks are not part of the program.
  Every call to one of them is appended to the \<open>trace\<close> of the state, with its arguments,
  and the answers come from an environment \<open>xenv\<close> whose functions see the whole trace up to
  and including the call, so an arbitrary environment covers every behaviour of the server.
  A callback of the application is a program of its own on the same state.
\<close>

section \<open>Handles, keys and callbacks\<close>

text \<open>An EGL or X resource id; 0 is \<open>NULL\<close>, \<open>None\<close>, \<open>EGL_NO_SURFACE\<close> and \<open>EGL_NO_CONTEXT\<close>.\<close>

type_synonym handle = u64

text \<open>A callback pointer is the address of a user function; \<open>None\<close> is the null pointer.\<close>

type_synonym cb = nat

datatype keyboard_fn = DefaultKeyboard | UserKeyboard cb

record eglut_window =
  win_config :: handle
  win_context :: handle
  native_window :: handle
  native_x :: int
  native_y :: int
  native_width :: int
  native_height :: int
  win_surface :: handle
  win_index :: int
  reshape_cb :: "cb option"
  display_cb :: "cb option"
  keyboard_cb :: "keyboard_fn option"
  drop_cb :: "cb option"
  special_cb :: "cb option"
  paste_cb :: "cb option"
  mouse_cb :: "cb option"
  mouse_raw_cb :: "cb option"
  mouse_button_cb :: "cb option"
  touch_start_cb :: "cb option"
  touch_update_cb :: "cb option"
  touch_end_cb :: "cb option"
  focus_cb :: "cb option"
  close_cb :: "cb option"
  keyboardstate :: int

text \<open>The all-zero structure \<open>calloc\<close> returns.\<close>

definition calloc_window :: eglut_window where
  "calloc_window = \<lparr> win_config = 0, win_context = 0, native_window = 0, native_x = 0,
     native_y = 0, native_width = 0, native_height = 0, win_surface = 0, win_index = 0,
     reshape_cb = None, display_cb = None, keyboard_cb = None, drop_cb = None,
     special_cb = None, paste_cb = None, mouse_cb = None, mouse_raw_cb = None,
     mouse_button_cb = None, touch_start_cb = None, touch_update_cb = None,
     touch_end_cb = None, focus_cb = None, close_cb = None, keyboardstate = 0 \<rparr>"

section \<open>Calls out of the library\<close>

text \<open>The application's callbacks, with their arguments.\<close>

datatype cbcall =
    ReshapeCB cb int int
  | DisplayCB cb
  | KeyboardCB cb bytes int
  | DropCB cb bytes
  | SpecialCB cb int int u32
  | PasteCB cb bytes int
  | MouseCB cb int int
  | MouseRawCB cb real real
  | MouseButtonCB cb int int int int
  | TouchStartCB cb int real real
  | TouchUpdateCB cb int real real
  | TouchEndCB cb int real real
  | FocusCB cb int
  | CloseCB cb
  | IdleCB cb

datatype eglcall =
    GetDisplay handle
  | Initialize
  | QueryString int
  | ChooseConfig "int list"
  | BindAPI int
  | CreateContext handle "int list"
  | GetConfigAttrib handle int
  | CreateWindowSurface handle handle
  | CreatePixmapSurface handle handle
  | MakeCurrent handle handle handle
  | DestroySurface handle
  | DestroyContext handle
  | SwapBuffers handle
  | SwapInterval int
  | Terminate

text \<open>The size hints of \<open>_eglutNativeInitWindow\<close>; \<open>win_gravity\<close> is only set when used.\<close>

record size_hints =
  sh_x :: int
  sh_y :: int
  sh_width :: int
  sh_height :: int
  sh_gravity :: "int option"
  sh_flags :: u32

datatype wincall =
    OpenDisplay "string option"
  | CloseDisplay
  | SetLocale
  | SetLocaleModifiers
  | GetVisualInfo int
  | RootWindow
  | CreateColormap handle handle
  | CreateWindow handle int int int int int handle u32 u32 handle
  | FreeVisualInfo
  | SetNormalHints handle size_hints
  | SetStandardProperties handle string size_hints
  | SetClassHint handle "string option" "string option"
  | SetWMProtocols handle "handle list"
  | OpenIM
  | CreateIC handle handle
  | SetICFocus handle
  | MapWindow handle
  | DestroyWindow handle
  | SetInputFocus handle
  | WarpPointer handle int int
  | CreateBitmapFromData handle
  | CreatePixmapCursor handle
  | DefineCursor handle handle
  | UndefineCursor handle
  | GrabPointer handle u32 handle
  | UngrabPointer
  | FreeCursor handle
  | FreePixmap handle

text \<open>
  A client message or selection reply. An entry \<open>None\<close> of the data words is one the code
  does not assign after \<open>XEvent reply = { ClientMessage }\<close>: it keeps what the initialiser
  leaves there.
\<close>

datatype message =
    ClientMsg handle handle "u64 option list"
  | SelectionMsg handle handle handle handle u64

datatype ipccall =
    InternAtom string
  | ChangeProperty handle handle handle nat bytes nat
  | GetWindowProperty handle handle int handle
  | XFree
  | SendEvent handle bool u32 message
  | Flush
  | ConvertSelection handle handle handle handle u64
  | GetSelectionOwner handle
  | SetSelectionOwner handle handle

datatype evcall =
    Pending
  | NextEvent
  | FilterEvent
  | GetEventData
  | Utf8LookupString nat
  | LookupKeysym
  | EventsQueued
  | PeekEvent

text \<open>An XInput event mask is the list of the event types whose bit was set, in order.\<close>

datatype xicall =
    Dlopen string
  | Dlsym string
  | QueryExtension string
  | QueryVersion int int
  | QueryDevice
  | FreeDeviceInfo
  | SelectEvents handle "nat list"
  | GrabDevice int handle "nat list"
  | UngrabDevice int

datatype pngcall =
    Fopen string
  | CreateReadStruct
  | CreateInfoStruct
  | InitIO
  | ReadInfo
  | GetIHDR
  | SetAddAlpha
  | ReadUpdateInfo
  | SetPaletteToRGB
  | GetValidTRNS
  | SetTRNSToAlpha
  | SetExpand
  | SetStrip16
  | GetRowbytes
  | Malloc u64
  | Free
  | ReadImage "u64 list"
  | DestroyReadStruct
  | Fclose

datatype call =
    Egl eglcall
  | Win wincall
  | Ipc ipccall
  | Ev evcall
  | Xi xicall
  | Png pngcall
  | User cbcall
  | Print string
  | GetTimeOfDay

section \<open>Events\<close>

record key_event =
  key_window :: handle
  keycode :: nat
  key_time :: u64
  key_state :: u32

text \<open>
  A generic event carries XInput data: raw valuator values with their mask, or a device event.
\<close>

record xi_raw =
  raw_mask_len :: int
  raw_mask :: "bool list"
  raw_values :: "real list"

record xi_device =
  xi_detail :: int
  event_x :: real
  event_y :: real

datatype xi_event =
    XI_RawMotion xi_raw
  | XI_Motion xi_device
  | XI_ButtonPress xi_device
  | XI_ButtonRelease xi_device
  | XI_TouchBegin xi_device
  | XI_TouchUpdate xi_device
  | XI_TouchEnd xi_device
  | XI_Other

record client_event =
  cl_type :: handle
  cl_l :: "nat \<Rightarrow> u64"

record selection_request =
  sr_requestor :: handle
  sr_selection :: handle
  sr_target :: handle
  sr_property :: handle
  sr_time :: u64

record selection_event =
  sn_requestor :: handle
  sn_target :: handle
  sn_property :: handle

datatype xevent =
    Expose
  | ConfigureNotify int int int int int
  | GenericEvent int xi_event
  | KeyPress key_event
  | KeyRelease key_event
  | MotionNotify int int
  | ButtonPress int int int
  | ButtonRelease int int int
  | FocusIn int
  | FocusOut int
  | ClientMessage client_event
  | SelectionRequest selection_request
  | SelectionNotify selection_event
  | OtherEvent

definition is_key :: "xevent \<Rightarrow> bool" where
  "is_key e = (case e of KeyPress _ \<Rightarrow> True | KeyRelease _ \<Rightarrow> True | _ \<Rightarrow> False)"

section \<open>State\<close>

text \<open>\<open>struct _eglut_xinput_rt_t\<close>: the symbols of libXi, 0 when not found.\<close>

record xinput_rt =
  rt_initialized :: bool
  rt_handle :: handle
  rt_QueryVersion :: handle
  rt_QueryDevice :: handle
  rt_FreeDeviceInfo :: handle
  rt_SelectEvents :: handle
  rt_GrabDevice :: handle
  rt_UngrabDevice :: handle

record xinput_state =
  xi_initialized :: bool
  xi_available :: bool
  xi_opcode :: int

text \<open>
  \<open>struct eglut_state\<close>, followed by the static variables of \<^verbatim>\<open>eglut_x11.c\<close> and \<^verbatim>\<open>xinput.c\<close>.
  A window pointer is an index into \<open>windows\<close>, the structures \<open>calloc\<close> returned so far (the
  code never frees one); the C integers used as truth values are \<open>bool\<close>.
\<close>

record eglut_state =
  api_mask :: u32
  window_width :: int
  window_height :: int
  window_fullscreen :: int
  display_name :: "string option"
  verbose :: bool
  init_time :: int
  idle_cb :: "cb option"
  num_windows :: int
  native_dpy :: handle
  surface_type :: int
  dpy :: handle
  egl_major :: int
  egl_minor :: int
  current :: "nat option"
  redisplay :: bool
  XdndDrop :: handle
  XdndTypeList :: handle
  XdndSelection :: handle
  XdndEnter :: handle
  XdndPosition :: handle
  XdndStatus :: handle
  XdndLeave :: handle
  XdndFinished :: handle
  XdndActionCopy :: handle
  XtextUriList :: handle
  dnd_source :: u64
  dnd_version :: u64
  dnd_format :: u32
  windows :: "eglut_window list"
  class_name :: "string option"
  class_instance_name :: "string option"
  x11_ic :: handle
  rel_enabled :: bool
  rel_last_x :: int
  rel_last_y :: int
  rel_raw_mode :: bool
  cursor_grabbed :: bool
  clipboard :: "bytes option"
  xi_rt :: xinput_rt
  xi_state :: xinput_state
  trace :: "call list"

text \<open>
  Where execution can end: \<open>_eglutFatal\<close> (with its message; exit status 1), \<open>exit\<close>, an Xlib
  call on a null display, a null window or null pointer, a read outside an object or of a
  variable never assigned, signed overflow, and the end of the fuel of a loop.
\<close>

datatype eglut_stop =
    Fatal string
  | Exit int
  | NullDisplay
  | NullWindow
  | NullPointer
  | OutOfBounds
  | Uninitialised
  | SignedOverflow
  | NoFuel

type_synonym 'a eg = "(eglut_state, eglut_stop, 'a) prog"

section \<open>The state at program start\<close>

definition EGLUT_OPENGL_BIT :: u32 where "EGLUT_OPENGL_BIT = 1"
definition EGLUT_OPENGL_ES1_BIT :: u32 where "EGLUT_OPENGL_ES1_BIT = 2"
definition EGLUT_OPENGL_ES2_BIT :: u32 where "EGLUT_OPENGL_ES2_BIT = 4"
definition EGLUT_OPENVG_BIT :: u32 where "EGLUT_OPENVG_BIT = 8"

text \<open>The initialiser of \<open>_eglut_state\<close>; everything else static starts as zero.\<close>

definition initial_state :: eglut_state where
  "initial_state = \<lparr> api_mask = EGLUT_OPENGL_ES1_BIT, window_width = 300, window_height = 300,
     window_fullscreen = 0, display_name = None, verbose = False, init_time = 0, idle_cb = None,
     num_windows = 0, native_dpy = 0, surface_type = 0, dpy = 0, egl_major = 0, egl_minor = 0,
     current = None, redisplay = False, XdndDrop = 0, XdndTypeList = 0, XdndSelection = 0,
     XdndEnter = 0, XdndPosition = 0, XdndStatus = 0, XdndLeave = 0, XdndFinished = 0,
     XdndActionCopy = 0, XtextUriList = 0, dnd_source = 0, dnd_version = 0, dnd_format = 0,
     windows = [], class_name = None, class_instance_name = None, x11_ic = 0,
     rel_enabled = False, rel_last_x = 0, rel_last_y = 0, rel_raw_mode = False,
     cursor_grabbed = False, clipboard = None,
     xi_rt = \<lparr> rt_initialized = False, rt_handle = 0, rt_QueryVersion = 0, rt_QueryDevice = 0,
       rt_FreeDeviceInfo = 0, rt_SelectEvents = 0, rt_GrabDevice = 0, rt_UngrabDevice = 0 \<rparr>,
     xi_state = \<lparr> xi_initialized = False, xi_available = False, xi_opcode = 0 \<rparr>, trace = [] \<rparr>"

section \<open>Environment\<close>

record device_info =
  dev_use :: int
  dev_id :: int

record png_header =
  ihdr_width :: u32
  ihdr_height :: u32
  ihdr_depth :: int
  ihdr_color :: int

text \<open>Answers of the functions outside the program, given the trace that ends with the call.\<close>

record xenv =
  env_getenv :: "string \<Rightarrow> string option"
  env_basename :: "string \<Rightarrow> string"
  env_time :: "call list \<Rightarrow> int \<times> int"
  env_handle :: "call list \<Rightarrow> handle"
  env_ok :: "call list \<Rightarrow> bool"
  env_int :: "call list \<Rightarrow> int"
  env_version :: "call list \<Rightarrow> int \<times> int"
  env_visual :: "call list \<Rightarrow> (handle \<times> int) option"
  env_event :: "call list \<Rightarrow> xevent"
  env_lookup :: "call list \<Rightarrow> bytes \<times> bool"
  env_devices :: "call list \<Rightarrow> device_info list"
  env_atoms :: "call list \<Rightarrow> handle list"
  env_property :: "call list \<Rightarrow> bytes option"
  env_ihdr :: "call list \<Rightarrow> png_header"
  env_image :: "call list \<Rightarrow> bytes"
  env_pid :: u32
  env_user :: "cbcall \<Rightarrow> unit eg"

text \<open>An environment in which every call succeeds, no event comes and callbacks do nothing.\<close>

definition quiet_env :: xenv where
  "quiet_env = \<lparr> env_getenv = (\<lambda>_. None), env_basename = (\<lambda>s. s), env_time = (\<lambda>_. (0, 0)),
     env_handle = (\<lambda>_. 1), env_ok = (\<lambda>_. True), env_int = (\<lambda>_. 0), env_version = (\<lambda>_. (1, 5)),
     env_visual = (\<lambda>_. Some (1, 24)), env_event = (\<lambda>_. OtherEvent), env_lookup = (\<lambda>_. ([], False)),
     env_devices = (\<lambda>_. []), env_atoms = (\<lambda>_. []), env_property = (\<lambda>_. None),
     env_ihdr = (\<lambda>_. \<lparr> ihdr_width = 1, ihdr_height = 1, ihdr_depth = 8, ihdr_color = 6 \<rparr>),
     env_image = (\<lambda>_. [0, 0, 0, 0]), env_pid = 1, env_user = (\<lambda>_. ret ()) \<rparr>"

section \<open>Primitive steps\<close>

definition log_call :: "call \<Rightarrow> unit eg" where
  "log_call c = modp (\<lambda>s. s\<lparr>trace := trace s @ [c]\<rparr>)"

definition ask :: "(call list \<Rightarrow> 'a) \<Rightarrow> call \<Rightarrow> 'a eg" where
  "ask answer c = seqp (log_call c) (getp (\<lambda>s. answer (trace s)))"

text \<open>An Xlib call dereferences the display it is given.\<close>

definition on_display :: "'a eg \<Rightarrow> 'a eg" where
  "on_display m = andthen (getp native_dpy) (\<lambda>d. if d = 0 then stop NullDisplay else m)"

definition xreq :: "call \<Rightarrow> unit eg" where
  "xreq c = on_display (log_call c)"

definition xask :: "(call list \<Rightarrow> 'a) \<Rightarrow> call \<Rightarrow> 'a eg" where
  "xask answer c = on_display (ask answer c)"

text \<open>A callback: the call is recorded, then the user's function runs.\<close>

definition callback :: "xenv \<Rightarrow> cbcall \<Rightarrow> unit eg" where
  "callback E c = seqp (log_call (User c)) (env_user E c)"

definition callback_opt :: "xenv \<Rightarrow> ('f \<Rightarrow> cbcall) \<Rightarrow> 'f option \<Rightarrow> unit eg" where
  "callback_opt E c f = (case f of None \<Rightarrow> ret () | Some g \<Rightarrow> callback E (c g))"

text \<open>Reading and writing through a window pointer.\<close>

definition win_get :: "nat \<Rightarrow> (eglut_window \<Rightarrow> 'a) \<Rightarrow> 'a eg" where
  "win_get p f = andthen (getp windows) (\<lambda>ws.
     if p < length ws then ret (f (ws ! p)) else stop NullWindow)"

definition win_mod :: "nat \<Rightarrow> (eglut_window \<Rightarrow> eglut_window) \<Rightarrow> unit eg" where
  "win_mod p f = andthen (getp windows) (\<lambda>ws.
     if p < length ws then modp (\<lambda>s. s\<lparr>windows := ws[p := f (ws ! p)]\<rparr>) else stop NullWindow)"

definition cur_win :: "nat eg" where
  "cur_win = andthen (getp current) (\<lambda>c. case c of None \<Rightarrow> stop NullWindow | Some p \<Rightarrow> ret p)"

definition cur_get :: "(eglut_window \<Rightarrow> 'a) \<Rightarrow> 'a eg" where
  "cur_get f = andthen cur_win (\<lambda>p. win_get p f)"

definition cur_mod :: "(eglut_window \<Rightarrow> eglut_window) \<Rightarrow> unit eg" where
  "cur_mod f = andthen cur_win (\<lambda>p. win_mod p f)"

text \<open>\<open>XInternAtom (native_dpy, name, False)\<close>.\<close>

definition intern :: "xenv \<Rightarrow> string \<Rightarrow> handle eg" where
  "intern E name = xask (env_handle E) (Ipc (InternAtom name))"

text \<open>A C \<open>int\<close> result: overflow is undefined behaviour.\<close>

definition c_int :: "int \<Rightarrow> int eg" where
  "c_int n = (if - (2 ^ 31) \<le> n \<and> n < 2 ^ 31 then ret n else stop SignedOverflow)"

text \<open>Conversion to \<open>int\<close> of a wider integer (modulo) and of a double (towards zero).\<close>

definition int_of_long :: "int \<Rightarrow> int" where
  "int_of_long n = sint (word_of_int n :: 32 word)"

definition int_of_double :: "real \<Rightarrow> int eg" where
  "int_of_double r = c_int (if 0 \<le> r then \<lfloor>r\<rfloor> else \<lceil>r\<rceil>)"

lemmas step_defs [prog_simps] = log_call_def ask_def on_display_def xreq_def xask_def callback_def
  callback_opt_def win_get_def win_mod_def cur_win_def cur_get_def cur_mod_def intern_def c_int_def

section \<open>Weakest preconditions of the primitive steps\<close>

lemma wp_log_call [wp_simps]: "wp (log_call c) Q X s = Q () (s\<lparr>trace := trace s @ [c]\<rparr>)"
  by (simp add: log_call_def wp_simps)

lemma wp_ask [wp_simps]:
  "wp (ask f c) Q X s = Q (f (trace s @ [c])) (s\<lparr>trace := trace s @ [c]\<rparr>)"
  by (simp add: ask_def wp_simps)

lemma wp_on_display [wp_simps]:
  "wp (on_display m) Q X s = (if native_dpy s = 0 then X NullDisplay s else wp m Q X s)"
  by (simp add: on_display_def wp_simps)

lemma wp_xreq [wp_simps]:
  "wp (xreq c) Q X s = (if native_dpy s = 0 then X NullDisplay s else Q () (s\<lparr>trace := trace s @ [c]\<rparr>))"
  by (simp add: xreq_def wp_simps)

lemma wp_xask [wp_simps]:
  "wp (xask f c) Q X s = (if native_dpy s = 0 then X NullDisplay s
     else Q (f (trace s @ [c])) (s\<lparr>trace := trace s @ [c]\<rparr>))"
  by (simp add: xask_def wp_simps)

lemma wp_intern [wp_simps]:
  "wp (intern E name) Q X s = (if native_dpy s = 0 then X NullDisplay s
     else Q (env_handle E (trace s @ [Ipc (InternAtom name)])) (s\<lparr>trace := trace s @ [Ipc (InternAtom name)]\<rparr>))"
  by (simp add: intern_def wp_simps)

lemma wp_callback [wp_simps]:
  "wp (callback E c) Q X s = wp (env_user E c) Q X (s\<lparr>trace := trace s @ [User c]\<rparr>)"
  by (simp add: callback_def wp_simps)

lemma wp_win_get [wp_simps]:
  "wp (win_get p f) Q X s = (if p < length (windows s) then Q (f (windows s ! p)) s else X NullWindow s)"
  by (simp add: win_get_def wp_simps)

lemma wp_win_mod [wp_simps]:
  "wp (win_mod p f) Q X s = (if p < length (windows s)
     then Q () (s\<lparr>windows := (windows s)[p := f (windows s ! p)]\<rparr>) else X NullWindow s)"
  by (simp add: win_mod_def wp_simps)

lemma wp_cur_win [wp_simps]:
  "wp cur_win Q X s = (case current s of None \<Rightarrow> X NullWindow s | Some p \<Rightarrow> Q p s)"
  by (simp add: cur_win_def wp_simps split: option.split)

lemma wp_c_int [wp_simps]:
  "wp (c_int n) Q X s = (if - (2 ^ 31) \<le> n \<and> n < 2 ^ 31 then Q n s else X SignedOverflow s)"
  by (simp add: c_int_def wp_simps)

section \<open>The predicates the steps preserve\<close>

text \<open>
  The calls and callbacks touch only the trace: a predicate that ignores the trace is kept by
  each of them, provided the user's functions keep it.
\<close>

definition ignores_trace :: "(eglut_state \<Rightarrow> bool) \<Rightarrow> bool" where
  "ignores_trace I \<longleftrightarrow> (\<forall>s t. I (s\<lparr>trace := t\<rparr>) = I s)"

definition user_keeps :: "xenv \<Rightarrow> (eglut_state \<Rightarrow> bool) \<Rightarrow> bool" where
  "user_keeps E I \<longleftrightarrow> (\<forall>c. keeps I (env_user E c))"

lemma keeps_log_call [keeps_rules]: "ignores_trace I \<Longrightarrow> keeps I (log_call c)"
  by (simp add: ignores_trace_def log_call_def keeps_modp)

lemma keeps_ask [keeps_rules]: "ignores_trace I \<Longrightarrow> keeps I (ask f c)"
  by (simp add: ask_def keeps_rules)

lemma keeps_on_display [keeps_rules]: "keeps I m \<Longrightarrow> keeps I (on_display m)"
  by (simp add: on_display_def keeps_rules)

lemma keeps_xreq [keeps_rules]: "ignores_trace I \<Longrightarrow> keeps I (xreq c)"
  by (simp add: xreq_def keeps_rules)

lemma keeps_xask [keeps_rules]: "ignores_trace I \<Longrightarrow> keeps I (xask f c)"
  by (simp add: xask_def keeps_rules)

lemma keeps_intern [keeps_rules]: "ignores_trace I \<Longrightarrow> keeps I (intern E name)"
  by (simp add: intern_def keeps_rules)

lemma keeps_callback [keeps_rules]: "ignores_trace I \<Longrightarrow> user_keeps E I \<Longrightarrow> keeps I (callback E c)"
  by (simp add: callback_def user_keeps_def keeps_rules)

lemma keeps_callback_opt [keeps_rules]:
  "ignores_trace I \<Longrightarrow> user_keeps E I \<Longrightarrow> keeps I (callback_opt E c f)"
  by (simp add: callback_opt_def keeps_rules)

lemma keeps_win_get [keeps_rules]: "keeps I (win_get p f)"
  by (simp add: win_get_def keeps_rules)

lemma keeps_cur_win [keeps_rules]: "keeps I cur_win"
  by (simp add: cur_win_def keeps_rules)

lemma keeps_cur_get [keeps_rules]: "keeps I (cur_get f)"
  by (simp add: cur_get_def keeps_rules)

lemma keeps_c_int [keeps_rules]: "keeps I (c_int n)"
  by (simp add: c_int_def keeps_rules)

lemma keeps_int_of_double [keeps_rules]: "keeps I (int_of_double r)"
  by (simp add: int_of_double_def keeps_rules)

end
