(* ===== verification/Xinput.thy ===== *)
theory Xinput
  imports Eglut_State
begin

text \<open>
  \<^verbatim>\<open>eglut/src/xinput.c\<close>: loading libXi at run time, the version check, and switching the
  master pointer devices between raw and normal motion. The functions of libXi are reached
  through the pointers of \<open>xi_rt\<close>, so a call through a symbol that was not found is a null
  pointer call.
\<close>

section \<open>Operations\<close>

definition XI_LIB :: string where "XI_LIB = ''libXi.so.6''"

text \<open>A call through one of the loaded pointers.\<close>

definition via :: "(xinput_rt \<Rightarrow> handle) \<Rightarrow> 'a eg \<Rightarrow> 'a eg" where
  "via f m = andthen (getp (\<lambda>s. f (xi_rt s))) (\<lambda>p. if p = 0 then stop NullPointer else m)"

definition rt_mod :: "(xinput_rt \<Rightarrow> xinput_rt) \<Rightarrow> unit eg" where
  "rt_mod f = modp (\<lambda>s. s\<lparr>xi_rt := f (xi_rt s)\<rparr>)"

definition xi_mod :: "(xinput_state \<Rightarrow> xinput_state) \<Rightarrow> unit eg" where
  "xi_mod f = modp (\<lambda>s. s\<lparr>xi_state := f (xi_state s)\<rparr>)"

definition dlsym :: "xenv \<Rightarrow> string \<Rightarrow> handle eg" where
  "dlsym E name = ask (env_handle E) (Xi (Dlsym name))"

definition eglutInitXinputRt :: "xenv \<Rightarrow> unit eg" where
  "eglutInitXinputRt E = andthen (getp (\<lambda>s. rt_initialized (xi_rt s))) (\<lambda>i.
     if i then ret () else
     seqp (rt_mod (\<lambda>r. r\<lparr>rt_initialized := True\<rparr>))
    (andthen (ask (env_handle E) (Xi (Dlopen XI_LIB))) (\<lambda>h.
     seqp (rt_mod (\<lambda>r. r\<lparr>rt_handle := h\<rparr>))
    (if h = 0 then ret () else
     andthen (dlsym E ''XIQueryVersion'') (\<lambda>p. seqp (rt_mod (\<lambda>r. r\<lparr>rt_QueryVersion := p\<rparr>))
    (andthen (dlsym E ''XIQueryDevice'') (\<lambda>p. seqp (rt_mod (\<lambda>r. r\<lparr>rt_QueryDevice := p\<rparr>))
    (andthen (dlsym E ''XIFreeDeviceInfo'') (\<lambda>p. seqp (rt_mod (\<lambda>r. r\<lparr>rt_FreeDeviceInfo := p\<rparr>))
    (andthen (dlsym E ''XISelectEvents'') (\<lambda>p. seqp (rt_mod (\<lambda>r. r\<lparr>rt_SelectEvents := p\<rparr>))
    (andthen (dlsym E ''XIGrabDevice'') (\<lambda>p. seqp (rt_mod (\<lambda>r. r\<lparr>rt_GrabDevice := p\<rparr>))
    (andthen (dlsym E ''XIUngrabDevice'') (\<lambda>p. rt_mod (\<lambda>r. r\<lparr>rt_UngrabDevice := p\<rparr>))))))))))))))))"

text \<open>\<open>XIQueryVersion\<close> answers \<open>BadRequest\<close> (1) when the server has no XInput 2.\<close>

definition BadRequest :: int where "BadRequest = 1"

definition eglutCheckXinput :: "xenv \<Rightarrow> bool eg" where
  "eglutCheckXinput E = andthen (getp (\<lambda>s. rt_handle (xi_rt s))) (\<lambda>h.
     if h = 0 then ret False else
     andthen (xask (\<lambda>t. (env_ok E t, env_int E t)) (Xi (QueryExtension ''XInputExtension''))) (\<lambda>(ok, op).
     seqp (xi_mod (\<lambda>x. x\<lparr>xi_opcode := op\<rparr>))
    (if \<not> ok then ret False else
     andthen (via rt_QueryVersion (xask (env_int E) (Xi (QueryVersion 2 2)))) (\<lambda>r.
     ret (r \<noteq> BadRequest)))))"

definition eglutInitXinput :: "xenv \<Rightarrow> unit eg" where
  "eglutInitXinput E = andthen (getp (\<lambda>s. xi_initialized (xi_state s))) (\<lambda>i.
     if i then ret () else
     seqp (xi_mod (\<lambda>x. x\<lparr>xi_initialized := True\<rparr>))
    (seqp (eglutInitXinputRt E)
    (andthen (eglutCheckXinput E) (\<lambda>a. xi_mod (\<lambda>x. x\<lparr>xi_available := a\<rparr>)))))"

definition eglutIsXinputAvailable :: "bool eg" where
  "eglutIsXinputAvailable = getp (\<lambda>s. xi_available (xi_state s))"

text \<open>The XInput event numbers and the device use of a master pointer.\<close>

definition XI_BUTTONPRESS :: nat where "XI_BUTTONPRESS = 4"
definition XI_BUTTONRELEASE :: nat where "XI_BUTTONRELEASE = 5"
definition XI_MOTION :: nat where "XI_MOTION = 6"
definition XI_RAWMOTION :: nat where "XI_RAWMOTION = 17"
definition XI_TOUCHBEGIN :: nat where "XI_TOUCHBEGIN = 18"
definition XI_TOUCHUPDATE :: nat where "XI_TOUCHUPDATE = 19"
definition XI_TOUCHEND :: nat where "XI_TOUCHEND = 20"
definition XIMasterPointer :: int where "XIMasterPointer = 1"

definition raw_motion_mask :: "nat list" where
  "raw_motion_mask = [XI_MOTION, XI_BUTTONPRESS, XI_BUTTONRELEASE, XI_RAWMOTION, XI_MOTION,
     XI_TOUCHBEGIN, XI_TOUCHEND, XI_TOUCHUPDATE]"

definition grab_device :: "device_info \<Rightarrow> unit eg" where
  "grab_device d = whenp (dev_use d = XIMasterPointer)
     (seqp (xreq (Win UngrabPointer))
     (andthen (cur_get native_window) (\<lambda>w.
      via rt_GrabDevice (xreq (Xi (GrabDevice (dev_id d) w raw_motion_mask))))))"

definition ungrab_device :: "device_info \<Rightarrow> unit eg" where
  "ungrab_device d = whenp (dev_use d = XIMasterPointer)
     (via rt_UngrabDevice (xreq (Xi (UngrabDevice (dev_id d)))))"

definition eglutXinputSetRawMotion :: "xenv \<Rightarrow> bool \<Rightarrow> bool eg" where
  "eglutXinputSetRawMotion E raw = andthen (getp (\<lambda>s. (xi_available (xi_state s), native_dpy s))) (\<lambda>(a, d).
     if \<not> a then ret False else
     if d = 0 then ret False else
     andthen (via rt_QueryDevice (xask (env_devices E) (Xi QueryDevice))) (\<lambda>devices.
     seqp (if raw then seqs (map grab_device devices) else seqs (map ungrab_device devices))
    (seqp (via rt_FreeDeviceInfo (log_call (Xi FreeDeviceInfo)))
    (ret True))))"

section \<open>What the operations keep\<close>

lemma wp_via [wp_simps]:
  "wp (via f m) Q X s = (if f (xi_rt s) = 0 then X NullPointer s else wp m Q X s)"
  by (simp add: via_def wp_simps)

lemma keeps_via [keeps_rules]: "keeps I m \<Longrightarrow> keeps I (via f m)"
  by (simp add: via_def keeps_rules)

text \<open>
  A predicate that looks at neither the trace nor the XInput state is kept by the whole of
  this component.
\<close>

definition ignores_xinput :: "(eglut_state \<Rightarrow> bool) \<Rightarrow> bool" where
  "ignores_xinput I \<longleftrightarrow> ignores_trace I \<and> (\<forall>s r. I (s\<lparr>xi_rt := r\<rparr>) = I s) \<and>
     (\<forall>s x. I (s\<lparr>xi_state := x\<rparr>) = I s)"

lemma ignores_xinput_trace: "ignores_xinput I \<Longrightarrow> ignores_trace I"
  by (simp add: ignores_xinput_def)

lemma keeps_rt_mod [keeps_rules]: "ignores_xinput I \<Longrightarrow> keeps I (rt_mod f)"
  by (simp add: rt_mod_def ignores_xinput_def keeps_modp)

lemma keeps_xi_mod [keeps_rules]: "ignores_xinput I \<Longrightarrow> keeps I (xi_mod f)"
  by (simp add: xi_mod_def ignores_xinput_def keeps_modp)

lemma keeps_InitXinputRt [keeps_rules]: "ignores_xinput I \<Longrightarrow> keeps I (eglutInitXinputRt E)"
  unfolding eglutInitXinputRt_def dlsym_def by (intro keeps_rules ignores_xinput_trace)

lemma keeps_CheckXinput [keeps_rules]: "ignores_xinput I \<Longrightarrow> keeps I (eglutCheckXinput E)"
  unfolding eglutCheckXinput_def by (intro keeps_rules ignores_xinput_trace)

lemma keeps_InitXinput [keeps_rules]: "ignores_xinput I \<Longrightarrow> keeps I (eglutInitXinput E)"
  unfolding eglutInitXinput_def by (intro keeps_rules ignores_xinput_trace)

lemma keeps_IsXinputAvailable [keeps_rules]: "keeps I eglutIsXinputAvailable"
  by (simp add: eglutIsXinputAvailable_def keeps_rules)

lemma keeps_SetRawMotion [keeps_rules]: "ignores_trace I \<Longrightarrow> keeps I (eglutXinputSetRawMotion E raw)"
  unfolding eglutXinputSetRawMotion_def
  by (intro keeps_rules) (auto simp: grab_device_def ungrab_device_def intro!: keeps_rules)

section \<open>Raw motion\<close>

text \<open>
  The symbols a device switch needs are all there: the state after a successful load of a
  complete libXi.
\<close>

definition rt_complete :: "xinput_rt \<Rightarrow> bool" where
  "rt_complete r \<longleftrightarrow> rt_QueryDevice r \<noteq> 0 \<and> rt_FreeDeviceInfo r \<noteq> 0 \<and> rt_GrabDevice r \<noteq> 0 \<and> rt_UngrabDevice r \<noteq> 0"

text \<open>The requests a switch sends for one device.\<close>

definition raw_requests :: "bool \<Rightarrow> handle \<Rightarrow> device_info \<Rightarrow> call list" where
  "raw_requests raw w d = (if dev_use d \<noteq> XIMasterPointer then [] else
     if raw then [Win UngrabPointer, Xi (GrabDevice (dev_id d) w raw_motion_mask)]
     else [Xi (UngrabDevice (dev_id d))])"

lemma wp_one_device:
  assumes "native_dpy s \<noteq> 0" and "rt_complete (xi_rt s)"
    and "raw \<Longrightarrow> current s = Some p \<and> p < length (windows s) \<and> native_window (windows s ! p) = w"
  shows "wp ((if raw then grab_device else ungrab_device) d) Q X s =
    Q () (s\<lparr>trace := trace s @ raw_requests raw w d\<rparr>)"
  using assms by (auto simp: wp_simps grab_device_def ungrab_device_def raw_requests_def
      cur_get_def rt_complete_def)

lemma wp_devices:
  assumes "native_dpy s \<noteq> 0" and "rt_complete (xi_rt s)"
    and "raw \<Longrightarrow> current s = Some p \<and> p < length (windows s) \<and> native_window (windows s ! p) = w"
    and "Q () (s\<lparr>trace := trace s @ concat (map (raw_requests raw w) ds)\<rparr>)"
  shows "wp (seqs (map (if raw then grab_device else ungrab_device) ds)) Q X s"
  using assms
proof (induction ds arbitrary: s)
  case Nil
  then show ?case by (simp add: wp_simps)
next
  case (Cons d ds)
  let ?t = "s\<lparr>trace := trace s @ raw_requests raw w d\<rparr>"
  have "wp (seqs (map (if raw then grab_device else ungrab_device) ds)) Q X ?t"
    using Cons.prems by (intro Cons.IH) simp_all
  then show ?case
    using wp_one_device[OF Cons.prems(1-3)] by (simp add: wp_seqp)
qed

text \<open>
  The whole switch: when XInput is available on an open display it answers true and sends, for
  each master pointer in the order of the device list, exactly its grab or ungrab, between the
  device query and the release of the list.
\<close>

lemma wp_SetRawMotion:
  assumes "xi_available (xi_state s)" and d: "native_dpy s \<noteq> 0" and r: "rt_complete (xi_rt s)"
    and c: "raw \<Longrightarrow> current s = Some p \<and> p < length (windows s) \<and> native_window (windows s ! p) = w"
    and q: "Q True (s\<lparr>trace := trace s @ Xi QueryDevice #
       concat (map (raw_requests raw w) (env_devices E (trace s @ [Xi QueryDevice]))) @ [Xi FreeDeviceInfo]\<rparr>)"
  shows "wp (eglutXinputSetRawMotion E raw) Q X s"
proof -
  let ?ds = "env_devices E (trace s @ [Xi QueryDevice])"
  let ?t = "s\<lparr>trace := trace s @ [Xi QueryDevice]\<rparr>"
  let ?Q = "\<lambda>_. wp (seqp (via rt_FreeDeviceInfo (log_call (Xi FreeDeviceInfo))) (ret True)) Q X"
  have "wp (seqs (map (if raw then grab_device else ungrab_device) ?ds)) ?Q X ?t"
    using d r c q by (intro wp_devices[where p = p and w = w]) (simp_all add: wp_simps rt_complete_def)
  with assms(1) d r show ?thesis
    by (cases raw) (simp_all add: eglutXinputSetRawMotion_def wp_simps rt_complete_def)
qed

lemma SetRawMotion_unavailable:
  "\<not> xi_available (xi_state s) \<or> native_dpy s = 0 \<Longrightarrow>
   wp (eglutXinputSetRawMotion E raw) Q X s = Q False s"
  by (auto simp: eglutXinputSetRawMotion_def wp_simps)

end
