(* ===== verification/Eglut_Native.thy ===== *)
theory Eglut_Native
  imports Xinput
begin

text \<open>
  The display, window, pointer and clipboard operations of \<^verbatim>\<open>eglut/src/eglut_x11.c\<close>, with the
  window getters and the PNG reader of \<^verbatim>\<open>eglut/src/eglut.c\<close> they call. The event handling of
  the same file is in \<open>Eglut_Events\<close>.
\<close>

section \<open>Window geometry\<close>

definition eglutGetWindowX :: "int eg" where
  "eglutGetWindowX = cur_get native_x"

definition eglutGetWindowY :: "int eg" where
  "eglutGetWindowY = cur_get native_y"

definition eglutGetWindowWidth :: "int eg" where
  "eglutGetWindowWidth = cur_get native_width"

definition eglutGetWindowHeight :: "int eg" where
  "eglutGetWindowHeight = cur_get native_height"

section \<open>Display\<close>

definition EGL_WINDOW_BIT :: int where "EGL_WINDOW_BIT = 4"
definition EGL_PIXMAP_BIT :: int where "EGL_PIXMAP_BIT = 2"
definition EGL_PBUFFER_BIT :: int where "EGL_PBUFFER_BIT = 1"

definition eglutFatal :: "string \<Rightarrow> 'a eg" where
  "eglutFatal format = seqp (log_call (Print (''EGLUT: '' @ format))) (stop (Fatal format))"

definition eglutNativeInitDisplay :: "xenv \<Rightarrow> unit eg" where
  "eglutNativeInitDisplay E =
     seqp (whenp (env_getenv E ''MCPELAUNCHER_FEATURE_IME'' = Some ''1'')
             (seqp (log_call (Win SetLocale)) (log_call (Win SetLocaleModifiers))))
    (andthen (getp display_name) (\<lambda>name.
     andthen (ask (env_handle E) (Win (OpenDisplay name))) (\<lambda>d.
     seqp (modp (\<lambda>s. s\<lparr>native_dpy := d\<rparr>))
    (if d = 0 then eglutFatal ''failed to initialize native display'' else
     seqp (modp (\<lambda>s. s\<lparr>surface_type := EGL_WINDOW_BIT\<rparr>)) (eglutInitXinput E)))))"

definition eglutNativeFiniDisplay :: "unit eg" where
  "eglutNativeFiniDisplay = seqp (xreq (Win CloseDisplay)) (modp (\<lambda>s. s\<lparr>native_dpy := 0\<rparr>))"

section \<open>Creating the X window\<close>

definition EGL_NATIVE_VISUAL_ID :: int where "EGL_NATIVE_VISUAL_ID = 0x302E"

text \<open>
  \<open>StructureNotify\<close>, \<open>Exposure\<close>, \<open>KeyPress\<close>, \<open>KeyRelease\<close>, \<open>PointerMotion\<close>, \<open>ButtonPress\<close>,
  \<open>ButtonRelease\<close> and \<open>FocusChange\<close>; then the attribute mask \<open>CWBackPixel\<close>, \<open>CWBorderPixel\<close>,
  \<open>CWColormap\<close>, \<open>CWEventMask\<close>.
\<close>

definition window_event_mask :: u32 where
  "window_event_mask = push_bit 17 1 OR push_bit 15 1 OR push_bit 0 1 OR push_bit 1 1 OR
     push_bit 6 1 OR push_bit 2 1 OR push_bit 3 1 OR push_bit 21 1"

definition window_attr_mask :: u32 where
  "window_attr_mask = push_bit 1 1 OR push_bit 3 1 OR push_bit 13 1 OR push_bit 11 1"

definition USPosition :: u32 where "USPosition = 1"
definition USSize :: u32 where "USSize = 2"
definition PWinGravity :: u32 where "PWinGravity = 512"
definition CenterGravity :: int where "CenterGravity = 5"

definition window_size_hints :: "int \<Rightarrow> int \<Rightarrow> int \<Rightarrow> int \<Rightarrow> size_hints" where
  "window_size_hints x y w h =
     (if x = -1 \<and> y = -1
      then \<lparr> sh_x = x, sh_y = y, sh_width = w, sh_height = h, sh_gravity = Some CenterGravity,
             sh_flags = USSize OR PWinGravity \<rparr>
      else \<lparr> sh_x = x, sh_y = y, sh_width = w, sh_height = h, sh_gravity = None,
             sh_flags = USSize OR USPosition \<rparr>)"

definition le32 :: "u32 \<Rightarrow> bytes" where
  "le32 w = map (\<lambda>i. ucast (drop_bit (8 * i) w)) [0, 1, 2, 3]"

definition XA_ATOM :: handle where "XA_ATOM = 4"

definition init_window_hints :: "handle \<Rightarrow> string \<Rightarrow> size_hints \<Rightarrow> unit eg" where
  "init_window_hints xwin title sh =
     seqp (xreq (Win (SetNormalHints xwin sh)))
    (seqp (xreq (Win (SetStandardProperties xwin title sh)))
    (andthen (getp (\<lambda>s. (class_instance_name s, class_name s))) (\<lambda>(inst, cls).
     xreq (Win (SetClassHint xwin inst (if cls = None then inst else cls))))))"

definition init_window_xinput :: "handle \<Rightarrow> unit eg" where
  "init_window_xinput xwin = andthen eglutIsXinputAvailable (\<lambda>a.
     whenp a (via rt_SelectEvents
       (xreq (Xi (SelectEvents xwin [XI_TOUCHBEGIN, XI_TOUCHUPDATE, XI_TOUCHEND])))))"

definition init_window_ime :: "xenv \<Rightarrow> handle \<Rightarrow> unit eg" where
  "init_window_ime E xwin = andthen (xask (env_handle E) (Win OpenIM)) (\<lambda>im.
     whenp (im \<noteq> 0) (andthen (ask (env_handle E) (Win (CreateIC im xwin))) (\<lambda>ic.
       modp (\<lambda>s. s\<lparr>x11_ic := ic\<rparr>))))"

definition init_window_props :: "xenv \<Rightarrow> handle \<Rightarrow> unit eg" where
  "init_window_props E xwin =
     andthen (intern E ''_NET_WM_PID'') (\<lambda>wm_pid.
     andthen (intern E ''CARDINAL'') (\<lambda>cardinal.
     seqp (xreq (Ipc (ChangeProperty xwin wm_pid cardinal 32 (le32 (env_pid E)) 4)))
    (andthen (intern E ''XdndAware'') (\<lambda>aware.
     xreq (Ipc (ChangeProperty xwin aware XA_ATOM 32 [5] 1))))))"

definition init_window_dnd :: "xenv \<Rightarrow> unit eg" where
  "init_window_dnd E =
     andthen (intern E ''XdndTypeList'') (\<lambda>a. seqp (modp (\<lambda>s. s\<lparr>XdndTypeList := a\<rparr>))
    (andthen (intern E ''XdndSelection'') (\<lambda>a. seqp (modp (\<lambda>s. s\<lparr>XdndSelection := a\<rparr>))
    (andthen (intern E ''XdndEnter'') (\<lambda>a. seqp (modp (\<lambda>s. s\<lparr>XdndEnter := a\<rparr>))
    (andthen (intern E ''XdndPosition'') (\<lambda>a. seqp (modp (\<lambda>s. s\<lparr>XdndPosition := a\<rparr>))
    (andthen (intern E ''XdndStatus'') (\<lambda>a. seqp (modp (\<lambda>s. s\<lparr>XdndStatus := a\<rparr>))
    (andthen (intern E ''XdndLeave'') (\<lambda>a. seqp (modp (\<lambda>s. s\<lparr>XdndLeave := a\<rparr>))
    (andthen (intern E ''XdndDrop'') (\<lambda>a. seqp (modp (\<lambda>s. s\<lparr>XdndDrop := a\<rparr>))
    (andthen (intern E ''XdndFinished'') (\<lambda>a. seqp (modp (\<lambda>s. s\<lparr>XdndFinished := a\<rparr>))
    (andthen (intern E ''XdndActionCopy'') (\<lambda>a. seqp (modp (\<lambda>s. s\<lparr>XdndActionCopy := a\<rparr>))
    (andthen (intern E ''text/uri-list'') (\<lambda>a. modp (\<lambda>s. s\<lparr>XtextUriList := a\<rparr>))))))))))))))))))))"

definition eglutNativeInitWindow :: "xenv \<Rightarrow> nat \<Rightarrow> string \<Rightarrow> int \<Rightarrow> int \<Rightarrow> int \<Rightarrow> int \<Rightarrow> unit eg" where
  "eglutNativeInitWindow E p title x y w h =
     andthen (win_get p win_config) (\<lambda>cfg.
     andthen (ask (\<lambda>t. (env_ok E t, env_int E t)) (Egl (GetConfigAttrib cfg EGL_NATIVE_VISUAL_ID))) (\<lambda>(ok, vid).
     if \<not> ok then eglutFatal ''failed to get visual id'' else
     andthen (xask (env_visual E) (Win (GetVisualInfo vid))) (\<lambda>vis.
     case vis of None \<Rightarrow> eglutFatal ''failed to get an visual of id 0x%x''
     | Some (visual, depth) \<Rightarrow>
     andthen (xask (env_handle E) (Win RootWindow)) (\<lambda>root.
     andthen (xask (env_handle E) (Win (CreateColormap root visual))) (\<lambda>cmap.
     andthen (xask (env_handle E)
        (Win (CreateWindow root x y w h depth visual window_attr_mask window_event_mask cmap))) (\<lambda>xwin.
     if xwin = 0 then eglutFatal ''failed to create a window'' else
     seqp (log_call (Win FreeVisualInfo))
    (seqp (init_window_hints xwin title (window_size_hints x y w h))
    (seqp (win_mod p (\<lambda>v. v\<lparr>native_window := xwin, native_width := w, native_height := h\<rparr>))
    (seqp (init_window_xinput xwin)
    (andthen (intern E ''WM_DELETE_WINDOW'') (\<lambda>del.
     seqp (xreq (Win (SetWMProtocols xwin [del])))
    (seqp (init_window_ime E xwin)
    (seqp (init_window_props E xwin)
          (init_window_dnd E))))))))))))))"

definition eglutShowWindow :: "unit eg" where
  "eglutShowWindow =
     seqp (andthen (cur_get native_window) (\<lambda>w. xreq (Win (MapWindow w))))
    (andthen (getp x11_ic) (\<lambda>ic. whenp (ic \<noteq> 0) (log_call (Win (SetICFocus ic)))))"

definition eglutNativeFiniWindow :: "nat \<Rightarrow> unit eg" where
  "eglutNativeFiniWindow p = andthen (win_get p native_window) (\<lambda>w. xreq (Win (DestroyWindow w)))"

section \<open>Class names, clipboard, full screen\<close>

text \<open>\<open>strdup\<close>: the copy, or the null pointer when the allocation fails.\<close>

definition strdup :: "xenv \<Rightarrow> 'a list \<Rightarrow> 'a list option eg" where
  "strdup E v = andthen (ask (env_handle E) (Png (Malloc (of_nat (length v) + 1)))) (\<lambda>h.
     ret (if h = 0 then None else Some v))"

definition eglutInitX11ClassInstanceName :: "xenv \<Rightarrow> string option \<Rightarrow> unit eg" where
  "eglutInitX11ClassInstanceName E v =
     andthen (getp class_instance_name) (\<lambda>old. seqp (whenp (old \<noteq> None) (log_call (Png Free)))
    (andthen (case v of None \<Rightarrow> ret None | Some n \<Rightarrow> strdup E n) (\<lambda>n.
     modp (\<lambda>s. s\<lparr>class_instance_name := n\<rparr>))))"

definition eglutInitX11ClassName :: "xenv \<Rightarrow> string option \<Rightarrow> unit eg" where
  "eglutInitX11ClassName E v =
     andthen (getp class_name) (\<lambda>old. seqp (whenp (old \<noteq> None) (log_call (Png Free)))
    (andthen (case v of None \<Rightarrow> ret None | Some n \<Rightarrow> strdup E n) (\<lambda>n.
     modp (\<lambda>s. s\<lparr>class_name := n\<rparr>))))"

definition eglutSetClipboardText :: "xenv \<Rightarrow> bytes \<Rightarrow> unit eg" where
  "eglutSetClipboardText E v =
     andthen (getp clipboard) (\<lambda>old. seqp (whenp (old \<noteq> None) (log_call (Png Free)))
    (andthen (strdup E (cstr v)) (\<lambda>n. seqp (modp (\<lambda>s. s\<lparr>clipboard := n\<rparr>))
    (andthen (intern E ''CLIPBOARD'') (\<lambda>cb.
     andthen (cur_get native_window) (\<lambda>w.
     seqp (xreq (Ipc (SetSelectionOwner cb w))) (xreq (Ipc Flush))))))))"

definition CurrentTime :: u64 where "CurrentTime = 0"

definition eglutRequestPaste :: "xenv \<Rightarrow> unit eg" where
  "eglutRequestPaste E =
     andthen (intern E ''CLIPBOARD'') (\<lambda>cb.
     andthen (xask (env_handle E) (Ipc (GetSelectionOwner cb))) (\<lambda>owner.
     if owner = 0 then ret () else
     andthen (intern E ''UTF8_STRING'') (\<lambda>utf8.
     andthen (intern E ''EGLUT_CLIPBOARD'') (\<lambda>app.
     andthen (cur_get native_window) (\<lambda>w.
     xreq (Ipc (ConvertSelection cb utf8 app w CurrentTime)))))))"

definition EGLUT_WINDOWED :: int where "EGLUT_WINDOWED = 0"
definition EGLUT_FULLSCREEN :: int where "EGLUT_FULLSCREEN = 1"

text \<open>\<open>SubstructureRedirectMask | SubstructureNotifyMask\<close>.\<close>

definition substructure_mask :: u32 where
  "substructure_mask = push_bit 20 1 OR push_bit 19 1"

definition eglutToggleFullscreen :: "xenv \<Rightarrow> int eg" where
  "eglutToggleFullscreen E =
     seqp (modp (\<lambda>s. s\<lparr>window_fullscreen :=
       (if window_fullscreen s = EGLUT_WINDOWED then EGLUT_FULLSCREEN else EGLUT_WINDOWED)\<rparr>))
    (andthen (intern E ''_NET_WM_STATE'') (\<lambda>wm_state.
     andthen (intern E ''_NET_WM_STATE_FULLSCREEN'') (\<lambda>fs.
     andthen (cur_get native_window) (\<lambda>w.
     andthen (getp window_fullscreen) (\<lambda>m.
     seqp (xreq (Win (MapWindow w)))
    (andthen (xask (env_handle E) (Win RootWindow)) (\<lambda>root.
     seqp (xreq (Ipc (SendEvent root False substructure_mask
       (ClientMsg w wm_state [Some (word_of_int m), Some fs, Some 0, Some 0, Some 0]))))
    (seqp (xreq (Ipc Flush))
          (ret (-1))))))))))"

definition eglutSwapBuffers :: "unit eg" where
  "eglutSwapBuffers = andthen (cur_get win_surface) (\<lambda>f. log_call (Egl (SwapBuffers f)))"

definition eglutSwapInterval :: "int \<Rightarrow> unit eg" where
  "eglutSwapInterval n = log_call (Egl (SwapInterval n))"

definition eglutGetDisplay :: "handle eg" where
  "eglutGetDisplay = getp native_dpy"

definition eglutGetWindowHandle :: "handle eg" where
  "eglutGetWindowHandle = cur_get native_window"

section \<open>The mouse pointer\<close>

definition eglutWarpMousePointer :: "int \<Rightarrow> int \<Rightarrow> unit eg" where
  "eglutWarpMousePointer x y = andthen (getp native_dpy) (\<lambda>d.
     if d = 0 then ret () else
     andthen (cur_get native_window) (\<lambda>w.
     seqp (xreq (Win (WarpPointer w x y))) (xreq (Ipc Flush))))"

definition EGLUT_POINTER_INVISIBLE :: int where "EGLUT_POINTER_INVISIBLE = 0"
definition EGLUT_POINTER_VISIBLE :: int where "EGLUT_POINTER_VISIBLE = 1"

text \<open>\<open>PointerMotionMask | ButtonPressMask | ButtonReleaseMask\<close>.\<close>

definition grab_mask :: u32 where
  "grab_mask = push_bit 6 1 OR push_bit 2 1 OR push_bit 3 1"

definition eglutSetMousePointerVisiblity :: "xenv \<Rightarrow> int \<Rightarrow> unit eg" where
  "eglutSetMousePointerVisiblity E visible = andthen (getp native_dpy) (\<lambda>d.
     if d = 0 then ret () else
     if visible = EGLUT_POINTER_INVISIBLE then
       andthen (cur_get native_window) (\<lambda>w.
       andthen (xask (env_handle E) (Win (CreateBitmapFromData w))) (\<lambda>bitmap.
       andthen (xask (env_handle E) (Win (CreatePixmapCursor bitmap))) (\<lambda>cursor.
       seqp (xreq (Win (DefineCursor w cursor)))
      (andthen (getp (\<lambda>s. rel_enabled s \<and> \<not> rel_raw_mode s)) (\<lambda>grab.
       seqp (whenp grab (seqp (xreq (Win (GrabPointer w grab_mask cursor)))
                              (modp (\<lambda>s. s\<lparr>cursor_grabbed := True\<rparr>))))
      (seqp (xreq (Win (FreeCursor cursor)))
            (xreq (Win (FreePixmap bitmap)))))))))
     else if visible = EGLUT_POINTER_VISIBLE then
       andthen (cur_get native_window) (\<lambda>w.
       seqp (xreq (Win (UndefineCursor w)))
      (andthen (getp cursor_grabbed) (\<lambda>g.
       whenp g (seqp (xreq (Win UngrabPointer)) (modp (\<lambda>s. s\<lparr>cursor_grabbed := False\<rparr>))))))
     else ret ())"

definition set_lock_mode :: "xenv \<Rightarrow> bool \<Rightarrow> unit eg" where
  "set_lock_mode E locked = andthen (eglutXinputSetRawMotion E locked) (\<lambda>r.
     seqp (modp (\<lambda>s. s\<lparr>rel_raw_mode := (r \<and> locked)\<rparr>))
          (eglutSetMousePointerVisiblity E (if locked then EGLUT_POINTER_INVISIBLE else EGLUT_POINTER_VISIBLE)))"

definition eglutSetMousePointerLocked :: "xenv \<Rightarrow> bool \<Rightarrow> unit eg" where
  "eglutSetMousePointerLocked E locked =
     seqp (whenp locked
       (andthen eglutGetWindowWidth (\<lambda>w.
        seqp (modp (\<lambda>s. s\<lparr>rel_last_x := w sdiv 2\<rparr>))
       (andthen eglutGetWindowHeight (\<lambda>h.
        seqp (modp (\<lambda>s. s\<lparr>rel_last_y := h sdiv 2\<rparr>))
             (eglutWarpMousePointer (w sdiv 2) (h sdiv 2)))))))
    (andthen (getp rel_enabled) (\<lambda>on.
     seqp (whenp (locked \<and> \<not> on)
       (andthen (cur_get native_window) (\<lambda>w. xreq (Win (SetInputFocus w)))))
    (seqp (modp (\<lambda>s. s\<lparr>rel_enabled := locked\<rparr>)) (set_lock_mode E locked))))"

section \<open>Reading the icon\<close>

definition PNG_COLOR_TYPE_RGB :: int where "PNG_COLOR_TYPE_RGB = 2"
definition PNG_COLOR_TYPE_PALETTE :: int where "PNG_COLOR_TYPE_PALETTE = 3"
definition PNG_COLOR_TYPE_RGBA :: int where "PNG_COLOR_TYPE_RGBA = 6"

text \<open>
  \<open>_eglutReadPNG\<close>: the pixel bytes with the width and height, or nothing. The file is opened
  and never closed on any path.
\<close>

definition png_transform :: "xenv \<Rightarrow> png_header \<Rightarrow> unit eg" where
  "png_transform E hdr =
     seqp (if ihdr_color hdr = PNG_COLOR_TYPE_PALETTE then
             seqp (log_call (Png SetPaletteToRGB))
            (andthen (ask (env_ok E) (Png GetValidTRNS)) (\<lambda>v.
             seqp (log_call (Png (if v then SetTRNSToAlpha else SetAddAlpha)))
                  (log_call (Png ReadUpdateInfo))))
           else
             andthen (if ihdr_depth hdr < 8 then ret True else ask (env_ok E) (Png GetValidTRNS)) (\<lambda>v.
             whenp v (seqp (log_call (Png SetExpand)) (log_call (Png ReadUpdateInfo)))))
          (whenp (ihdr_depth hdr = 16) (seqp (log_call (Png SetStrip16)) (log_call (Png ReadUpdateInfo))))"

definition png_row_offsets :: "u64 \<Rightarrow> u32 \<Rightarrow> u64 list" where
  "png_row_offsets row_bytes height = map (\<lambda>i. of_nat i * row_bytes) [0..<unat height]"

definition png_read_pixels :: "xenv \<Rightarrow> png_header \<Rightarrow> (bytes \<times> u32 \<times> u32) option eg" where
  "png_read_pixels E hdr =
     andthen (ask (env_handle E) (Png GetRowbytes)) (\<lambda>row_bytes.
     andthen (ask (env_handle E) (Png (Malloc (8 * ucast (ihdr_height hdr))))) (\<lambda>rows.
     andthen (ask (env_handle E) (Png (Malloc (row_bytes * ucast (ihdr_height hdr))))) (\<lambda>data.
     if rows = 0 \<or> data = 0 then
       seqp (log_call (Print ''_eglutReadPNG: malloc failed''))
      (seqp (log_call (Png DestroyReadStruct))
      (seqp (whenp (rows \<noteq> 0) (log_call (Png Free)))
            (ret None)))
     else
       andthen (ask (env_image E) (Png (ReadImage (png_row_offsets row_bytes (ihdr_height hdr))))) (\<lambda>img.
       seqp (log_call (Png DestroyReadStruct))
      (seqp (log_call (Png Free))
            (ret (Some (img, ihdr_width hdr, ihdr_height hdr))))))))"

definition eglutReadPNG :: "xenv \<Rightarrow> string \<Rightarrow> (bytes \<times> u32 \<times> u32) option eg" where
  "eglutReadPNG E filename =
     andthen (ask (env_handle E) (Png (Fopen filename))) (\<lambda>file.
     if file = 0 then seqp (log_call (Print ''_eglutReadPNG: fopen failed'')) (ret None) else
     andthen (ask (env_handle E) (Png CreateReadStruct)) (\<lambda>png.
     if png = 0 then seqp (log_call (Print ''_eglutReadPNG: png_create_read_struct error'')) (ret None) else
     andthen (ask (env_handle E) (Png CreateInfoStruct)) (\<lambda>info.
     if info = 0 then
       seqp (log_call (Print ''_eglutReadPNG: png_create_info_struct error''))
      (seqp (log_call (Png DestroyReadStruct)) (ret None)) else
     seqp (log_call (Png InitIO))
    (seqp (log_call (Png ReadInfo))
    (andthen (ask (env_ihdr E) (Png GetIHDR)) (\<lambda>hdr.
     if ihdr_color hdr = PNG_COLOR_TYPE_RGB then
       seqp (log_call (Png SetAddAlpha))
      (seqp (log_call (Png ReadUpdateInfo))
      (seqp (png_transform E hdr) (png_read_pixels E hdr)))
     else if ihdr_color hdr \<noteq> PNG_COLOR_TYPE_RGBA \<and> ihdr_color hdr \<noteq> PNG_COLOR_TYPE_PALETTE then
       seqp (log_call (Print ''_eglutReadPNG: unsupported color type''))
      (seqp (log_call (Png DestroyReadStruct)) (ret None))
     else seqp (png_transform E hdr) (png_read_pixels E hdr)))))))"

section \<open>Setting the icon\<close>

text \<open>Byte stores into the property buffer; a store outside the block has no value.\<close>

definition poke :: "nat \<Rightarrow> u8 \<Rightarrow> bytes \<Rightarrow> bytes option" where
  "poke i v d = (if i < length d then Some (d[i := v]) else None)"

fun pokes :: "nat \<Rightarrow> bytes \<Rightarrow> bytes \<Rightarrow> bytes option" where
  "pokes i [] d = Some d"
| "pokes i (v # vs) d = (case poke i v d of None \<Rightarrow> None | Some d' \<Rightarrow> pokes (Suc i) vs d')"

definition peek :: "bytes \<Rightarrow> nat \<Rightarrow> u8 option" where
  "peek d i = (if i < length d then Some (d ! i) else None)"

text \<open>One iteration of the pixel loop, at \<open>i = 4 * k\<close>: red and blue change places.\<close>

definition icon_pixel :: "bytes \<Rightarrow> nat \<Rightarrow> bytes \<Rightarrow> bytes option" where
  "icon_pixel img k d = (case (peek img (4 * k + 3), peek img (4 * k), peek img (4 * k + 1), peek img (4 * k + 2)) of
     (Some a, Some r, Some g, Some b) \<Rightarrow> pokes (8 + 4 * k) [b, g, r, a] d
   | _ \<Rightarrow> None)"

fun icon_loop :: "bytes \<Rightarrow> nat \<Rightarrow> bytes \<Rightarrow> bytes option" where
  "icon_loop img 0 d = icon_pixel img 0 d"
| "icon_loop img (Suc k) d = (case icon_pixel img (Suc k) d of None \<Rightarrow> None | Some d' \<Rightarrow> icon_loop img k d')"

definition icon_data :: "u32 \<Rightarrow> u32 \<Rightarrow> bytes \<Rightarrow> bytes \<Rightarrow> bytes option" where
  "icon_data w h img d = (case pokes 0 (le32 w) d of None \<Rightarrow> None | Some d1 \<Rightarrow>
     (case pokes 4 (le32 h) d1 of None \<Rightarrow> None | Some d2 \<Rightarrow>
        icon_loop img (unat ((w * h - 1) * 4) div 4) d2))"

text \<open>
  The sizes are \<open>unsigned int\<close> products. A fresh block has arbitrary contents of the size
  asked for.
\<close>

definition fresh_block :: "u32 \<Rightarrow> bytes \<Rightarrow> bytes" where
  "fresh_block n junk = take (unat n) (junk @ replicate (unat n) 0)"

definition eglutSetWindowIcon :: "xenv \<Rightarrow> string \<Rightarrow> unit eg" where
  "eglutSetWindowIcon E path =
     andthen (intern E ''_NET_WM_ICON'') (\<lambda>wm_icon.
     andthen (intern E ''CARDINAL'') (\<lambda>cardinal.
     andthen (eglutReadPNG E path) (\<lambda>r.
     seqp (case r of None \<Rightarrow> ret ()
       | Some (img, w, h) \<Rightarrow>
         andthen (ask (\<lambda>t. (env_handle E t, env_image E t)) (Png (Malloc (ucast ((w * h + 2) * 4))))) (\<lambda>(m, junk).
         if m = 0 then stop NullPointer else
         case icon_data w h img (fresh_block ((w * h + 2) * 4) junk) of
           None \<Rightarrow> stop OutOfBounds
         | Some d \<Rightarrow> andthen (cur_get native_window) (\<lambda>win.
             xreq (Ipc (ChangeProperty win wm_icon cardinal 32 d (unat (w * h + 2)))))))
    (log_call (Png Free)))))"

section \<open>Key symbols\<close>

definition lookup_keysym :: "u64 \<Rightarrow> int" where
  "lookup_keysym keysym =
     (if keysym = 0xffbe then 0 else if keysym = 0xffbf then 1 else if keysym = 0xffc0 then 2 else
      if keysym = 0xffc1 then 3 else if keysym = 0xffc2 then 4 else if keysym = 0xffc3 then 5 else
      if keysym = 0xffc4 then 6 else if keysym = 0xffc5 then 7 else if keysym = 0xffc6 then 8 else
      if keysym = 0xffc7 then 9 else if keysym = 0xffc8 then 10 else if keysym = 0xffc9 then 11 else
      if keysym = 0xff96 \<or> keysym = 0xff51 then 12 else
      if keysym = 0xff97 \<or> keysym = 0xff52 then 13 else
      if keysym = 0xff98 \<or> keysym = 0xff53 then 14 else
      if keysym = 0xff99 \<or> keysym = 0xff54 then 15 else -1)"

section \<open>The icon property\<close>

text \<open>The pixels of an image in the order of the property: blue, green, red, alpha.\<close>

definition icon_pixels :: "bytes \<Rightarrow> nat \<Rightarrow> bytes" where
  "icon_pixels img n = concat (map (\<lambda>k. [img ! (4 * k + 2), img ! (4 * k + 1), img ! (4 * k), img ! (4 * k + 3)]) [0..<n])"

lemma length_icon_pixels [simp]: "length (icon_pixels img n) = 4 * n"
  by (induction n) (simp_all add: icon_pixels_def)

lemma icon_pixels_Suc:
  "icon_pixels img (Suc n) = icon_pixels img n @
     [img ! (4 * n + 2), img ! (4 * n + 1), img ! (4 * n), img ! (4 * n + 3)]"
  by (simp add: icon_pixels_def)

lemma length_le32 [simp]: "length (le32 w) = 4"
  by (simp add: le32_def)

lemma pokes_in_range:
  "i + length vs \<le> length d \<Longrightarrow> pokes i vs d = Some (take i d @ vs @ drop (i + length vs) d)"
proof (induction vs arbitrary: i d)
  case (Cons v vs)
  then have "pokes (Suc i) vs (d[i := v]) = Some (take (Suc i) (d[i := v]) @ vs @ drop (Suc i + length vs) (d[i := v]))"
    by (intro Cons.IH) simp
  with Cons.prems show ?case
    by (simp add: poke_def take_Suc_conv_app_nth)
qed simp

lemma icon_pixel_in_range:
  "4 * Suc k \<le> length img \<Longrightarrow> 8 + 4 * Suc k \<le> length d \<Longrightarrow>
   icon_pixel img k d = Some (take (8 + 4 * k) d @
     [img ! (4 * k + 2), img ! (4 * k + 1), img ! (4 * k), img ! (4 * k + 3)] @ drop (8 + 4 * Suc k) d)"
  by (simp add: icon_pixel_def peek_def pokes_in_range del: pokes.simps)

lemma icon_loop_in_range:
  "4 * Suc k \<le> length img \<Longrightarrow> 8 + 4 * Suc k \<le> length d \<Longrightarrow>
   icon_loop img k d = Some (take 8 d @ icon_pixels img (Suc k) @ drop (8 + 4 * Suc k) d)"
proof (induction k arbitrary: d)
  case 0
  then show ?case using icon_pixel_in_range[of 0 img d] by (simp add: icon_pixels_def)
next
  case (Suc k)
  let ?px = "[img ! (4 * Suc k + 2), img ! (4 * Suc k + 1), img ! (4 * Suc k), img ! (4 * Suc k + 3)]"
  let ?d = "take (8 + 4 * Suc k) d @ ?px @ drop (8 + 4 * Suc (Suc k)) d"
  have "icon_pixel img (Suc k) d = Some ?d"
    using Suc.prems by (rule icon_pixel_in_range)
  moreover have "icon_loop img k ?d = Some (take 8 ?d @ icon_pixels img (Suc k) @ drop (8 + 4 * Suc k) ?d)"
    using Suc.prems by (intro Suc.IH) simp_all
  moreover have "take 8 ?d = take 8 d" using Suc.prems by (simp add: min_def)
  moreover have "drop (8 + 4 * Suc k) ?d = ?px @ drop (8 + 4 * Suc (Suc k)) d"
    using Suc.prems by (simp add: min_def)
  moreover have "icon_pixels img (Suc (Suc k)) = icon_pixels img (Suc k) @ ?px"
    by (rule icon_pixels_Suc)
  ultimately show ?case by (simp only: icon_loop.simps option.case append_assoc)
qed

text \<open>
  The \<open>unsigned int\<close> products do not wrap for an image of fewer than \<open>2^30 - 2\<close> pixels.
\<close>

lemma icon_sizes:
  fixes w h :: u32
  assumes "0 < unat w * unat h" and "unat w * unat h < 2 ^ 30 - 2"
  shows "unat (w * h) = unat w * unat h" and "unat (w * h + 2) = unat w * unat h + 2"
    and "unat ((w * h + 2) * 4) = 4 * (unat w * unat h) + 8"
    and "unat ((w * h - 1) * 4) div 4 = unat w * unat h - 1"
proof -
  show p: "unat (w * h) = unat w * unat h"
    using assms by (simp add: unat_mult_lem[THEN iffD1])
  show p2: "unat (w * h + 2) = unat w * unat h + 2"
    using assms p by (simp add: unat_word_ariths)
  define n where "n = unat w * unat h"
  have n: "0 < n" "n < 2 ^ 30 - 2" using assms by (simp_all add: n_def)
  have "unat ((w * h + 2) * 4) = (n + 2) * 4 mod 2 ^ 32"
    unfolding unat_word_ariths(2) p2 n_def by simp
  then show "unat ((w * h + 2) * 4) = 4 * (unat w * unat h) + 8"
    using n by (simp add: n_def[symmetric])
  have "w * h \<noteq> 0" using assms(1) p by (metis unat_0 less_irrefl)
  then have m1: "unat (w * h - 1) = unat w * unat h - 1"
    using p by (simp add: unat_minus_one)
  have "unat ((w * h - 1) * 4) = (n - 1) * 4 mod 2 ^ 32"
    unfolding unat_word_ariths(2) m1 n_def by simp
  then show "unat ((w * h - 1) * 4) div 4 = unat w * unat h - 1"
    using n by (simp add: n_def[symmetric])
qed

lemma length_fresh_block [simp]: "length (fresh_block n junk) = unat n"
  by (simp add: fresh_block_def)

lemma icon_data_in_range:
  assumes "0 < unat w * unat h" and "unat w * unat h < 2 ^ 30 - 2"
    and "4 * (unat w * unat h) \<le> length img"
  shows "icon_data w h img (fresh_block ((w * h + 2) * 4) junk) =
    Some (le32 w @ le32 h @ icon_pixels img (unat w * unat h))"
proof -
  let ?n = "unat w * unat h"
  let ?b = "fresh_block ((w * h + 2) * 4) junk"
  let ?b1 = "le32 w @ drop 4 ?b" and ?b2 = "le32 w @ le32 h @ drop 8 ?b"
  have len: "length ?b = 4 * ?n + 8" using icon_sizes[OF assms(1,2)] by simp
  have "pokes 0 (le32 w) ?b = Some ?b1" using len by (simp add: pokes_in_range)
  moreover have "pokes 4 (le32 h) ?b1 = Some ?b2" using len by (simp add: pokes_in_range)
  moreover obtain k where k: "?n = Suc k" using assms(1) by (cases ?n) auto
  then have "icon_loop img k ?b2 = Some (take 8 ?b2 @ icon_pixels img (Suc k) @ drop (8 + 4 * Suc k) ?b2)"
    using assms(3) len by (intro icon_loop_in_range) simp_all
  moreover have "drop (8 + 4 * Suc k) ?b2 = []" using k len by simp
  ultimately show ?thesis
    using icon_sizes(4)[OF assms(1,2)] k by (simp add: icon_data_def)
qed

section \<open>The pointer grab\<close>

text \<open>
  Whether the X server holds a core pointer grab for the program, read off the requests, is
  the abstract state the flag \<open>cursor_grabbed\<close> stands for.
\<close>

definition grab_step :: "call \<Rightarrow> bool \<Rightarrow> bool" where
  "grab_step c g = (case c of Win (GrabPointer _ _ _) \<Rightarrow> True | Win UngrabPointer \<Rightarrow> False | _ \<Rightarrow> g)"

definition core_grab :: "call list \<Rightarrow> bool" where
  "core_grab t = fold grab_step t False"

lemma core_grab_Nil [simp]: "core_grab [] = False"
  by (simp add: core_grab_def)

lemma core_grab_append [simp]: "core_grab (t @ u) = fold grab_step u (core_grab t)"
  by (simp add: core_grab_def)

lemma raw_requests_no_grab: "fold grab_step (concat (map (raw_requests raw w) ds)) False = False"
  by (induction ds) (simp_all add: raw_requests_def grab_step_def)

lemma raw_requests_ungrab: "fold grab_step (concat (map (raw_requests False w) ds)) g = g"
  by (induction ds arbitrary: g) (simp_all add: raw_requests_def grab_step_def)

text \<open>The display is open, there is a window, and libXi is complete when it is used.\<close>

definition pointer_ready :: "eglut_state \<Rightarrow> bool" where
  "pointer_ready s \<longleftrightarrow> native_dpy s \<noteq> 0 \<and> rt_complete (xi_rt s) \<and>
     (\<exists>p. current s = Some p \<and> p < length (windows s))"

definition pointer_inv :: "eglut_state \<Rightarrow> bool" where
  "pointer_inv s \<longleftrightarrow> pointer_ready s \<and> core_grab (trace s) = cursor_grabbed s \<and>
     (xi_available (xi_state s) \<longrightarrow> \<not> cursor_grabbed s \<and> (rel_enabled s \<longrightarrow> rel_raw_mode s))"

text \<open>The current window and what the pointer operations leave alone.\<close>

definition cur :: "eglut_state \<Rightarrow> eglut_window" where
  "cur s = windows s ! the (current s)"

definition same_window :: "eglut_state \<Rightarrow> eglut_state \<Rightarrow> bool" where
  "same_window s t \<longleftrightarrow> native_dpy t = native_dpy s \<and> windows t = windows s \<and> current t = current s \<and>
     xi_state t = xi_state s \<and> xi_rt t = xi_rt s"

lemma wp_cur_get [wp_simps]:
  "wp (cur_get f) Q X s = (case current s of None \<Rightarrow> X NullWindow s
     | Some p \<Rightarrow> if p < length (windows s) then Q (f (windows s ! p)) s else X NullWindow s)"
  by (simp add: cur_get_def wp_simps split: option.split)

lemma Visiblity_wp:
  assumes "pointer_inv s"
  shows "wp (eglutSetMousePointerVisiblity E v) (\<lambda>_ t. pointer_inv t \<and> same_window s t \<and>
      rel_enabled t = rel_enabled s \<and> rel_raw_mode t = rel_raw_mode s \<and>
      rel_last_x t = rel_last_x s \<and> rel_last_y t = rel_last_y s \<and>
      cursor_grabbed t = (if v = EGLUT_POINTER_INVISIBLE then cursor_grabbed s \<or> rel_enabled s \<and> \<not> rel_raw_mode s
        else v \<noteq> EGLUT_POINTER_VISIBLE \<and> cursor_grabbed s)) (\<lambda>_ _. False) s"
  using assms
  by (auto simp: eglutSetMousePointerVisiblity_def wp_simps pointer_inv_def pointer_ready_def
      same_window_def grab_step_def EGLUT_POINTER_INVISIBLE_def EGLUT_POINTER_VISIBLE_def)

lemma RawMotion_wp:
  assumes ready: "pointer_ready s"
  shows "wp (eglutXinputSetRawMotion E raw) (\<lambda>r t. r = xi_available (xi_state s) \<and>
     (\<exists>c. t = s\<lparr>trace := c\<rparr> \<and> (core_grab (trace s) = cursor_grabbed s \<longrightarrow>
        (xi_available (xi_state s) \<longrightarrow> \<not> cursor_grabbed s) \<longrightarrow> core_grab c = cursor_grabbed s))) (\<lambda>_ _. False) s"
proof (cases "xi_available (xi_state s)")
  case False
  have "\<exists>c. s = s\<lparr>trace := c\<rparr> \<and> (core_grab (trace s) = cursor_grabbed s \<longrightarrow> core_grab c = cursor_grabbed s)"
    by (rule exI[of _ "trace s"]) simp
  with False show ?thesis by (auto simp: SetRawMotion_unavailable)
next
  case True
  obtain p where p: "current s = Some p" "p < length (windows s)"
    using ready by (auto simp: pointer_ready_def)
  have d: "native_dpy s \<noteq> 0" and r: "rt_complete (xi_rt s)"
    using ready by (auto simp: pointer_ready_def)
  let ?c = "trace s @ Xi QueryDevice # concat (map (raw_requests raw (native_window (windows s ! p)))
      (env_devices E (trace s @ [Xi QueryDevice]))) @ [Xi FreeDeviceInfo]"
  have g: "core_grab (trace s) = cursor_grabbed s \<Longrightarrow> \<not> cursor_grabbed s \<Longrightarrow> \<not> core_grab ?c"
    using raw_requests_no_grab by (simp add: grab_step_def)
  show ?thesis
    by (rule wp_SetRawMotion[OF True d r, where p = p and w = "native_window (windows s ! p)"])
      (use p True g in auto)
qed

lemma Locked_wp:
  assumes inv: "pointer_inv s"
  shows "wp (eglutSetMousePointerLocked E locked) (\<lambda>_ t. pointer_inv t \<and> same_window s t \<and>
      rel_enabled t = locked \<and> rel_raw_mode t = (locked \<and> xi_available (xi_state s)) \<and>
      cursor_grabbed t = (locked \<and> \<not> xi_available (xi_state s)) \<and>
      (rel_last_x t, rel_last_y t) = (if locked then (native_width (cur s) sdiv 2, native_height (cur s) sdiv 2)
         else (rel_last_x s, rel_last_y s))) (\<lambda>_ _. False) s"
proof -
  obtain p where p: "current s = Some p" "p < length (windows s)"
    and d: "native_dpy s \<noteq> 0" and rt: "rt_complete (xi_rt s)"
    using inv by (auto simp: pointer_inv_def pointer_ready_def)
  let ?xy = "if locked then (native_width (cur s) sdiv 2, native_height (cur s) sdiv 2)
         else (rel_last_x s, rel_last_y s)"
  let ?Q = "\<lambda>_ t. pointer_inv t \<and> same_window s t \<and> rel_enabled t = locked \<and>
      rel_raw_mode t = (locked \<and> xi_available (xi_state s)) \<and>
      cursor_grabbed t = (locked \<and> \<not> xi_available (xi_state s)) \<and> (rel_last_x t, rel_last_y t) = ?xy"
  have tail: "wp (set_lock_mode E locked) ?Q (\<lambda>_ _. False) u"
    if u: "pointer_ready u" "core_grab (trace u) = cursor_grabbed u" "cursor_grabbed u = cursor_grabbed s"
      "same_window s u" "rel_enabled u = locked" "(rel_last_x u, rel_last_y u) = ?xy" for u
  proof -
    have ng: "xi_available (xi_state s) \<longrightarrow> \<not> cursor_grabbed s"
      using inv by (simp add: pointer_inv_def)
    let ?v = "if locked then EGLUT_POINTER_INVISIBLE else EGLUT_POINTER_VISIBLE"
    have vis: "wp (eglutSetMousePointerVisiblity E ?v) ?Q (\<lambda>_ _. False)
        (u\<lparr>trace := c, rel_raw_mode := xi_available (xi_state s) \<and> locked\<rparr>)"
      if "core_grab c = cursor_grabbed u" for c
      by (rule wp_mono[OF Visiblity_wp])
        (use u ng that in \<open>auto simp: pointer_inv_def pointer_ready_def same_window_def
           EGLUT_POINTER_INVISIBLE_def EGLUT_POINTER_VISIBLE_def\<close>)
    show ?thesis unfolding set_lock_mode_def wp_andthen
      by (rule wp_mono[OF RawMotion_wp[OF u(1)]])
        (use u ng vis in \<open>auto simp: wp_simps same_window_def\<close>)
  qed
  have g: "core_grab (trace s) = cursor_grabbed s" using inv by (simp add: pointer_inv_def)
  let ?e = "\<lambda>u. u\<lparr>rel_enabled := locked\<rparr>"
  let ?l = "\<lambda>u. u\<lparr>rel_last_x := native_width (cur s) sdiv 2, rel_last_y := native_height (cur s) sdiv 2\<rparr>"
  let ?w = "native_window (cur s)"
  let ?t1 = "trace s @ [Win (WarpPointer ?w (native_width (cur s) sdiv 2) (native_height (cur s) sdiv 2)), Ipc Flush]"
  have c: "cur s = windows s ! p" using p by (simp add: cur_def)
  have gs: "core_grab ?t1 = cursor_grabbed s" "core_grab (?t1 @ [Win (SetInputFocus ?w)]) = cursor_grabbed s"
    using g by (simp_all add: grab_step_def)
  have f: "wp (set_lock_mode E False) ?Q (\<lambda>_ _. False) (?e s)" if "\<not> locked"
    using that p d rt g tail[of "?e s"] by (simp add: pointer_ready_def same_window_def)
  have o: "wp (set_lock_mode E True) ?Q (\<lambda>_ _. False) (?e (?l s\<lparr>trace := ?t1\<rparr>))" if "locked"
    using that p d rt gs(1) tail[of "?e (?l s\<lparr>trace := ?t1\<rparr>)"] by (simp add: pointer_ready_def same_window_def)
  have n: "wp (set_lock_mode E True) ?Q (\<lambda>_ _. False) (?e (?l s\<lparr>trace := ?t1 @ [Win (SetInputFocus ?w)]\<rparr>))" if "locked"
    using that p d rt gs(2) tail[of "?e (?l s\<lparr>trace := ?t1 @ [Win (SetInputFocus ?w)]\<rparr>)"]
    by (simp add: pointer_ready_def same_window_def)
  show ?thesis
    unfolding eglutSetMousePointerLocked_def eglutWarpMousePointer_def eglutGetWindowWidth_def eglutGetWindowHeight_def
    by (cases locked; cases "rel_enabled s") (use p d c f o n in \<open>simp_all add: wp_simps\<close>)
qed

text \<open>The pointer operations in any order.\<close>

datatype pointer_op = Lock bool | Visiblity int | Warp int int | RawMotion bool

definition run_pointer :: "xenv \<Rightarrow> pointer_op \<Rightarrow> unit eg" where
  "run_pointer E op = (case op of
     Lock b \<Rightarrow> eglutSetMousePointerLocked E b
   | Visiblity v \<Rightarrow> eglutSetMousePointerVisiblity E v
   | Warp x y \<Rightarrow> eglutWarpMousePointer x y
   | RawMotion b \<Rightarrow> seqp (eglutXinputSetRawMotion E b) (ret ()))"

inductive pointer_step :: "xenv \<Rightarrow> eglut_state \<Rightarrow> eglut_state \<Rightarrow> bool" for E where
  pointer_step: "run_pointer E op s = (out, t) \<Longrightarrow> pointer_step E s t"

lemma Warp_wp:
  "pointer_inv s \<Longrightarrow> wp (eglutWarpMousePointer x y) (\<lambda>_. pointer_inv) (\<lambda>_ _. False) s"
  by (auto simp: eglutWarpMousePointer_def wp_simps pointer_inv_def pointer_ready_def grab_step_def)

lemma run_pointer_wp:
  assumes "pointer_inv s"
  shows "wp (run_pointer E op) (\<lambda>_. pointer_inv) (\<lambda>_ _. False) s"
proof (cases op)
  case (RawMotion b)
  have "pointer_ready s" using assms by (simp add: pointer_inv_def)
  from RawMotion_wp[OF this] show ?thesis
    unfolding run_pointer_def RawMotion pointer_op.case wp_seqp
    by (rule wp_mono) (use assms in \<open>auto simp: wp_simps pointer_inv_def pointer_ready_def\<close>)
qed (simp_all add: run_pointer_def Warp_wp assms
      wp_mono[OF Locked_wp[OF assms]] wp_mono[OF Visiblity_wp[OF assms]])

interpretation pointer: transition_system pointer_inv "pointer_step E" pointer_inv for E
proof
  fix s t assume s: "pointer_inv s" and "pointer_step E s t"
  then obtain op out where "run_pointer E op s = (out, t)" by (auto elim: pointer_step.cases)
  with wp_returns[OF run_pointer_wp[OF s, of E op]] show "pointer_inv t" by auto
qed

text \<open>
  Through any sequence of pointer operations (locking and unlocking, showing and hiding
  the cursor, warping, switching raw motion), started with an open display, a current window
  and the flag in step with the server, the flag \<open>_eglutCursorGrabbed\<close> stays equal to the
  core pointer grab the requests sent so far leave in force, every further operation returns,
  and a core grab is never held together with XInput raw motion.
\<close>

theorem pointer_grab_tracked:
  assumes "pointer_inv s" and "(pointer_step E)\<^sup>*\<^sup>* s t"
  shows "core_grab (trace t) = cursor_grabbed t \<and> (\<exists>u. run_pointer E op t = (Inr (), u)) \<and>
    \<not> (core_grab (trace t) \<and> xi_available (xi_state t))"
proof -
  have t: "pointer_inv t" using assms by (rule pointer.inv_reachable)
  moreover have "\<exists>u. run_pointer E op t = (Inr (), u)"
    using wp_returns[OF run_pointer_wp[OF t, of E op]] by auto
  ultimately show ?thesis by (auto simp: pointer_inv_def)
qed

text \<open>A state with an open display and one window of 640 by 480.\<close>

definition one_window :: eglut_state where
  "one_window = initial_state\<lparr> native_dpy := 1, num_windows := 1, current := Some 0,
     windows := [calloc_window\<lparr>native_window := 7, native_width := 640, native_height := 480\<rparr>],
     xi_rt := (xi_rt initial_state)\<lparr> rt_handle := 1, rt_QueryDevice := 2, rt_FreeDeviceInfo := 3,
       rt_GrabDevice := 4, rt_UngrabDevice := 5 \<rparr> \<rparr>"

lemma pointer_inv_one_window: "pointer_inv one_window"
  by (simp add: pointer_inv_def pointer_ready_def rt_complete_def one_window_def initial_state_def)

text \<open>Locking without XInput takes the grab; the flag and the server agree.\<close>

theorem pointer_grab_tracked_witness:
  "core_grab (trace (snd (run_pointer quiet_env (Lock True) one_window))) \<and>
   cursor_grabbed (snd (run_pointer quiet_env (Lock True) one_window))"
proof -
  let ?t = "snd (run_pointer quiet_env (Lock True) one_window)"
  have "(pointer_step quiet_env)\<^sup>*\<^sup>* one_window ?t"
    by (intro r_into_rtranclp pointer_step) (rule prod.collapse[symmetric])
  from pointer_grab_tracked[OF pointer_inv_one_window this]
  have "core_grab (trace ?t) = cursor_grabbed ?t" by simp
  moreover have "cursor_grabbed ?t"
    using wp_returns[OF Locked_wp[OF pointer_inv_one_window, of quiet_env True]]
    by (auto simp: run_pointer_def one_window_def initial_state_def)
  ultimately show ?thesis by simp
qed

text \<open>
  Locking the pointer centres the reference position of relative motion, turns on raw
  motion when XInput is available and otherwise grabs the pointer; unlocking turns all of
  this off again and releases the grab. Both return, and leave display and windows alone.
\<close>

theorem pointer_lock_effect:
  assumes "pointer_inv s"
  shows "\<exists>t. eglutSetMousePointerLocked E locked s = (Inr (), t) \<and>
    rel_enabled t = locked \<and> rel_raw_mode t = (locked \<and> xi_available (xi_state s)) \<and>
    core_grab (trace t) = (locked \<and> \<not> xi_available (xi_state s)) \<and>
    (locked \<longrightarrow> rel_last_x t = native_width (cur s) sdiv 2 \<and> rel_last_y t = native_height (cur s) sdiv 2) \<and>
    same_window s t"
proof -
  obtain u t where "eglutSetMousePointerLocked E locked s = (Inr u, t)" and "pointer_inv t"
    "same_window s t" "rel_enabled t = locked" "rel_raw_mode t = (locked \<and> xi_available (xi_state s))"
    "cursor_grabbed t = (locked \<and> \<not> xi_available (xi_state s))"
    "locked \<longrightarrow> rel_last_x t = native_width (cur s) sdiv 2 \<and> rel_last_y t = native_height (cur s) sdiv 2"
    using wp_returns[OF Locked_wp[OF assms, of E locked]] by (auto split: if_splits)
  then show ?thesis by (auto simp: pointer_inv_def)
qed

text \<open>
  For an image of at least one and fewer than \<open>2^30 - 2\<close> pixels whose four-byte pixels
  are all there, the buffer of \<open>eglutSetWindowIcon\<close> is written inside its bounds and ends up
  as width, height and the pixels with red and blue exchanged: four bytes for each of the
  \<open>w * h + 2\<close> elements of the property.
\<close>

theorem window_icon_data:
  assumes "0 < unat w * unat h" and "unat w * unat h < 2 ^ 30 - 2"
    and "length img = 4 * (unat w * unat h)"
  shows "\<exists>d. icon_data w h img (fresh_block ((w * h + 2) * 4) junk) = Some d \<and>
    d = le32 w @ le32 h @ icon_pixels img (unat w * unat h) \<and> length d = 4 * unat (w * h + 2)"
  using assms icon_data_in_range[OF assms(1,2)] icon_sizes[OF assms(1,2)] by simp

text \<open>Locking and then reading the reference position in a window of 640 by 480.\<close>

theorem pointer_lock_effect_witness:
  "\<exists>t. eglutSetMousePointerLocked quiet_env True one_window = (Inr (), t) \<and>
     core_grab (trace t) \<and> rel_last_x t = 320 \<and> rel_last_y t = 240"
  using pointer_lock_effect[OF pointer_inv_one_window, of quiet_env True]
  by (auto simp: one_window_def initial_state_def cur_def)

text \<open>One red pixel of full opacity becomes blue 0, green 0, red 255, alpha 255.\<close>

theorem window_icon_data_witness:
  "icon_data 1 1 [255, 0, 0, 255] (fresh_block ((1 * 1 + 2) * 4) []) =
     Some [1, 0, 0, 0, 1, 0, 0, 0, 0, 0, 255, 255]"
  using window_icon_data[of 1 1 "[255, 0, 0, 255]" "[]"] by (simp add: le32_def icon_pixels_def)

end
