(* ===== verification/Eglut.thy ===== *)
theory Eglut
  imports Eglut_Native
begin

text \<open>
  \<^verbatim>\<open>eglut/src/eglut.c\<close>: start-up and command line, EGL configuration, window creation and
  destruction, the callback registrations and the elapsed-time query. The main loop is in
  \<open>Eglut_Events\<close>, next to the event loop it calls.
\<close>

section \<open>Time\<close>

definition eglutNow :: "xenv \<Rightarrow> int eg" where
  "eglutNow E = andthen (ask (env_time E) GetTimeOfDay) (\<lambda>(sec, usec).
     ret (int_of_long (sec * 1000 + usec sdiv 1000)))"

definition EGLUT_ELAPSED_TIME :: int where "EGLUT_ELAPSED_TIME = 0"
definition EGLUT_FULLSCREEN_MODE :: int where "EGLUT_FULLSCREEN_MODE = 1"

definition eglutGet :: "xenv \<Rightarrow> int \<Rightarrow> int eg" where
  "eglutGet E st =
     (if st = EGLUT_ELAPSED_TIME then
        andthen (eglutNow E) (\<lambda>now. andthen (getp init_time) (\<lambda>i. c_int (now - i)))
      else if st = EGLUT_FULLSCREEN_MODE then getp window_fullscreen
      else ret (-1))"

section \<open>EGL configuration\<close>

definition EGL_ALPHA_SIZE :: int where "EGL_ALPHA_SIZE = 0x3021"
definition EGL_BLUE_SIZE :: int where "EGL_BLUE_SIZE = 0x3022"
definition EGL_GREEN_SIZE :: int where "EGL_GREEN_SIZE = 0x3023"
definition EGL_RED_SIZE :: int where "EGL_RED_SIZE = 0x3024"
definition EGL_DEPTH_SIZE :: int where "EGL_DEPTH_SIZE = 0x3025"
definition EGL_STENCIL_SIZE :: int where "EGL_STENCIL_SIZE = 0x3026"
definition EGL_SURFACE_TYPE :: int where "EGL_SURFACE_TYPE = 0x3033"
definition EGL_NONE :: int where "EGL_NONE = 0x3038"
definition EGL_RENDERABLE_TYPE :: int where "EGL_RENDERABLE_TYPE = 0x3040"
definition EGL_CONTEXT_CLIENT_VERSION :: int where "EGL_CONTEXT_CLIENT_VERSION = 0x3098"
definition EGL_OPENGL_ES_API :: int where "EGL_OPENGL_ES_API = 0x30A0"
definition EGL_OPENVG_API :: int where "EGL_OPENVG_API = 0x30A1"
definition EGL_OPENGL_API :: int where "EGL_OPENGL_API = 0x30A2"

definition has_api :: "u32 \<Rightarrow> u32 \<Rightarrow> bool" where
  "has_api apis b \<longleftrightarrow> apis AND b \<noteq> 0"

definition renderable_type :: "u32 \<Rightarrow> u32" where
  "renderable_type apis =
     (if has_api apis EGLUT_OPENGL_BIT then 8 else 0) OR
     (if has_api apis EGLUT_OPENGL_ES1_BIT then 1 else 0) OR
     (if has_api apis EGLUT_OPENGL_ES2_BIT then 4 else 0) OR
     (if has_api apis EGLUT_OPENVG_BIT then 2 else 0)"

text \<open>The attributes appended to an array being filled.\<close>

definition eglutAddCommonConfigAttrs :: "int list \<Rightarrow> int list eg" where
  "eglutAddCommonConfigAttrs attribs = getp (\<lambda>s. attribs @
     [EGL_SURFACE_TYPE, surface_type s, EGL_RENDERABLE_TYPE, sint (renderable_type (api_mask s))])"

definition config_attribs_alpha :: "int list" where
  "config_attribs_alpha = [EGL_RED_SIZE, 1, EGL_GREEN_SIZE, 1, EGL_BLUE_SIZE, 1, EGL_ALPHA_SIZE, 1,
     EGL_DEPTH_SIZE, 1, EGL_STENCIL_SIZE, 8]"

definition config_attribs_opaque :: "int list" where
  "config_attribs_opaque = [EGL_RED_SIZE, 1, EGL_GREEN_SIZE, 1, EGL_BLUE_SIZE, 1,
     EGL_DEPTH_SIZE, 1, EGL_STENCIL_SIZE, 8]"

definition try_config :: "xenv \<Rightarrow> int list \<Rightarrow> handle option eg" where
  "try_config E attribs = andthen (eglutAddCommonConfigAttrs attribs) (\<lambda>a.
     andthen (ask (\<lambda>t. (env_ok E t, env_int E t, env_handle E t)) (Egl (ChooseConfig (a @ [EGL_NONE])))) (\<lambda>(ok, n, c).
     ret (if ok \<and> n \<noteq> 0 then Some c else None)))"

definition eglutChooseConfig :: "xenv \<Rightarrow> handle eg" where
  "eglutChooseConfig E = andthen (try_config E config_attribs_alpha) (\<lambda>r.
     case r of Some c \<Rightarrow> ret c | None \<Rightarrow>
     andthen (try_config E config_attribs_opaque) (\<lambda>r.
     case r of Some c \<Rightarrow> ret c | None \<Rightarrow> eglutFatal ''failed to choose a config''))"

section \<open>Creating and destroying windows\<close>

text \<open>\<open>sizeof (struct eglut_window)\<close> on the 64-bit targets.\<close>

definition sizeof_window :: u64 where "sizeof_window = 176"

definition context_api :: "u32 \<Rightarrow> int" where
  "context_api apis = (if has_api apis EGLUT_OPENGL_BIT then EGL_OPENGL_API
     else if has_api apis EGLUT_OPENVG_BIT then EGL_OPENVG_API else EGL_OPENGL_ES_API)"

definition context_attribs :: "u32 \<Rightarrow> int list" where
  "context_attribs apis =
     (if \<not> has_api apis EGLUT_OPENGL_BIT \<and> \<not> has_api apis EGLUT_OPENVG_BIT \<and> has_api apis EGLUT_OPENGL_ES2_BIT
      then [EGL_CONTEXT_CLIENT_VERSION, 2, EGL_NONE] else [EGL_NONE])"

definition create_surface :: "xenv \<Rightarrow> nat \<Rightarrow> unit eg" where
  "create_surface E p = andthen (getp surface_type) (\<lambda>st.
     andthen (win_get p (\<lambda>w. (win_config w, native_window w))) (\<lambda>(cfg, nw).
     if st = EGL_WINDOW_BIT then
       andthen (ask (env_handle E) (Egl (CreateWindowSurface cfg nw))) (\<lambda>f. win_mod p (\<lambda>w. w\<lparr>win_surface := f\<rparr>))
     else if st = EGL_PIXMAP_BIT then
       andthen (ask (env_handle E) (Egl (CreatePixmapSurface cfg nw))) (\<lambda>f. win_mod p (\<lambda>w. w\<lparr>win_surface := f\<rparr>))
     else if st = EGL_PBUFFER_BIT then win_mod p (\<lambda>w. w\<lparr>win_surface := nw\<rparr>)
     else ret ()))"

text \<open>The part of \<open>_eglutCreateWindow\<close> after the allocation of \<open>win\<close>.\<close>

definition setup_window :: "xenv \<Rightarrow> nat \<Rightarrow> string \<Rightarrow> int \<Rightarrow> int \<Rightarrow> int \<Rightarrow> int \<Rightarrow> unit eg" where
  "setup_window E p title x y w h =
     andthen (eglutChooseConfig E) (\<lambda>cfg.
     seqp (win_mod p (\<lambda>v. v\<lparr>win_config := cfg\<rparr>))
    (andthen (getp api_mask) (\<lambda>apis.
     seqp (log_call (Egl (BindAPI (context_api apis))))
    (andthen (ask (env_handle E) (Egl (CreateContext cfg (context_attribs apis)))) (\<lambda>ctx.
     seqp (win_mod p (\<lambda>v. v\<lparr>win_context := ctx\<rparr>))
    (if ctx = 0 then eglutFatal ''failed to create context'' else
     seqp (eglutNativeInitWindow E p title x y w h)
    (seqp (create_surface E p)
    (andthen (win_get p win_surface) (\<lambda>f.
     if f = 0 then eglutFatal ''failed to create surface'' else ret ())))))))))"

definition static_CreateWindow :: "xenv \<Rightarrow> string \<Rightarrow> int \<Rightarrow> int \<Rightarrow> int \<Rightarrow> int \<Rightarrow> nat eg" where
  "static_CreateWindow E title x y w h =
     andthen (ask (env_handle E) (Png (Malloc sizeof_window))) (\<lambda>m.
     if m = 0 then eglutFatal ''failed to allocate window'' else
     andthen (getp (\<lambda>s. length (windows s))) (\<lambda>p.
     seqp (modp (\<lambda>s. s\<lparr>windows := windows s @ [calloc_window]\<rparr>))
    (seqp (setup_window E p title x y w h)
          (ret p))))"

definition make_current :: "xenv \<Rightarrow> nat \<Rightarrow> unit eg" where
  "make_current E p = andthen (win_get p (\<lambda>w. (win_surface w, win_context w))) (\<lambda>(f, c).
     andthen (ask (env_ok E) (Egl (MakeCurrent f f c))) (\<lambda>ok.
     if ok then ret () else eglutFatal ''failed to make window current''))"

definition eglutCreateWindow :: "xenv \<Rightarrow> string \<Rightarrow> int eg" where
  "eglutCreateWindow E title =
     andthen (getp (\<lambda>s. (window_width s, window_height s))) (\<lambda>(w, h).
     andthen (static_CreateWindow E title (-1) (-1) w h) (\<lambda>p.
     andthen (getp num_windows) (\<lambda>n.
     andthen (c_int (n + 1)) (\<lambda>n'.
     seqp (modp (\<lambda>s. s\<lparr>num_windows := n'\<rparr>))
    (seqp (win_mod p (\<lambda>v. v\<lparr>win_index := n, reshape_cb := None, display_cb := None,
        keyboard_cb := Some DefaultKeyboard, special_cb := None, mouse_cb := None, mouse_button_cb := None\<rparr>))
    (seqp (make_current E p)
    (seqp (modp (\<lambda>s. s\<lparr>current := Some p\<rparr>))
          (ret n))))))))"

definition static_DestroyWindow :: "nat \<Rightarrow> unit eg" where
  "static_DestroyWindow p = andthen (getp surface_type) (\<lambda>st.
     andthen (win_get p (\<lambda>w. (win_surface w, win_context w))) (\<lambda>(f, c).
     seqp (whenp (st \<noteq> EGL_PBUFFER_BIT) (log_call (Egl (DestroySurface f))))
    (seqp (eglutNativeFiniWindow p)
          (log_call (Egl (DestroyContext c))))))"

definition eglutDestroyWindow :: "int \<Rightarrow> unit eg" where
  "eglutDestroyWindow win = andthen cur_win (\<lambda>p. andthen (win_get p win_index) (\<lambda>i.
     if i \<noteq> win then ret () else
     seqp (log_call (Egl (MakeCurrent 0 0 0))) (static_DestroyWindow p)))"

definition eglutFini :: "unit eg" where
  "eglutFini = seqp (log_call (Egl Terminate)) eglutNativeFiniDisplay"

definition eglutMakeCurrent :: "xenv \<Rightarrow> int \<Rightarrow> unit eg" where
  "eglutMakeCurrent E win = (if win \<noteq> -1 then
       andthen cur_win (\<lambda>p. andthen (win_get p win_index) (\<lambda>i.
       if i \<noteq> win then ret () else make_current E p))
     else log_call (Egl (MakeCurrent 0 0 0)))"

section \<open>Start-up\<close>

definition eglutInitAPIMask :: "u32 \<Rightarrow> unit eg" where
  "eglutInitAPIMask apis = modp (\<lambda>s. s\<lparr>api_mask := apis\<rparr>)"

definition eglutInitWindowSize :: "int \<Rightarrow> int \<Rightarrow> unit eg" where
  "eglutInitWindowSize w h = modp (\<lambda>s. s\<lparr>window_width := w, window_height := h\<rparr>)"

text \<open>
  The argument loop of \<open>eglutInit\<close> from \<open>argv[1]\<close> on: an option that takes a value consumes
  the next argument, and the null pointer \<open>argv[argc]\<close> when it is the last one.
\<close>

fun eglut_args :: "string list \<Rightarrow> string option \<times> bool \<times> string option \<Rightarrow> string option \<times> bool \<times> string option" where
  "eglut_args [] r = r"
| "eglut_args (a # as) (disp, verb, name) =
     (if a = ''-display'' then (case as of [] \<Rightarrow> (None, verb, name) | v # as' \<Rightarrow> eglut_args as' (Some v, verb, name))
      else if a = ''-info'' then eglut_args as (disp, True, name)
      else if a = ''-name'' then (case as of [] \<Rightarrow> (disp, verb, None) | v # as' \<Rightarrow> eglut_args as' (disp, verb, Some v))
      else eglut_args as (disp, verb, name))"

definition eglut_class_instance :: "xenv \<Rightarrow> string list \<Rightarrow> string option \<Rightarrow> unit eg" where
  "eglut_class_instance E argv name = (case name of
     Some n \<Rightarrow> if n \<noteq> [] then eglutInitX11ClassInstanceName E (Some n)
       else whenp (argv \<noteq> []) (eglutInitX11ClassInstanceName E (Some (env_basename E (hd argv))))
   | None \<Rightarrow> whenp (argv \<noteq> []) (eglutInitX11ClassInstanceName E (Some (env_basename E (hd argv)))))"

definition EGL_VERSION :: int where "EGL_VERSION = 0x3054"
definition EGL_VENDOR :: int where "EGL_VENDOR = 0x3053"
definition EGL_EXTENSIONS :: int where "EGL_EXTENSIONS = 0x3055"
definition EGL_CLIENT_APIS :: int where "EGL_CLIENT_APIS = 0x308D"

definition eglutInit :: "xenv \<Rightarrow> string list \<Rightarrow> unit eg" where
  "eglutInit E argv =
     andthen (getp (\<lambda>s. eglut_args (tl argv) (display_name s, verbose s, env_getenv E ''RESOURCE_NAME''))) (\<lambda>(disp, verb, name).
     seqp (modp (\<lambda>s. s\<lparr>display_name := disp, verbose := verb\<rparr>))
    (seqp (eglut_class_instance E argv name)
    (seqp (eglutNativeInitDisplay E)
    (andthen (getp native_dpy) (\<lambda>nd.
     andthen (ask (env_handle E) (Egl (GetDisplay nd))) (\<lambda>d.
     seqp (modp (\<lambda>s. s\<lparr>dpy := d\<rparr>))
    (andthen (ask (\<lambda>t. (env_ok E t, env_version E t)) (Egl Initialize)) (\<lambda>(ok, ma, mi).
     seqp (modp (\<lambda>s. s\<lparr>egl_major := ma, egl_minor := mi\<rparr>))
    (if \<not> ok then eglutFatal ''failed to initialize EGL display'' else
     andthen (eglutNow E) (\<lambda>now.
     seqp (modp (\<lambda>s. s\<lparr>init_time := now\<rparr>))
    (whenp verb (seqs (map (\<lambda>q. log_call (Egl (QueryString q)))
       [EGL_VERSION, EGL_VENDOR, EGL_EXTENSIONS, EGL_CLIENT_APIS])))))))))))))"

section \<open>Registrations\<close>

definition eglutIdleFunc :: "cb option \<Rightarrow> unit eg" where
  "eglutIdleFunc f = modp (\<lambda>s. s\<lparr>idle_cb := f\<rparr>)"
definition eglutPostRedisplay :: "unit eg" where
  "eglutPostRedisplay = modp (\<lambda>s. s\<lparr>redisplay := True\<rparr>)"
definition eglutDisplayFunc :: "cb option \<Rightarrow> unit eg" where
  "eglutDisplayFunc f = cur_mod (\<lambda>w. w\<lparr>display_cb := f\<rparr>)"
definition eglutReshapeFunc :: "cb option \<Rightarrow> unit eg" where
  "eglutReshapeFunc f = cur_mod (\<lambda>w. w\<lparr>reshape_cb := f\<rparr>)"
definition eglutKeyboardFunc :: "keyboard_fn option \<Rightarrow> unit eg" where
  "eglutKeyboardFunc f = cur_mod (\<lambda>w. w\<lparr>keyboard_cb := f\<rparr>)"
definition eglutDropFunc :: "cb option \<Rightarrow> unit eg" where
  "eglutDropFunc f = cur_mod (\<lambda>w. w\<lparr>drop_cb := f\<rparr>)"
definition eglutSpecialFunc :: "cb option \<Rightarrow> unit eg" where
  "eglutSpecialFunc f = cur_mod (\<lambda>w. w\<lparr>special_cb := f\<rparr>)"
definition eglutPasteFunc :: "cb option \<Rightarrow> unit eg" where
  "eglutPasteFunc f = cur_mod (\<lambda>w. w\<lparr>paste_cb := f\<rparr>)"
definition eglutMouseFunc :: "cb option \<Rightarrow> unit eg" where
  "eglutMouseFunc f = cur_mod (\<lambda>w. w\<lparr>mouse_cb := f\<rparr>)"
definition eglutMouseRawFunc :: "cb option \<Rightarrow> unit eg" where
  "eglutMouseRawFunc f = cur_mod (\<lambda>w. w\<lparr>mouse_raw_cb := f\<rparr>)"
definition eglutMouseButtonFunc :: "cb option \<Rightarrow> unit eg" where
  "eglutMouseButtonFunc f = cur_mod (\<lambda>w. w\<lparr>mouse_button_cb := f\<rparr>)"
definition eglutTouchStartFunc :: "cb option \<Rightarrow> unit eg" where
  "eglutTouchStartFunc f = cur_mod (\<lambda>w. w\<lparr>touch_start_cb := f\<rparr>)"
definition eglutTouchUpdateFunc :: "cb option \<Rightarrow> unit eg" where
  "eglutTouchUpdateFunc f = cur_mod (\<lambda>w. w\<lparr>touch_update_cb := f\<rparr>)"
definition eglutTouchEndFunc :: "cb option \<Rightarrow> unit eg" where
  "eglutTouchEndFunc f = cur_mod (\<lambda>w. w\<lparr>touch_end_cb := f\<rparr>)"
definition eglutFocusFunc :: "cb option \<Rightarrow> unit eg" where
  "eglutFocusFunc f = cur_mod (\<lambda>w. w\<lparr>focus_cb := f\<rparr>)"
definition eglutCloseWindowFunc :: "cb option \<Rightarrow> unit eg" where
  "eglutCloseWindowFunc f = cur_mod (\<lambda>w. w\<lparr>close_cb := f\<rparr>)"
definition eglutSetKeyboardState :: "int \<Rightarrow> unit eg" where
  "eglutSetKeyboardState a = cur_mod (\<lambda>w. w\<lparr>keyboardstate := a\<rparr>)"

section \<open>The default keyboard handler\<close>

definition destroy_current :: "unit eg" where
  "destroy_current = andthen (getp current) (\<lambda>c. case c of None \<Rightarrow> ret ()
     | Some p \<Rightarrow> andthen (win_get p win_index) eglutDestroyWindow)"

definition eglutDefaultKeyboard :: "bytes \<Rightarrow> int \<Rightarrow> unit eg" where
  "eglutDefaultKeyboard key keyn = (if keyn = 1 \<and> key \<noteq> [] \<and> hd key = 27
     then seqp destroy_current (seqp eglutFini (stop (Exit 0))) else ret ())"

section \<open>The window list\<close>

text \<open>
  What the rest of the library relies on: how many windows there are, their indices and which
  one is current. Everything but \<open>eglutCreateWindow\<close> leaves this shape alone.
\<close>

definition shape :: "eglut_state \<Rightarrow> int \<times> int list \<times> nat option" where
  "shape s = (num_windows s, map win_index (windows s), current s)"

definition shape_ok :: "int \<times> int list \<times> nat option \<Rightarrow> bool" where
  "shape_ok = (\<lambda>(n, is, c). n = int (length is) \<and> is = map int [0..<length is] \<and>
     c = (if is = [] then None else Some (length is - 1)))"

definition win_inv :: "eglut_state \<Rightarrow> bool" where
  "win_inv s = shape_ok (shape s)"

abbreviation on_shape :: "(int \<times> int list \<times> nat option \<Rightarrow> bool) \<Rightarrow> eglut_state \<Rightarrow> bool" where
  "on_shape P \<equiv> (\<lambda>s. P (shape s))"

lemma shape_ignores_xinput [keeps_rules]: "ignores_xinput (on_shape P)"
  by (simp add: ignores_xinput_def ignores_trace_def shape_def)

lemma shape_ignores_trace [keeps_rules]: "ignores_trace (on_shape P)"
  by (rule ignores_xinput_trace[OF shape_ignores_xinput])

lemma map_update_same: "p < length ws \<Longrightarrow> f v = f (ws ! p) \<Longrightarrow> (map f ws)[p := f v] = map f ws"
  by (simp add: list_update_same_conv)

lemma keeps_win_mod [keeps_rules]:
  "(\<And>w. win_index (f w) = win_index w) \<Longrightarrow> keeps (on_shape P) (win_mod p f)"
  by (auto simp: keeps_def win_mod_def prog_simps shape_def map_update map_update_same split: if_splits)

lemma keeps_shape_modp [keeps_rules]:
  "(\<And>s. shape (f s) = shape s) \<Longrightarrow> keeps (on_shape P) (modp f)"
  by (simp add: keeps_modp)

lemma keeps_cur_mod [keeps_rules]:
  "(\<And>w. win_index (f w) = win_index w) \<Longrightarrow> keeps (on_shape P) (cur_mod f)"
  unfolding cur_mod_def by (intro keeps_rules)

lemma keeps_Fatal [keeps_rules]: "keeps I (eglutFatal m)"
  by (auto simp: keeps_def eglutFatal_def prog_simps)

lemma keeps_strdup [keeps_rules]: "keeps (on_shape P) (strdup E v)"
  unfolding strdup_def by (intro keeps_rules)

lemmas native_defs = eglutNativeInitDisplay_def eglutNativeFiniDisplay_def eglutNativeFiniWindow_def
  eglutShowWindow_def eglutInitX11ClassInstanceName_def eglutInitX11ClassName_def eglutSetClipboardText_def
  eglutRequestPaste_def eglutToggleFullscreen_def eglutSwapBuffers_def eglutWarpMousePointer_def
  eglutGetWindowWidth_def eglutGetWindowHeight_def

lemma keeps_native [keeps_rules]:
  "keeps (on_shape P) (eglutNativeInitDisplay E)" "keeps (on_shape P) eglutNativeFiniDisplay"
  "keeps (on_shape P) (eglutNativeFiniWindow p)" "keeps (on_shape P) eglutShowWindow"
  "keeps (on_shape P) (eglutInitX11ClassInstanceName E v)" "keeps (on_shape P) (eglutInitX11ClassName E v)"
  "keeps (on_shape P) (eglutSetClipboardText E b)" "keeps (on_shape P) (eglutRequestPaste E)"
  "keeps (on_shape P) (eglutToggleFullscreen E)" "keeps (on_shape P) eglutSwapBuffers"
  "keeps (on_shape P) (eglutWarpMousePointer x y)"
  "keeps (on_shape P) eglutGetWindowWidth" "keeps (on_shape P) eglutGetWindowHeight"
  unfolding native_defs by (intro keeps_rules; simp add: shape_def)+

lemma keeps_pointer [keeps_rules]:
  "keeps (on_shape P) (eglutSetMousePointerVisiblity E v)"
  "keeps (on_shape P) (eglutSetMousePointerLocked E locked)"
proof -
  show vis: "keeps (on_shape P) (eglutSetMousePointerVisiblity E v)" for v
    unfolding eglutSetMousePointerVisiblity_def by (intro keeps_rules; simp add: shape_def)
  show "keeps (on_shape P) (eglutSetMousePointerLocked E locked)"
    unfolding eglutSetMousePointerLocked_def set_lock_mode_def
    by (intro keeps_rules vis; simp add: shape_def)
qed

lemma keeps_png [keeps_rules]: "keeps (on_shape P) (eglutReadPNG E f)"
  unfolding eglutReadPNG_def png_transform_def png_read_pixels_def by (intro keeps_rules)

lemma keeps_SetWindowIcon [keeps_rules]: "keeps (on_shape P) (eglutSetWindowIcon E f)"
  unfolding eglutSetWindowIcon_def by (intro keeps_rules)

lemma keeps_NativeInitWindow [keeps_rules]: "keeps (on_shape P) (eglutNativeInitWindow E p title x y w h)"
  unfolding eglutNativeInitWindow_def init_window_hints_def init_window_xinput_def init_window_ime_def
    init_window_props_def init_window_dnd_def
  by (intro keeps_rules; simp add: shape_def)

lemma keeps_ChooseConfig [keeps_rules]: "keeps (on_shape P) (eglutChooseConfig E)"
  unfolding eglutChooseConfig_def try_config_def eglutAddCommonConfigAttrs_def by (intro keeps_rules)

lemma keeps_setup_window [keeps_rules]: "keeps (on_shape P) (setup_window E p title x y w h)"
  unfolding setup_window_def create_surface_def by (intro keeps_rules; simp)

lemma keeps_make_current [keeps_rules]: "keeps (on_shape P) (make_current E p)"
  unfolding make_current_def by (intro keeps_rules)

lemma keeps_Destroy [keeps_rules]:
  "keeps (on_shape P) (eglutDestroyWindow i)" "keeps (on_shape P) eglutFini"
  "keeps (on_shape P) destroy_current" "keeps (on_shape P) (eglutMakeCurrent E i)"
  "keeps (on_shape P) (eglutDefaultKeyboard b n)"
proof -
  show d: "keeps (on_shape P) (eglutDestroyWindow i)" for i
    unfolding eglutDestroyWindow_def static_DestroyWindow_def by (intro keeps_rules)
  show f: "keeps (on_shape P) eglutFini"
    unfolding eglutFini_def by (intro keeps_rules)
  show c: "keeps (on_shape P) destroy_current"
    unfolding destroy_current_def by (intro keeps_rules d)
  show "keeps (on_shape P) (eglutMakeCurrent E i)"
    unfolding eglutMakeCurrent_def by (intro keeps_rules)
  show "keeps (on_shape P) (eglutDefaultKeyboard b n)"
    unfolding eglutDefaultKeyboard_def by (intro keeps_rules c f)
qed

lemma keeps_Now [keeps_rules]: "keeps (on_shape P) (eglutNow E)"
  unfolding eglutNow_def by (intro keeps_rules)

lemma keeps_Init [keeps_rules]: "keeps (on_shape P) (eglutInit E argv)"
proof -
  have q: "keeps (on_shape P) (seqs (map (\<lambda>q. log_call (Egl (QueryString q))) qs))" for qs
    by (induction qs) (simp_all add: keeps_rules)
  show ?thesis
    unfolding eglutInit_def eglut_class_instance_def
    by (intro keeps_rules q; simp add: shape_def)
qed

lemma keepsI_shape: "keeps (on_shape (\<lambda>h. h = shape s)) m \<Longrightarrow> m s = (Inr x, t) \<Longrightarrow> shape t = shape s"
  by (auto dest: keepsD)

lemma index_calloc: "win_index calloc_window = 0"
  by (simp add: calloc_window_def)

lemma static_CreateWindow_shape:
  "wp (static_CreateWindow E title x y w h) (\<lambda>p t. p = length (windows s) \<and>
     shape t = (num_windows s, map win_index (windows s) @ [0], current s)) (\<lambda>_ _. True) s"
proof -
  let ?u = "\<lambda>tr. s\<lparr>trace := tr, windows := windows s @ [calloc_window]\<rparr>"
  have "wp (setup_window E p title x y w h) (\<lambda>_ t. shape t = shape (?u tr)) (\<lambda>_ _. True) (?u tr)" for p tr
    using keepsI_shape[OF keeps_setup_window, of E p title x y w h "?u tr"]
    by (auto simp: wp_def split: prod.splits sum.splits)
  then show ?thesis
    by (simp add: static_CreateWindow_def eglutFatal_def wp_simps shape_def index_calloc)
qed

lemma shape_ok_snoc: "shape_ok (n, is, c) \<Longrightarrow> shape_ok (n + 1, is @ [n], Some (length is))"
  by (simp add: shape_ok_def)

lemma CreateWindow_wp:
  assumes "win_inv s"
  shows "wp (eglutCreateWindow E title) (\<lambda>i t. i = int (length (windows s)) \<and>
     shape t = (i + 1, map win_index (windows s) @ [i], Some (length (windows s)))) (\<lambda>_ _. True) s"
proof -
  have n: "num_windows s = int (length (windows s))"
    using assms by (simp add: win_inv_def shape_ok_def shape_def)
  let ?p = "length (windows s)"
  let ?upd = "\<lambda>v. v\<lparr>win_index := num_windows s, reshape_cb := None, display_cb := None,
        keyboard_cb := Some DefaultKeyboard, special_cb := None, mouse_cb := None, mouse_button_cb := None\<rparr>"
  have mk: "wp (make_current E ?p) (\<lambda>_ t. shape t = shape u) (\<lambda>_ _. True) u" for u
    using keepsI_shape[OF keeps_make_current, of E ?p u] by (auto simp: wp_def split: prod.splits sum.splits)
  have tail: "wp (andthen (getp num_windows) (\<lambda>n. andthen (c_int (n + 1)) (\<lambda>n'.
       seqp (modp (\<lambda>s. s\<lparr>num_windows := n'\<rparr>)) (seqp (win_mod ?p (\<lambda>v. v\<lparr>win_index := n, reshape_cb := None, display_cb := None,
        keyboard_cb := Some DefaultKeyboard, special_cb := None, mouse_cb := None, mouse_button_cb := None\<rparr>))
       (seqp (make_current E ?p) (seqp (modp (\<lambda>s. s\<lparr>current := Some ?p\<rparr>)) (ret n)))))))
     (\<lambda>i t. i = int ?p \<and> shape t = (i + 1, map win_index (windows s) @ [i], Some ?p)) (\<lambda>_ _. True) t"
    if t: "shape t = (num_windows s, map win_index (windows s) @ [0], current s)" for t
  proof -
    let ?t = "t\<lparr>num_windows := num_windows s + 1, windows := (windows t)[?p := ?upd (windows t ! ?p)]\<rparr>"
    have m: "map win_index (windows t) = map win_index (windows s) @ [0]" and c: "num_windows t = num_windows s"
      using t by (auto simp: shape_def)
    have l: "length (windows t) = Suc ?p" using arg_cong[OF m, of length] by simp
    have "shape ?t = (num_windows s + 1, map win_index (windows s) @ [num_windows s], current t)"
      using m l by (simp add: shape_def map_update list_update_append)
    then have "wp (make_current E ?p) (\<lambda>_ v. shape v = (num_windows s + 1, map win_index (windows s) @ [num_windows s], current t)) (\<lambda>_ _. True) ?t"
      using mk[of ?t] by simp
    then show ?thesis
      using c l n by (auto simp: wp_simps shape_def elim!: wp_mono)
  qed
  show ?thesis
    unfolding eglutCreateWindow_def
    by (simp only: wp_andthen wp_getp case_prod_conv)
      (rule wp_mono[OF static_CreateWindow_shape], use tail in \<open>auto simp: wp_andthen wp_getp\<close>)
qed

text \<open>
  Creating a window, when it returns, hands out the next index, appends a window with that
  index, makes it the current one and leaves the indices of the others alone.
\<close>

theorem create_window_fresh:
  assumes "win_inv s" and "eglutCreateWindow E title s = (Inr i, t)"
  shows "win_inv t \<and> i = int (length (windows s)) \<and> length (windows t) = length (windows s) + 1 \<and>
    current t = Some (length (windows s)) \<and> win_index (cur t) = i \<and>
    map win_index (take (length (windows s)) (windows t)) = map win_index (windows s)"
proof -
  have i: "i = int (length (windows s))" and
    t: "shape t = (i + 1, map win_index (windows s) @ [i], Some (length (windows s)))"
    using CreateWindow_wp[OF assms(1), of E title] assms(2) by (simp_all add: wp_def)
  then have m: "map win_index (windows t) = map win_index (windows s) @ [i]"
    and c: "current t = Some (length (windows s))" by (simp_all add: shape_def)
  have l: "length (windows t) = length (windows s) + 1" using arg_cong[OF m, of length] by simp
  have "win_inv t"
    using assms(1) t i shape_ok_snoc[of "num_windows s" "map win_index (windows s)" "current s"]
    by (simp add: win_inv_def shape_def shape_ok_def)
  moreover have "win_index (windows t ! length (windows s)) = i"
    using arg_cong[OF m, of "\<lambda>x. x ! length (windows s)"] l by (simp add: nth_append)
  moreover have "take (length (windows s)) (map win_index (windows t)) = map win_index (windows s)"
    using m by simp
  ultimately show ?thesis using i l c by (simp add: cur_def take_map)
qed

definition quiet_window_env :: xenv where
  "quiet_window_env = quiet_env\<lparr>env_int := (\<lambda>_. 33)\<rparr>"

definition opened :: eglut_state where
  "opened = initial_state\<lparr>native_dpy := 1, surface_type := EGL_WINDOW_BIT\<rparr>"

lemmas eval_defs = prog_simps quiet_window_env_def quiet_env_def opened_def initial_state_def
  eglutCreateWindow_def static_CreateWindow_def setup_window_def eglutChooseConfig_def try_config_def
  eglutAddCommonConfigAttrs_def eglutNativeInitWindow_def init_window_hints_def init_window_xinput_def
  init_window_ime_def init_window_props_def init_window_dnd_def create_surface_def make_current_def
  calloc_window_def eglutIsXinputAvailable_def EGL_WINDOW_BIT_def

lemma opened_creates: "\<exists>t. eglutCreateWindow quiet_window_env title opened = (Inr 0, t)"
  by (simp add: eval_defs)

theorem create_window_fresh_witness:
  "\<exists>t. eglutCreateWindow quiet_window_env ''Minecraft'' opened = (Inr 0, t) \<and> win_inv t \<and> current t = Some 0"
proof -
  have "win_inv opened" by (simp add: win_inv_def shape_ok_def shape_def opened_def initial_state_def)
  moreover obtain t where t: "eglutCreateWindow quiet_window_env ''Minecraft'' opened = (Inr 0, t)"
    using opened_creates by blast
  ultimately show ?thesis
    using create_window_fresh[of opened quiet_window_env "''Minecraft''" 0 t]
    by (simp add: opened_def initial_state_def)
qed

section \<open>Elapsed time\<close>

lemma int_of_long_eq: "int_of_long m = m - 2 ^ 32 * ((m + 2 ^ 31) div 2 ^ 32)"
proof -
  have "int_of_long m = (m + 2 ^ 31) mod 2 ^ 32 - 2 ^ 31"
    by (simp add: int_of_long_def signed_of_int signed_take_bit_eq_take_bit_shift take_bit_eq_mod)
  also have "(m + 2 ^ 31) mod 2 ^ 32 = (m + 2 ^ 31) - 2 ^ 32 * ((m + 2 ^ 31) div 2 ^ 32)"
    by (rule minus_mult_div_eq_mod[symmetric])
  finally show ?thesis by simp
qed

lemma int_of_long_diff:
  fixes m0 m1 :: int
  assumes "0 \<le> m1 - m0" and "m1 - m0 < 2 ^ 31"
  shows "int_of_long m1 - int_of_long m0 =
    (if (m0 + 2 ^ 31) div 2 ^ 32 = (m1 + 2 ^ 31) div 2 ^ 32 then m1 - m0 else m1 - m0 - 2 ^ 32)"
proof -
  define a where "a = (m0 + 2 ^ 31) div 2 ^ 32"
  define b where "b = (m1 + 2 ^ 31) div 2 ^ 32"
  have "a \<le> b" "b \<le> a + 1"
    using assms unfolding a_def b_def by simp_all
  then have "b = a \<or> b = a + 1" by linarith
  then show ?thesis
    unfolding int_of_long_eq a_def[symmetric] b_def[symmetric] by auto
qed

text \<open>The wall clock at a query, in milliseconds.\<close>

definition clock_ms :: "xenv \<Rightarrow> eglut_state \<Rightarrow> int" where
  "clock_ms E s = (let (sec, usec) = env_time E (trace s @ [GetTimeOfDay]) in sec * 1000 + usec sdiv 1000)"

text \<open>
  For less than \<open>2^31\<close> milliseconds since \<open>eglutInit\<close>, the elapsed-time query answers the
  exact difference, unless the truncated 32-bit clock passed its sign change in between: then
  the subtraction overflows.
\<close>

theorem elapsed_time_exact:
  assumes "init_time s = int_of_long m0" and "0 \<le> clock_ms E s - m0" and "clock_ms E s - m0 < 2 ^ 31"
  shows "fst (eglutGet E EGLUT_ELAPSED_TIME s) =
    (if (m0 + 2 ^ 31) div 2 ^ 32 = (clock_ms E s + 2 ^ 31) div 2 ^ 32
     then Inr (clock_ms E s - m0) else Inl SignedOverflow)"
proof -
  have "fst (eglutGet E EGLUT_ELAPSED_TIME s) = fst (c_int (int_of_long (clock_ms E s) - init_time s) s)"
    by (simp add: eglutGet_def eglutNow_def clock_ms_def prog_simps split: prod.splits)
  also have "\<dots> = (if (m0 + 2 ^ 31) div 2 ^ 32 = (clock_ms E s + 2 ^ 31) div 2 ^ 32
     then Inr (clock_ms E s - m0) else Inl SignedOverflow)"
    using assms(2,3) unfolding assms(1) int_of_long_diff[OF assms(2,3)]
    by (auto simp: c_int_def ret_def stop_def)
  finally show ?thesis .
qed

text \<open>Two seconds after a start at 1000 ms, and three seconds across the sign change.\<close>

theorem elapsed_time_exact_witness:
  "fst (eglutGet (quiet_env\<lparr>env_time := (\<lambda>_. (3, 0))\<rparr>) EGLUT_ELAPSED_TIME (opened\<lparr>init_time := 1000\<rparr>)) = Inr 2000 \<and>
   fst (eglutGet (quiet_env\<lparr>env_time := (\<lambda>_. (2147485, 0))\<rparr>) EGLUT_ELAPSED_TIME (opened\<lparr>init_time := 2147482000\<rparr>)) = Inl SignedOverflow"
  using elapsed_time_exact[of "opened\<lparr>init_time := 1000\<rparr>" 1000 "quiet_env\<lparr>env_time := (\<lambda>_. (3, 0))\<rparr>"]
    elapsed_time_exact[of "opened\<lparr>init_time := 2147482000\<rparr>" 2147482000 "quiet_env\<lparr>env_time := (\<lambda>_. (2147485, 0))\<rparr>"]
  by (simp add: clock_ms_def int_of_long_eq)

section \<open>Choosing a configuration\<close>

text \<open>
  An EGL attribute list of \<open>n\<close> slots: attribute-value pairs, then \<open>EGL_NONE\<close>, inside the array.
\<close>

fun attrib_pairs :: "int list \<Rightarrow> bool" where
  "attrib_pairs [] = False"
| "attrib_pairs [a] = (a = EGL_NONE)"
| "attrib_pairs (a # v # as) = (a \<noteq> EGL_NONE \<and> attrib_pairs as)"

definition attrib_list_ok :: "nat \<Rightarrow> int list \<Rightarrow> bool" where
  "attrib_list_ok n as \<longleftrightarrow> attrib_pairs as \<and> length as \<le> n"

lemmas attrib_defs = EGL_ALPHA_SIZE_def EGL_BLUE_SIZE_def EGL_GREEN_SIZE_def EGL_RED_SIZE_def
  EGL_DEPTH_SIZE_def EGL_STENCIL_SIZE_def EGL_SURFACE_TYPE_def EGL_NONE_def EGL_RENDERABLE_TYPE_def
  EGL_CONTEXT_CLIENT_VERSION_def

text \<open>The two requests, complete, and the answers to them.\<close>

definition config_request :: "int list \<Rightarrow> eglut_state \<Rightarrow> call" where
  "config_request as s = Egl (ChooseConfig (as @
     [EGL_SURFACE_TYPE, surface_type s, EGL_RENDERABLE_TYPE, sint (renderable_type (api_mask s)), EGL_NONE]))"

definition config_found :: "xenv \<Rightarrow> call list \<Rightarrow> bool" where
  "config_found E t \<longleftrightarrow> env_ok E t \<and> env_int E t \<noteq> 0"

lemma try_config_eq:
  "try_config E as s = (Inr (if config_found E (trace s @ [config_request as s])
       then Some (env_handle E (trace s @ [config_request as s])) else None),
     s\<lparr>trace := trace s @ [config_request as s]\<rparr>)"
  by (simp add: try_config_def eglutAddCommonConfigAttrs_def config_request_def config_found_def prog_simps)

text \<open>
  The configuration is the first match with an alpha channel, and only if there is none the
  first match without; with no match at all the program ends with the message for it. Both
  requests are attribute lists that end with \<open>EGL_NONE\<close> inside the 32 slots of the array.
\<close>

theorem choose_config_order:
  "let r1 = config_request config_attribs_alpha s; t1 = trace s @ [r1];
       r2 = config_request config_attribs_opaque s; t2 = t1 @ [r2] in
   eglutChooseConfig E s =
     (if config_found E t1 then (Inr (env_handle E t1), s\<lparr>trace := t1\<rparr>)
      else if config_found E t2 then (Inr (env_handle E t2), s\<lparr>trace := t2\<rparr>)
      else (Inl (Fatal ''failed to choose a config''),
            s\<lparr>trace := t2 @ [Print (''EGLUT: failed to choose a config'')]\<rparr>)) \<and>
   (\<exists>a1 a2. r1 = Egl (ChooseConfig a1) \<and> attrib_list_ok 32 a1 \<and> r2 = Egl (ChooseConfig a2) \<and> attrib_list_ok 32 a2)"
proof -
  have "config_request as (s\<lparr>trace := u\<rparr>) = config_request as s" for as u
    by (simp add: config_request_def)
  moreover have "attrib_list_ok 32 (config_attribs_alpha @
      [EGL_SURFACE_TYPE, surface_type s, EGL_RENDERABLE_TYPE, sint (renderable_type (api_mask s)), EGL_NONE])"
    "attrib_list_ok 32 (config_attribs_opaque @
      [EGL_SURFACE_TYPE, surface_type s, EGL_RENDERABLE_TYPE, sint (renderable_type (api_mask s)), EGL_NONE])"
    by (simp_all add: attrib_list_ok_def config_attribs_alpha_def config_attribs_opaque_def attrib_defs)
  ultimately show ?thesis
    unfolding Let_def by (auto simp: eglutChooseConfig_def andthen_def try_config_eq ret_def
        eglutFatal_def seqp_def log_call_def modp_def stop_def config_request_def[symmetric])
      (auto simp: config_request_def)
qed

section \<open>Destroying a window\<close>

text \<open>
  Destroying releases the EGL binding, the surface, the X window and the context of the
  current window, in this order, and only when the index is that of the current window; the
  current-window pointer and the window list stay as they were.
\<close>

theorem destroy_window_effect:
  assumes "current s = Some p" and "p < length (windows s)" and "native_dpy s \<noteq> 0"
  shows "eglutDestroyWindow i s = (Inr (), if win_index (cur s) \<noteq> i then s else
    s\<lparr>trace := trace s @ Egl (MakeCurrent 0 0 0) #
       (if surface_type s \<noteq> EGL_PBUFFER_BIT then [Egl (DestroySurface (win_surface (cur s)))] else []) @
       [Win (DestroyWindow (native_window (cur s))), Egl (DestroyContext (win_context (cur s)))]\<rparr>)"
  using assms by (simp add: eglutDestroyWindow_def static_DestroyWindow_def eglutNativeFiniWindow_def cur_def prog_simps)

text \<open>The only window of the one-window state is destroyed, and stays the current one.\<close>

theorem destroy_window_effect_witness:
  "current (snd (eglutDestroyWindow 0 one_window)) = Some 0 \<and>
   Win (DestroyWindow 7) \<in> set (trace (snd (eglutDestroyWindow 0 one_window)))"
  using destroy_window_effect[of one_window 0 0]
  by (simp add: one_window_def initial_state_def calloc_window_def cur_def)

end
