(* ===== verification/Uri_List.thy ===== *)
theory Uri_List
  imports Prelude
begin

text \<open>
  The \<^verbatim>\<open>text/uri-list\<close> parser of the drop handler in \<^verbatim>\<open>eglut/src/eglut_x11.c\<close>: the tokens of
  \<open>strtok\<close>, the \<^verbatim>\<open>file://\<close> prefix and percent-decoding. Memory is the list of bytes from the
  pointer to the end of the block, so walking off the end is visible.
\<close>

section \<open>C library\<close>

definition chr :: "char \<Rightarrow> u8" where "chr c = of_char c"

definition str :: "string \<Rightarrow> bytes" where "str s = map of_char s"

definition is_eol :: "u8 \<Rightarrow> bool" where "is_eol c \<longleftrightarrow> c = 13 \<or> c = 10"

text \<open>
  \<open>strtok (p, "\r\n")\<close>: the memory at the token, its end overwritten by a terminator, and
  the memory the next call continues from.
\<close>

definition strtok_next :: "bytes \<Rightarrow> (bytes \<times> bytes) option" where
  "strtok_next mem = (let m = dropWhile is_eol mem;
       tok = takeWhile (\<lambda>c. c \<noteq> 0 \<and> \<not> is_eol c) m; after = drop (length tok) m in
     if tok = [] then None
     else case after of [] \<Rightarrow> Some (tok, [])
       | d # rest \<Rightarrow> if d = 0 then Some (tok @ after, after) else Some (tok @ 0 # rest, rest))"

definition hex_digit :: "u8 \<Rightarrow> nat option" where
  "hex_digit c = (let n = unat c in
     if 48 \<le> n \<and> n \<le> 57 then Some (n - 48)
     else if 65 \<le> n \<and> n \<le> 70 then Some (n - 55)
     else if 97 \<le> n \<and> n \<le> 102 then Some (n - 87) else None)"

fun hex_prefix :: "nat \<Rightarrow> bytes \<Rightarrow> nat" where
  "hex_prefix acc [] = acc"
| "hex_prefix acc (c # cs) = (case hex_digit c of None \<Rightarrow> acc | Some d \<Rightarrow> hex_prefix (16 * acc + d) cs)"

definition is_space :: "u8 \<Rightarrow> bool" where
  "is_space c \<longleftrightarrow> c = 32 \<or> 9 \<le> unat c \<and> unat c \<le> 13"

text \<open>\<open>strtol (s, NULL, 16)\<close>: white space, a sign, then the longest run of hex digits.\<close>

definition strtol16 :: "bytes \<Rightarrow> int" where
  "strtol16 s = (case dropWhile is_space s of
     [] \<Rightarrow> 0
   | c # cs \<Rightarrow> if c = 45 then - int (hex_prefix 0 cs)
               else if c = 43 then int (hex_prefix 0 cs)
               else int (hex_prefix 0 (c # cs)))"

section \<open>The parser\<close>

text \<open>The copy loop over the rest of the line, up to its terminator.\<close>

fun pct_decode :: "bytes \<Rightarrow> bytes" where
  "pct_decode [] = []"
| "pct_decode [a] = [a]"
| "pct_decode [a, b] = [a, b]"
| "pct_decode (a # b # c # s) =
     (if a = 37 then word_of_int (strtol16 [b, c]) # pct_decode s else a # pct_decode (b # c # s))"

definition uri_prefix :: bytes where "uri_prefix = str ''file://''"

text \<open>
  One line: \<open>None\<close> for a comment, otherwise the memory the path is read from; it is empty when
  the search for the slash that starts the path ran off the block.
\<close>

definition line_path :: "bytes \<Rightarrow> bytes option" where
  "line_path line = (if line \<noteq> [] \<and> hd line = 35 then None
     else if take 7 line = uri_prefix then Some (dropWhile (\<lambda>c. c \<noteq> 47) (drop 7 line))
     else Some line)"

text \<open>
  The loop: the files handed to the drop callback in order, and whether the loop ended
  without leaving the block.
\<close>

function uri_files :: "bytes \<Rightarrow> bytes list \<times> bool" where
  "uri_files mem = (case strtok_next mem of None \<Rightarrow> ([], True)
     | Some (line, rest) \<Rightarrow> (case line_path line of None \<Rightarrow> uri_files rest
         | Some [] \<Rightarrow> ([], False)
         | Some p \<Rightarrow> (let (fs, ok) = uri_files rest in (cstr (pct_decode (cstr p)) # fs, ok))))"
  by pat_completeness auto

lemma strtok_next_shorter: "strtok_next mem = Some (line, rest) \<Longrightarrow> length rest < length mem"
proof -
  assume a: "strtok_next mem = Some (line, rest)"
  let ?m = "dropWhile is_eol mem"
  let ?tok = "takeWhile (\<lambda>c. c \<noteq> 0 \<and> \<not> is_eol c) ?m"
  have "?tok \<noteq> []" using a by (auto simp: strtok_next_def Let_def split: if_splits)
  moreover define after where "after = drop (length ?tok) ?m"
  have "length rest \<le> length after"
    using a unfolding strtok_next_def Let_def after_def[symmetric]
    by (cases after) (auto split: if_splits)
  then have "length rest \<le> length ?m - length ?tok" by (simp add: after_def)
  moreover have "length ?m \<le> length mem" by (rule length_dropWhile_le)
  moreover have "length ?tok \<le> length ?m" by (rule length_takeWhile_le)
  ultimately show ?thesis by (cases ?tok) auto
qed

termination uri_files
  by (relation "measure length") (auto dest: strtok_next_shorter)

declare uri_files.simps [simp del]

section \<open>Percent encoding\<close>

text \<open>
  The inverse a drag source applies: letters, digits and \<^verbatim>\<open>/ - . _ ~\<close> stand for themselves,
  every other byte is a percent sign and two hex digits.
\<close>

definition plain_char :: "u8 \<Rightarrow> bool" where
  "plain_char c = (let n = unat c in 48 \<le> n \<and> n \<le> 57 \<or> 65 \<le> n \<and> n \<le> 90 \<or> 97 \<le> n \<and> n \<le> 122 \<or>
     n \<in> {45, 46, 47, 95, 126})"

definition hex_char :: "nat \<Rightarrow> u8" where
  "hex_char d = (if d < 10 then of_nat (48 + d) else of_nat (55 + d))"

definition pct_char :: "u8 \<Rightarrow> bytes" where
  "pct_char c = (if plain_char c then [c] else [37, hex_char (unat c div 16), hex_char (unat c mod 16)])"

definition pct_encode :: "bytes \<Rightarrow> bytes" where
  "pct_encode s = concat (map pct_char s)"

lemma hex_chars: "\<forall>d \<in> set [0..<16]. hex_digit (hex_char d) = Some d \<and> \<not> is_space (hex_char d) \<and>
    hex_char d \<noteq> 45 \<and> hex_char d \<noteq> 43 \<and> hex_char d \<noteq> 0 \<and> \<not> is_eol (hex_char d)"
  by code_simp

lemma hex_digit_hex_char:
  assumes "d < 16"
  shows "hex_digit (hex_char d) = Some d" and "\<not> is_space (hex_char d)"
    and "hex_char d \<noteq> 45" and "hex_char d \<noteq> 43" and "hex_char d \<noteq> 0" and "\<not> is_eol (hex_char d)"
  using bspec[OF hex_chars, of d] assms by auto

lemma unat_u8_lt: "unat (c :: u8) < 256"
  using unsigned_less[of c, where 'a = nat] by simp

lemma strtol16_byte: "word_of_int (strtol16 [hex_char (unat c div 16), hex_char (unat c mod 16)]) = (c :: u8)"
proof -
  have h: "unat c div 16 < 16" "unat c mod 16 < 16" using unat_u8_lt[of c] by auto
  have "strtol16 [hex_char (unat c div 16), hex_char (unat c mod 16)] = int (16 * (unat c div 16) + unat c mod 16)"
    by (simp add: strtol16_def hex_digit_hex_char[OF h(1)] hex_digit_hex_char[OF h(2)])
  also have "\<dots> = int (unat c)" by (simp only: mult_div_mod_eq)
  finally show ?thesis by simp
qed

lemma plain_char_facts: "plain_char c \<Longrightarrow> c \<noteq> 37 \<and> c \<noteq> 0 \<and> \<not> is_eol c"
  by (auto simp: plain_char_def is_eol_def Let_def)

lemma pct_decode_plain: "a \<noteq> 37 \<Longrightarrow> pct_decode (a # s) = a # pct_decode s"
  by (cases s rule: pct_decode.cases) auto

lemma pct_decode_encode [simp]: "pct_decode (pct_encode s) = s"
proof (induction s)
  case (Cons c s)
  then show ?case
    by (auto simp: pct_encode_def pct_char_def strtol16_byte pct_decode_plain dest: plain_char_facts)
qed (simp add: pct_encode_def)

interpretation pct: codec "\<lambda>_. True" pct_encode "\<lambda>s. Some (pct_decode s)"
  by unfold_locales simp

section \<open>A list of dropped files\<close>

definition uri_line :: "bytes \<Rightarrow> bytes" where
  "uri_line p = uri_prefix @ pct_encode p @ [13, 10]"

lemma pct_encode_clean: "c \<in> set (pct_encode s) \<Longrightarrow> c \<noteq> 0 \<and> \<not> is_eol c"
proof -
  assume "c \<in> set (pct_encode s)"
  then obtain b where b: "c \<in> set (pct_char b)" by (auto simp: pct_encode_def)
  have h: "unat b div 16 < 16" "unat b mod 16 < 16" using unat_u8_lt[of b] by auto
  show ?thesis
    using b hex_digit_hex_char(5,6)[OF h(1)] hex_digit_hex_char(5,6)[OF h(2)]
    by (auto simp: pct_char_def is_eol_def dest: plain_char_facts split: if_splits)
qed

lemma uri_prefix_eq: "uri_prefix = [102, 105, 108, 101, 58, 47, 47]"
  by (simp add: uri_prefix_def str_def)

lemma uri_prefix_clean: "c \<in> set uri_prefix \<Longrightarrow> c \<noteq> 0 \<and> \<not> is_eol c"
  by (auto simp: uri_prefix_eq is_eol_def)

lemma takeWhile_clean: "(\<And>c. c \<in> set xs \<Longrightarrow> P c) \<Longrightarrow> \<not> P d \<Longrightarrow> takeWhile P (xs @ d # ys) = xs"
  by (induction xs) auto

lemma strtok_next_token:
  assumes c: "\<And>c. c \<in> set l \<Longrightarrow> c \<noteq> 0 \<and> \<not> is_eol c" and "l \<noteq> []" and skip: "dropWhile is_eol m = l @ 13 # rest"
  shows "strtok_next m = Some (l @ 0 # rest, rest)"
proof -
  have "takeWhile (\<lambda>c. c \<noteq> 0 \<and> \<not> is_eol c) (l @ 13 # rest) = l"
    by (rule takeWhile_clean) (use c in \<open>auto simp: is_eol_def\<close>)
  with assms(2) skip show ?thesis by (simp add: strtok_next_def Let_def)
qed

lemma pct_encode_slash: "p \<noteq> [] \<Longrightarrow> hd p = 47 \<Longrightarrow> \<exists>q. pct_encode p = 47 # q"
  by (cases p) (auto simp: pct_encode_def pct_char_def plain_char_def)

lemma uri_files_line:
  assumes p: "p \<noteq> []" "hd p = 47" "0 \<notin> set p" and skip: "dropWhile is_eol m = uri_line p @ mem"
  shows "uri_files m = (let (fs, ok) = uri_files (10 # mem) in (p # fs, ok))"
proof -
  obtain q where q: "pct_encode p = 47 # q" using pct_encode_slash[OF p(1,2)] by blast
  let ?l = "uri_prefix @ pct_encode p"
  have clean: "0 \<notin> set (47 # q)" using pct_encode_clean[of 0 p] q by auto
  have "strtok_next m = Some (?l @ 0 # 10 # mem, 10 # mem)"
    by (rule strtok_next_token)
      (use skip uri_prefix_clean pct_encode_clean in \<open>auto simp: uri_line_def uri_prefix_eq\<close>)
  moreover have "line_path (?l @ 0 # 10 # mem) = Some (47 # q @ 0 # 10 # mem)"
    by (simp add: line_path_def uri_prefix_eq q)
  moreover have "cstr (47 # q @ 0 # 10 # mem) = 47 # q"
    using cstr_append_nul[OF clean] by simp
  moreover have "pct_decode (47 # q) = p" using q pct_decode_encode[of p] by simp
  moreover have "cstr p = p" using p(3) by (rule cstr_no_nul_id)
  ultimately show ?thesis
    by (subst uri_files.simps) simp
qed

lemma eol10: "is_eol 10"
  by (simp add: is_eol_def)

lemma dropWhile_eol_line: "dropWhile is_eol (uri_line p @ m) = uri_line p @ m"
  by (simp add: uri_line_def uri_prefix_eq is_eol_def)

lemma uri_files_list:
  assumes "\<forall>p \<in> set ps. p \<noteq> [] \<and> hd p = 47 \<and> 0 \<notin> set p"
    and "dropWhile is_eol m = concat (map uri_line ps) @ 0 # junk"
  shows "uri_files m = (ps, True)"
  using assms
proof (induction ps arbitrary: m)
  case Nil
  then have "strtok_next m = None" by (simp add: strtok_next_def Let_def)
  then show ?case by (simp add: uri_files.simps)
next
  case (Cons p ps)
  let ?mem = "concat (map uri_line ps) @ 0 # junk"
  have "dropWhile is_eol ?mem = ?mem"
    by (cases ps) (simp_all add: dropWhile_eol_line is_eol_def)
  then have "uri_files (10 # ?mem) = (ps, True)"
    using Cons.prems eol10 by (intro Cons.IH) simp_all
  moreover have "uri_files m = (let (fs, ok) = uri_files (10 # ?mem) in (p # fs, ok))"
    using Cons.prems by (intro uri_files_line) simp_all
  ultimately show ?case by simp
qed

text \<open>
  C22: A dropped list of percent-encoded absolute file URIs, one per line, is handed to the drop
  callback as exactly the original paths, in order, whatever bytes other than NUL they hold and
  whatever follows the terminator; the parser stays inside the block.
\<close>

theorem dropped_files_roundtrip:
  assumes "\<forall>p \<in> set ps. p \<noteq> [] \<and> hd p = 47 \<and> 0 \<notin> set p"
  shows "uri_files (concat (map uri_line ps) @ 0 # junk) = (ps, True)"
proof -
  have "dropWhile is_eol (concat (map uri_line ps) @ 0 # junk) = concat (map uri_line ps) @ 0 # junk"
    by (cases ps) (simp_all add: dropWhile_eol_line is_eol_def)
  with assms show ?thesis by (rule uri_files_list)
qed

text \<open>Two files, the second with a percent sign in its name.\<close>

theorem dropped_files_roundtrip_witness:
  "uri_files (uri_line [47, 97, 32] @ uri_line [47, 37] @ [0]) = ([[47, 97, 32], [47, 37]], True)"
  using dropped_files_roundtrip[of "[[47, 97, 32], [47, 37]]" "[]"] by simp

text \<open>
  A line that starts with the file prefix and has no slash anywhere behind it, up to the end
  of the block, makes the search for the path run past the end of the block.
\<close>

theorem host_only_uri_overruns:
  assumes "47 \<notin> set host" and "0 \<notin> set host" and "\<forall>c \<in> set host. \<not> is_eol c"
  shows "uri_files (uri_prefix @ host @ [0]) = ([], False)"
proof -
  let ?l = "uri_prefix @ host"
  have "c \<noteq> 0 \<and> \<not> is_eol c" if "c \<in> set ?l" for c
    using that assms(2,3) uri_prefix_clean by (cases "c = 0") auto
  then have tw: "takeWhile (\<lambda>c. c \<noteq> 0 \<and> \<not> is_eol c) (?l @ [0]) = ?l"
    by (intro takeWhile_clean) simp_all
  have dw: "dropWhile is_eol (?l @ [0]) = ?l @ [0]"
    by (simp add: uri_prefix_eq is_eol_def)
  have "?l \<noteq> []" by (simp add: uri_prefix_eq)
  then have "strtok_next (?l @ [0]) = Some (?l @ [0], [0])"
    unfolding strtok_next_def Let_def dw tw by simp
  moreover have "line_path (?l @ [0]) = Some (dropWhile (\<lambda>c. c \<noteq> 47) (host @ [0]))"
    by (simp add: line_path_def uri_prefix_eq)
  moreover have "dropWhile (\<lambda>c. c \<noteq> 47) (host @ [0]) = []"
    using assms(1) by (auto simp: dropWhile_eq_Nil_conv)
  ultimately show ?thesis by (subst uri_files.simps) simp
qed

theorem host_only_uri_overruns_witness: "uri_files (uri_prefix @ str ''localhost'' @ [0]) = ([], False)"
  using host_only_uri_overruns[of "str ''localhost''"] by (simp add: str_def is_eol_def)

end
