(* ===== verification/Eglut_Events.thy ===== *)
theory Eglut_Events
  imports Eglut Uri_List
begin

text \<open>
  The event handling of \<^verbatim>\<open>eglut/src/eglut_x11.c\<close>: the XInput events, the dispatcher
  \<open>next_event\<close> with keyboard, mouse, focus, drag-and-drop and clipboard events, and the two
  loops around it. The loops may run for ever, so they take fuel and stop with \<open>NoFuel\<close> when
  it is used up.

  Two documented facts of Xlib are built in: the event \<open>XNextEvent\<close> removes is the one
  \<open>XPeekEvent\<close> showed just before, and property data is followed by a zero byte. The
  allocation of the copy of a dropped path is taken to succeed.
\<close>

section \<open>Callbacks of a window\<close>

definition win_cb :: "xenv \<Rightarrow> nat \<Rightarrow> (eglut_window \<Rightarrow> cb option) \<Rightarrow> (cb \<Rightarrow> cbcall) \<Rightarrow> unit eg" where
  "win_cb E p f c = andthen (win_get p f) (\<lambda>g. callback_opt E c g)"

section \<open>XInput events\<close>

definition XIMaskIsSet :: "bool list \<Rightarrow> nat \<Rightarrow> bool" where
  "XIMaskIsSet m i \<longleftrightarrow> i < length m \<and> m ! i"

text \<open>\<open>*(val++)\<close>.\<close>

definition next_value :: "bool \<Rightarrow> real list \<Rightarrow> (real \<times> real list) eg" where
  "next_value b vals = (if \<not> b then ret (0, vals)
     else case vals of [] \<Rightarrow> stop OutOfBounds | v # vs \<Rightarrow> ret (v, vs))"

definition button_cb :: "xenv \<Rightarrow> nat \<Rightarrow> xi_device \<Rightarrow> int \<Rightarrow> unit eg" where
  "button_cb E p d action = andthen (win_get p mouse_button_cb) (\<lambda>f. case f of None \<Rightarrow> ret ()
     | Some g \<Rightarrow> andthen (int_of_double (event_x d)) (\<lambda>x. andthen (int_of_double (event_y d)) (\<lambda>y.
         callback E (MouseButtonCB g x y (xi_detail d) action))))"

definition EGLUT_MOUSE_PRESS :: int where "EGLUT_MOUSE_PRESS = 0"
definition EGLUT_MOUSE_RELEASE :: int where "EGLUT_MOUSE_RELEASE = 1"

definition handle_xinput_event :: "xenv \<Rightarrow> nat \<Rightarrow> xi_event \<Rightarrow> unit eg" where
  "handle_xinput_event E p ev = (case ev of
     XI_RawMotion d \<Rightarrow>
       andthen (next_value (raw_mask_len d \<ge> 1 \<and> XIMaskIsSet (raw_mask d) 0) (raw_values d)) (\<lambda>(x, vals).
       andthen (next_value (raw_mask_len d \<ge> 1 \<and> XIMaskIsSet (raw_mask d) 1) vals) (\<lambda>(y, _).
       win_cb E p mouse_raw_cb (\<lambda>g. MouseRawCB g x y)))
   | XI_Motion d \<Rightarrow> andthen (getp rel_enabled) (\<lambda>on.
       if on then
         andthen (int_of_double (event_x d)) (\<lambda>x. seqp (modp (\<lambda>s. s\<lparr>rel_last_x := x\<rparr>))
        (andthen (int_of_double (event_y d)) (\<lambda>y. modp (\<lambda>s. s\<lparr>rel_last_y := y\<rparr>))))
       else andthen (win_get p mouse_cb) (\<lambda>f. case f of None \<Rightarrow> ret ()
         | Some g \<Rightarrow> andthen (int_of_double (event_x d)) (\<lambda>x. andthen (int_of_double (event_y d)) (\<lambda>y.
             callback E (MouseCB g x y)))))
   | XI_ButtonPress d \<Rightarrow> button_cb E p d EGLUT_MOUSE_PRESS
   | XI_ButtonRelease d \<Rightarrow> button_cb E p d EGLUT_MOUSE_RELEASE
   | XI_TouchBegin d \<Rightarrow> win_cb E p touch_start_cb (\<lambda>g. TouchStartCB g (xi_detail d) (event_x d) (event_y d))
   | XI_TouchUpdate d \<Rightarrow> win_cb E p touch_update_cb (\<lambda>g. TouchUpdateCB g (xi_detail d) (event_x d) (event_y d))
   | XI_TouchEnd d \<Rightarrow> win_cb E p touch_end_cb (\<lambda>g. TouchEndCB g (xi_detail d) (event_x d) (event_y d))
   | XI_Other \<Rightarrow> ret ())"

section \<open>Keys\<close>

definition EGLUT_KEY_PRESS :: int where "EGLUT_KEY_PRESS = 0"
definition EGLUT_KEY_RELEASE :: int where "EGLUT_KEY_RELEASE = 1"
definition EGLUT_KEY_REPEAT :: int where "EGLUT_KEY_REPEAT = 2"

text \<open>\<open>Xutf8LookupString\<close> into 8 bytes, and again into a block of the size it asked for.\<close>

definition lookup_string :: "xenv \<Rightarrow> (bytes \<times> bool) eg" where
  "lookup_string E = andthen (getp x11_ic) (\<lambda>ic. if ic = 0 then stop NullPointer else
     andthen (ask (env_lookup E) (Ev (Utf8LookupString 8))) (\<lambda>(b, overflow).
     if \<not> overflow then ret (b, False) else
     andthen (ask (env_handle E) (Png (Malloc (of_nat (length b + 1))))) (\<lambda>m.
     if m = 0 then stop NullPointer else
     andthen (ask (env_lookup E) (Ev (Utf8LookupString (length b + 1)))) (\<lambda>(b', _).
     ret (b', True)))))"

definition same_key :: "key_event \<Rightarrow> key_event \<Rightarrow> bool" where
  "same_key a k \<longleftrightarrow> key_window a = key_window k \<and> keycode a = keycode k \<and> key_time a = key_time k"

text \<open>
  The type reported for the key and the modifier state of the event in hand: a release that is
  directly followed by a press of the same key at the same time is a repeat, and the press is
  taken off the queue.
\<close>

definition key_type :: "xenv \<Rightarrow> bool \<Rightarrow> key_event \<Rightarrow> (int \<times> u32) eg" where
  "key_type E pressed k = (if pressed then ret (EGLUT_KEY_PRESS, key_state k) else
     andthen (xask (env_ok E) (Ev EventsQueued)) (\<lambda>queued.
     if \<not> queued then ret (EGLUT_KEY_RELEASE, key_state k) else
     andthen (xask (env_event E) (Ev PeekEvent)) (\<lambda>ahead.
     case ahead of
       KeyPress a \<Rightarrow> if same_key a k
         then seqp (xreq (Ev NextEvent)) (ret (EGLUT_KEY_REPEAT, key_state a))
         else ret (EGLUT_KEY_RELEASE, key_state k)
     | _ \<Rightarrow> ret (EGLUT_KEY_RELEASE, key_state k))))"

definition keyboard_call :: "xenv \<Rightarrow> nat \<Rightarrow> bytes \<Rightarrow> int \<Rightarrow> unit eg" where
  "keyboard_call E p b type = andthen (win_get p keyboard_cb) (\<lambda>f. case f of None \<Rightarrow> ret ()
     | Some DefaultKeyboard \<Rightarrow> eglutDefaultKeyboard b type
     | Some (UserKeyboard g) \<Rightarrow> callback E (KeyboardCB g b type))"

definition handle_key :: "xenv \<Rightarrow> nat \<Rightarrow> bool \<Rightarrow> key_event \<Rightarrow> bool eg" where
  "handle_key E p pressed k =
     andthen (lookup_string E) (\<lambda>(b, heap).
     andthen (ask (env_handle E) (Ev LookupKeysym)) (\<lambda>keysym.
     andthen (key_type E pressed k) (\<lambda>(type, mods).
     seqp (whenp (b \<noteq> []) (keyboard_call E p b type))
    (seqp (andthen (win_get p special_cb) (\<lambda>f. case f of None \<Rightarrow> ret ()
       | Some g \<Rightarrow> (let r = int_of_long (uint keysym) in
           whenp (r \<ge> 0) (callback E (SpecialCB g r type mods)))))
    (seqp (whenp heap (log_call (Png Free)))
          (ret (type \<noteq> EGLUT_KEY_REPEAT)))))))"

section \<open>Mouse, focus and geometry\<close>

definition handle_motion :: "xenv \<Rightarrow> nat \<Rightarrow> int \<Rightarrow> int \<Rightarrow> unit eg" where
  "handle_motion E p x y = andthen (getp rel_enabled) (\<lambda>on.
     if on then
       seqp (andthen (win_get p mouse_raw_cb) (\<lambda>f. andthen (getp rel_raw_mode) (\<lambda>raw.
         case f of None \<Rightarrow> ret () | Some g \<Rightarrow>
           whenp (\<not> raw)
            (andthen (getp (\<lambda>s. (rel_last_x s, rel_last_y s))) (\<lambda>(lx, ly).
             andthen (c_int (x - lx)) (\<lambda>dx. andthen (c_int (y - ly)) (\<lambda>dy.
             callback E (MouseRawCB g (of_int dx) (of_int dy))))))))
      ) (modp (\<lambda>s. s\<lparr>rel_last_x := x, rel_last_y := y\<rparr>))
     else win_cb E p mouse_cb (\<lambda>g. MouseCB g x y))"

definition handle_configure :: "xenv \<Rightarrow> nat \<Rightarrow> int \<Rightarrow> int \<Rightarrow> int \<Rightarrow> int \<Rightarrow> unit eg" where
  "handle_configure E p x y w h =
     seqp (win_mod p (\<lambda>v. v\<lparr>native_x := x, native_y := y, native_width := w, native_height := h\<rparr>))
    (andthen (win_get p (\<lambda>v. (native_width v, native_height v))) (\<lambda>(w, h).
     win_cb E p reshape_cb (\<lambda>g. ReshapeCB g w h)))"

definition NotifyNormal :: int where "NotifyNormal = 0"
definition NotifyWhileGrabbed :: int where "NotifyWhileGrabbed = 3"

definition handle_focus_in :: "xenv \<Rightarrow> nat \<Rightarrow> int \<Rightarrow> unit eg" where
  "handle_focus_in E p mode = whenp (mode = NotifyNormal \<or> mode = NotifyWhileGrabbed)
     (seqp (andthen (getp rel_enabled) (\<lambda>on. whenp on (eglutSetMousePointerLocked E True)))
           (win_cb E p focus_cb (\<lambda>g. FocusCB g 1)))"

definition handle_focus_out :: "xenv \<Rightarrow> nat \<Rightarrow> int \<Rightarrow> unit eg" where
  "handle_focus_out E p mode = whenp (mode = NotifyNormal \<or> mode = NotifyWhileGrabbed)
     (seqp (andthen (getp rel_enabled) (\<lambda>on. whenp on
             (seqp (eglutXinputSetRawMotion E False) (eglutSetMousePointerVisiblity E EGLUT_POINTER_VISIBLE))))
           (win_cb E p focus_cb (\<lambda>g. FocusCB g 0)))"

section \<open>Drag and drop\<close>

text \<open>The \<open>long\<close> version number, read as signed.\<close>

definition dnd_ver :: "eglut_state \<Rightarrow> int" where "dnd_ver s = sint (dnd_version s)"

definition LONG_MAX :: int where "LONG_MAX = 2 ^ 63 - 1"

definition dnd_formats :: "xenv \<Rightarrow> client_event \<Rightarrow> handle list eg" where
  "dnd_formats E ev = (if bit (cl_l ev 1) 0 then
       andthen (getp (\<lambda>s. (dnd_source s, XdndTypeList s))) (\<lambda>(src, tl).
       andthen (xask (\<lambda>t. (env_ok E t, env_atoms E t)) (Ipc (GetWindowProperty src tl LONG_MAX XA_ATOM))) (\<lambda>(ok, fs).
       if ok then ret fs else stop Uninitialised))
     else ret (filter (\<lambda>a. a \<noteq> 0) [cl_l ev 2, cl_l ev 3, cl_l ev 4]))"

definition dnd_enter :: "xenv \<Rightarrow> client_event \<Rightarrow> unit eg" where
  "dnd_enter E ev =
     seqp (modp (\<lambda>s. s\<lparr>dnd_source := cl_l ev 0, dnd_version := signed_drop_bit 24 (cl_l ev 1), dnd_format := 0\<rparr>))
    (andthen (getp dnd_ver) (\<lambda>v. if v > 5 then ret () else
     andthen (dnd_formats E ev) (\<lambda>fs.
     andthen (getp XtextUriList) (\<lambda>uri.
     seqp (whenp (uri \<in> set fs) (modp (\<lambda>s. s\<lparr>dnd_format := ucast uri\<rparr>)))
          (whenp (bit (cl_l ev 1) 0) (log_call (Ipc XFree)))))))"

definition dnd_position :: "xenv \<Rightarrow> unit eg" where
  "dnd_position E = andthen (cur_get native_window) (\<lambda>w.
     andthen (getp id) (\<lambda>s.
     if dnd_ver s > 5 then ret () else
     seqp (xreq (Ipc (SendEvent (dnd_source s) False 0 (ClientMsg (dnd_source s) (XdndStatus s)
        [Some w, if dnd_format s \<noteq> 0 then Some 1 else None, Some 0, Some 0,
         if dnd_format s \<noteq> 0 \<and> dnd_ver s \<ge> 2 then Some (XdndActionCopy s) else None]))))
      (xreq (Ipc Flush))))"

definition dnd_drop :: "client_event \<Rightarrow> unit eg" where
  "dnd_drop ev = andthen (getp id) (\<lambda>s.
     if dnd_format s \<noteq> 0 then
       andthen (cur_get native_window) (\<lambda>w.
       xreq (Ipc (ConvertSelection (XdndSelection s) (scast (dnd_format s)) (XdndSelection s) w
         (if dnd_ver s \<ge> 1 then cl_l ev 2 else CurrentTime))))
     else if dnd_ver s \<ge> 2 then
       andthen (cur_get native_window) (\<lambda>w.
       seqp (xreq (Ipc (SendEvent (dnd_source s) False 0 (ClientMsg (dnd_source s) (XdndFinished s)
          [Some w, None, Some 0, Some 0, None]))))
        (xreq (Ipc Flush)))
     else ret ())"

definition handle_close :: "xenv \<Rightarrow> nat \<Rightarrow> unit eg" where
  "handle_close E p = andthen (win_get p close_cb) (\<lambda>f. case f of
     Some g \<Rightarrow> callback E (CloseCB g)
   | None \<Rightarrow> seqp destroy_current eglutFini)"

definition handle_client_message :: "xenv \<Rightarrow> nat \<Rightarrow> client_event \<Rightarrow> unit eg" where
  "handle_client_message E p ev =
     andthen (intern E ''WM_DELETE_WINDOW'') (\<lambda>del.
     seqp (whenp (cl_l ev 0 = del) (handle_close E p))
    (andthen (getp id) (\<lambda>s.
     if cl_type ev = XdndEnter s then dnd_enter E ev
     else if cl_type ev = XdndPosition s then dnd_position E
     else if cl_type ev = XdndDrop s \<and> dnd_ver s \<le> 5 then dnd_drop ev
     else ret ())))"

section \<open>Selections\<close>

definition le64 :: "u64 \<Rightarrow> bytes" where
  "le64 w = map (\<lambda>i. ucast (drop_bit (8 * i) w)) [0, 1, 2, 3, 4, 5, 6, 7]"

definition handle_selection_request :: "xenv \<Rightarrow> selection_request \<Rightarrow> unit eg" where
  "handle_selection_request E r =
     andthen (intern E ''TARGETS'') (\<lambda>targets.
     andthen (intern E ''STRING'') (\<lambda>string_atom.
     andthen (intern E ''UTF8_STRING'') (\<lambda>utf8.
     andthen
      (if sr_target r = targets then
         seqp (xreq (Ipc (ChangeProperty (sr_requestor r) (sr_property r) targets 32 (le64 utf8 @ le64 string_atom) 2)))
              (ret (sr_property r))
       else if sr_target r = string_atom \<or> sr_target r = utf8 then
         andthen (getp clipboard) (\<lambda>c. case c of None \<Rightarrow> stop NullPointer
           | Some text \<Rightarrow>
             seqp (xreq (Ipc (ChangeProperty (sr_requestor r) (sr_property r) (sr_target r) 8 text (length text))))
                  (ret (sr_property r)))
       else ret 0) (\<lambda>prop.
     xreq (Ipc (SendEvent (sr_requestor r) True 0
       (SelectionMsg (sr_requestor r) (sr_selection r) (sr_target r) prop (sr_time r))))))))"

definition handle_drop_data :: "xenv \<Rightarrow> nat \<Rightarrow> selection_event \<Rightarrow> unit eg" where
  "handle_drop_data E p ev =
     andthen (xask (\<lambda>t. (env_ok E t, env_property E t))
       (Ipc (GetWindowProperty (sn_requestor ev) (sn_property ev) LONG_MAX (sn_target ev)))) (\<lambda>(ok, data).
     if \<not> ok then stop Uninitialised else
     case data of None \<Rightarrow> ret () | Some d \<Rightarrow>
     if d = [] then ret () else
     (let (files, inside) = uri_files (d @ [0]) in
      seqp (seqs (map (\<lambda>f. win_cb E p drop_cb (\<lambda>g. DropCB g f)) files))
     (if \<not> inside then stop OutOfBounds else
      seqp (whenp (strtok_next (d @ [0]) = None) (log_call (Ipc XFree)))
     (andthen (getp id) (\<lambda>s. whenp (dnd_ver s \<ge> 2)
        (andthen (cur_get native_window) (\<lambda>w.
         seqp (xreq (Ipc (SendEvent (dnd_source s) False 0 (ClientMsg (dnd_source s) (XdndFinished s)
            [Some w, Some (of_nat (length d)), Some (XdndActionCopy s), Some 0, None]))))
          (xreq (Ipc Flush)))))))))"

definition handle_paste_data :: "xenv \<Rightarrow> nat \<Rightarrow> unit eg" where
  "handle_paste_data E p =
     andthen (intern E ''UTF8_STRING'') (\<lambda>utf8.
     andthen (intern E ''EGLUT_CLIPBOARD'') (\<lambda>app.
     andthen (cur_get native_window) (\<lambda>w.
     andthen (xask (\<lambda>t. (env_ok E t, env_property E t)) (Ipc (GetWindowProperty w app 65536 utf8))) (\<lambda>(ok, data).
     case data of None \<Rightarrow> ret () | Some d \<Rightarrow>
     whenp ok (seqp (win_cb E p paste_cb (\<lambda>g. PasteCB g d (int_of_long (int (length d)))))
                    (log_call (Ipc XFree)))))))"

definition handle_selection_notify :: "xenv \<Rightarrow> nat \<Rightarrow> selection_event \<Rightarrow> unit eg" where
  "handle_selection_notify E p ev = andthen (getp XdndSelection) (\<lambda>sel.
     if sn_property ev = sel then handle_drop_data E p ev else handle_paste_data E p)"

section \<open>The dispatcher\<close>

text \<open>The body of the switch; the result is \<open>redraw\<close>.\<close>

definition dispatch :: "xenv \<Rightarrow> nat \<Rightarrow> xevent \<Rightarrow> bool eg" where
  "dispatch E p ev = (case ev of
     Expose \<Rightarrow> ret True
   | ConfigureNotify x y bw w h \<Rightarrow> seqp (handle_configure E p x y w h) (ret False)
   | GenericEvent ext xi \<Rightarrow>
       andthen (xask (env_ok E) (Ev GetEventData)) (\<lambda>ok. andthen (getp (\<lambda>s. xi_opcode (xi_state s))) (\<lambda>op.
       seqp (whenp (ok \<and> ext = op) (handle_xinput_event E p xi)) (ret False)))
   | KeyPress k \<Rightarrow> handle_key E p True k
   | KeyRelease k \<Rightarrow> handle_key E p False k
   | MotionNotify x y \<Rightarrow> seqp (handle_motion E p x y) (ret False)
   | ButtonPress x y b \<Rightarrow> seqp (win_cb E p mouse_button_cb (\<lambda>g. MouseButtonCB g x y b EGLUT_MOUSE_PRESS)) (ret False)
   | ButtonRelease x y b \<Rightarrow> seqp (win_cb E p mouse_button_cb (\<lambda>g. MouseButtonCB g x y b EGLUT_MOUSE_RELEASE)) (ret False)
   | FocusIn m \<Rightarrow> seqp (handle_focus_in E p m) (ret False)
   | FocusOut m \<Rightarrow> seqp (handle_focus_out E p m) (ret False)
   | ClientMessage c \<Rightarrow> seqp (handle_client_message E p c) (ret False)
   | SelectionRequest r \<Rightarrow> seqp (handle_selection_request E r) (ret False)
   | SelectionNotify n \<Rightarrow> seqp (handle_selection_notify E p n) (ret False)
   | OtherEvent \<Rightarrow> ret False)"

definition next_event :: "xenv \<Rightarrow> nat option \<Rightarrow> unit eg" where
  "next_event E win = andthen (xask (env_event E) (Ev NextEvent)) (\<lambda>ev.
     case win of None \<Rightarrow> stop NullWindow | Some p \<Rightarrow>
     andthen (win_get p keyboardstate) (\<lambda>ks.
     andthen (if ks \<noteq> 0 \<or> \<not> is_key ev then ask (env_ok E) (Ev FilterEvent) else ret False) (\<lambda>filtered.
     if filtered then modp (\<lambda>s. s\<lparr>redisplay := False\<rparr>)
     else andthen (dispatch E p ev) (\<lambda>redraw. modp (\<lambda>s. s\<lparr>redisplay := redraw\<rparr>)))))"

section \<open>The loops\<close>

fun poll_loop :: "xenv \<Rightarrow> nat option \<Rightarrow> nat \<Rightarrow> unit eg" where
  "poll_loop E win 0 = stop NoFuel"
| "poll_loop E win (Suc n) = andthen (xask (env_ok E) (Ev Pending)) (\<lambda>pending.
     if pending then seqp (next_event E win) (poll_loop E win n) else ret ())"

definition idle_call :: "xenv \<Rightarrow> unit eg" where
  "idle_call E = andthen (getp idle_cb) (\<lambda>f. callback_opt E IdleCB f)"

definition recentre :: "unit eg" where
  "recentre = andthen (getp rel_enabled) (\<lambda>on. whenp on
     (andthen eglutGetWindowWidth (\<lambda>w. andthen eglutGetWindowHeight (\<lambda>h.
      andthen (getp (\<lambda>s. w sdiv 2 \<noteq> rel_last_x s \<or> h sdiv 2 \<noteq> rel_last_y s)) (\<lambda>off.
      whenp off (seqp (modp (\<lambda>s. s\<lparr>rel_last_x := w sdiv 2, rel_last_y := h sdiv 2\<rparr>))
                      (eglutWarpMousePointer (w sdiv 2) (h sdiv 2))))))))"

definition eglutPollEvents :: "xenv \<Rightarrow> nat \<Rightarrow> unit eg" where
  "eglutPollEvents E n = andthen (getp current) (\<lambda>win.
     seqp (poll_loop E win n) (seqp (idle_call E) recentre))"

fun drain_loop :: "xenv \<Rightarrow> nat option \<Rightarrow> nat \<Rightarrow> unit eg" where
  "drain_loop E win 0 = stop NoFuel"
| "drain_loop E win (Suc n) = andthen (xask (env_ok E) (Ev Pending)) (\<lambda>pending.
     andthen (getp redisplay) (\<lambda>r.
     if pending \<and> \<not> r then seqp (next_event E win) (drain_loop E win n) else ret ()))"

definition loop_idle :: "xenv \<Rightarrow> unit eg" where
  "loop_idle E = andthen (getp redisplay) (\<lambda>r. whenp (\<not> r) (idle_call E))"

definition loop_display :: "xenv \<Rightarrow> nat option \<Rightarrow> unit eg" where
  "loop_display E win = andthen (getp redisplay) (\<lambda>r. whenp r
     (seqp (modp (\<lambda>s. s\<lparr>redisplay := False\<rparr>))
     (case win of None \<Rightarrow> stop NullWindow | Some p \<Rightarrow> win_cb E p display_cb DisplayCB)))"

fun eglutNativeEventLoop :: "xenv \<Rightarrow> nat \<Rightarrow> unit eg" where
  "eglutNativeEventLoop E 0 = stop NoFuel"
| "eglutNativeEventLoop E (Suc n) = andthen (getp current) (\<lambda>win.
     andthen (getp native_dpy) (\<lambda>d. if d = 0 then ret () else
     seqp (drain_loop E win n)
    (seqp (loop_idle E)
    (seqp recentre
    (seqp (loop_display E win)
          (eglutNativeEventLoop E n))))))"

definition eglutMainLoop :: "xenv \<Rightarrow> nat \<Rightarrow> unit eg" where
  "eglutMainLoop E n = andthen (getp current) (\<lambda>win. case win of
     None \<Rightarrow> eglutFatal (''no window is created'' @ [CHR 0x0A])
   | Some p \<Rightarrow>
     andthen (win_get p (\<lambda>v. (native_width v, native_height v))) (\<lambda>(w, h).
     seqp (win_cb E p reshape_cb (\<lambda>g. ReshapeCB g w h))
          (eglutNativeEventLoop E n)))"

section \<open>The window list through events\<close>

lemma shape_frame [simp]:
  "shape (s\<lparr>rel_last_x := i\<rparr>) = shape s" "shape (s\<lparr>rel_last_y := j\<rparr>) = shape s"
  "shape (s\<lparr>redisplay := b\<rparr>) = shape s" "shape (s\<lparr>dnd_source := h\<rparr>) = shape s"
  "shape (s\<lparr>dnd_version := v\<rparr>) = shape s" "shape (s\<lparr>dnd_format := f\<rparr>) = shape s"
  by (simp_all add: shape_def)

lemma keeps_win_cb [keeps_rules]: "user_keeps E (on_shape P) \<Longrightarrow> keeps (on_shape P) (win_cb E p f c)"
  unfolding win_cb_def by (intro keeps_rules)

lemma keeps_next_value [keeps_rules]: "keeps I (next_value b vals)"
  unfolding next_value_def by (intro keeps_rules)

lemma keeps_button_cb [keeps_rules]: "user_keeps E (on_shape P) \<Longrightarrow> keeps (on_shape P) (button_cb E p d a)"
  unfolding button_cb_def by (intro keeps_rules)

lemma keeps_xinput_event [keeps_rules]:
  "user_keeps E (on_shape P) \<Longrightarrow> keeps (on_shape P) (handle_xinput_event E p ev)"
  by (cases ev) (auto simp: handle_xinput_event_def intro!: keeps_rules)

lemma keeps_lookup_string [keeps_rules]: "keeps (on_shape P) (lookup_string E)"
  unfolding lookup_string_def by (intro keeps_rules)

lemma keeps_key_type [keeps_rules]: "keeps (on_shape P) (key_type E pressed k)"
proof -
  have "keeps (on_shape P) (case ahead of
       KeyPress a \<Rightarrow> if same_key a k
         then seqp (xreq (Ev NextEvent)) (ret (EGLUT_KEY_REPEAT, key_state a))
         else ret (EGLUT_KEY_RELEASE, key_state k)
     | _ \<Rightarrow> ret (EGLUT_KEY_RELEASE, key_state k))" for ahead
    by (cases ahead) (auto intro!: keeps_rules)
  then show ?thesis unfolding key_type_def by (intro keeps_rules)
qed

lemma keeps_keyboard_call [keeps_rules]:
  "user_keeps E (on_shape P) \<Longrightarrow> keeps (on_shape P) (keyboard_call E p b type)"
  unfolding keyboard_call_def
  by (intro keeps_rules) (auto split: keyboard_fn.split intro!: keeps_rules)

lemma keeps_handle_key [keeps_rules]:
  "user_keeps E (on_shape P) \<Longrightarrow> keeps (on_shape P) (handle_key E p pressed k)"
  unfolding handle_key_def by (intro keeps_rules)

lemma keeps_handlers [keeps_rules]:
  assumes "user_keeps E (on_shape P)"
  shows "keeps (on_shape P) (handle_motion E p x y)" "keeps (on_shape P) (handle_configure E p x y w h)"
    "keeps (on_shape P) (handle_focus_in E p m)" "keeps (on_shape P) (handle_focus_out E p m)"
    "keeps (on_shape P) (handle_client_message E p c)" "keeps (on_shape P) (handle_selection_request E r)"
    "keeps (on_shape P) (handle_selection_notify E p n)"
  unfolding handle_motion_def handle_configure_def handle_focus_in_def handle_focus_out_def
    handle_client_message_def handle_close_def dnd_enter_def dnd_formats_def dnd_position_def dnd_drop_def
    handle_selection_request_def handle_selection_notify_def handle_drop_data_def handle_paste_data_def
  using assms by (intro keeps_rules; auto intro!: keeps_rules)+

lemma keeps_dispatch [keeps_rules]:
  "user_keeps E (on_shape P) \<Longrightarrow> keeps (on_shape P) (dispatch E p ev)"
  unfolding dispatch_def by (cases ev) (simp, intro keeps_rules, assumption?)+

lemma keeps_next_event [keeps_rules]:
  "user_keeps E (on_shape P) \<Longrightarrow> keeps (on_shape P) (next_event E win)"
  unfolding next_event_def by (intro keeps_rules; simp)

lemma keeps_poll_loop [keeps_rules]:
  "user_keeps E (on_shape P) \<Longrightarrow> keeps (on_shape P) (poll_loop E win n)"
  by (induction n) (auto intro!: keeps_rules)

lemma keeps_drain_loop [keeps_rules]:
  "user_keeps E (on_shape P) \<Longrightarrow> keeps (on_shape P) (drain_loop E win n)"
  by (induction n) (auto intro!: keeps_rules)

lemma keeps_recentre [keeps_rules]: "keeps (on_shape P) recentre"
  unfolding recentre_def by (intro keeps_rules; simp)

lemma keeps_loop_parts [keeps_rules]:
  assumes "user_keeps E (on_shape P)"
  shows "keeps (on_shape P) (idle_call E)" "keeps (on_shape P) (loop_idle E)"
    "keeps (on_shape P) (loop_display E win)"
  unfolding idle_call_def loop_idle_def loop_display_def
  using assms by (intro keeps_rules; simp)+

lemma keeps_event_loop [keeps_rules]:
  "user_keeps E (on_shape P) \<Longrightarrow> keeps (on_shape P) (eglutNativeEventLoop E n)"
  by (induction n) (auto intro!: keeps_rules)

lemma keeps_mains [keeps_rules]:
  assumes "user_keeps E (on_shape P)"
  shows "keeps (on_shape P) (eglutPollEvents E n)" "keeps (on_shape P) (eglutMainLoop E n)"
  unfolding eglutPollEvents_def eglutMainLoop_def using assms by (intro keeps_rules; simp)+

section \<open>Every call of the interface\<close>

datatype api_call =
    Init "string list" | InitAPIMask u32 | InitWindowSize int int
  | Create string | Destroy int | SetCurrent int | ShowWin | SetIcon string | Fini
  | IdleFunc "cb option" | PostRedisplay | KeyboardFunc "keyboard_fn option"
  | WindowFunc nat "cb option" | KeyboardState int
  | Pointer pointer_op | ToggleFullscreen | SetClipboard bytes | RequestPaste
  | ClassName "string option" | PollEvents nat | MainLoop nat | Get int | Swap | Interval int

text \<open>The registrations that store a callback of the current window, in the order of the file.\<close>

definition window_setters :: "(cb option \<Rightarrow> unit eg) list" where
  "window_setters = [eglutDisplayFunc, eglutReshapeFunc, eglutDropFunc, eglutSpecialFunc,
     eglutPasteFunc, eglutMouseFunc, eglutMouseRawFunc, eglutMouseButtonFunc, eglutTouchStartFunc,
     eglutTouchUpdateFunc, eglutTouchEndFunc, eglutFocusFunc, eglutCloseWindowFunc]"

definition run_api :: "xenv \<Rightarrow> api_call \<Rightarrow> unit eg" where
  "run_api E c = (case c of
     Init argv \<Rightarrow> eglutInit E argv
   | InitAPIMask m \<Rightarrow> eglutInitAPIMask m
   | InitWindowSize w h \<Rightarrow> eglutInitWindowSize w h
   | Create title \<Rightarrow> seqp (eglutCreateWindow E title) (ret ())
   | Destroy i \<Rightarrow> eglutDestroyWindow i
   | SetCurrent i \<Rightarrow> eglutMakeCurrent E i
   | ShowWin \<Rightarrow> eglutShowWindow
   | SetIcon f \<Rightarrow> eglutSetWindowIcon E f
   | Fini \<Rightarrow> eglutFini
   | IdleFunc f \<Rightarrow> eglutIdleFunc f
   | PostRedisplay \<Rightarrow> eglutPostRedisplay
   | KeyboardFunc f \<Rightarrow> eglutKeyboardFunc f
   | WindowFunc n f \<Rightarrow> if n < length window_setters then (window_setters ! n) f else ret ()
   | KeyboardState a \<Rightarrow> eglutSetKeyboardState a
   | Pointer op \<Rightarrow> run_pointer E op
   | ToggleFullscreen \<Rightarrow> seqp (eglutToggleFullscreen E) (ret ())
   | SetClipboard b \<Rightarrow> eglutSetClipboardText E b
   | RequestPaste \<Rightarrow> eglutRequestPaste E
   | ClassName n \<Rightarrow> eglutInitX11ClassName E n
   | PollEvents n \<Rightarrow> eglutPollEvents E n
   | MainLoop n \<Rightarrow> eglutMainLoop E n
   | Get i \<Rightarrow> seqp (eglutGet E i) (ret ())
   | Swap \<Rightarrow> eglutSwapBuffers
   | Interval i \<Rightarrow> eglutSwapInterval i)"

inductive api_step :: "xenv \<Rightarrow> eglut_state \<Rightarrow> eglut_state \<Rightarrow> bool" for E where
  api_step: "run_api E c s = (Inr (), t) \<Longrightarrow> api_step E s t"

lemma keeps_setters: "reg \<in> set window_setters \<Longrightarrow> keeps (on_shape P) (reg f)"
  unfolding window_setters_def eglutDisplayFunc_def eglutReshapeFunc_def eglutDropFunc_def
    eglutSpecialFunc_def eglutPasteFunc_def eglutMouseFunc_def eglutMouseRawFunc_def eglutMouseButtonFunc_def
    eglutTouchStartFunc_def eglutTouchUpdateFunc_def eglutTouchEndFunc_def eglutFocusFunc_def eglutCloseWindowFunc_def
  by (auto intro!: keeps_rules)

lemma keeps_create: "keeps win_inv (eglutCreateWindow E title)"
  unfolding keeps_def
proof (intro allI impI)
  fix s i t assume s: "win_inv s" and r: "eglutCreateWindow E title s = (Inr i, t)"
  have i: "i = int (length (windows s))"
    and t: "shape t = (i + 1, map win_index (windows s) @ [i], Some (length (windows s)))"
    using CreateWindow_wp[OF s, of E title] r by (simp_all add: wp_def)
  have "num_windows s = i" using s i by (simp add: win_inv_def shape_ok_def shape_def)
  with s t shape_ok_snoc[of i "map win_index (windows s)" "current s"]
  show "win_inv t" by (simp add: win_inv_def shape_def)
qed

lemma keeps_run_api:
  assumes "user_keeps E win_inv"
  shows "keeps win_inv (run_api E c)"
proof -
  note I = win_inv_def[abs_def]
  have u: "user_keeps E (on_shape shape_ok)" using assms by (simp add: I)
  show ?thesis
  proof (cases c)
    case (Create title)
    then show ?thesis
      by (simp add: run_api_def keeps_seqp[OF keeps_create] keeps_ret)
  next
    case (WindowFunc n f)
    then show ?thesis
      by (auto simp: run_api_def I intro!: keeps_rules keeps_setters)
  next
    case (Pointer op)
    then show ?thesis unfolding run_api_def run_pointer_def I
      by (cases op) (auto intro!: keeps_rules)
  qed (auto simp: run_api_def I eglutInitAPIMask_def eglutInitWindowSize_def eglutIdleFunc_def
        eglutPostRedisplay_def eglutKeyboardFunc_def eglutSetKeyboardState_def eglutGet_def eglutSwapInterval_def
        intro!: keeps_rules u; simp add: shape_def)+
qed

text \<open>
  What is asked of the callbacks: a callback that returns has changed the state of the library only by interface
  calls that returned. The calls may run the event loops again, whose callbacks are of the same
  kind; the nesting is finite, as in every run that returns.
\<close>

inductive interface_callbacks :: "xenv \<Rightarrow> bool" where
  interface_callbacks: "(\<And>c s x t. env_user E c s = (Inr x, t) \<Longrightarrow>
    \<exists>E'. interface_callbacks E' \<and> (api_step E')\<^sup>*\<^sup>* s t) \<Longrightarrow> interface_callbacks E"

lemma api_steps_keep:
  assumes "user_keeps E win_inv" and "(api_step E)\<^sup>*\<^sup>* s t" and "win_inv s"
  shows "win_inv t"
  using assms(2,3)
  by (induction rule: rtranclp_induct) (auto elim!: api_step.cases dest: keepsD[OF keeps_run_api[OF assms(1)]])

lemma interface_callbacks_keep: "interface_callbacks E \<Longrightarrow> user_keeps E win_inv"
proof (induction rule: interface_callbacks.induct)
  case (interface_callbacks E)
  show ?case unfolding user_keeps_def keeps_def
  proof (intro allI impI)
    fix c s x t assume s: "win_inv s" and r: "env_user E c s = (Inr x, t)"
    obtain E' where "user_keeps E' win_inv" "(api_step E')\<^sup>*\<^sup>* s t" using interface_callbacks[OF r] by blast
    then show "win_inv t" using s by (rule api_steps_keep)
  qed
qed

text \<open>The start of the program, and runs of interface calls that return.\<close>

interpretation api: transition_system "\<lambda>s. s = initial_state \<and> interface_callbacks E"
  "\<lambda>s t. api_step E s t \<and> interface_callbacks E" win_inv for E
proof
  fix s assume "s = initial_state \<and> interface_callbacks E"
  then show "win_inv s" by (simp add: win_inv_def shape_ok_def shape_def initial_state_def)
next
  fix s t assume s: "win_inv s" and st: "api_step E s t \<and> interface_callbacks E"
  then have "user_keeps E win_inv" by (simp add: interface_callbacks_keep)
  then show "win_inv t" using r_into_rtranclp[of "api_step E", OF conjunct1[OF st]] s by (rule api_steps_keep)
qed

text \<open>
  C11: In every state reached from program start by interface calls that return, whatever events
  arrive in between and whatever interface calls the callbacks make, event loops included, the
  window count is the number of windows, each window's index is its position, and the current
  window is the newest one.
\<close>

theorem windows_indexed:
  assumes "interface_callbacks E" and "(api_step E)\<^sup>*\<^sup>* initial_state t"
  shows "num_windows t = int (length (windows t)) \<and>
    (\<forall>i. i < length (windows t) \<longrightarrow> win_index (windows t ! i) = int i) \<and>
    current t = (if windows t = [] then None else Some (length (windows t) - 1))"
proof -
  have "(\<lambda>s t. api_step E s t \<and> interface_callbacks E)\<^sup>*\<^sup>* initial_state t"
    using assms by simp
  then have "win_inv t" using assms(1) by (intro api.inv_reachable[of initial_state E]) simp_all
  then have s: "num_windows t = int (length (windows t))"
      "map win_index (windows t) = map int [0..<length (windows t)]"
      "current t = (if windows t = [] then None else Some (length (windows t) - 1))"
    by (simp_all add: win_inv_def shape_ok_def shape_def)
  have "win_index (windows t ! i) = int i" if "i < length (windows t)" for i
    using arg_cong[OF s(2), of "\<lambda>x. x ! i"] that by simp
  with s show ?thesis by blast
qed

text \<open>
  A program that opens a display and two windows and polls: one resize event arrives, and the resize
  callback of the second window registers an idle function.
\<close>

definition resize_env :: xenv where
  "resize_env = quiet_window_env\<lparr>env_event := (\<lambda>_. ConfigureNotify 0 0 0 640 480),
     env_ok := (\<lambda>t. case last t of Ev FilterEvent \<Rightarrow> False | Ev Pending \<Rightarrow> Ev NextEvent \<notin> set t | _ \<Rightarrow> True),
     env_user := (\<lambda>_. run_api quiet_env (IdleFunc (Some 7)))\<rparr>"

lemma interface_callbacks_quiet: "interface_callbacks quiet_env"
  by (rule interface_callbacks.intros) (use interface_callbacks.intros[of "quiet_env\<lparr>env_user := \<lambda>_. stop NoFuel\<rparr>"] in
    \<open>auto simp: quiet_env_def ret_def stop_def\<close>)

lemma interface_callbacks_resize: "interface_callbacks resize_env"
  by (rule interface_callbacks.intros)
    (use interface_callbacks_quiet in \<open>auto simp: resize_env_def intro!: exI[of _ quiet_env] r_into_rtranclp api_step\<close>)

lemma api_calls_reach: "seqs (map (run_api E) cs) s = (Inr (), t) \<Longrightarrow> (api_step E)\<^sup>*\<^sup>* s t"
proof (induction cs arbitrary: s)
  case (Cons c cs)
  then obtain u where "run_api E c s = (Inr (), u)" "seqs (map (run_api E) cs) u = (Inr (), t)"
    by (auto simp: seqp_def andthen_def split: prod.splits sum.splits)
  then show ?case using Cons.IH by (meson api_step converse_rtranclp_into_rtranclp)
qed (simp add: ret_def)

definition resize_calls :: "api_call list" where
  "resize_calls = [Init [''mcpe''], Create ''one'', Create ''two'', WindowFunc 1 (Some 1), PollEvents 2]"

lemma resize_run:
  "\<exists>t. seqs (map (run_api resize_env) resize_calls) initial_state = (Inr (), t) \<and>
    length (windows t) = 2 \<and> idle_cb t = Some 7"
  by (simp add: resize_calls_def run_api_def eval_defs resize_env_def eglutInit_def eglut_class_instance_def
      eglutNativeInitDisplay_def eglutInitXinput_def eglutInitXinputRt_def eglutCheckXinput_def dlsym_def via_def
      rt_mod_def xi_mod_def BadRequest_def eglutNow_def eglutInitX11ClassInstanceName_def strdup_def
      window_setters_def eglutReshapeFunc_def eglutPollEvents_def numeral_2_eq_2 next_event_def is_key_def
      dispatch_def handle_configure_def win_cb_def idle_call_def recentre_def eglutIdleFunc_def)

theorem windows_indexed_witness:
  "\<exists>t. (api_step resize_env)\<^sup>*\<^sup>* initial_state t \<and> num_windows t = 2 \<and> win_index (windows t ! 1) = 1 \<and>
    current t = Some 1 \<and> idle_cb t = Some 7"
proof -
  obtain t where "seqs (map (run_api resize_env) resize_calls) initial_state = (Inr (), t)"
    and l: "length (windows t) = 2" and i: "idle_cb t = Some 7"
    using resize_run by (elim exE conjE) (rule that)
  then have r: "(api_step resize_env)\<^sup>*\<^sup>* initial_state t" by (intro api_calls_reach)
  from l have "windows t \<noteq> []" by auto
  then show ?thesis using windows_indexed[OF interface_callbacks_resize r] r l i by (intro exI[of _ t]) simp
qed

section \<open>Redisplay\<close>

lemma seqp_ret_result: "seqp m (ret x) s = (Inr y, t) \<Longrightarrow> y = x"
  by (auto simp: seqp_def andthen_def ret_def split: prod.splits sum.splits)

lemma ret_result: "ret x s = (Inr y, t) \<Longrightarrow> y = x"
  by (simp add: ret_def)

lemma dispatch_result:
  assumes "\<not> is_key ev" and "dispatch E p ev s = (Inr r, t)"
  shows "r = (ev = Expose)"
proof (cases ev)
  case (GenericEvent ext xi)
  with assms(2) show ?thesis
    by (auto simp: dispatch_def andthen_def xask_def on_display_def getp_def ask_def
        split: prod.splits sum.splits if_splits dest!: seqp_ret_result)
qed (use assms in \<open>auto simp: dispatch_def is_key_def dest: seqp_ret_result ret_result\<close>)

text \<open>
  After an event that is not a key event, the redisplay flag says exactly whether the event
  was an unfiltered expose event: a redisplay posted before, or posted by the callbacks that
  handled the event, is forgotten.
\<close>

theorem redisplay_after_event:
  assumes "next_event E (Some p) s = (Inr (), t)"
    and "ev = env_event E (trace s @ [Ev NextEvent])" and "\<not> is_key ev"
  shows "redisplay t \<longleftrightarrow> ev = Expose \<and> \<not> env_ok E (trace s @ [Ev NextEvent, Ev FilterEvent])"
proof (cases "env_ok E (trace s @ [Ev NextEvent, Ev FilterEvent])")
  case True
  with assms show ?thesis
    by (auto simp: next_event_def prog_simps split: if_splits)
next
  case False
  let ?s = "s\<lparr>trace := trace s @ [Ev NextEvent, Ev FilterEvent]\<rparr>"
  obtain r u where d: "dispatch E p ev ?s = (Inr r, u)" and "redisplay t = r"
    using False assms
    by (cases "dispatch E p ev ?s"; cases "fst (dispatch E p ev ?s)")
      (auto simp: next_event_def prog_simps split: if_splits)
  with dispatch_result[OF assms(3) d] False show ?thesis by simp
qed

text \<open>A display posted by the callback of a mouse motion is lost.\<close>

definition posting_env :: xenv where
  "posting_env = quiet_env\<lparr>env_ok := (\<lambda>t. last t \<noteq> Ev FilterEvent), env_event := (\<lambda>_. MotionNotify 1 2),
     env_user := (\<lambda>_. eglutPostRedisplay)\<rparr>"

definition mouse_window :: eglut_state where
  "mouse_window = one_window\<lparr>windows := [(cur one_window)\<lparr>mouse_cb := Some 1\<rparr>]\<rparr>"

theorem redisplay_after_event_witness:
  "\<exists>t. next_event posting_env (Some 0) mouse_window = (Inr (), t) \<and> \<not> redisplay t \<and>
     User (MouseCB 1 1 2) \<in> set (trace t)"
proof -
  obtain t where t: "next_event posting_env (Some 0) mouse_window = (Inr (), t)"
    and "User (MouseCB 1 1 2) \<in> set (trace t)"
    by (simp add: next_event_def dispatch_def handle_motion_def win_cb_def prog_simps posting_env_def
        quiet_env_def mouse_window_def one_window_def initial_state_def cur_def is_key_def eglutPostRedisplay_def)
  moreover have "\<not> redisplay t"
    using redisplay_after_event[OF t, of "MotionNotify 1 2"] by (simp add: posting_env_def is_key_def)
  ultimately show ?thesis by blast
qed

section \<open>Keys\<close>

text \<open>What the server's queue makes of the release of key \<open>k\<close>.\<close>

definition repeat_ahead :: "xenv \<Rightarrow> call list \<Rightarrow> key_event \<Rightarrow> key_event option" where
  "repeat_ahead E t k = (if env_ok E (t @ [Ev EventsQueued])
     then case env_event E (t @ [Ev EventsQueued, Ev PeekEvent]) of
       KeyPress a \<Rightarrow> if same_key a k then Some a else None | _ \<Rightarrow> None else None)"

lemma key_release_type:
  assumes "native_dpy s \<noteq> 0"
  shows "\<exists>q. set q \<subseteq> {Ev EventsQueued, Ev PeekEvent, Ev NextEvent} \<and>
     (Ev NextEvent \<in> set q \<longleftrightarrow> repeat_ahead E (trace s) k \<noteq> None) \<and>
     key_type E False k s = (Inr (case repeat_ahead E (trace s) k of None \<Rightarrow> (EGLUT_KEY_RELEASE, key_state k)
        | Some a \<Rightarrow> (EGLUT_KEY_REPEAT, key_state a)), s\<lparr>trace := trace s @ q\<rparr>)"
proof (cases "env_ok E (trace s @ [Ev EventsQueued])")
  case False
  with assms show ?thesis
    by (intro exI[of _ "[Ev EventsQueued]"]) (simp add: key_type_def repeat_ahead_def prog_simps)
next
  case q: True
  let ?ahead = "env_event E (trace s @ [Ev EventsQueued, Ev PeekEvent])"
  show ?thesis
  proof (cases "\<exists>a. ?ahead = KeyPress a \<and> same_key a k")
    case True
    with q assms show ?thesis
      by (intro exI[of _ "[Ev EventsQueued, Ev PeekEvent, Ev NextEvent]"])
        (auto simp: key_type_def repeat_ahead_def prog_simps)
  next
    case False
    with q assms show ?thesis
      by (intro exI[of _ "[Ev EventsQueued, Ev PeekEvent]"])
        (auto simp: key_type_def repeat_ahead_def prog_simps split: xevent.split)
  qed
qed

text \<open>Callbacks that return at once and touch nothing, for the statements about single events.\<close>

definition inert :: "xenv \<Rightarrow> bool" where
  "inert E \<longleftrightarrow> (\<forall>c. env_user E c = ret ())"

text \<open>
  A key release whose queue shows a press of the same key, in the same window, at the same
  time is reported once, as a repeat, with the modifiers of that press, which is taken off the
  queue, and asks for no redisplay; any other release is reported as a release and asks for one.
\<close>

theorem key_repeat_coalesced:
  assumes "inert E" and "native_dpy s \<noteq> 0" and "x11_ic s \<noteq> 0"
    and "p < length (windows s)" and "keyboard_cb (windows s ! p) = Some (UserKeyboard g)"
    and "special_cb (windows s ! p) = Some h"
    and "env_lookup E (trace s @ [Ev (Utf8LookupString 8)]) = (b, False)" and "b \<noteq> []"
    and "keysym = env_handle E (trace s @ [Ev (Utf8LookupString 8), Ev LookupKeysym])" and "keysym < 2 ^ 31"
  shows "\<exists>q rep mods. (rep, mods) = (case repeat_ahead E (trace s @ [Ev (Utf8LookupString 8), Ev LookupKeysym]) k of
       None \<Rightarrow> (EGLUT_KEY_RELEASE, key_state k) | Some a \<Rightarrow> (EGLUT_KEY_REPEAT, key_state a)) \<and>
     (Ev NextEvent \<in> set q \<longleftrightarrow> rep = EGLUT_KEY_REPEAT) \<and>
     handle_key E p False k s = (Inr (rep \<noteq> EGLUT_KEY_REPEAT),
       s\<lparr>trace := trace s @ [Ev (Utf8LookupString 8), Ev LookupKeysym] @ q @
          [User (KeyboardCB g b rep), User (SpecialCB h (uint keysym) rep mods)]\<rparr>)"
proof -
  let ?s = "s\<lparr>trace := trace s @ [Ev (Utf8LookupString 8), Ev LookupKeysym]\<rparr>"
  let ?r = "repeat_ahead E (trace ?s) k"
  have ks: "int_of_long (uint keysym) = uint keysym"
    using assms(10) by (simp add: int_of_long_eq word_less_def)
  obtain q where q: "Ev NextEvent \<in> set q \<longleftrightarrow> ?r \<noteq> None"
    "key_type E False k ?s = (Inr (case ?r of None \<Rightarrow> (EGLUT_KEY_RELEASE, key_state k)
        | Some a \<Rightarrow> (EGLUT_KEY_REPEAT, key_state a)), ?s\<lparr>trace := trace ?s @ q\<rparr>)"
    using key_release_type[of ?s E k] assms(2) by auto
  have u: "env_user E c = ret ()" for c using assms(1) by (simp add: inert_def)
  have l: "lookup_string E s = (Inr (b, False), s\<lparr>trace := trace s @ [Ev (Utf8LookupString 8)]\<rparr>)"
    using assms(3,7) by (simp add: lookup_string_def prog_simps)
  show ?thesis
    using assms(4,5,6,8) q ks
    by (cases ?r) (auto simp: handle_key_def andthen_def l ask_def seqp_def log_call_def modp_def getp_def
        assms(9)[symmetric] keyboard_call_def win_get_def callback_def u ret_def whenp_def
        EGLUT_KEY_RELEASE_def EGLUT_KEY_REPEAT_def intro!: exI[of _ q])
qed

text \<open>A held key in the one-window state: the release at time 9 has its press queued.\<close>

definition held_key :: key_event where
  "held_key = \<lparr>key_window = 7, keycode = 38, key_time = 9, key_state = 0\<rparr>"

definition repeat_env :: xenv where
  "repeat_env = quiet_env\<lparr>env_event := (\<lambda>_. KeyPress held_key), env_lookup := (\<lambda>_. ([97], False)), env_handle := (\<lambda>_. 97)\<rparr>"

definition key_window_state :: eglut_state where
  "key_window_state = one_window\<lparr>x11_ic := 5,
     windows := [(cur one_window)\<lparr>keyboard_cb := Some (UserKeyboard 1), special_cb := Some 2\<rparr>]\<rparr>"

theorem key_repeat_coalesced_witness:
  "\<exists>t. handle_key repeat_env 0 False held_key key_window_state = (Inr False, t) \<and>
     User (KeyboardCB 1 [97] EGLUT_KEY_REPEAT) \<in> set (trace t)"
proof -
  let ?k = held_key and ?s = key_window_state
  have ra: "repeat_ahead repeat_env t ?k = Some ?k" for t
    by (simp add: repeat_ahead_def repeat_env_def quiet_env_def same_key_def)
  have h: "inert repeat_env" "native_dpy ?s \<noteq> 0" "x11_ic ?s \<noteq> 0" "0 < length (windows ?s)"
    "keyboard_cb (windows ?s ! 0) = Some (UserKeyboard 1)" "special_cb (windows ?s ! 0) = Some 2"
    "env_lookup repeat_env (trace ?s @ [Ev (Utf8LookupString 8)]) = ([97], False)" "[97 :: u8] \<noteq> []"
    "97 = env_handle repeat_env (trace ?s @ [Ev (Utf8LookupString 8), Ev LookupKeysym])" "(97 :: u64) < 2 ^ 31"
    by (simp_all add: inert_def repeat_env_def quiet_env_def key_window_state_def one_window_def initial_state_def cur_def)
  obtain q rep mods where "(rep, mods) = (EGLUT_KEY_REPEAT, key_state ?k)"
    "handle_key repeat_env 0 False ?k ?s = (Inr (rep \<noteq> EGLUT_KEY_REPEAT),
       ?s\<lparr>trace := trace ?s @ [Ev (Utf8LookupString 8), Ev LookupKeysym] @ q @
          [User (KeyboardCB 1 [97] rep), User (SpecialCB 2 (uint (97 :: u64)) rep mods)]\<rparr>)"
    using key_repeat_coalesced[OF h, of ?k] unfolding ra option.case by blast
  then show ?thesis by simp
qed

text \<open>
  The default keyboard handler ends the program on the release of Escape, after destroying
  the current window and closing the display, and ignores its press and repeat: its second
  argument is the event type, which it compares with 1 as if it were the length of the text.
\<close>

theorem default_escape_on_release:
  assumes "p < length (windows s)" and "keyboard_cb (windows s ! p) = Some DefaultKeyboard"
    and "current s = Some c" and "c < length (windows s)" and "native_dpy s \<noteq> 0"
  shows "keyboard_call E p [27] EGLUT_KEY_PRESS s = (Inr (), s) \<and>
    keyboard_call E p [27] EGLUT_KEY_REPEAT s = (Inr (), s) \<and>
    (\<exists>t. keyboard_call E p [27] EGLUT_KEY_RELEASE s = (Inl (Exit 0), t) \<and> native_dpy t = 0 \<and>
       Win (DestroyWindow (native_window (cur s))) \<in> set (trace t))"
  using assms
  by (simp add: keyboard_call_def eglutDefaultKeyboard_def destroy_current_def eglutDestroyWindow_def
      static_DestroyWindow_def eglutNativeFiniWindow_def eglutFini_def eglutNativeFiniDisplay_def
      prog_simps EGLUT_KEY_PRESS_def EGLUT_KEY_REPEAT_def EGLUT_KEY_RELEASE_def cur_def)

definition default_window_state :: eglut_state where
  "default_window_state = one_window\<lparr>windows := [(cur one_window)\<lparr>keyboard_cb := Some DefaultKeyboard\<rparr>]\<rparr>"

theorem default_escape_on_release_witness:
  "\<exists>t. keyboard_call quiet_env 0 [27] EGLUT_KEY_RELEASE default_window_state = (Inl (Exit 0), t)"
  using default_escape_on_release[of 0 default_window_state 0 quiet_env]
  by (auto simp: default_window_state_def one_window_def initial_state_def cur_def)

section \<open>Relative motion\<close>

fun deltas :: "int \<times> int \<Rightarrow> (int \<times> int) list \<Rightarrow> (int \<times> int) list" where
  "deltas l [] = []"
| "deltas (lx, ly) ((x, y) # ms) = (x - lx, y - ly) # deltas (x, y) ms"

lemma deltas_sum:
  "(sum_list (map fst (deltas l ms)), sum_list (map snd (deltas l ms))) =
    (fst (last (l # ms)) - fst l, snd (last (l # ms)) - snd l)"
  by (induction l ms rule: deltas.induct) (auto split: if_splits)

definition raw_report :: "cb \<Rightarrow> int \<times> int \<Rightarrow> call" where
  "raw_report g = (\<lambda>(dx, dy). User (MouseRawCB g (of_int dx) (of_int dy)))"

definition small :: "int \<Rightarrow> bool" where "small x \<longleftrightarrow> \<bar>x\<bar> < 2 ^ 30"

lemma motion_step:
  assumes "inert E" and "rel_enabled s" and "\<not> rel_raw_mode s" and "p < length (windows s)"
    and "mouse_raw_cb (windows s ! p) = Some g"
    and "small x" "small y" "small (rel_last_x s)" "small (rel_last_y s)"
  shows "handle_motion E p x y s = (Inr (), s\<lparr>trace := trace s @ [raw_report g (x - rel_last_x s, y - rel_last_y s)],
     rel_last_x := x, rel_last_y := y\<rparr>)"
proof -
  have u: "env_user E c = ret ()" for c using assms(1) by (simp add: inert_def)
  have "- (2 ^ 31) \<le> x - rel_last_x s \<and> x - rel_last_x s < 2 ^ 31"
    "- (2 ^ 31) \<le> y - rel_last_y s \<and> y - rel_last_y s < 2 ^ 31"
    using assms(6-9) by (auto simp: small_def)
  then show ?thesis
    using assms(2-5) by (simp add: handle_motion_def prog_simps u raw_report_def)
qed

lemma motions_run:
  assumes "inert E" and "rel_enabled s" and "\<not> rel_raw_mode s" and "p < length (windows s)"
    and "mouse_raw_cb (windows s ! p) = Some g" and "small (rel_last_x s)" "small (rel_last_y s)"
    and "\<forall>(x, y) \<in> set ms. small x \<and> small y"
  shows "seqs (map (\<lambda>(x, y). handle_motion E p x y) ms) s = (Inr (),
    s\<lparr>trace := trace s @ map (raw_report g) (deltas (rel_last_x s, rel_last_y s) ms),
      rel_last_x := fst (last ((rel_last_x s, rel_last_y s) # ms)),
      rel_last_y := snd (last ((rel_last_x s, rel_last_y s) # ms))\<rparr>)"
  using assms
proof (induction ms arbitrary: s)
  case Nil
  then show ?case by (simp add: ret_def)
next
  case (Cons m ms)
  obtain x y where m: "m = (x, y)" by (cases m)
  let ?s = "s\<lparr>trace := trace s @ [raw_report g (x - rel_last_x s, y - rel_last_y s)], rel_last_x := x, rel_last_y := y\<rparr>"
  have "handle_motion E p x y s = (Inr (), ?s)"
    using Cons.prems by (intro motion_step) (auto simp: m)
  moreover have "seqs (map (\<lambda>(x, y). handle_motion E p x y) ms) ?s = (Inr (),
     ?s\<lparr>trace := trace ?s @ map (raw_report g) (deltas (x, y) ms),
      rel_last_x := fst (last ((x, y) # ms)), rel_last_y := snd (last ((x, y) # ms))\<rparr>)"
    using Cons.prems Cons.IH[of ?s] by (auto simp: m)
  ultimately show ?case by (simp add: m seqp_def andthen_def)
qed

text \<open>
  With the pointer locked and no raw motion, a sequence of motion events is reported as one
  relative movement each, and the reported movements add up to the displacement from the
  reference position to the last event, which is the new reference position.
\<close>

theorem relative_motion_sums:
  assumes "inert E" and "rel_enabled s" and "\<not> rel_raw_mode s" and "p < length (windows s)"
    and "mouse_raw_cb (windows s ! p) = Some g" and "small (rel_last_x s)" "small (rel_last_y s)"
    and "\<forall>(x, y) \<in> set ms. small x \<and> small y"
  shows "\<exists>ds t. seqs (map (\<lambda>(x, y). handle_motion E p x y) ms) s = (Inr (), t) \<and>
    trace t = trace s @ map (raw_report g) ds \<and> length ds = length ms \<and>
    (sum_list (map fst ds), sum_list (map snd ds)) = (rel_last_x t - rel_last_x s, rel_last_y t - rel_last_y s) \<and>
    (ms \<noteq> [] \<longrightarrow> (rel_last_x t, rel_last_y t) = last ms)"
proof -
  let ?l = "(rel_last_x s, rel_last_y s)"
  have "length (deltas l ms) = length ms" for l
    by (induction l ms rule: deltas.induct) auto
  then show ?thesis
    using motions_run[OF assms] deltas_sum[of ?l ms] by (intro exI[of _ "deltas ?l ms"]) auto
qed

definition raw_window_state :: eglut_state where
  "raw_window_state = one_window\<lparr>rel_enabled := True, rel_last_x := 320, rel_last_y := 240,
     windows := [(cur one_window)\<lparr>mouse_raw_cb := Some 1\<rparr>]\<rparr>"

theorem relative_motion_sums_witness:
  "\<exists>t. seqs (map (\<lambda>(x, y). handle_motion quiet_env 0 x y) [(325, 240), (330, 238)]) raw_window_state = (Inr (), t) \<and>
     rel_last_x t = 330 \<and> rel_last_y t = 238"
  using relative_motion_sums[of quiet_env raw_window_state 0 1 "[(325, 240), (330, 238)]"]
  by (auto simp: raw_window_state_def one_window_def initial_state_def cur_def inert_def quiet_env_def small_def)

section \<open>Closing the window\<close>

text \<open>
  When the window manager asks a window without a close handler to close, the handler
  destroys the window and closes the display, and the polling loop it returns to then asks the
  closed display for pending events.
\<close>

theorem close_then_null_display:
  assumes "env_event E (trace s @ [Ev Pending, Ev NextEvent]) = ClientMessage m"
    and "env_ok E (trace s @ [Ev Pending])" and "\<not> env_ok E (trace s @ [Ev Pending, Ev NextEvent, Ev FilterEvent])"
    and "cl_l m 0 = env_handle E (trace s @ [Ev Pending, Ev NextEvent, Ev FilterEvent, Ipc (InternAtom ''WM_DELETE_WINDOW'')])"
    and "native_dpy s \<noteq> 0" and "current s = Some p" and "p < length (windows s)"
    and "close_cb (windows s ! p) = None" and "cl_type m \<notin> {XdndEnter s, XdndPosition s, XdndDrop s}"
  shows "fst (eglutPollEvents E (Suc (Suc n)) s) = Inl NullDisplay"
  using assms
  by (simp add: eglutPollEvents_def next_event_def dispatch_def is_key_def handle_client_message_def
      handle_close_def destroy_current_def eglutDestroyWindow_def static_DestroyWindow_def
      eglutNativeFiniWindow_def eglutFini_def eglutNativeFiniDisplay_def prog_simps)

definition close_env :: xenv where
  "close_env = quiet_env\<lparr>env_ok := (\<lambda>t. last t = Ev Pending),
     env_event := (\<lambda>_. ClientMessage \<lparr>cl_type = 9, cl_l = (\<lambda>_. 1)\<rparr>)\<rparr>"

theorem close_then_null_display_witness:
  "fst (eglutPollEvents close_env 2 one_window) = Inl NullDisplay"
proof -
  let ?m = "\<lparr>cl_type = 9, cl_l = (\<lambda>_. 1)\<rparr>" and ?t = "trace one_window" and ?E = close_env
  have h: "env_event ?E (?t @ [Ev Pending, Ev NextEvent]) = ClientMessage ?m"
    "env_ok ?E (?t @ [Ev Pending])" "\<not> env_ok ?E (?t @ [Ev Pending, Ev NextEvent, Ev FilterEvent])"
    "cl_l ?m 0 = env_handle ?E (?t @ [Ev Pending, Ev NextEvent, Ev FilterEvent, Ipc (InternAtom ''WM_DELETE_WINDOW'')])"
    "native_dpy one_window \<noteq> 0" "current one_window = Some 0" "0 < length (windows one_window)"
    "close_cb (windows one_window ! 0) = None" "cl_type ?m \<notin> {XdndEnter one_window, XdndPosition one_window, XdndDrop one_window}"
    by (simp_all add: close_env_def quiet_env_def one_window_def initial_state_def calloc_window_def)
  show ?thesis using close_then_null_display[OF h, of 0] by (simp add: numeral_2_eq_2)
qed

section \<open>The drag-and-drop handshake\<close>

text \<open>
  The atoms of a set-up window and the answer for \<open>WM_DELETE_WINDOW\<close>, which no drag source uses
  as its window.
\<close>

definition dnd_ready :: "xenv \<Rightarrow> eglut_state \<Rightarrow> handle \<Rightarrow> bool" where
  "dnd_ready E s src \<longleftrightarrow> native_dpy s \<noteq> 0 \<and> (\<exists>p. current s = Some p \<and> p < length (windows s)) \<and>
     distinct [XdndEnter s, XdndPosition s, XdndDrop s] \<and>
     (\<forall>t. env_handle E (t @ [Ipc (InternAtom ''WM_DELETE_WINDOW'')]) \<noteq> src)"

text \<open>
  The message of a source that enters: its window, its version with the bit that says it offers more than three
  types, and three types. With the bit set the types are read from a property of the source.
\<close>

definition enter_message :: "eglut_state \<Rightarrow> handle \<Rightarrow> u64 \<Rightarrow> bool \<Rightarrow> handle list \<Rightarrow> client_event" where
  "enter_message s src v many ts = \<lparr>cl_type = XdndEnter s,
     cl_l = (\<lambda>i. if i = 0 then src else if i = 1 then push_bit 24 v OR (if many then 1 else 0) else ts ! (i - 2))\<rparr>"

definition position_message :: "eglut_state \<Rightarrow> handle \<Rightarrow> (nat \<Rightarrow> u64) \<Rightarrow> client_event" where
  "position_message s src l = \<lparr>cl_type = XdndPosition s, cl_l = l(0 := src)\<rparr>"

definition drop_message :: "eglut_state \<Rightarrow> handle \<Rightarrow> u64 \<Rightarrow> client_event" where
  "drop_message s src time = \<lparr>cl_type = XdndDrop s, cl_l = (\<lambda>_. 0)(0 := src, 2 := time)\<rparr>"

definition delete_query :: call where "delete_query = Ipc (InternAtom ''WM_DELETE_WINDOW'')"

definition type_list_query :: "eglut_state \<Rightarrow> handle \<Rightarrow> call" where
  "type_list_query s src = Ipc (GetWindowProperty src (XdndTypeList s) LONG_MAX XA_ATOM)"

definition enter_calls :: "eglut_state \<Rightarrow> handle \<Rightarrow> bool \<Rightarrow> call list" where
  "enter_calls s src many = delete_query # (if many then [type_list_query s src, Ipc XFree] else [])"

text \<open>The types the source offers, and that the property can be read when they are there.\<close>

definition offered :: "xenv \<Rightarrow> eglut_state \<Rightarrow> handle \<Rightarrow> bool \<Rightarrow> handle list \<Rightarrow> handle list" where
  "offered E s src many ts = (if many then env_atoms E (trace s @ [delete_query, type_list_query s src]) else ts)"

definition types_readable :: "xenv \<Rightarrow> eglut_state \<Rightarrow> handle \<Rightarrow> bool \<Rightarrow> handle list \<Rightarrow> bool" where
  "types_readable E s src many ts =
    (if many then env_ok E (trace s @ [delete_query, type_list_query s src]) else length ts = 3)"

definition after_enter :: "eglut_state \<Rightarrow> handle \<Rightarrow> u64 \<Rightarrow> bool \<Rightarrow> handle list \<Rightarrow> eglut_state" where
  "after_enter s src v many ts = s\<lparr>trace := trace s @ enter_calls s src many, dnd_source := src, dnd_version := v,
     dnd_format := (if XtextUriList s \<noteq> 0 \<and> XtextUriList s \<in> set ts then ucast (XtextUriList s) else 0)\<rparr>"

lemma version_shift:
  "v \<le> 5 \<Longrightarrow> signed_drop_bit 24 (push_bit 24 v OR (if many then 1 else 0)) = (v :: u64) \<and> sint v = uint v \<and>
    bit (push_bit 24 v OR (if many then 1 else 0)) 0 = many"
proof -
  assume "v \<le> 5"
  then have "unat v \<le> 5" by (simp add: word_le_nat_alt)
  then have "unat v = 0 \<or> unat v = 1 \<or> unat v = 2 \<or> unat v = 3 \<or> unat v = 4 \<or> unat v = 5" by linarith
  then have "v = 0 \<or> v = 1 \<or> v = 2 \<or> v = 3 \<or> v = 4 \<or> v = 5" by (simp add: word_unat_eq_iff)
  then show ?thesis by (elim disjE; cases many) simp_all
qed

lemma sint_le5: "v \<le> 5 \<Longrightarrow> sint (v :: u64) = uint v"
  using version_shift by blast

lemma uint_le5: "v \<le> 5 \<Longrightarrow> uint (v :: u64) \<le> 5"
  by (simp add: word_le_def)

text \<open>The uri-list atom as the 32-bit format field keeps it, and back.\<close>

lemma format_roundtrip: "a < 2 ^ 31 \<Longrightarrow> scast (ucast (a :: u64) :: u32) = a \<and> ((ucast a :: u32) = 0 \<longleftrightarrow> a = 0)"
proof -
  assume a: "a < 2 ^ 31"
  then have l: "uint a < 2 ^ 31" by (simp add: word_less_def)
  have "(uint a + 2 ^ 31) div 2 ^ 32 = 0" using l by simp
  then have "int_of_long (uint a) = uint a" unfolding int_of_long_eq by simp
  then have s: "sint (ucast a :: u32) = uint a" unfolding int_of_long_def ucast_eq .
  have "scast (ucast a :: u32) = a" unfolding scast_eq s by simp
  moreover have "a = 0" if "(ucast a :: u32) = 0"
  proof -
    have "uint a = 0" using s unfolding that by simp
    then show ?thesis by (simp add: uint_0_iff)
  qed
  ultimately show ?thesis by auto
qed

lemma dnd_formats_list:
  assumes "bit (cl_l ev 1) 0" "native_dpy s \<noteq> 0" "env_ok E (trace s @ [type_list_query s (dnd_source s)])"
  shows "dnd_formats E ev s = (Inr (env_atoms E (trace s @ [type_list_query s (dnd_source s)])),
    s\<lparr>trace := trace s @ [type_list_query s (dnd_source s)]\<rparr>)"
  using assms by (simp add: dnd_formats_def type_list_query_def prog_simps)

lemma dnd_enter_list:
  assumes b: "bit (cl_l ev 1) 0" and n: "native_dpy s \<noteq> 0" and v: "\<not> 5 < sint (signed_drop_bit 24 (cl_l ev 1))"
    and ok: "env_ok E (trace s @ [type_list_query s (cl_l ev 0)])"
  shows "dnd_enter E ev s = (Inr (), s\<lparr>dnd_source := cl_l ev 0, dnd_version := signed_drop_bit 24 (cl_l ev 1),
    dnd_format := (if XtextUriList s \<in> set (env_atoms E (trace s @ [type_list_query s (cl_l ev 0)])) then ucast (XtextUriList s) else 0),
    trace := trace s @ [type_list_query s (cl_l ev 0), Ipc XFree]\<rparr>)"
proof -
  let ?s = "s\<lparr>dnd_source := cl_l ev 0, dnd_version := signed_drop_bit 24 (cl_l ev 1), dnd_format := 0\<rparr>"
  have q: "type_list_query ?s (dnd_source ?s) = type_list_query s (cl_l ev 0)" by (simp add: type_list_query_def)
  have "dnd_formats E ev ?s = (Inr (env_atoms E (trace s @ [type_list_query s (cl_l ev 0)])),
      ?s\<lparr>trace := trace s @ [type_list_query s (cl_l ev 0)]\<rparr>)"
    using dnd_formats_list[of ev ?s E, unfolded q] b n ok by simp
  then show ?thesis using b v
    by (simp add: dnd_enter_def dnd_ver_def seqp_def andthen_def modp_def getp_def whenp_def ret_def log_call_def)
qed

lemma dnd_enter_inline:
  assumes b: "\<not> bit (cl_l ev 1) 0" and v: "\<not> 5 < sint (signed_drop_bit 24 (cl_l ev 1))"
    and u: "XtextUriList s \<noteq> 0"
  shows "dnd_enter E ev s = (Inr (), s\<lparr>dnd_source := cl_l ev 0, dnd_version := signed_drop_bit 24 (cl_l ev 1),
    dnd_format := (if XtextUriList s \<in> {cl_l ev 2, cl_l ev 3, cl_l ev 4} then ucast (XtextUriList s) else 0)\<rparr>)"
  using b v u by (auto simp: dnd_enter_def dnd_formats_def dnd_ver_def prog_simps)

lemma enter_step:
  assumes r: "dnd_ready E s src" and v: "v \<le> 5" and ts: "types_readable E s src many ts" and uri: "XtextUriList s \<noteq> 0"
  shows "handle_client_message E p (enter_message s src v many ts) s =
    (Inr (), after_enter s src v many (offered E s src many ts))"
proof -
  define w where "w = push_bit 24 v OR (if many then 1 else 0)"
  have b: "bit w 0 = many" and d: "signed_drop_bit 24 w = v" and si: "\<not> 5 < sint v"
    using version_shift[OF v, of many] uint_le5[OF v] by (auto simp: w_def)
  have nd: "env_handle E (trace s @ [Ipc (InternAtom ''WM_DELETE_WINDOW'')]) \<noteq> src" and dp: "native_dpy s \<noteq> 0"
    using r by (auto simp: dnd_ready_def)
  have m: "enter_message s src v many ts =
      \<lparr>cl_type = XdndEnter s, cl_l = (\<lambda>i. if i = 0 then src else if i = 1 then w else ts ! (i - 2))\<rparr>"
    unfolding enter_message_def w_def by (rule refl)
  show ?thesis
  proof (cases many)
    case True
    let ?ev = "enter_message s src v many ts" and ?t = "s\<lparr>trace := trace s @ [delete_query]\<rparr>"
    have "handle_client_message E p ?ev s = dnd_enter E ?ev ?t"
      using nd dp by (simp add: m handle_client_message_def delete_query_def prog_simps)
    also have "\<dots> = (Inr (), after_enter s src v many (offered E s src many ts))"
    proof -
      have l: "cl_l ?ev 0 = src" "cl_l ?ev 1 = w" by (simp_all add: m)
      have q: "type_list_query ?t src = type_list_query s src" by (simp add: type_list_query_def)
      show ?thesis
        using dnd_enter_list[of ?ev ?t E, unfolded l q] True b d si dp ts uri
        by (simp add: types_readable_def after_enter_def enter_calls_def offered_def)
    qed
    finally show ?thesis .
  next
    case False
    then have "set ts = {ts ! 0, ts ! 1, ts ! 2}"
      using ts by (auto simp: types_readable_def numeral_3_eq_3 length_Suc_conv)
    then have u: "XtextUriList s \<in> {ts ! 0, ts ! 1, ts ! 2} \<longleftrightarrow> XtextUriList s \<in> set ts" by simp
    let ?ev = "enter_message s src v many ts" and ?t = "s\<lparr>trace := trace s @ [delete_query]\<rparr>"
    have l: "cl_l ?ev 0 = src" "cl_l ?ev 1 = w" "cl_l ?ev 2 = ts ! 0" "cl_l ?ev 3 = ts ! 1" "cl_l ?ev 4 = ts ! 2"
      by (simp_all add: m)
    have "handle_client_message E p ?ev s = dnd_enter E ?ev ?t"
      using nd dp by (simp add: m handle_client_message_def delete_query_def prog_simps)
    also have "\<dots> = (Inr (), ?t\<lparr>dnd_source := src, dnd_version := v,
        dnd_format := (if XtextUriList s \<in> set ts then ucast (XtextUriList s) else 0)\<rparr>)"
      using dnd_enter_inline[where ev = ?ev and s = ?t and E = E, unfolded l d] False b si u uri by simp
    finally show ?thesis using False uri by (simp add: after_enter_def enter_calls_def offered_def)
  qed
qed

definition status_reply :: "eglut_state \<Rightarrow> bool \<Rightarrow> handle \<Rightarrow> u64 \<Rightarrow> call list" where
  "status_reply s accept src v = [delete_query, Ipc (SendEvent src False 0 (ClientMsg src (XdndStatus s)
     [Some (native_window (cur s)), if accept then Some 1 else None, Some 0, Some 0,
      if accept \<and> v \<ge> 2 then Some (XdndActionCopy s) else None])), Ipc Flush]"

lemma position_step:
  assumes r: "dnd_ready E s src" and v: "dnd_version s = v" "v \<le> 5" and src: "dnd_source s = src"
  shows "handle_client_message E p (position_message s src l) s =
    (Inr (), s\<lparr>trace := trace s @ status_reply s (dnd_format s \<noteq> 0) src v\<rparr>)"
proof -
  have "\<not> 5 < dnd_ver s" and "2 \<le> dnd_ver s \<longleftrightarrow> v \<ge> 2"
    using v sint_le5[OF v(2)] uint_le5[OF v(2)] by (auto simp: dnd_ver_def word_le_def)
  then show ?thesis
    using r src
    by (auto simp: handle_client_message_def position_message_def dnd_position_def dnd_ready_def dnd_ver_def
        status_reply_def delete_query_def cur_def prog_simps)
qed

definition drop_reply :: "eglut_state \<Rightarrow> bool \<Rightarrow> handle \<Rightarrow> u64 \<Rightarrow> u64 \<Rightarrow> call list" where
  "drop_reply s accept src v time = delete_query #
     (if accept then [Ipc (ConvertSelection (XdndSelection s) (XtextUriList s) (XdndSelection s) (native_window (cur s))
        (if v \<ge> 1 then time else CurrentTime))]
      else if v \<ge> 2 then [Ipc (SendEvent src False 0 (ClientMsg src (XdndFinished s)
        [Some (native_window (cur s)), None, Some 0, Some 0, None])), Ipc Flush]
      else [])"

lemma drop_step:
  assumes r: "dnd_ready E s src" and v: "dnd_version s = v" "v \<le> 5" and src: "dnd_source s = src"
    and f: "dnd_format s \<noteq> 0 \<Longrightarrow> scast (dnd_format s) = XtextUriList s"
  shows "handle_client_message E p (drop_message s src time) s =
    (Inr (), s\<lparr>trace := trace s @ drop_reply s (dnd_format s \<noteq> 0) src v time\<rparr>)"
proof -
  have "dnd_ver s \<le> 5" and "2 \<le> dnd_ver s \<longleftrightarrow> v \<ge> 2" and "1 \<le> dnd_ver s \<longleftrightarrow> v \<ge> 1"
    using v sint_le5[OF v(2)] uint_le5[OF v(2)] by (auto simp: dnd_ver_def word_le_def)
  then show ?thesis
    using r src f
    by (auto simp: handle_client_message_def drop_message_def dnd_drop_def dnd_ready_def dnd_ver_def
        drop_reply_def delete_query_def cur_def prog_simps)
qed

text \<open>
  C20: The three messages of a drop from an XDND source of version at most 5, which names up to three types in its
  first message or, with the bit for more, has them in a property that can be read. When the source
  offers a URI list the window accepts it at the pointer position (naming the copy action from
  version 2 on) and asks for the data with the time stamp of the drop (from version 1 on);
  otherwise it does not accept, and finishes the drop itself from version 2 on. Every reply goes
  to the source window that entered.
\<close>

theorem dnd_handshake:
  assumes "dnd_ready E s src" and "v \<le> 5" and "types_readable E s src many ts"
    and "0 < XtextUriList s" and "XtextUriList s < 2 ^ 31"
  defines "accept \<equiv> XtextUriList s \<in> set (offered E s src many ts)"
  shows "\<exists>t. seqs (map (handle_client_message E p)
      [enter_message s src v many ts, position_message s src l, drop_message s src time]) s = (Inr (), t) \<and>
    trace t = trace s @ enter_calls s src many @ status_reply s accept src v @ drop_reply s accept src v time"
proof -
  let ?s1 = "after_enter s src v many (offered E s src many ts)"
  let ?s2 = "?s1\<lparr>trace := trace ?s1 @ status_reply s accept src v\<rparr>"
  note fr = format_roundtrip[OF assms(5)]
  have acc: "dnd_format ?s1 \<noteq> 0 \<longleftrightarrow> accept" and sc: "accept \<Longrightarrow> scast (dnd_format ?s1) = XtextUriList s"
    using fr assms(4) by (auto simp: after_enter_def accept_def)
  have same: "dnd_ready E ?s1 src" "dnd_version ?s1 = v" "dnd_source ?s1 = src"
    "dnd_ready E ?s2 src" "dnd_version ?s2 = v" "dnd_source ?s2 = src" "dnd_format ?s2 = dnd_format ?s1"
    "position_message ?s1 = position_message s" "drop_message ?s2 = drop_message s" "XtextUriList ?s2 = XtextUriList s"
    "status_reply ?s1 = status_reply s" "drop_reply ?s2 = drop_reply s"
    using assms(1) by (auto simp: after_enter_def dnd_ready_def position_message_def drop_message_def
        status_reply_def drop_reply_def cur_def fun_eq_iff)
  have "handle_client_message E p (enter_message s src v many ts) s = (Inr (), ?s1)"
    using assms(4) by (intro enter_step[OF assms(1-3)]) auto
  moreover have "handle_client_message E p (position_message s src l) ?s1 = (Inr (), ?s2)"
    using position_step[OF same(1,2) assms(2) same(3), of p l] same acc by simp
  moreover have "handle_client_message E p (drop_message s src time) ?s2 =
      (Inr (), ?s2\<lparr>trace := trace ?s2 @ drop_reply s accept src v time\<rparr>)"
    using drop_step[OF same(4,5) assms(2) same(6), of p time] same acc sc by simp
  ultimately show ?thesis
    by (simp add: seqp_def andthen_def ret_def after_enter_def)
qed

definition dnd_state :: eglut_state where
  "dnd_state = one_window\<lparr>XdndEnter := 11, XdndPosition := 12, XdndDrop := 13, XdndStatus := 14,
     XdndFinished := 15, XdndActionCopy := 16, XdndSelection := 17, XtextUriList := 18\<rparr>"

text \<open>A source of version 5 with many types, the URI list among them.\<close>

definition types_env :: xenv where
  "types_env = quiet_env\<lparr>env_atoms := (\<lambda>_. [31, 32, 33, 18])\<rparr>"

theorem dnd_handshake_witness:
  "\<exists>t u. seqs (map (handle_client_message types_env 0)
      [enter_message dnd_state 99 5 True [31, 32, 33], position_message dnd_state 99 (\<lambda>_. 0), drop_message dnd_state 99 77]) dnd_state = (Inr (), t) \<and>
    last (trace t) = Ipc (ConvertSelection 17 18 17 7 77) \<and>
    seqs (map (handle_client_message types_env 0)
      [enter_message dnd_state 99 5 False [31, 18, 0], position_message dnd_state 99 (\<lambda>_. 0), drop_message dnd_state 99 77]) dnd_state = (Inr (), u) \<and>
    last (trace u) = Ipc (ConvertSelection 17 18 17 7 77)"
proof -
  have h: "dnd_ready types_env dnd_state 99" "(5 :: u64) \<le> 5"
    by (simp_all add: dnd_ready_def types_env_def quiet_env_def dnd_state_def one_window_def initial_state_def)
  have r: "types_readable types_env dnd_state 99 True [31, 32, 33]" "types_readable types_env dnd_state 99 False [31, 18, 0]"
    by (simp_all add: types_readable_def types_env_def quiet_env_def)
  have u: "0 < XtextUriList dnd_state" "XtextUriList dnd_state < 2 ^ 31"
    by (simp_all add: dnd_state_def one_window_def initial_state_def)
  have w: "XtextUriList dnd_state = 18" "XdndSelection dnd_state = 17" "native_window (cur dnd_state) = 7"
    by (simp_all add: dnd_state_def one_window_def initial_state_def cur_def)
  have o: "18 \<in> set (offered types_env dnd_state 99 True [31, 32, 33])" "18 \<in> set (offered types_env dnd_state 99 False [31, 18, 0])"
    by (simp_all add: offered_def types_env_def)
  have e: "last (trace t) = Ipc (ConvertSelection 17 18 17 7 77)"
    if "trace t = trace dnd_state @ enter_calls dnd_state 99 many @ status_reply dnd_state True 99 5 @ drop_reply dnd_state True 99 5 77"
    for t :: eglut_state and many
    unfolding that drop_reply_def w by simp
  from dnd_handshake[OF h r(1) u, of 0 "\<lambda>_. 0" 77] dnd_handshake[OF h r(2) u, of 0 "\<lambda>_. 0" 77] o
  show ?thesis unfolding w(1) by (simp only: simp_thms) (metis e)
qed

section \<open>Dropped data\<close>

lemma inert_win_cb:
  "inert E \<Longrightarrow> p < length (windows s) \<Longrightarrow> f (windows s ! p) = Some g \<Longrightarrow>
   win_cb E p f c s = (Inr (), s\<lparr>trace := trace s @ [User (c g)]\<rparr>)"
  by (simp add: win_cb_def inert_def prog_simps)

lemma drop_callbacks:
  assumes "inert E" and "p < length (windows s)" and "drop_cb (windows s ! p) = Some g"
  shows "seqs (map (\<lambda>f. win_cb E p drop_cb (\<lambda>g. DropCB g f)) files) s =
    (Inr (), s\<lparr>trace := trace s @ map (\<lambda>f. User (DropCB g f)) files\<rparr>)"
  using assms
proof (induction files arbitrary: s)
  case Nil
  then show ?case by (simp add: ret_def)
next
  case (Cons f files)
  then have "seqs (map (\<lambda>f. win_cb E p drop_cb (\<lambda>g. DropCB g f)) files) (s\<lparr>trace := trace s @ [User (DropCB g f)]\<rparr>) =
      (Inr (), s\<lparr>trace := trace s @ User (DropCB g f) # map (\<lambda>f. User (DropCB g f)) files\<rparr>)"
    using Cons.IH[of "s\<lparr>trace := trace s @ [User (DropCB g f)]\<rparr>"] by simp
  then show ?case
    using Cons.prems by (simp add: seqp_def andthen_def inert_win_cb)
qed

text \<open>
  C21: When the data of a drop arrives as encoded file URIs, the drop callback gets exactly the
  paths, in order, and then, from version 2 on, the source is told that the drop is finished
  with the copy action. The success word of that message is the byte count of the data, whose
  lowest bit, the success flag of the protocol, is zero for data of even length.
\<close>

theorem drop_delivers_files:
  assumes "inert E" and "p < length (windows s)" and "drop_cb (windows s ! p) = Some g"
    and "native_dpy s \<noteq> 0" and "current s = Some c" and "c < length (windows s)"
    and "\<forall>f \<in> set files. f \<noteq> [] \<and> hd f = 47 \<and> 0 \<notin> set f" and "files \<noteq> []"
    and "q = Ipc (GetWindowProperty (sn_requestor ev) (XdndSelection s) LONG_MAX (sn_target ev))"
    and "env_ok E (trace s @ [q])" and "data = concat (map uri_line files)"
    and "env_property E (trace s @ [q]) = Some data" and "sn_property ev = XdndSelection s"
  shows "handle_selection_notify E p ev s = (Inr (), s\<lparr>trace := trace s @ [q] @ map (\<lambda>f. User (DropCB g f)) files @
     (if 2 \<le> dnd_ver s then [Ipc (SendEvent (dnd_source s) False 0 (ClientMsg (dnd_source s) (XdndFinished s)
       [Some (native_window (cur s)), Some (of_nat (length data)), Some (XdndActionCopy s), Some 0, None])), Ipc Flush]
      else [])\<rparr>)"
proof -
  have ne: "data \<noteq> []" using assms(8,11) by (cases files) (simp_all add: uri_line_def)
  have u: "uri_files (data @ [0]) = (files, True)"
  proof (rule uri_files_list[OF assms(7)])
    show "dropWhile is_eol (data @ [0]) = concat (map uri_line files) @ 0 # []"
      using assms(8,11) by (cases files) (simp_all add: dropWhile_eol_line)
  qed
  have "strtok_next (data @ [0]) \<noteq> None"
  proof
    assume "strtok_next (data @ [0]) = None"
    then have "uri_files (data @ [0]) = ([], True)" by (simp add: uri_files.simps)
    with u assms(8) show False by simp
  qed
  then obtain tk where tok: "strtok_next (data @ [0]) = Some tk" by blast
  let ?s = "s\<lparr>trace := trace s @ [q]\<rparr>"
  have cbs: "seqs (map (\<lambda>f. win_cb E p drop_cb (\<lambda>g. DropCB g f)) files) ?s =
    (Inr (), ?s\<lparr>trace := trace ?s @ map (\<lambda>f. User (DropCB g f)) files\<rparr>)"
    by (rule drop_callbacks) (use assms(1-3) in simp_all)
  have "xask (\<lambda>t. (env_ok E t, env_property E t))
       (Ipc (GetWindowProperty (sn_requestor ev) (sn_property ev) LONG_MAX (sn_target ev))) s = (Inr (True, Some data), ?s)"
    using assms(4,9,10,12,13) by (simp add: xask_def on_display_def ask_def log_call_def prog_defs)
  then show ?thesis
    using assms(4-6,13) ne u tok cbs
    by (simp add: handle_selection_notify_def handle_drop_data_def andthen_def getp_def seqp_def whenp_def
        ret_def dnd_ver_def cur_get_def cur_win_def win_get_def xreq_def on_display_def log_call_def modp_def cur_def)
qed

definition drop_env :: xenv where
  "drop_env = quiet_env\<lparr>env_property := (\<lambda>_. Some (uri_line [47, 97]))\<rparr>"

definition drop_state :: eglut_state where
  "drop_state = dnd_state\<lparr>dnd_version := 5, dnd_source := 99, windows := [(cur one_window)\<lparr>drop_cb := Some 1\<rparr>]\<rparr>"

theorem drop_delivers_files_witness:
  "\<exists>t. handle_selection_notify drop_env 0 \<lparr>sn_requestor = 7, sn_target = 18, sn_property = 17\<rparr> drop_state = (Inr (), t) \<and>
     User (DropCB 1 [47, 97]) \<in> set (trace t)"
proof -
  let ?ev = "\<lparr>sn_requestor = 7, sn_target = 18, sn_property = 17\<rparr>" and ?s = drop_state and ?E = drop_env
  let ?q = "Ipc (GetWindowProperty (sn_requestor ?ev) (XdndSelection ?s) LONG_MAX (sn_target ?ev))"
  have h: "inert ?E" "0 < length (windows ?s)" "drop_cb (windows ?s ! 0) = Some 1" "native_dpy ?s \<noteq> 0"
    "current ?s = Some 0" "0 < length (windows ?s)"
    "\<forall>f \<in> set [[47, 97 :: u8]]. f \<noteq> [] \<and> hd f = 47 \<and> 0 \<notin> set f" "[[47, 97 :: u8]] \<noteq> []"
    "?q = ?q" "env_ok ?E (trace ?s @ [?q])" "concat (map uri_line [[47, 97]]) = concat (map uri_line [[47, 97]])"
    "env_property ?E (trace ?s @ [?q]) = Some (concat (map uri_line [[47, 97]]))" "sn_property ?ev = XdndSelection ?s"
    by (simp_all add: inert_def drop_env_def quiet_env_def drop_state_def dnd_state_def one_window_def initial_state_def)
  show ?thesis unfolding drop_delivers_files[OF h] by simp
qed

section \<open>Clipboard\<close>

text \<open>
  After the application has set the clipboard text (and the copy could be allocated), a
  selection request for \<open>STRING\<close> or \<open>UTF8_STRING\<close> is answered with exactly that text up to its
  terminator and the property the requestor named; \<open>TARGETS\<close> is answered with the two text
  targets; any other target is refused with the property \<open>None\<close>.
\<close>

theorem clipboard_served:
  assumes "native_dpy s \<noteq> 0" and "current s = Some c" and "c < length (windows s)"
    and "\<forall>t. env_handle E (t @ [Ipc (InternAtom ''TARGETS'')]) = tg" and "\<forall>t. env_handle E (t @ [Ipc (InternAtom ''STRING'')]) = st"
    and "\<forall>t. env_handle E (t @ [Ipc (InternAtom ''UTF8_STRING'')]) = ut" and "tg \<noteq> st" and "tg \<noteq> ut"
    and "\<forall>t n. env_handle E (t @ [Png (Malloc n)]) \<noteq> 0"
  shows "\<exists>u t. eglutSetClipboardText E text s = (Inr (), u) \<and> clipboard u = Some (cstr text) \<and>
    handle_selection_request E r u = (Inr (), t) \<and>
    trace t = trace u @ [Ipc (InternAtom ''TARGETS''), Ipc (InternAtom ''STRING''), Ipc (InternAtom ''UTF8_STRING'')] @
      (if sr_target r = tg then [Ipc (ChangeProperty (sr_requestor r) (sr_property r) tg 32 (le64 ut @ le64 st) 2)]
       else if sr_target r \<in> {st, ut} then
         [Ipc (ChangeProperty (sr_requestor r) (sr_property r) (sr_target r) 8 (cstr text) (length (cstr text)))]
       else []) @
      [Ipc (SendEvent (sr_requestor r) True 0 (SelectionMsg (sr_requestor r) (sr_selection r) (sr_target r)
         (if sr_target r \<in> {tg, st, ut} then sr_property r else 0) (sr_time r)))]"
proof -
  have snoc: "env_handle E (t @ [a, Ipc (InternAtom ''STRING'')]) = st"
    "env_handle E (t @ [a, b, Ipc (InternAtom ''UTF8_STRING'')]) = ut" for t a b
    using spec[OF assms(5), of "t @ [a]"] spec[OF assms(6), of "t @ [a, b]"] by simp_all
  have m: "env_handle E (trace s @ [a, Png (Malloc n)]) \<noteq> 0" for a n
    using assms(9)[rule_format, of "trace s @ [a]" n] by simp
  obtain u where u: "eglutSetClipboardText E text s = (Inr (), u)" "clipboard u = Some (cstr text)" "native_dpy u \<noteq> 0"
    using assms(1-3,9) m by (cases "clipboard s") (auto simp: eglutSetClipboardText_def strdup_def prog_simps)
  have "\<exists>t. handle_selection_request E r u = (Inr (), t) \<and>
    trace t = trace u @ [Ipc (InternAtom ''TARGETS''), Ipc (InternAtom ''STRING''), Ipc (InternAtom ''UTF8_STRING'')] @
      (if sr_target r = tg then [Ipc (ChangeProperty (sr_requestor r) (sr_property r) tg 32 (le64 ut @ le64 st) 2)]
       else if sr_target r \<in> {st, ut} then
         [Ipc (ChangeProperty (sr_requestor r) (sr_property r) (sr_target r) 8 (cstr text) (length (cstr text)))]
       else []) @
      [Ipc (SendEvent (sr_requestor r) True 0 (SelectionMsg (sr_requestor r) (sr_selection r) (sr_target r)
         (if sr_target r \<in> {tg, st, ut} then sr_property r else 0) (sr_time r)))]"
    using u(2,3) assms(4,7,8) snoc by (auto simp: handle_selection_request_def prog_simps)
  with u show ?thesis by blast
qed

text \<open>Atoms by name, and a request for the text in UTF-8.\<close>

definition atom_env :: xenv where
  "atom_env = quiet_env\<lparr>env_handle := (\<lambda>t. case last t of Ipc (InternAtom n) \<Rightarrow> of_nat (length n) | _ \<Rightarrow> 1)\<rparr>"

theorem clipboard_served_witness:
  "\<exists>u t. eglutSetClipboardText atom_env [104, 105, 0] one_window = (Inr (), u) \<and>
    handle_selection_request atom_env \<lparr>sr_requestor = 50, sr_selection = 9, sr_target = 11, sr_property = 60, sr_time = 1\<rparr> u = (Inr (), t) \<and>
    Ipc (ChangeProperty 50 60 11 8 [104, 105] 2) \<in> set (trace t)"
proof -
  let ?r = "\<lparr>sr_requestor = 50, sr_selection = 9, sr_target = 11, sr_property = 60, sr_time = 1\<rparr>"
  have h: "native_dpy one_window \<noteq> 0" "current one_window = Some 0" "0 < length (windows one_window)"
    "\<forall>t. env_handle atom_env (t @ [Ipc (InternAtom ''TARGETS'')]) = 7"
    "\<forall>t. env_handle atom_env (t @ [Ipc (InternAtom ''STRING'')]) = 6"
    "\<forall>t. env_handle atom_env (t @ [Ipc (InternAtom ''UTF8_STRING'')]) = 11" "(7 :: u64) \<noteq> 6" "(7 :: u64) \<noteq> 11"
    "\<forall>t n. env_handle atom_env (t @ [Png (Malloc n)]) \<noteq> 0"
    by (simp_all add: atom_env_def quiet_env_def one_window_def initial_state_def)
  have c: "cstr [104, 105, 0] = [104, 105]" by (simp add: cstr_def)
  show ?thesis using clipboard_served[OF h, of "[104, 105, 0]" ?r] unfolding c by auto
qed

end
