(* ===== verification/Base64.thy ===== *)
theory Base64
  imports Prelude
begin

text \<open>
  \<^verbatim>\<open>base64/src/base64.cpp\<close>: the encoder, which writes the output string by index block by
  block, and the decoder with its reverse table, skipped characters and padding rules. The
  encoder is shown to stay inside its strings and to produce the encoding of RFC 4648, and the decoder its inverse.
\<close>

section \<open>Tables\<close>

definition table :: bytes where
  "table = map of_char ''ABCDEFGHIJKLMNOPQRSTUVWXYZabcdefghijklmnopqrstuvwxyz0123456789+/''"

definition initReverseTable :: bytes where
  "initReverseTable = (fold (\<lambda>i t. t[unat (table ! i) := of_nat i]) [0..<64] (replicate 256 255))[61 := 64]"

section \<open>Encoding\<close>

text \<open>The four table indices of one block.\<close>

definition sextet0 :: "u8 \<Rightarrow> u8" where
  "sextet0 i0 = drop_bit 2 i0 AND 0x3f"
definition sextet1 :: "u8 \<Rightarrow> u8 \<Rightarrow> u8" where
  "sextet1 i0 i1 = push_bit 4 (i0 AND 3) OR (drop_bit 4 i1 AND 0xf)"
definition sextet2 :: "u8 \<Rightarrow> u8 \<Rightarrow> u8" where
  "sextet2 i1 i2 = push_bit 2 (i1 AND 0xf) OR (drop_bit 6 i2 AND 3)"
definition sextet3 :: "u8 \<Rightarrow> u8" where
  "sextet3 i2 = i2 AND 0x3f"

definition code :: "u8 \<Rightarrow> u8" where
  "code v = table ! unat v"

definition block_count :: "nat \<Rightarrow> nat" where
  "block_count n = (n + 2) div 3"

definition encoded_size :: "nat \<Rightarrow> bool \<Rightarrow> nat" where
  "encoded_size n padded = (if padded then block_count n * 4 else n div 3 * 4 + (if n mod 3 = 0 then 0 else 1 + n mod 3))"

text \<open>
  A read of \<open>input[k]\<close> and a write to \<open>outp[k]\<close>: outside of the string they are undefined, except
  that reading at the length of a constant string gives a null character. \<open>None\<close> stands for such
  an access.
\<close>

definition read_at :: "bytes \<Rightarrow> nat \<Rightarrow> u8 option" where
  "read_at s k = (if k < length s then Some (s ! k) else if k = length s then Some 0 else None)"

fun write_all :: "(nat \<times> u8) list \<Rightarrow> bytes \<Rightarrow> bytes option" where
  "write_all [] outp = Some outp"
| "write_all ((k, v) # ws) outp = (if k < length outp then write_all ws (outp[k := v]) else None)"

text \<open>The writes of the \<open>i\<close>-th block.\<close>

definition block_writes :: "nat \<Rightarrow> bool \<Rightarrow> nat \<Rightarrow> u8 \<Rightarrow> u8 \<Rightarrow> u8 \<Rightarrow> (nat \<times> u8) list" where
  "block_writes n padded i i0 i1 i2 =
    (if i \<noteq> block_count n - 1
     then [(i * 4, code (sextet0 i0)), (i * 4 + 1, code (sextet1 i0 i1)),
           (i * 4 + 2, code (sextet2 i1 i2)), (i * 4 + 3, code (sextet3 i2))]
     else [(i * 4, code (sextet0 i0)), (i * 4 + 1, code (sextet1 i0 i1))] @
       (if n > i * 3 + 1 then [(i * 4 + 2, code (sextet2 i1 i2))] else if padded then [(i * 4 + 2, 61)] else []) @
       (if n > i * 3 + 2 then [(i * 4 + 3, code (sextet3 i2))] else if padded then [(i * 4 + 3, 61)] else []))"

definition encode_block :: "bytes \<Rightarrow> bool \<Rightarrow> nat \<Rightarrow> bytes \<Rightarrow> bytes option" where
  "encode_block input padded i outp = (let n = length input in
     Option.bind (read_at input (i * 3)) (\<lambda>i0.
     Option.bind (if n > i * 3 + 1 then read_at input (i * 3 + 1) else Some 0) (\<lambda>i1.
     Option.bind (if n > i * 3 + 2 then read_at input (i * 3 + 2) else Some 0) (\<lambda>i2.
     write_all (block_writes n padded i i0 i1 i2) outp))))"

definition encode :: "bytes \<Rightarrow> bool \<Rightarrow> bytes option" where
  "encode input padded = fold (\<lambda>i r. Option.bind r (encode_block input padded i)) [0..<block_count (length input)]
     (Some (replicate (encoded_size (length input) padded) 0))"

section \<open>Decoding\<close>

datatype b64_error = UnexpectedEnd | InvalidPad | InvalidCharacter nat | TableUnderrun

text \<open>
  \<open>reverseTable[input[p]]\<close>: the index is a \<open>char\<close>, signed on the supported platforms, so a
  byte from 128 on indexes in front of the table.
\<close>

definition reverse_lookup :: "u8 \<Rightarrow> u8 option" where
  "reverse_lookup c = (if sint c < 0 then None else Some (initReverseTable ! unat c))"

text \<open>\<open>strchr (skip_chars, c)\<close> also finds the terminator.\<close>

definition skippable :: "bytes \<Rightarrow> u8 \<Rightarrow> bool" where
  "skippable skip c \<longleftrightarrow> c \<in> set skip \<or> c = 0"

text \<open>
  The inner loop for the \<open>n\<close>-th character of a group at input position \<open>p\<close>; \<open>prev\<close> is the
  value read before it.
\<close>

fun read_sextet :: "bytes \<Rightarrow> nat \<Rightarrow> u8 \<Rightarrow> nat \<Rightarrow> bytes \<Rightarrow> b64_error + (u8 \<times> nat \<times> bytes)" where
  "read_sextet skip n prev p [] = (if n < 2 then Inl UnexpectedEnd else Inr (64, p, []))"
| "read_sextet skip n prev p (c # cs) = (case reverse_lookup c of None \<Rightarrow> Inl TableUnderrun
     | Some v \<Rightarrow>
       if v \<noteq> 255 then
         if v = 64 \<and> n < 2 \<or> n = 3 \<and> prev = 64 \<and> v \<noteq> 64 then Inl InvalidPad else Inr (v, Suc p, cs)
       else if \<not> skippable skip c then Inl (InvalidCharacter p)
       else read_sextet skip n prev (Suc p) cs)"

text \<open>The bytes one group of four stands for.\<close>

definition group_bytes :: "u8 \<Rightarrow> u8 \<Rightarrow> u8 \<Rightarrow> u8 \<Rightarrow> bytes" where
  "group_bytes a b c d = [push_bit 2 a OR (drop_bit 4 b AND 3)] @
     (if c \<noteq> 64 then [push_bit 4 (b AND 0xf) OR (drop_bit 2 c AND 0xf)] else []) @
     (if c \<noteq> 64 \<and> d \<noteq> 64 then [push_bit 6 (c AND 3) OR d] else [])"

definition read_group :: "bytes \<Rightarrow> nat \<Rightarrow> bytes \<Rightarrow> b64_error + (bytes \<times> nat \<times> bytes)" where
  "read_group skip p input = (case read_sextet skip 0 0 p input of Inl e \<Rightarrow> Inl e | Inr (a, p, input) \<Rightarrow>
     (case read_sextet skip 1 a p input of Inl e \<Rightarrow> Inl e | Inr (b, p, input) \<Rightarrow>
     (case read_sextet skip 2 b p input of Inl e \<Rightarrow> Inl e | Inr (c, p, input) \<Rightarrow>
     (case read_sextet skip 3 c p input of Inl e \<Rightarrow> Inl e | Inr (d, p, input) \<Rightarrow>
        Inr (group_bytes a b c d, p, input)))))"

lemma read_sextet_length:
  "read_sextet skip n prev p input = Inr (v, q, rest) \<Longrightarrow> length rest \<le> length input \<and> (n < 2 \<longrightarrow> length rest < length input)"
  by (induction skip n prev p input rule: read_sextet.induct)
    (auto split: if_splits option.splits)

lemma read_group_shorter: "read_group skip p input = Inr (bs, q, rest) \<Longrightarrow> length rest < length input"
  by (auto simp: read_group_def split: sum.splits dest!: read_sextet_length)

function decode_from :: "bytes \<Rightarrow> nat \<Rightarrow> bytes \<Rightarrow> b64_error + bytes" where
  "decode_from skip p [] = Inr []"
| "decode_from skip p (c # cs) = (case read_group skip p (c # cs) of Inl e \<Rightarrow> Inl e
     | Inr (bs, q, rest) \<Rightarrow> (case decode_from skip q rest of Inl e \<Rightarrow> Inl e | Inr out \<Rightarrow> Inr (bs @ out)))"
  by pat_completeness auto

termination decode_from
  by (relation "measure (\<lambda>(skip, p, input). length input)") (auto dest: read_group_shorter)

definition decode :: "bytes \<Rightarrow> bytes \<Rightarrow> b64_error + bytes" where
  "decode input skip = decode_from skip 0 input"

section \<open>The encoding by blocks\<close>

fun b64 :: "bool \<Rightarrow> bytes \<Rightarrow> bytes" where
  "b64 padded [] = []"
| "b64 padded [a] = [code (sextet0 a), code (sextet1 a 0)] @ (if padded then [61, 61] else [])"
| "b64 padded [a, b] = [code (sextet0 a), code (sextet1 a b), code (sextet2 b 0)] @ (if padded then [61] else [])"
| "b64 padded (a # b # c # s) =
     [code (sextet0 a), code (sextet1 a b), code (sextet2 b c), code (sextet3 c)] @ b64 padded s"

lemma word8_bits:
  fixes v w :: u8
  assumes "bit v 0 = bit w 0" "bit v 1 = bit w 1" "bit v 2 = bit w 2" "bit v 3 = bit w 3"
    "bit v 4 = bit w 4" "bit v 5 = bit w 5" "bit v 6 = bit w 6" "bit v 7 = bit w 7"
  shows "v = w"
proof (rule word_eqI_bits)
  fix i assume "i < LENGTH(8)"
  then have "i = 0 \<or> i = 1 \<or> i = 2 \<or> i = 3 \<or> i = 4 \<or> i = 5 \<or> i = 6 \<or> i = 7" by (simp, arith)
  with assms show "bit v i \<longleftrightarrow> bit w i" by (elim disjE) simp_all
qed

lemma sextets_join:
  "push_bit 2 (sextet0 a) OR (drop_bit 4 (sextet1 a b) AND 3) = a"
  "push_bit 4 (sextet1 a b AND 0xf) OR (drop_bit 2 (sextet2 b c) AND 0xf) = b"
  "push_bit 6 (sextet2 b c AND 3) OR sextet3 c = c"
  by (rule word8_bits; simp add: sextet0_def sextet1_def sextet2_def sextet3_def bit_simps)+

lemma length_table: "length table = 64"
  by (simp add: table_def)

lemma table_ascii: "list_all (\<lambda>c. unat c < 128 \<and> c \<noteq> 61) table"
  by code_simp

lemma distinct_table: "distinct table"
  by code_simp

lemma fold_update_nth:
  assumes "\<And>i. i < n \<Longrightarrow> f i < length xs" and "inj_on f {..<n}" and "j < n"
  shows "fold (\<lambda>i t. t[f i := g i]) [0..<n] xs ! f j = g j"
  using assms
proof (induction n)
  case (Suc n)
  have len: "length (fold (\<lambda>i t. t[f i := g i]) [0..<m] xs) = length xs" for m
    by (induction m) simp_all
  show ?case
  proof (cases "j = n")
    case True
    then show ?thesis using Suc.prems(1)[of n] len by simp
  next
    case False
    then have "f j \<noteq> f n" using Suc.prems(2,3) by (auto simp: inj_on_def)
    moreover have "fold (\<lambda>i t. t[f i := g i]) [0..<n] xs ! f j = g j"
      using Suc.prems False by (intro Suc.IH) (auto simp: inj_on_def)
    ultimately show ?thesis by simp
  qed
qed simp

lemma sint_ascii: "unat (c :: u8) < 128 \<Longrightarrow> sint c = uint c"
proof -
  assume "unat c < 128"
  then have "int (unat c) < int 128" by (simp only: of_nat_less_iff)
  then have "uint c < 2 ^ 7" by simp
  moreover have "- (2 ^ 7) \<le> uint c" using order_trans[OF _ uint_ge_0[of c], of "- (2 ^ 7)"] by simp
  ultimately have "signed_take_bit 7 (uint c) = uint c" by (intro signed_take_bit_int_eq_self)
  then show ?thesis by (simp add: sint_uint)
qed

lemma reverse_table:
  assumes "i < 64"
  shows "reverse_lookup (table ! i) = Some (of_nat i)"
proof -
  have a: "unat (table ! k) < 128" "table ! k \<noteq> 61" if "k < 64" for k
    using table_ascii that by (auto simp: list_all_length length_table)
  have a': "unat (table ! k) < 256" if "k < 64" for k
    using a(1)[OF that] by simp
  have "inj_on (\<lambda>k. unat (table ! k)) {..<64}"
    using distinct_table by (auto simp: inj_on_def word_unat_eq_iff[symmetric] nth_eq_iff_index_eq length_table)
  then have "fold (\<lambda>k t. t[unat (table ! k) := of_nat k]) [0..<64] (replicate 256 255) ! unat (table ! i) = (of_nat i :: u8)"
    using a' assms by (intro fold_update_nth) simp_all
  moreover have "unat (table ! i) \<noteq> 61"
    using a(2)[OF assms] word_unat_eq_iff[of "table ! i" 61] by simp
  moreover have "0 \<le> sint (table ! i)"
    using sint_ascii[OF a(1)[OF assms]] by simp
  ultimately show ?thesis by (simp add: reverse_lookup_def initReverseTable_def)
qed

lemma and_3f_less: "unat ((w :: u8) AND 0x3f) < 64"
proof -
  have "(w AND 0x3f) = take_bit 6 w"
    by (rule word8_bits; simp add: bit_simps)
  moreover have "unat (take_bit 6 w) < 2 ^ 6"
    by (simp add: unsigned_take_bit_eq del: power_numeral)
  ultimately show ?thesis by simp
qed

lemma sextets_less:
  "unat (sextet0 a) < 64" "unat (sextet1 a b) < 64" "unat (sextet2 b c) < 64" "unat (sextet3 c) < 64"
proof -
  have "sextet1 a b = sextet1 a b AND 0x3f" "sextet2 b c = sextet2 b c AND 0x3f"
    by (rule word8_bits; simp add: sextet1_def sextet2_def bit_simps)+
  then show "unat (sextet1 a b) < 64" "unat (sextet2 b c) < 64" by (metis and_3f_less)+
qed (simp_all add: sextet0_def sextet3_def and_3f_less)

lemma reverse_code: "unat v < 64 \<Longrightarrow> reverse_lookup (code v) = Some v"
  using reverse_table[of "unat v"] by (simp add: code_def)

lemma reverse_pad: "reverse_lookup 61 = Some 64"
  by code_simp

lemma small_word: "unat (v :: u8) < 64 \<Longrightarrow> v \<noteq> 64 \<and> v \<noteq> 255"
  by auto

lemma read_code:
  assumes "unat v < 64" and "n = 3 \<longrightarrow> prev \<noteq> 64"
  shows "read_sextet skip n prev p (code v # cs) = Inr (v, Suc p, cs)"
  using assms reverse_code[OF assms(1)] small_word[OF assms(1)] by simp

lemma read_pad: "2 \<le> n \<Longrightarrow> read_sextet skip n prev p (61 # cs) = Inr (64, Suc p, cs)"
  by (simp add: reverse_pad)

declare read_sextet.simps(2) [simp del]

lemma sextet_not_64: "sextet2 b c \<noteq> 64" "sextet3 c \<noteq> 64"
  using small_word sextets_less by blast+

lemma group_full: "group_bytes (sextet0 a) (sextet1 a b) (sextet2 b c) (sextet3 c) = [a, b, c]"
  unfolding group_bytes_def sextets_join by (simp add: sextet_not_64)

lemma group_two: "group_bytes (sextet0 a) (sextet1 a b) (sextet2 b c) 64 = [a, b]"
  unfolding group_bytes_def sextets_join by (simp add: sextet_not_64)

lemma group_one: "group_bytes (sextet0 a) (sextet1 a b) 64 64 = [a]"
  unfolding group_bytes_def sextets_join by simp

lemma decode_b64: "decode_from skip p (b64 padded s) = Inr s"
proof (induction padded s arbitrary: p rule: b64.induct)
  case (4 padded a b c s)
  have "read_group skip p (b64 padded (a # b # c # s)) = Inr ([a, b, c], Suc (Suc (Suc (Suc p))), b64 padded s)"
    by (simp add: read_group_def read_code sextets_less sextet_not_64 group_full)
  with 4 show ?case by simp
qed (simp_all add: read_group_def read_code read_pad sextets_less sextet_not_64 group_two group_one)

section \<open>The encoder meets the reference\<close>

lemma encoded_size_3: "encoded_size (Suc (Suc (Suc n))) padded = encoded_size n padded + 4"
proof -
  have "(n + 3 + 2) div 3 = (n + 2) div 3 + 1" "(n + 3) div 3 = n div 3 + 1" "(n + 3) mod 3 = n mod 3" by auto
  moreover have "Suc (Suc (Suc n)) = n + 3" by simp
  ultimately show ?thesis
    by (simp only: encoded_size_def block_count_def) (simp add: algebra_simps)
qed

lemma length_b64: "length (b64 padded s) = encoded_size (length s) padded"
proof (induction padded s rule: b64.induct)
  case (4 padded a b c s)
  then show ?case by (simp add: encoded_size_3)
qed (simp_all add: encoded_size_def block_count_def)

text \<open>The four characters of a block that is not the last one.\<close>

definition block_chars :: "bytes \<Rightarrow> nat \<Rightarrow> bytes" where
  "block_chars s i = [code (sextet0 (s ! (3 * i))), code (sextet1 (s ! (3 * i)) (s ! (3 * i + 1))),
     code (sextet2 (s ! (3 * i + 1)) (s ! (3 * i + 2))), code (sextet3 (s ! (3 * i + 2)))]"

lemma update_four:
  assumes "length xs = k" and "4 \<le> length ys"
  shows "(xs @ ys)[k := a, k + 1 := b, k + 2 := c, k + 3 := d] = xs @ [a, b, c, d] @ drop 4 ys"
proof -
  obtain y0 y1 y2 y3 zs where "ys = y0 # y1 # y2 # y3 # zs"
    using assms(2) by (auto simp: eval_nat_numeral Suc_le_length_iff)
  with assms(1) show ?thesis by (simp add: list_update_append)
qed

text \<open>The writes of a block as updates.\<close>

definition updates :: "bytes \<Rightarrow> bool \<Rightarrow> nat \<Rightarrow> bytes \<Rightarrow> bytes" where
  "updates input padded i outp = (let n = length input;
     i0 = input ! (i * 3);
     i1 = (if n > i * 3 + 1 then input ! (i * 3 + 1) else 0);
     i2 = (if n > i * 3 + 2 then input ! (i * 3 + 2) else 0);
     outp = outp[i * 4 := code (sextet0 i0), i * 4 + 1 := code (sextet1 i0 i1)] in
     if i \<noteq> block_count n - 1 then outp[i * 4 + 2 := code (sextet2 i1 i2), i * 4 + 3 := code (sextet3 i2)]
     else let outp = (if n > i * 3 + 1 then outp[i * 4 + 2 := code (sextet2 i1 i2)]
                      else if padded then outp[i * 4 + 2 := 61] else outp)
          in if n > i * 3 + 2 then outp[i * 4 + 3 := code (sextet3 i2)]
             else if padded then outp[i * 4 + 3 := 61] else outp)"

lemma length_updates [simp]: "length (updates s padded i out) = length out"
  by (simp add: updates_def Let_def)

text \<open>The blocks of an input that is not empty: \<open>k\<close> full ones and a last one of one to three bytes.\<close>

lemma blocks:
  assumes "0 < length s"
  obtains k r where "block_count (length s) = Suc k" "length s = 3 * k + r" "0 < r" "r \<le> 3"
    "encoded_size (length s) padded = 4 * k + (if padded then 4 else r + 1)"
proof -
  define k where "k = (length s - 1) div 3"
  define r where "r = length s - 3 * k"
  have "(length s - 1) mod 3 < 3" "3 * k + (length s - 1) mod 3 = length s - 1" by (simp_all add: k_def)
  then have r: "length s = 3 * k + r" "0 < r" "r \<le> 3" using assms unfolding r_def by linarith+
  have bc: "block_count (length s) = Suc k" using r by (simp add: block_count_def)
  have "encoded_size (length s) padded = 4 * k + (if padded then 4 else r + 1)"
  proof (cases padded)
    case False
    have "r = 1 \<or> r = 2 \<or> r = 3" using r by linarith
    moreover have "(3 * k + r) div 3 = k + r div 3" "(3 * k + r) mod 3 = r mod 3" by simp_all
    ultimately show ?thesis using False unfolding encoded_size_def r(1) by (elim disjE) simp_all
  qed (simp add: encoded_size_def bc)
  with bc r show ?thesis using that by blast
qed

text \<open>No access of the encoder is outside of a string.\<close>

lemma encode_block_updates:
  assumes i: "i < block_count (length s)" and out: "length out = encoded_size (length s) padded"
  shows "encode_block s padded i out = Some (updates s padded i out)"
proof -
  have "0 < length s" using i by (cases s) (simp_all add: block_count_def)
  then obtain k r where k: "block_count (length s) = Suc k" "length s = 3 * k + r" "0 < r" "r \<le> 3"
    "encoded_size (length s) padded = 4 * k + (if padded then 4 else r + 1)" by (rule blocks)
  show ?thesis
  proof (cases "i = k")
    case True
    then show ?thesis
      using k out by (auto simp: encode_block_def block_writes_def updates_def read_at_def Let_def)
  next
    case False
    then have "i * 4 + 3 < length out" "i * 3 + 2 < length s" using i k out by (auto split: if_splits)
    then show ?thesis
      using False k(1) by (simp add: encode_block_def block_writes_def updates_def read_at_def Let_def)
  qed
qed

lemma encode_updates:
  "encode s padded = Some (fold (updates s padded) [0..<block_count (length s)] (replicate (encoded_size (length s) padded) 0))"
proof -
  have "fold (\<lambda>i r. Option.bind r (encode_block s padded i)) is (Some out) = Some (fold (updates s padded) is out)"
    if "set is \<subseteq> {..<block_count (length s)}" "length out = encoded_size (length s) padded" for "is" out
    using that by (induction "is" arbitrary: out) (simp_all add: encode_block_updates)
  then show ?thesis by (simp add: encode_def lessThan_atLeast0)
qed

lemma updates_inner:
  assumes "i \<noteq> block_count (length s) - 1" and "3 * i + 2 < length s" and "length xs = 4 * i" and "4 \<le> length ys"
  shows "updates s padded i (xs @ ys) = (xs @ block_chars s i) @ drop 4 ys"
proof -
  have "updates s padded i (xs @ ys) = (xs @ ys)[4 * i := code (sextet0 (s ! (3 * i))),
      4 * i + 1 := code (sextet1 (s ! (3 * i)) (s ! (3 * i + 1))),
      4 * i + 2 := code (sextet2 (s ! (3 * i + 1)) (s ! (3 * i + 2))), 4 * i + 3 := code (sextet3 (s ! (3 * i + 2)))]"
    using assms(1,2) by (simp add: updates_def Let_def mult.commute)
  also have "\<dots> = xs @ block_chars s i @ drop 4 ys"
    unfolding block_chars_def by (rule update_four[OF assms(3,4)])
  finally show ?thesis by simp
qed

lemma encode_prefix:
  assumes "3 * k \<le> length s" and "k < block_count (length s) \<or> k = 0" and "4 * k \<le> length out"
  shows "fold (updates s padded) [0..<k] out = concat (map (block_chars s) [0..<k]) @ drop (4 * k) out"
  using assms
proof (induction k)
  case (Suc k)
  let ?done = "concat (map (block_chars s) [0..<k])"
  have len: "length ?done = 4 * k" by (induction k) (simp_all add: block_chars_def)
  have "updates s padded k (?done @ drop (4 * k) out) = (?done @ block_chars s k) @ drop 4 (drop (4 * k) out)"
    using Suc.prems len by (intro updates_inner) auto
  with Suc show ?case by (simp add: add.commute)
qed simp

lemma b64_prefix: "3 * k \<le> length s \<Longrightarrow> b64 padded s = concat (map (block_chars s) [0..<k]) @ b64 padded (drop (3 * k) s)"
proof (induction k)
  case (Suc k)
  obtain a b c r where r: "drop (3 * k) s = a # b # c # r"
  proof -
    have "3 \<le> length (drop (3 * k) s)" using Suc.prems by simp
    then show thesis using that by (auto simp: eval_nat_numeral Suc_le_length_iff simp del: length_drop)
  qed
  have n: "s ! (3 * k) = a" "s ! (3 * k + 1) = b" "s ! (3 * k + 2) = c"
    using r Suc.prems nth_drop[of "3 * k" s 0] nth_drop[of "3 * k" s 1] nth_drop[of "3 * k" s 2] by simp_all
  have "drop (3 * Suc k) s = r"
    using arg_cong[OF r, of "drop 3"] by (simp add: add.commute eval_nat_numeral)
  with Suc r n show ?case by (simp add: block_chars_def)
qed simp

lemma update_after:
  "length xs = n \<Longrightarrow> (xs @ ys)[n + j := v] = xs @ ys[j := v]"
  "length xs = n \<Longrightarrow> (xs @ ys)[n := v] = xs @ ys[0 := v]"
  by (simp_all add: list_update_append)

text \<open>The last block, on the slots that are left.\<close>

definition last_slots :: "bool \<Rightarrow> bytes \<Rightarrow> bytes \<Rightarrow> bytes" where
  "last_slots padded d ys = (let n = length d; i0 = d ! 0; i1 = (if n > 1 then d ! 1 else 0); i2 = (if n > 2 then d ! 2 else 0);
     ys = ys[0 := code (sextet0 i0), 1 := code (sextet1 i0 i1)];
     ys = (if n > 1 then ys[2 := code (sextet2 i1 i2)] else if padded then ys[2 := 61] else ys)
     in if n > 2 then ys[3 := code (sextet3 i2)] else if padded then ys[3 := 61] else ys)"

lemma updates_last:
  assumes "length s = 3 * k + r" and "0 < r" and "r \<le> 3" and "length xs = 4 * k"
  shows "updates s padded k (xs @ ys) = xs @ last_slots padded (drop (3 * k) s) ys"
proof -
  have k: "k = block_count (length s) - 1" using assms(1-3) by (simp add: block_count_def)
  have xs: "length xs = k * 4" using assms(4) by simp
  have "length s > k * 3 + 1 \<longleftrightarrow> length (drop (3 * k) s) > 1" "length s > k * 3 + 2 \<longleftrightarrow> length (drop (3 * k) s) > 2"
    using assms(1) by auto
  moreover have "s ! (k * 3) = drop (3 * k) s ! 0" "s ! (k * 3 + 1) = drop (3 * k) s ! 1" "s ! (k * 3 + 2) = drop (3 * k) s ! 2"
    by (simp_all add: assms(1) mult.commute)
  ultimately show ?thesis
    unfolding updates_def last_slots_def Let_def k[symmetric]
    by (simp only: update_after[OF xs] not_True_eq_False simp_thms if_False if_distrib[of "\<lambda>z. xs @ z", symmetric]
        if_cancel split: if_split)
qed

lemma last_slots_b64:
  assumes "0 < length d" and "length d \<le> 3" and "length ys = encoded_size (length d) padded"
  shows "last_slots padded d ys = b64 padded d"
proof -
  have "length d = 1 \<or> length d = 2 \<or> length d = 3" using assms(1,2) by linarith
  then consider (one) a where "d = [a]" | (two) a b where "d = [a, b]" | (three) a b c where "d = [a, b, c]"
    by (auto simp: length_Suc_conv eval_nat_numeral)
  then show ?thesis
  proof cases
    case one
    then have "length ys = (if padded then 4 else 2)" using assms(3) by (simp add: encoded_size_def block_count_def)
    then show ?thesis using one
      by (cases padded) (auto simp: last_slots_def Let_def length_Suc_conv eval_nat_numeral)
  next
    case two
    then have "length ys = (if padded then 4 else 3)" using assms(3) by (simp add: encoded_size_def block_count_def)
    then show ?thesis using two
      by (cases padded) (auto simp: last_slots_def Let_def length_Suc_conv eval_nat_numeral)
  next
    case three
    then have "length ys = 4" using assms(3) by (cases padded) (simp_all add: encoded_size_def block_count_def)
    then show ?thesis using three
      by (cases padded) (auto simp: last_slots_def Let_def length_Suc_conv eval_nat_numeral)
  qed
qed

lemma updates_b64:
  "fold (updates s padded) [0..<block_count (length s)] (replicate (encoded_size (length s) padded) 0) = b64 padded s"
proof (cases s)
  case Nil
  then show ?thesis by (simp add: block_count_def encoded_size_def)
next
  case (Cons a0 s0)
  define k where "k = block_count (length s) - 1"
  define r where "r = length s - 3 * k"
  have pos: "0 < length s" using Cons by simp
  have bc: "block_count (length s) = Suc k" 
  proof -
    have "3 \<le> length s + 2" using pos by linarith
    then have "0 < (length s + 2) div 3" by (simp add: div_greater_zero_iff)
    then show ?thesis by (simp add: k_def block_count_def)
  qed
  have r: "length s = 3 * k + r" "0 < r" "r \<le> 3"
  proof -
    have "(length s + 2) div 3 = Suc k" using bc by (simp add: block_count_def)
    moreover have "(length s + 2) div 3 * 3 + (length s + 2) mod 3 = length s + 2" by (rule div_mult_mod_eq)
    moreover have "(length s + 2) mod 3 < 3" by simp
    ultimately have "Suc k * 3 + (length s + 2) mod 3 = length s + 2" "(length s + 2) mod 3 < 3" by simp_all
    then have "3 * Suc k \<le> length s + 2 \<and> length s + 2 < 3 * Suc k + 3" by linarith
    then show "length s = 3 * k + r" "0 < r" "r \<le> 3" unfolding r_def by auto
  qed
  let ?out = "replicate (encoded_size (length s) padded) (0 :: u8)"
  have size: "encoded_size (3 * k + r) padded = 4 * k + encoded_size r padded"
  proof (induction k)
    case (Suc k)
    have "3 * Suc k + r = Suc (Suc (Suc (3 * k + r)))" by simp
    with Suc show ?case by (simp only: encoded_size_3)
  qed simp
  have pre: "fold (updates s padded) [0..<k] ?out = concat (map (block_chars s) [0..<k]) @ drop (4 * k) ?out"
    using r size bc by (intro encode_prefix) auto
  have len: "length (concat (map (block_chars s) [0..<k])) = 4 * k" by (induction k) (simp_all add: block_chars_def)
  have "fold (updates s padded) [0..<block_count (length s)] ?out = updates s padded k (concat (map (block_chars s) [0..<k]) @ drop (4 * k) ?out)"
    unfolding bc using pre by simp
  also have "\<dots> = concat (map (block_chars s) [0..<k]) @ last_slots padded (drop (3 * k) s) (drop (4 * k) ?out)"
    using updates_last[OF r len] .
  also have "last_slots padded (drop (3 * k) s) (drop (4 * k) ?out) = b64 padded (drop (3 * k) s)"
    using r size by (intro last_slots_b64) auto
  also have "concat (map (block_chars s) [0..<k]) @ b64 padded (drop (3 * k) s) = b64 padded s"
    using b64_prefix[of k s padded] r by simp
  finally show ?thesis .
qed

lemma encode_b64: "encode s padded = Some (b64 padded s)"
  by (simp add: encode_updates updates_b64)

lemma sint_high: "128 \<le> unat (c :: u8) \<Longrightarrow> sint c < 0"
proof -
  assume "128 \<le> unat c"
  then have "int 128 \<le> int (unat c)" by (simp only: of_nat_le_iff)
  then have "128 \<le> uint c" "uint c < 256" using uint_lt2p[of c] by simp_all
  then have "uint c div 2 ^ 7 = 1" by simp
  then have "bit (uint c) 7" by (simp add: bit_iff_odd)
  then show ?thesis by (simp add: sint_uint signed_take_bit_negative_iff)
qed

lemma decode_append_underrun:
  assumes c: "128 \<le> unat c"
  shows "length s mod 3 = 0 \<Longrightarrow> decode_from skip p (b64 padded s @ c # rest) = Inl TableUnderrun"
proof (induction padded s arbitrary: p rule: b64.induct)
  case (1 padded)
  then show ?case
    using sint_high[OF c] by (simp add: read_group_def read_sextet.simps(2) reverse_lookup_def)
next
  case (4 padded x y z s)
  have "read_group skip p (b64 padded (x # y # z # s) @ c # rest) =
      Inr ([x, y, z], Suc (Suc (Suc (Suc p))), b64 padded s @ c # rest)"
    by (simp add: read_group_def read_code sextets_less sextet_not_64 group_full)
  moreover have "length (x # y # z # s) = length s + 3" by simp
  then have "length s mod 3 = 0" using 4(2) by (simp only: mod_add_self2)
  ultimately show ?case using 4(1) by simp
qed simp_all

section \<open>The encoding of RFC 4648\<close>

text \<open>
  The reference: the bits of the input, most significant first, are cut into groups of six, the last one filled
  up with zeros; each group is a number that selects a letter of the alphabet; padding fills up
  to a multiple of four. Neither the table nor the shifts of the encoder occur in it.
\<close>

definition byte_bits :: "u8 \<Rightarrow> bool list" where
  "byte_bits b = map (bit b) [7, 6, 5, 4, 3, 2, 1, 0]"

definition bits_value :: "bool list \<Rightarrow> nat" where
  "bits_value bs = foldl (\<lambda>n b. 2 * n + of_bool b) 0 bs"

function sextets :: "bool list \<Rightarrow> nat list" where
  "sextets bs = (if bs = [] then [] else bits_value (take 6 (bs @ replicate 5 False)) # sextets (drop 6 bs))"
  by pat_completeness auto

termination sextets
  by (relation "measure length") auto

definition alphabet :: "nat \<Rightarrow> u8" where
  "alphabet n = (if n < 26 then of_nat (n + 65) else if n < 52 then of_nat (n - 26 + 97)
     else if n < 62 then of_nat (n - 52 + 48) else if n = 62 then 43 else 47)"

definition rfc4648 :: "bool \<Rightarrow> bytes \<Rightarrow> bytes" where
  "rfc4648 padded s = (let cs = map alphabet (sextets (concat (map byte_bits s))) in
     cs @ (if padded then replicate ((4 - length cs mod 4) mod 4) 61 else []))"

declare sextets.simps [simp del]

lemma sextets_Nil [simp]: "sextets [] = []"
  by (simp add: sextets.simps)

lemma sextets_six: "length g = 6 \<Longrightarrow> sextets (g @ bs) = bits_value g # sextets bs"
  by (subst sextets.simps) auto

lemma table_alphabet: "list_all (\<lambda>k. table ! k = alphabet k) [0..<64]"
  by code_simp

lemma six_bits: "list_all (\<lambda>k. bits_value (map (bit (of_nat k :: u8)) [5, 4, 3, 2, 1, 0]) = k) [0..<64]"
  by code_simp

lemma code_alphabet:
  assumes "unat v < 64"
  shows "code v = alphabet (bits_value (map (bit v) [5, 4, 3, 2, 1, 0]))"
proof -
  have "bits_value (map (bit (of_nat (unat v) :: u8)) [5, 4, 3, 2, 1, 0]) = unat v"
    using six_bits[unfolded list_all_iff, THEN bspec, of "unat v"] assms by simp
  then have "bits_value (map (bit v) [5, 4, 3, 2, 1, 0]) = unat v" by simp
  moreover have "table ! unat v = alphabet (unat v)"
    using table_alphabet[unfolded list_all_iff, THEN bspec, of "unat v"] assms by simp
  ultimately show ?thesis by (simp only: code_def)
qed

text \<open>The bits of the four numbers the encoder makes of three bytes.\<close>

lemma sextet_bits:
  "map (bit (sextet0 a)) [5, 4, 3, 2, 1, 0] = map (bit a) [7, 6, 5, 4, 3, 2]"
  "map (bit (sextet1 a b)) [5, 4, 3, 2, 1, 0] = map (bit a) [1, 0] @ map (bit b) [7, 6, 5, 4]"
  "map (bit (sextet2 b c)) [5, 4, 3, 2, 1, 0] = map (bit b) [3, 2, 1, 0] @ map (bit c) [7, 6]"
  "map (bit (sextet3 c)) [5, 4, 3, 2, 1, 0] = map (bit c) [5, 4, 3, 2, 1, 0]"
  by (simp_all add: sextet0_def sextet1_def sextet2_def sextet3_def bit_simps)

lemmas code_bits = code_alphabet[OF sextets_less(1), unfolded sextet_bits] code_alphabet[OF sextets_less(2), unfolded sextet_bits]
  code_alphabet[OF sextets_less(3), unfolded sextet_bits] code_alphabet[OF sextets_less(4), unfolded sextet_bits]

lemma sextets_rest:
  "sextets [x, y] = [bits_value [x, y, False, False, False, False]]"
  "sextets [x, y, z, w] = [bits_value [x, y, z, w, False, False]]"
  by (subst sextets.simps; simp add: eval_nat_numeral)+

lemma sextets_three:
  "map alphabet (sextets (byte_bits a @ byte_bits b @ byte_bits c @ bs)) =
    [code (sextet0 a), code (sextet1 a b), code (sextet2 b c), code (sextet3 c)] @ map alphabet (sextets bs)"
proof -
  define g0 where "g0 = map (bit a) [7, 6, 5, 4, 3, 2]"
  define g1 where "g1 = map (bit a) [1, 0] @ map (bit b) [7, 6, 5, 4]"
  define g2 where "g2 = map (bit b) [3, 2, 1, 0] @ map (bit c) [7, 6]"
  define g3 where "g3 = map (bit c) [5, 4, 3, 2, 1, 0]"
  have e: "byte_bits a @ byte_bits b @ byte_bits c @ bs = g0 @ g1 @ g2 @ g3 @ bs"
    by (simp add: byte_bits_def g0_def g1_def g2_def g3_def)
  have "length g0 = 6" "length g1 = 6" "length g2 = 6" "length g3 = 6"
    by (simp_all add: g0_def g1_def g2_def g3_def)
  then have "sextets (byte_bits a @ byte_bits b @ byte_bits c @ bs) =
      [bits_value g0, bits_value g1, bits_value g2, bits_value g3] @ sextets bs" unfolding e by (simp add: sextets_six)
  then show ?thesis by (simp add: code_bits g0_def g1_def g2_def g3_def)
qed

lemma b64_rfc4648: "b64 padded s = rfc4648 padded s"
proof (induction padded s rule: b64.induct)
  case (1 padded)
  then show ?case by (simp add: rfc4648_def)
next
  case (2 padded a)
  define g0 where "g0 = map (bit a) [7, 6, 5, 4, 3, 2]"
  have "byte_bits a = g0 @ [bit a 1, bit a 0]" "length g0 = 6" by (simp_all add: byte_bits_def g0_def)
  then have "sextets (byte_bits a) = [bits_value g0, bits_value [bit a 1, bit a 0, False, False, False, False]]"
    by (simp add: sextets_six sextets_rest)
  moreover have "code (sextet1 a 0) = alphabet (bits_value [bit a 1, bit a 0, False, False, False, False])"
    by (simp add: code_bits)
  moreover have "code (sextet0 a) = alphabet (bits_value g0)" by (simp only: code_bits g0_def)
  moreover have "replicate 2 61 = [61, 61 :: u8]" by (simp add: numeral_2_eq_2)
  ultimately show ?case by (simp add: rfc4648_def Let_def)
next
  case (3 padded a b)
  define g0 where "g0 = map (bit a) [7, 6, 5, 4, 3, 2]"
  define g1 where "g1 = map (bit a) [1, 0] @ map (bit b) [7, 6, 5, 4]"
  have "byte_bits a @ byte_bits b = g0 @ g1 @ [bit b 3, bit b 2, bit b 1, bit b 0]" "length g0 = 6" "length g1 = 6"
    by (simp_all add: byte_bits_def g0_def g1_def)
  then have "sextets (byte_bits a @ byte_bits b) = [bits_value g0, bits_value g1, bits_value [bit b 3, bit b 2, bit b 1, bit b 0, False, False]]"
    by (simp add: sextets_six sextets_rest)
  moreover have "code (sextet2 b 0) = alphabet (bits_value [bit b 3, bit b 2, bit b 1, bit b 0, False, False])"
    by (simp add: code_bits)
  moreover have "code (sextet0 a) = alphabet (bits_value g0)" "code (sextet1 a b) = alphabet (bits_value g1)"
    by (simp_all only: code_bits g0_def g1_def)
  ultimately show ?case by (simp add: rfc4648_def Let_def)
next
  case (4 padded a b c s)
  then show ?case by (simp add: rfc4648_def Let_def sextets_three)
qed

interpretation b64: codec "\<lambda>_. True" "\<lambda>s. encode s padded"
    "\<lambda>r. Option.bind r (\<lambda>t. case decode t skip of Inl _ \<Rightarrow> None | Inr s \<Rightarrow> Some s)"
  for padded skip
  by unfold_locales (simp add: encode_b64 decode_def decode_b64)

text \<open>
  C23: The encoder, which writes into a string of fixed size by index, reads and writes only
  inside of its strings and produces the encoding of RFC 4648, with and without padding; the
  string has exactly the size of the encoding.
\<close>

theorem encode_meets_reference:
  "encode s padded = Some (rfc4648 padded s) \<and> length (rfc4648 padded s) = encoded_size (length s) padded"
  by (simp add: encode_b64 length_b64 flip: b64_rfc4648)

text \<open>
  C14: Encoding gives a text, and decoding it gives the input back, padded or not and whatever
  characters are skipped; different inputs have different encodings.
\<close>

theorem base64_roundtrip:
  "(\<exists>e. encode s padded = Some e \<and> decode e skip = Inr s) \<and> (encode s padded = encode t padded \<longleftrightarrow> s = t)"
  using b64.encode_inject[of s padded t] by (simp add: encode_b64 decode_def decode_b64)

text \<open>
  A byte from 128 on, after any encoded text, is neither skipped nor reported as an invalid
  character: it indexes in front of the reverse table.
\<close>

theorem decode_high_byte_underruns:
  assumes "128 \<le> unat c" and "length s mod 3 = 0" and "encode s padded = Some e"
  shows "decode (e @ c # rest) skip = Inl TableUnderrun"
  using decode_append_underrun[OF assms(1,2), of skip 0 padded rest] assms(3) by (simp add: decode_def encode_b64)

theorem decode_high_byte_underruns_witness: "decode (b64 True [77, 97, 110] @ [0xC3]) [] = Inl TableUnderrun"
  using decode_high_byte_underruns[of "0xC3" "[77, 97, 110]" True "b64 True [77, 97, 110]" "[]" "[]"] encode_b64 by simp

end
