(* ===== verification/Text_Input.thy ===== *)
theory Text_Input
  imports Prelude
begin

text \<open>
  The text field of the client, \<^verbatim>\<open>mcpelauncher-client/src/text_input_handler.cpp\<close> with
  \<^verbatim>\<open>utf8_util.h\<close>: UTF-8 text with a cursor and a selection anchor, each kept as a byte position
  and as a character position. The handler is shown to implement an editor on lists of
  characters.
\<close>

section \<open>UTF-8 helpers\<close>

definition getCharByteSize :: "u8 \<Rightarrow> nat" where
  "getCharByteSize c = (if c AND 0b11111000 = 0b11110000 then 4
     else if c AND 0b11110000 = 0b11100000 then 3
     else if c AND 0b11100000 = 0b11000000 then 2 else 1)"

lemma getCharByteSize_pos [simp]: "0 < getCharByteSize c"
  by (simp add: getCharByteSize_def)

text \<open>The loop from the byte at hand; the rest of the character is stepped over unread.\<close>

function utf_count :: "bytes \<Rightarrow> nat" where
  "utf_count [] = 0"
| "utf_count (c # cs) = Suc (utf_count (drop (getCharByteSize c - 1) cs))"
  by pat_completeness auto
termination by (relation "measure length") auto

definition getLength :: "bytes \<Rightarrow> nat \<Rightarrow> nat" where
  "getLength s len = utf_count (take len s)"

function byte_pos :: "bytes \<Rightarrow> nat \<Rightarrow> nat \<Rightarrow> nat \<Rightarrow> nat" where
  "byte_pos [] i r utflen = r"
| "byte_pos (c # cs) i r utflen = (if utflen = Suc r then i + getCharByteSize c
     else byte_pos (drop (getCharByteSize c - 1) cs) (i + getCharByteSize c) (Suc r) utflen)"
  by pat_completeness auto
termination by (relation "measure (\<lambda>(s, _). length s)") auto

definition getBytePosFromUTF :: "bytes \<Rightarrow> nat \<Rightarrow> nat \<Rightarrow> nat" where
  "getBytePosFromUTF s len utflen = (if utflen = 0 then 0 else byte_pos (take len s) 0 0 utflen)"

definition is_cont :: "u8 \<Rightarrow> bool" where
  "is_cont c \<longleftrightarrow> c AND 0b11000000 = 0b10000000"

section \<open>State\<close>

datatype text_call = TextUpdate bytes | CaretPosition int

text \<open>\<open>calls\<close> are the two callbacks with their arguments, in order.\<close>

record text_input =
  ti_enabled :: bool
  multiline :: bool
  altPressed :: bool
  currentText :: bytes
  currentTextPosition :: nat
  currentTextPositionUTF :: nat
  currentTextCopyPosition :: nat
  currentTextCopyPositionUTF :: nat
  enabledNo :: nat
  keepOnce :: bool
  shiftPressed :: bool
  calls :: "text_call list"

definition new_text_input :: text_input where
  "new_text_input = \<lparr> ti_enabled = False, multiline = False, altPressed = False, currentText = [],
     currentTextPosition = 0, currentTextPositionUTF = 0, currentTextCopyPosition = 0,
     currentTextCopyPositionUTF = 0, enabledNo = 0, keepOnce = False, shiftPressed = False, calls = [] \<rparr>"

text \<open>The separators of words; \<open>strchr\<close> also finds the terminator of the list.\<close>

definition spaces :: bytes where
  "spaces = map of_char '' -_#/'' @ [92] @ map of_char ''!@$%^&*();:'' @ [39, 34] @ map of_char ''?.,''"

definition is_space :: "u8 \<Rightarrow> bool" where
  "is_space c \<longleftrightarrow> c \<in> set spaces \<or> c = 0"

text \<open>A \<open>size_t\<close> converted to \<open>int\<close>, and the decrement of a \<open>size_t\<close>.\<close>

definition size_to_int :: "nat \<Rightarrow> int" where
  "size_to_int n = sint (word_of_nat n :: 32 word)"

definition size_dec :: "nat \<Rightarrow> nat" where
  "size_dec n = (if n = 0 then 2 ^ 64 - 1 else n - 1)"

definition getCursorPosition :: "text_input \<Rightarrow> int" where
  "getCursorPosition t = size_to_int (currentTextPositionUTF t)"

definition caret_call :: "text_input \<Rightarrow> text_input" where
  "caret_call t = t\<lparr>calls := calls t @ [CaretPosition (getCursorPosition t)]\<rparr>"

definition text_call :: "text_input \<Rightarrow> bytes \<Rightarrow> text_input" where
  "text_call t s = t\<lparr>calls := calls t @ [TextUpdate s]\<rparr>"

definition copy_here :: "text_input \<Rightarrow> text_input" where
  "copy_here t = t\<lparr>currentTextCopyPosition := currentTextPosition t,
     currentTextCopyPositionUTF := currentTextPositionUTF t\<rparr>"

section \<open>Opening and closing the field\<close>

definition ti_update :: "bytes \<Rightarrow> text_input \<Rightarrow> text_input" where
  "ti_update s t = copy_here (t\<lparr>currentText := s, currentTextPosition := length s,
     currentTextPositionUTF := getLength s (length s)\<rparr>)"

text \<open>The last character of the old text, by the size its first byte announces.\<close>

definition last_char :: "bytes \<Rightarrow> bytes" where
  "last_char s = (let n = length s in
     if n \<ge> 3 \<and> getCharByteSize (s ! (n - 3)) = 3 then drop (n - 3) s
     else if n \<ge> 2 \<and> getCharByteSize (s ! (n - 2)) = 2 then drop (n - 2) s
     else if n \<ge> 1 \<and> getCharByteSize (s ! (n - 1)) = 1 then [s ! (n - 1)] else [])"

definition ti_enable :: "bytes \<Rightarrow> bool \<Rightarrow> text_input \<Rightarrow> text_input" where
  "ti_enable s ml t = (let t = t\<lparr>ti_enabled := True, multiline := ml, enabledNo := (enabledNo t + 1) mod 2 ^ 64\<rparr> in
     if keepOnce t then
       (if currentText t \<noteq> []
        then let s' = s @ last_char (currentText t) in ti_update s' ((text_call t s')\<lparr>keepOnce := False\<rparr>)
        else ti_update s (t\<lparr>keepOnce := False\<rparr>))
     else ti_update s t)"

definition ti_disable :: "text_input \<Rightarrow> text_input" where
  "ti_disable t = (if keepOnce t then t else t\<lparr>currentText := [], currentTextPosition := 0,
     currentTextPositionUTF := 0, currentTextCopyPosition := 0, currentTextCopyPositionUTF := 0, ti_enabled := False\<rparr>)"

section \<open>Typing\<close>

text \<open>The three loops of backspace, from \<open>deleteStart\<close> downwards.\<close>

fun back_spaces :: "bytes \<Rightarrow> nat \<Rightarrow> nat" where
  "back_spaces s 0 = 0"
| "back_spaces s (Suc d) = (if \<not> size_to_int (Suc d) > 0 then Suc d
     else if d < 1 \<or> \<not> is_space (s ! (d - 1)) \<or> \<not> is_space (s ! d) then d else back_spaces s d)"

fun back_word :: "bytes \<Rightarrow> nat \<Rightarrow> nat" where
  "back_word s 0 = 0"
| "back_word s (Suc d) = (if \<not> size_to_int (Suc d) > 0 then Suc d
     else if d < 1 \<or> is_space (s ! (d - 1)) \<or> is_space (s ! d) then d else back_word s d)"

fun back_cont :: "bytes \<Rightarrow> nat \<Rightarrow> nat" where
  "back_cont s 0 = 0"
| "back_cont s (Suc d) = (if size_to_int (Suc d) > 0 \<and> is_cont (s ! Suc d) then back_cont s d else Suc d)"

text \<open>
  A position outside the string is undefined behaviour in \<open>erase\<close>, \<open>insert\<close> and \<open>operator[]\<close>:
  no result.
\<close>

definition erase :: "bytes \<Rightarrow> nat \<Rightarrow> nat \<Rightarrow> bytes" where
  "erase s a b = take a s @ drop b s"

definition backspace :: "text_input \<Rightarrow> text_input option" where
  "backspace t = (let s = currentText t; p = currentTextPosition t in
     if p = 0 \<or> p > length s then None else
     let d = p - 1;
         d = (if altPressed t then back_word s (if is_space (s ! d) then back_spaces s d else d) else d);
         u = (if altPressed t then d else size_dec (currentTextPositionUTF t));
         d = back_cont s d
     in Some (t\<lparr>currentText := erase s d p, currentTextPosition := d, currentTextPositionUTF := u\<rparr>))"

function skip_cont :: "bytes \<Rightarrow> nat \<Rightarrow> nat" where
  "skip_cont s e = (if e < length s \<and> is_cont (s ! e) then skip_cont s (Suc e) else e)"
  by pat_completeness auto
termination by (relation "measure (\<lambda>(s, e). length s - e)") auto

declare skip_cont.simps [simp del]

definition delete_key :: "text_input \<Rightarrow> text_input" where
  "delete_key t = (let s = currentText t; p = currentTextPosition t in
     t\<lparr>currentText := erase s p (skip_cont s (p + 1))\<rparr>)"

definition insert_text :: "bytes \<Rightarrow> text_input \<Rightarrow> text_input option" where
  "insert_text x t = (let s = currentText t; p = currentTextPosition t in
     if p > length s then None else
     Some (t\<lparr>currentText := take p s @ x @ drop p s, currentTextPosition := p + length x,
       currentTextPositionUTF := (currentTextPositionUTF t + getLength x (length x)) mod 2 ^ 64\<rparr>))"

definition after_edit :: "text_input \<Rightarrow> text_input" where
  "after_edit t = caret_call (copy_here (text_call t (currentText t)))"

definition onTextInput :: "bytes \<Rightarrow> text_input \<Rightarrow> text_input option" where
  "onTextInput x t =
     (if x = [8] then
        if currentTextPositionUTF t = 0 then Some t else map_option after_edit (backspace t)
      else if x = [127] then
        if currentTextPosition t \<ge> length (currentText t) then Some t else Some (after_edit (delete_key t))
      else map_option after_edit (insert_text x t))"

section \<open>Keys\<close>

datatype key = RIGHT | LEFT | HOME | END_KEY | OtherKey
datatype key_action = PRESS | REPEAT | RELEASE

fun right_spaces :: "bytes \<Rightarrow> nat \<Rightarrow> nat \<Rightarrow> nat" where
  "right_spaces s p 0 = p"
| "right_spaces s p (Suc n) = (if p < length s then
     if Suc p \<ge> length s \<or> \<not> is_space (s ! Suc p) then Suc p else right_spaces s (Suc p) n else p)"

fun right_word :: "bytes \<Rightarrow> nat \<Rightarrow> nat \<Rightarrow> nat" where
  "right_word s p 0 = p"
| "right_word s p (Suc n) = (if p < length s then
     if Suc p \<ge> length s \<or> is_space (s ! Suc p) then Suc p else right_word s (Suc p) n else p)"

fun left_spaces :: "bytes \<Rightarrow> nat \<Rightarrow> nat" where
  "left_spaces s 0 = 0"
| "left_spaces s (Suc p) = (if p < 1 \<or> \<not> is_space (s ! (p - 1)) then p else left_spaces s p)"

fun left_word :: "bytes \<Rightarrow> nat \<Rightarrow> nat" where
  "left_word s 0 = 0"
| "left_word s (Suc p) = (if p < 1 \<or> is_space (s ! (p - 1)) then p else left_word s p)"

fun left_cont :: "bytes \<Rightarrow> nat \<Rightarrow> nat" where
  "left_cont s 0 = 0"
| "left_cont s (Suc p) = (if is_cont (s ! Suc p) then left_cont s p else Suc p)"

definition collapse_to :: "nat \<Rightarrow> text_input \<Rightarrow> text_input" where
  "collapse_to p t = caret_call (copy_here (t\<lparr>currentTextPosition := p,
     currentTextPositionUTF := getLength (currentText t) p\<rparr>))"

definition move_right :: "text_input \<Rightarrow> text_input" where
  "move_right t = (let s = currentText t; p = currentTextPosition t; n = length s in
     if altPressed t then
       let q = right_word s (if is_space (s ! p) then right_spaces s p n else p) n
       in t\<lparr>currentTextPosition := q, currentTextPositionUTF := getLength s q\<rparr>
     else t\<lparr>currentTextPosition := skip_cont s (p + 1),
       currentTextPositionUTF := (currentTextPositionUTF t + 1) mod 2 ^ 64\<rparr>)"

definition move_left :: "text_input \<Rightarrow> text_input" where
  "move_left t = (let s = currentText t; p = currentTextPosition t in
     if altPressed t then
       let q = left_word s (if is_space (s ! (p - 1)) then left_spaces s p else p)
       in t\<lparr>currentTextPosition := q, currentTextPositionUTF := getLength s q\<rparr>
     else t\<lparr>currentTextPosition := left_cont s (p - 1),
       currentTextPositionUTF := size_dec (currentTextPositionUTF t)\<rparr>)"

definition after_move :: "text_input \<Rightarrow> text_input" where
  "after_move t = caret_call (if shiftPressed t then t else copy_here t)"

definition KEY_MOD_SHIFT :: u32 where "KEY_MOD_SHIFT = 1"
definition KEY_MOD_ALT :: u32 where "KEY_MOD_ALT = 8"

definition onKeyPressed :: "key \<Rightarrow> key_action \<Rightarrow> u32 \<Rightarrow> text_input \<Rightarrow> text_input" where
  "onKeyPressed k a mods t = (let t = t\<lparr>shiftPressed := (mods AND KEY_MOD_SHIFT \<noteq> 0), altPressed := (mods AND KEY_MOD_ALT \<noteq> 0)\<rparr>;
       p = currentTextPosition t; c = currentTextCopyPosition t; n = length (currentText t) in
     if a \<noteq> PRESS \<and> a \<noteq> REPEAT then t else
     case k of
       RIGHT \<Rightarrow> if \<not> shiftPressed t \<and> p \<noteq> c then collapse_to (max p c) t
                else if p \<ge> n then t else after_move (move_right t)
     | LEFT \<Rightarrow> if \<not> shiftPressed t \<and> p \<noteq> c then collapse_to (min p c) t
               else if p = 0 then t else after_move (move_left t)
     | HOME \<Rightarrow> after_move (t\<lparr>currentTextPosition := 0, currentTextPositionUTF := 0\<rparr>)
     | END_KEY \<Rightarrow> after_move (t\<lparr>currentTextPosition := n, currentTextPositionUTF := getLength (currentText t) n\<rparr>)
     | OtherKey \<Rightarrow> t)"

definition getCopyText :: "text_input \<Rightarrow> bytes" where
  "getCopyText t = (let p = currentTextPosition t; c = currentTextCopyPosition t; s = currentText t in
     if c \<noteq> p then take (max p c - min p c) (drop (min p c) s) else s)"

definition setCursorPosition :: "int \<Rightarrow> text_input \<Rightarrow> text_input" where
  "setCursorPosition pos t = (let s = currentText t in after_move
     (if pos < 0 then t\<lparr>currentTextPosition := length s, currentTextPositionUTF := getLength s (length s)\<rparr>
      else t\<lparr>currentTextPosition := getBytePosFromUTF s (length s) (nat pos), currentTextPositionUTF := nat pos\<rparr>))"

definition setKeepLastCharOnce :: "text_input \<Rightarrow> text_input" where
  "setKeepLastCharOnce t = t\<lparr>keepOnce := True\<rparr>"

section \<open>Characters\<close>

text \<open>A well-formed character: a first byte that announces the size, then continuation bytes.\<close>

definition wf_char :: "bytes \<Rightarrow> bool" where
  "wf_char c \<longleftrightarrow> c \<noteq> [] \<and> length c = getCharByteSize (hd c) \<and> \<not> is_cont (hd c) \<and> (\<forall>b \<in> set (tl c). is_cont b)"

abbreviation wf_chars :: "bytes list \<Rightarrow> bool" where
  "wf_chars cs \<equiv> (\<forall>c \<in> set cs. wf_char c)"

lemma wf_charE:
  assumes "wf_char c"
  obtains b bs where "c = b # bs" "getCharByteSize b = Suc (length bs)" "\<not> is_cont b" "\<forall>x \<in> set bs. is_cont x"
  using assms by (cases c) (auto simp: wf_char_def)

lemma utf_count_char: "wf_char c \<Longrightarrow> utf_count (c @ s) = Suc (utf_count s)"
  by (erule wf_charE) simp

lemma utf_count_concat: "wf_chars cs \<Longrightarrow> utf_count (concat cs) = length cs"
  by (induction cs) (simp_all add: utf_count_char)

lemma byte_pos_concat:
  "wf_chars cs \<Longrightarrow> 0 < k \<Longrightarrow> k \<le> length cs \<Longrightarrow> byte_pos (concat cs) i r (r + k) = i + length (concat (take k cs))"
proof (induction cs arbitrary: i r k)
  case (Cons c cs)
  obtain b bs where c: "c = b # bs" "getCharByteSize b = Suc (length bs)"
    using Cons.prems(1) by (auto elim: wf_charE)
  show ?case
  proof (cases "k = 1")
    case True
    with c show ?thesis by simp
  next
    case False
    with Cons.prems obtain j where j: "k = Suc j" "0 < j" "j \<le> length cs" by (cases k) auto
    have "byte_pos (concat cs) (i + Suc (length bs)) (Suc r) (Suc r + j) = i + Suc (length bs) + length (concat (take j cs))"
      using Cons.prems(1) j by (intro Cons.IH) auto
    with c j show ?thesis by simp
  qed
qed simp

lemma take_concat: "k \<le> length cs \<Longrightarrow> take (length (concat (take k cs))) (concat cs) = concat (take k cs)"
  by (metis append_eq_conv_conj append_take_drop_id concat_append)

lemma drop_concat: "k \<le> length cs \<Longrightarrow> drop (length (concat (take k cs))) (concat cs) = concat (drop k cs)"
  by (metis append_eq_conv_conj append_take_drop_id concat_append)

lemma getLength_concat:
  "wf_chars cs \<Longrightarrow> k \<le> length cs \<Longrightarrow> getLength (concat cs) (length (concat (take k cs))) = k"
proof -
  assume a: "wf_chars cs" "k \<le> length cs"
  then have "wf_chars (take k cs)" using in_set_takeD by fast
  then show ?thesis using a(2) by (simp add: getLength_def take_concat utf_count_concat)
qed

lemma getLength_all: "wf_chars cs \<Longrightarrow> getLength (concat cs) (length (concat cs)) = length cs"
  by (simp add: getLength_def utf_count_concat)

text \<open>The walks over the bytes of one character.\<close>

lemma size_to_int_small: "n < 2 ^ 31 \<Longrightarrow> size_to_int n = int n"
proof -
  assume "n < 2 ^ 31"
  then have "int n < 2 ^ 31" by simp
  then have "signed_take_bit 31 (int n) = int n" by (intro signed_take_bit_int_eq_self) simp_all
  then show ?thesis by (simp add: size_to_int_def signed_of_nat)
qed

lemma back_cont_char:
  assumes "\<not> is_cont b" and "\<forall>x \<in> set bs. is_cont x" and "length (xs @ b # bs @ ys) < 2 ^ 31"
  shows "n \<le> length bs \<Longrightarrow> back_cont (xs @ b # bs @ ys) (length xs + n) = length xs"
proof (induction n)
  case 0
  show ?case
    using assms(1,3) by (cases "length xs") (auto simp: nth_append)
next
  case (Suc n)
  have i: "(xs @ b # bs @ ys) ! Suc (length xs + n) = bs ! n"
    using Suc.prems by (simp add: nth_append)
  have "is_cont (bs ! n)" using assms(2) Suc.prems by simp
  moreover have "size_to_int (Suc (length xs + n)) > 0"
    using assms(3) Suc.prems by (subst size_to_int_small) auto
  ultimately show ?case using Suc i by simp
qed

lemma left_cont_char:
  assumes "\<not> is_cont b" and "\<forall>x \<in> set bs. is_cont x"
  shows "n \<le> length bs \<Longrightarrow> left_cont (xs @ b # bs @ ys) (length xs + n) = length xs"
proof (induction n)
  case 0
  show ?case using assms(1) by (cases "length xs") (auto simp: nth_append)
next
  case (Suc n)
  have "(xs @ b # bs @ ys) ! Suc (length xs + n) = bs ! n" using Suc.prems by (simp add: nth_append)
  moreover have "is_cont (bs ! n)" using assms(2) Suc.prems by simp
  ultimately show ?case using Suc by simp
qed

lemma skip_cont_char:
  assumes "\<forall>x \<in> set bs. is_cont x" and "ys = [] \<or> \<not> is_cont (hd ys)" and "m \<le> length bs"
  shows "skip_cont (xs @ b # bs @ ys) (length xs + Suc m) = length xs + Suc (length bs)"
  using assms(3)
proof (induction m rule: inc_induct)
  case base
  then show ?case
    using assms(2) by (subst skip_cont.simps) (auto simp: nth_append hd_conv_nth)
next
  case (step m)
  have "(xs @ b # bs @ ys) ! (length xs + Suc m) = bs ! m" using step.hyps by (simp add: nth_append)
  moreover have "is_cont (bs ! m)" using assms(1) step.hyps by simp
  ultimately show ?case
    using step by (subst skip_cont.simps) simp
qed

section \<open>The editor the handler implements\<close>

text \<open>
  An editor state is a list of characters with a cursor and a selection anchor between them.
\<close>

record editor =
  chars :: "bytes list"
  cursor :: nat
  anchor :: nat

definition ed_ok :: "editor \<Rightarrow> bool" where
  "ed_ok e \<longleftrightarrow> wf_chars (chars e) \<and> cursor e \<le> length (chars e) \<and> anchor e \<le> length (chars e) \<and>
     length (concat (chars e)) < 2 ^ 31"

definition byte_at :: "editor \<Rightarrow> nat \<Rightarrow> nat" where
  "byte_at e k = length (concat (take k (chars e)))"

text \<open>The handler's fields as they follow from an editor state.\<close>

definition represents :: "text_input \<Rightarrow> editor \<Rightarrow> bool" where
  "represents t e \<longleftrightarrow> ed_ok e \<and> currentText t = concat (chars e) \<and>
     currentTextPosition t = byte_at e (cursor e) \<and> currentTextPositionUTF t = cursor e \<and>
     currentTextCopyPosition t = byte_at e (anchor e) \<and> currentTextCopyPositionUTF t = anchor e"

definition place :: "bytes list \<Rightarrow> nat \<Rightarrow> editor" where
  "place cs k = \<lparr>chars = cs, cursor = k, anchor = k\<rparr>"

definition ed_type :: "bytes list \<Rightarrow> editor \<Rightarrow> editor" where
  "ed_type x e = place (take (cursor e) (chars e) @ x @ drop (cursor e) (chars e)) (cursor e + length x)"

definition ed_backspace :: "editor \<Rightarrow> editor" where
  "ed_backspace e = (if cursor e = 0 then e else place (take (cursor e - 1) (chars e) @ drop (cursor e) (chars e)) (cursor e - 1))"

definition ed_delete :: "editor \<Rightarrow> editor" where
  "ed_delete e = (if cursor e = length (chars e) then e else place (take (cursor e) (chars e) @ drop (Suc (cursor e)) (chars e)) (cursor e))"

definition ed_move :: "bool \<Rightarrow> nat \<Rightarrow> editor \<Rightarrow> editor" where
  "ed_move shift k e = e\<lparr>cursor := k, anchor := (if shift then anchor e else k)\<rparr>"

definition ed_right :: "bool \<Rightarrow> editor \<Rightarrow> editor" where
  "ed_right shift e = (if \<not> shift \<and> cursor e \<noteq> anchor e then ed_move False (max (cursor e) (anchor e)) e
     else if cursor e = length (chars e) then e else ed_move shift (Suc (cursor e)) e)"

definition ed_left :: "bool \<Rightarrow> editor \<Rightarrow> editor" where
  "ed_left shift e = (if \<not> shift \<and> cursor e \<noteq> anchor e then ed_move False (min (cursor e) (anchor e)) e
     else if cursor e = 0 then e else ed_move shift (cursor e - 1) e)"

section \<open>Simulation\<close>

lemmas edit_defs = after_edit_def after_move_def caret_call_def copy_here_def text_call_def

lemma wf_char_pos: "wf_char c \<Longrightarrow> 0 < length c"
  by (auto simp: wf_char_def)

lemma byte_at_less:
  assumes "ed_ok e" and "j < k" and "k \<le> length (chars e)"
  shows "byte_at e j < byte_at e k"
proof -
  have "take k (chars e) = take j (chars e) @ take (k - j) (drop j (chars e))"
    using assms(2) by (metis le_add_diff_inverse less_or_eq_imp_le take_add)
  then have "byte_at e k = byte_at e j + length (concat (take (k - j) (drop j (chars e))))"
    by (simp add: byte_at_def)
  moreover obtain c r where c: "take (k - j) (drop j (chars e)) = c # r"
    using assms(2,3) by (cases "take (k - j) (drop j (chars e))") auto
  have "c \<in> set (take (k - j) (drop j (chars e)))" using c by simp
  then have "c \<in> set (chars e)" by (meson in_set_dropD in_set_takeD)
  then have "wf_char c" using assms(1) by (simp add: ed_ok_def)
  then have "0 < length c" by (rule wf_char_pos)
  ultimately show ?thesis using c by simp
qed

lemma byte_at_eq:
  "ed_ok e \<Longrightarrow> j \<le> length (chars e) \<Longrightarrow> k \<le> length (chars e) \<Longrightarrow> byte_at e j = byte_at e k \<longleftrightarrow> j = k"
  by (metis byte_at_less linorder_neqE_nat order_less_irrefl)

lemma byte_at_max:
  assumes "ed_ok e" and "j \<le> length (chars e)" and "k \<le> length (chars e)"
  shows "max (byte_at e j) (byte_at e k) = byte_at e (max j k)" and "min (byte_at e j) (byte_at e k) = byte_at e (min j k)"
  using byte_at_less[OF assms(1), of j k] byte_at_less[OF assms(1), of k j] assms(2,3)
  by (cases "j = k"; cases "j < k"; simp add: max_def min_def)+

lemma byte_at_0 [simp]: "byte_at e 0 = 0"
  by (simp add: byte_at_def)

lemma byte_at_end: "byte_at e (length (chars e)) = length (concat (chars e))"
  by (simp add: byte_at_def)

lemma byte_at_le: "byte_at e k \<le> length (concat (chars e))"
proof -
  have "concat (chars e) = concat (take k (chars e)) @ concat (drop k (chars e))"
    by (metis append_take_drop_id concat_append)
  then show ?thesis unfolding byte_at_def by (metis le_add1 length_append)
qed

lemma getLength_at: "ed_ok e \<Longrightarrow> k \<le> length (chars e) \<Longrightarrow> getLength (concat (chars e)) (byte_at e k) = k"
  by (simp add: ed_ok_def byte_at_def getLength_concat)

lemma split_at:
  assumes "ed_ok e" and "k < length (chars e)"
  obtains b bs where "chars e ! k = b # bs" "\<not> is_cont b" "\<forall>x \<in> set bs. is_cont x"
    "concat (chars e) = concat (take k (chars e)) @ b # bs @ concat (drop (Suc k) (chars e))"
    "byte_at e (Suc k) = byte_at e k + Suc (length bs)"
proof -
  have "wf_char (chars e ! k)" using assms by (simp add: ed_ok_def)
  then obtain b bs where b: "chars e ! k = b # bs" "\<not> is_cont b" "\<forall>x \<in> set bs. is_cont x"
    by (auto elim: wf_charE)
  have "chars e = take k (chars e) @ chars e ! k # drop (Suc k) (chars e)"
    using assms(2) by (rule id_take_nth_drop)
  then have "concat (chars e) = concat (take k (chars e)) @ chars e ! k @ concat (drop (Suc k) (chars e))"
    by (metis concat.simps(2) concat_append)
  moreover have "byte_at e (Suc k) = byte_at e k + length (chars e ! k)"
    using assms(2) by (simp add: byte_at_def take_Suc_conv_app_nth)
  ultimately show thesis using that b by simp
qed

lemma next_char_starts:
  assumes "ed_ok e"
  shows "concat (drop k (chars e)) = [] \<or> \<not> is_cont (hd (concat (drop k (chars e))))"
proof (cases "drop k (chars e)")
  case (Cons c cs)
  then have "c \<in> set (chars e)" by (metis in_set_dropD list.set_intros(1))
  then have "wf_char c" using assms by (simp add: ed_ok_def)
  then show ?thesis using Cons by (auto elim!: wf_charE)
qed simp

lemma length_concat_ge: "wf_chars cs \<Longrightarrow> length cs \<le> length (concat cs)"
proof (induction cs)
  case (Cons c cs)
  then have "1 \<le> length c" using wf_char_pos[of c] by (simp add: Suc_le_eq del: length_greater_0_conv)
  then show ?case using Cons.IH Cons.prems by (simp del: One_nat_def)
qed simp

lemma place_ok: "ed_ok (place cs k) \<longleftrightarrow> wf_chars cs \<and> k \<le> length cs \<and> length (concat cs) < 2 ^ 31"
  by (auto simp: ed_ok_def place_def)

lemma wf_take_drop: "wf_chars cs \<Longrightarrow> wf_chars (take k cs)" "wf_chars cs \<Longrightarrow> wf_chars (drop k cs)"
  by (meson in_set_takeD in_set_dropD)+

lemma sim_type:
  assumes r: "represents t e" and x: "wf_chars x" and n: "concat x \<noteq> [8]" "concat x \<noteq> [127]"
    and l: "length (concat (chars e)) + length (concat x) < 2 ^ 31"
  shows "\<exists>t'. onTextInput (concat x) t = Some t' \<and> represents t' (ed_type x e) \<and> altPressed t' = altPressed t"
proof -
  let ?k = "cursor e" and ?cs = "chars e"
  have ok: "ed_ok e" and k: "?k \<le> length ?cs" using r by (auto simp: represents_def ed_ok_def)
  have small: "(?k + length x) mod 2 ^ 64 = ?k + length x"
    using k length_concat_ge[OF x] length_concat_ge[of ?cs] ok l by (simp add: ed_ok_def)
  have "length (concat (take ?k ?cs)) + length (concat (drop ?k ?cs)) = length (concat ?cs)"
    by (metis append_take_drop_id concat_append length_append)
  then have "ed_ok (ed_type x e)"
    using ok x k l unfolding ed_type_def place_ok by (auto simp: ed_ok_def dest: in_set_takeD in_set_dropD)
  then show ?thesis
    using r n small k getLength_all[OF x] byte_at_le[of e ?k]
    by (auto simp: onTextInput_def insert_text_def edit_defs represents_def ed_type_def place_def byte_at_def
        take_concat drop_concat)
qed

lemma sim_backspace:
  assumes r: "represents t e" and a: "\<not> altPressed t"
  shows "\<exists>t'. onTextInput [8] t = Some t' \<and> represents t' (ed_backspace e) \<and> altPressed t' = altPressed t"
proof (cases "cursor e")
  case 0
  then show ?thesis using r by (simp add: onTextInput_def represents_def ed_backspace_def)
next
  case (Suc k)
  have ok: "ed_ok e" and k: "k < length (chars e)" using r Suc by (auto simp: represents_def ed_ok_def)
  obtain b bs where s: "chars e ! k = b # bs" "\<not> is_cont b" "\<forall>x \<in> set bs. is_cont x"
    "concat (chars e) = concat (take k (chars e)) @ b # bs @ concat (drop (Suc k) (chars e))"
    "byte_at e (Suc k) = byte_at e k + Suc (length bs)"
    using split_at[OF ok k] .
  have bc: "back_cont (concat (chars e)) (byte_at e k + length bs) = byte_at e k"
    using back_cont_char[OF s(2,3), of "concat (take k (chars e))" "concat (drop (Suc k) (chars e))" "length bs"] ok s(4)
    by (simp add: byte_at_def ed_ok_def)
  have er: "erase (concat (chars e)) (byte_at e k) (byte_at e (Suc k)) = concat (take k (chars e) @ drop (Suc k) (chars e))"
    using k by (simp add: erase_def byte_at_def take_concat drop_concat)
  have "length (concat (take k (chars e) @ drop (Suc k) (chars e))) \<le> length (concat (chars e))"
    using arg_cong[OF s(4), of length] by simp
  then have "ed_ok (ed_backspace e)"
    using ok k Suc by (auto simp: ed_backspace_def ed_ok_def place_def dest: in_set_takeD in_set_dropD)
  then show ?thesis
    using r a bc er Suc s(5) k byte_at_le[of e "Suc k"]
    by (auto simp: onTextInput_def backspace_def Let_def edit_defs represents_def ed_backspace_def place_def size_dec_def byte_at_def)
qed

lemma sim_delete:
  assumes r: "represents t e"
  shows "\<exists>t'. onTextInput [127] t = Some t' \<and> represents t' (ed_delete e) \<and> altPressed t' = altPressed t"
proof (cases "cursor e = length (chars e)")
  case True
  then show ?thesis using r by (simp add: onTextInput_def represents_def ed_delete_def byte_at_end)
next
  case False
  let ?k = "cursor e"
  have ok: "ed_ok e" and k: "?k < length (chars e)" using r False by (auto simp: represents_def ed_ok_def)
  obtain b bs where s: "chars e ! ?k = b # bs" "\<not> is_cont b" "\<forall>x \<in> set bs. is_cont x"
    "concat (chars e) = concat (take ?k (chars e)) @ b # bs @ concat (drop (Suc ?k) (chars e))"
    "byte_at e (Suc ?k) = byte_at e ?k + Suc (length bs)"
    using split_at[OF ok k] .
  have sk: "skip_cont (concat (chars e)) (byte_at e ?k + 1) = byte_at e (Suc ?k)"
    using skip_cont_char[OF s(3) next_char_starts[OF ok, of "Suc ?k"], of 0 "concat (take ?k (chars e))" b] s(4,5)
    by (simp add: byte_at_def)
  have er: "erase (concat (chars e)) (byte_at e ?k) (byte_at e (Suc ?k)) = concat (take ?k (chars e) @ drop (Suc ?k) (chars e))"
    using k by (simp add: erase_def byte_at_def take_concat drop_concat)
  have "length (concat (take ?k (chars e) @ drop (Suc ?k) (chars e))) \<le> length (concat (chars e))"
    using arg_cong[OF s(4), of length] by simp
  then have "ed_ok (ed_delete e)"
    using ok k False by (auto simp: ed_delete_def ed_ok_def place_def dest: in_set_takeD in_set_dropD)
  moreover have "byte_at e ?k < length (concat (chars e))"
    using byte_at_less[OF ok k] byte_at_end[of e] k byte_at_less[OF ok, of ?k "length (chars e)"] by simp
  ultimately show ?thesis
    using r sk er False k
    by (auto simp: onTextInput_def delete_key_def Let_def edit_defs represents_def ed_delete_def place_def byte_at_def)
qed

lemma ed_move_ok: "ed_ok e \<Longrightarrow> k \<le> length (chars e) \<Longrightarrow> ed_ok (ed_move shift k e)"
  by (simp add: ed_ok_def ed_move_def)

text \<open>Any move that puts the cursor at character \<open>k\<close>.\<close>

lemma sim_move:
  assumes r: "represents t e" and k: "k \<le> length (chars e)"
    and p: "p = byte_at e k" and u: "u = k"
  shows "represents (after_move (t\<lparr>currentTextPosition := p, currentTextPositionUTF := u\<rparr>)) (ed_move (shiftPressed t) k e)"
  using ed_move_ok[of e k "shiftPressed t"] assms
  by (auto simp: represents_def edit_defs ed_move_def byte_at_def)

lemma sim_collapse:
  assumes r: "represents t e" and k: "k \<le> length (chars e)" and p: "p = byte_at e k"
  shows "represents (collapse_to p t) (ed_move False k e)"
  using ed_move_ok[of e k False] assms getLength_at[of e k]
  by (auto simp: represents_def collapse_to_def edit_defs ed_move_def byte_at_def)

lemma right_step:
  assumes r: "represents t e" and k: "cursor e < length (chars e)"
  shows "skip_cont (currentText t) (currentTextPosition t + 1) = byte_at e (Suc (cursor e))"
    and "(currentTextPositionUTF t + 1) mod 2 ^ 64 = Suc (cursor e)"
proof -
  have ok: "ed_ok e" using r by (simp add: represents_def)
  obtain b bs where s: "\<forall>x \<in> set bs. is_cont x"
    "concat (chars e) = concat (take (cursor e) (chars e)) @ b # bs @ concat (drop (Suc (cursor e)) (chars e))"
    "byte_at e (Suc (cursor e)) = byte_at e (cursor e) + Suc (length bs)"
    using split_at[OF ok k] by metis
  show "skip_cont (currentText t) (currentTextPosition t + 1) = byte_at e (Suc (cursor e))"
    using skip_cont_char[OF s(1) next_char_starts[OF ok, of "Suc (cursor e)"], of 0 "concat (take (cursor e) (chars e))" b] s(2,3) r
    by (simp add: represents_def byte_at_def)
  have "length (chars e) < 2 ^ 31"
    using length_concat_ge[of "chars e"] ok by (simp add: ed_ok_def)
  then show "(currentTextPositionUTF t + 1) mod 2 ^ 64 = Suc (cursor e)"
    using r k by (simp add: represents_def)
qed

lemma left_step:
  assumes r: "represents t e" and k: "cursor e = Suc k"
  shows "left_cont (currentText t) (currentTextPosition t - 1) = byte_at e k"
proof -
  have ok: "ed_ok e" and l: "k < length (chars e)" using r k by (auto simp: represents_def ed_ok_def)
  obtain b bs where s: "\<not> is_cont b" "\<forall>x \<in> set bs. is_cont x"
    "concat (chars e) = concat (take k (chars e)) @ b # bs @ concat (drop (Suc k) (chars e))"
    "byte_at e (Suc k) = byte_at e k + Suc (length bs)"
    using split_at[OF ok l] by metis
  show ?thesis
    using left_cont_char[OF s(1,2), of "length bs" "concat (take k (chars e))" "concat (drop (Suc k) (chars e))"] s(3,4) r k
    by (simp add: represents_def byte_at_def)
qed

definition ed_key :: "key \<Rightarrow> key_action \<Rightarrow> bool \<Rightarrow> editor \<Rightarrow> editor" where
  "ed_key k a shift e = (if a = RELEASE then e else case k of
     RIGHT \<Rightarrow> ed_right shift e | LEFT \<Rightarrow> ed_left shift e | HOME \<Rightarrow> ed_move shift 0 e
   | END_KEY \<Rightarrow> ed_move shift (length (chars e)) e | OtherKey \<Rightarrow> e)"

lemma rep_if:
  "(b \<Longrightarrow> represents x x') \<Longrightarrow> (\<not> b \<Longrightarrow> represents y y') \<Longrightarrow> represents (if b then x else y) (if b then x' else y')"
  by simp

lemma sim_key:
  assumes r: "represents t e" and alt: "mods AND KEY_MOD_ALT = 0"
  shows "represents (onKeyPressed k a mods t) (ed_key k a (mods AND KEY_MOD_SHIFT \<noteq> 0) e)"
proof -
  let ?sh = "mods AND KEY_MOD_SHIFT \<noteq> 0"
  let ?t = "t\<lparr>shiftPressed := ?sh, altPressed := (mods AND KEY_MOD_ALT \<noteq> 0)\<rparr>"
  have r': "represents ?t e" using r by (simp add: represents_def)
  have ok: "ed_ok e" and c: "cursor e \<le> length (chars e)" and n: "anchor e \<le> length (chars e)"
    and u: "currentTextPositionUTF ?t = cursor e" and p: "currentTextPosition ?t = byte_at e (cursor e)"
    and q: "currentTextCopyPosition ?t = byte_at e (anchor e)" and s: "currentText ?t = concat (chars e)"
    using r' by (auto simp: represents_def ed_ok_def)
  have eq: "byte_at e (cursor e) = byte_at e (anchor e) \<longleftrightarrow> cursor e = anchor e" using byte_at_eq[OF ok c n] .
  have at_end: "length (concat (chars e)) \<le> byte_at e (cursor e) \<longleftrightarrow> cursor e = length (chars e)"
    using byte_at_less[OF ok, of "cursor e" "length (chars e)"] c byte_at_end[of e] by (cases "cursor e = length (chars e)") auto
  have at_start: "byte_at e (cursor e) = 0 \<longleftrightarrow> cursor e = 0"
    using byte_at_eq[OF ok c, of 0] by simp
  consider "a = RELEASE" | "a \<noteq> RELEASE" by blast
  then show ?thesis
  proof cases
    case 1
    then show ?thesis using r' by (simp add: onKeyPressed_def Let_def ed_key_def)
  next
    case 2
    then have act: "\<not> (a \<noteq> PRESS \<and> a \<noteq> REPEAT)" by (cases a) auto
    have K: "onKeyPressed k a mods t = (case k of
       RIGHT \<Rightarrow> if \<not> ?sh \<and> cursor e \<noteq> anchor e then collapse_to (max (byte_at e (cursor e)) (byte_at e (anchor e))) ?t
                else if cursor e = length (chars e) then ?t else after_move (move_right ?t)
     | LEFT \<Rightarrow> if \<not> ?sh \<and> cursor e \<noteq> anchor e then collapse_to (min (byte_at e (cursor e)) (byte_at e (anchor e))) ?t
               else if cursor e = 0 then ?t else after_move (move_left ?t)
     | HOME \<Rightarrow> after_move (?t\<lparr>currentTextPosition := 0, currentTextPositionUTF := 0\<rparr>)
     | END_KEY \<Rightarrow> after_move (?t\<lparr>currentTextPosition := length (concat (chars e)),
         currentTextPositionUTF := getLength (concat (chars e)) (length (concat (chars e)))\<rparr>)
     | OtherKey \<Rightarrow> ?t)"
      unfolding onKeyPressed_def Let_def p q s eq at_end at_start if_not_P[OF act] by (simp cong: key.case_cong)
    show ?thesis
    proof (cases k)
      case RIGHT
      have col: "represents (collapse_to (max (byte_at e (cursor e)) (byte_at e (anchor e))) ?t) (ed_move False (max (cursor e) (anchor e)) e)"
        using byte_at_max(1)[OF ok c n] c n by (intro sim_collapse[OF r']) auto
      have mv: "represents (after_move (move_right ?t)) (ed_move ?sh (Suc (cursor e)) e)" if l: "cursor e < length (chars e)"
        using sim_move[OF r', of "Suc (cursor e)"] right_step[OF r' l] l alt by (simp add: move_right_def Let_def)
      show ?thesis
        unfolding K unfolding RIGHT key.case ed_key_def ed_right_def if_not_P[OF 2]
        by (intro rep_if col r' mv) (use c in simp)
    next
      case LEFT
      have col: "represents (collapse_to (min (byte_at e (cursor e)) (byte_at e (anchor e))) ?t) (ed_move False (min (cursor e) (anchor e)) e)"
        using byte_at_max(2)[OF ok c n] c n by (intro sim_collapse[OF r']) auto
      have mv: "represents (after_move (move_left ?t)) (ed_move ?sh (cursor e - 1) e)" if l: "cursor e \<noteq> 0"
        using sim_move[OF r', of "cursor e - 1"] left_step[OF r', of "cursor e - 1"] l c u alt
        by (simp add: move_left_def Let_def size_dec_def)
      show ?thesis
        unfolding K unfolding LEFT key.case ed_key_def ed_left_def if_not_P[OF 2]
        by (intro rep_if col r' mv)
    next
      case HOME
      then show ?thesis
        using sim_move[OF r', of 0 0 0] 2 unfolding K by (simp add: ed_key_def)
    next
      case END_KEY
      then show ?thesis
        using sim_move[OF r', of "length (chars e)" "length (concat (chars e))" "length (chars e)"] 2
          getLength_at[OF ok, of "length (chars e)"] byte_at_end[of e]
        unfolding K by (simp add: ed_key_def)
    next
      case OtherKey
      then show ?thesis using r' 2 unfolding K by (simp add: ed_key_def)
    qed
  qed
qed

lemma sim_cursor:
  assumes r: "represents t e" and p: "pos \<le> int (length (chars e))"
  shows "represents (setCursorPosition pos t) (ed_move (shiftPressed t) (if pos < 0 then length (chars e) else nat pos) e)"
proof -
  have ok: "ed_ok e" and s: "currentText t = concat (chars e)" using r by (auto simp: represents_def)
  have g: "getLength (concat (chars e)) (length (concat (chars e))) = length (chars e)"
    using getLength_at[OF ok, of "length (chars e)"] byte_at_end[of e] by simp
  have b: "getBytePosFromUTF (concat (chars e)) (length (concat (chars e))) k = byte_at e k" if "k \<le> length (chars e)" for k
    using that ok byte_pos_concat[of "chars e" k 0 0]
    by (cases "k = 0") (simp_all add: getBytePosFromUTF_def byte_at_def ed_ok_def)
  have "nat pos \<le> length (chars e)" using p by simp
  then show ?thesis
    using sim_move[OF r, of "length (chars e)"] sim_move[OF r, of "nat pos"] g b s byte_at_end[of e]
    by (simp add: setCursorPosition_def Let_def)
qed

section \<open>Editing sessions\<close>

datatype edit =
    TypeText "bytes list"
  | PressBackspace
  | PressDelete
  | PressKey key key_action u32
  | PutCursor int

text \<open>What the game and the window send, and what it means for the editor.\<close>

definition run_edit :: "edit \<Rightarrow> text_input \<Rightarrow> text_input option" where
  "run_edit op t = (case op of
     TypeText x \<Rightarrow> onTextInput (concat x) t
   | PressBackspace \<Rightarrow> onTextInput [8] t
   | PressDelete \<Rightarrow> onTextInput [127] t
   | PressKey k a m \<Rightarrow> Some (onKeyPressed k a m t)
   | PutCursor p \<Rightarrow> Some (setCursorPosition p t))"

definition ed_edit :: "edit \<Rightarrow> bool \<Rightarrow> editor \<Rightarrow> editor" where
  "ed_edit op shift e = (case op of
     TypeText x \<Rightarrow> ed_type x e
   | PressBackspace \<Rightarrow> ed_backspace e
   | PressDelete \<Rightarrow> ed_delete e
   | PressKey k a m \<Rightarrow> ed_key k a (m AND KEY_MOD_SHIFT \<noteq> 0) e
   | PutCursor p \<Rightarrow> ed_move shift (if p < 0 then length (chars e) else nat p) e)"

text \<open>
  Typed text is well-formed UTF-8 and not one of the two control codes, no Alt key is held, and
  the cursor is put inside the text.
\<close>

definition edit_ok :: "edit \<Rightarrow> editor \<Rightarrow> bool" where
  "edit_ok op e = (case op of
     TypeText x \<Rightarrow> wf_chars x \<and> concat x \<noteq> [8] \<and> concat x \<noteq> [127] \<and> length (concat (chars e)) + length (concat x) < 2 ^ 31
   | PressKey k a m \<Rightarrow> m AND KEY_MOD_ALT = 0
   | PutCursor p \<Rightarrow> p \<le> int (length (chars e))
   | _ \<Rightarrow> True)"

lemma alt_kept:
  "altPressed (onKeyPressed k a m t) = (m AND KEY_MOD_ALT \<noteq> 0)" "altPressed (setCursorPosition p t) = altPressed t"
  by (simp_all add: onKeyPressed_def setCursorPosition_def Let_def collapse_to_def edit_defs move_right_def move_left_def split: key.split)

lemma sim_edit:
  assumes "represents t e" and "\<not> altPressed t" and "edit_ok op e"
  shows "\<exists>t'. run_edit op t = Some t' \<and> represents t' (ed_edit op (shiftPressed t) e) \<and> \<not> altPressed t'"
proof (cases op)
  case (TypeText x)
  then show ?thesis
    using sim_type[OF assms(1), of x] assms(2,3) by (auto simp: run_edit_def ed_edit_def edit_ok_def)
next
  case PressBackspace
  then show ?thesis
    using sim_backspace[OF assms(1,2)] assms(2) by (auto simp: run_edit_def ed_edit_def)
next
  case PressDelete
  then show ?thesis
    using sim_delete[OF assms(1)] assms(2) by (auto simp: run_edit_def ed_edit_def)
next
  case (PressKey k a m)
  then show ?thesis
    using sim_key[OF assms(1), of m k a] assms(3) by (auto simp: run_edit_def ed_edit_def edit_ok_def alt_kept)
next
  case (PutCursor p)
  then show ?thesis
    using sim_cursor[OF assms(1), of p] assms(2,3) by (auto simp: run_edit_def ed_edit_def edit_ok_def alt_kept)
qed

text \<open>
  C7: Every edit the handler can receive (well-formed text, backspace, delete, arrow, home and
  end keys with or without Shift, cursor placement inside the text), from a state that stands
  for an editor state, is carried out without leaving the string and ends in a state that
  stands for the editor's result: byte and character positions stay in step and on character
  boundaries.
\<close>

theorem text_input_refines_editor:
  assumes "represents t e" and "\<not> altPressed t" and "edit_ok op e"
  shows "\<exists>t'. run_edit op t = Some t' \<and> represents t' (ed_edit op (shiftPressed t) e)"
  using sim_edit[OF assms] by blast

lemma euro: "wf_char [0xE2, 0x82, 0xAC]"
  by (simp add: wf_char_def getCharByteSize_def is_cont_def)

lemma new_represents: "represents new_text_input (place [] 0)"
  by (simp add: represents_def new_text_input_def place_def ed_ok_def byte_at_def)

theorem text_input_refines_editor_witness:
  "\<exists>t'. run_edit (TypeText [[0xE2, 0x82, 0xAC]]) new_text_input = Some t' \<and> represents t' (place [[0xE2, 0x82, 0xAC]] 1)"
  using text_input_refines_editor[OF new_represents, of "TypeText [[0xE2, 0x82, 0xAC]]"] euro
  by (auto simp: new_text_input_def edit_ok_def ed_edit_def ed_type_def place_def)

text \<open>
  Typing one character and pressing backspace gives the text, the cursor and the character
  position back.
\<close>

theorem type_backspace_undo:
  assumes "represents t e" and "\<not> altPressed t" and "wf_char c" and "c \<noteq> [8]" and "c \<noteq> [127]"
    and "length (currentText t) + length c < 2 ^ 31"
  shows "\<exists>t' t''. onTextInput c t = Some t' \<and> onTextInput [8] t' = Some t'' \<and>
    currentText t'' = currentText t \<and> currentTextPosition t'' = currentTextPosition t \<and>
    currentTextPositionUTF t'' = currentTextPositionUTF t"
proof -
  obtain t' where t': "onTextInput c t = Some t'" "represents t' (ed_type [c] e)" "\<not> altPressed t'"
    using sim_type[OF assms(1), of "[c]"] assms by (auto simp: represents_def)
  obtain t'' where t'': "onTextInput [8] t' = Some t''" "represents t'' (ed_backspace (ed_type [c] e))"
    using sim_backspace[OF t'(2,3)] by blast
  have "cursor e \<le> length (chars e)" using assms(1) by (simp add: represents_def ed_ok_def)
  then have "ed_backspace (ed_type [c] e) = place (chars e) (cursor e)"
    by (simp add: ed_backspace_def ed_type_def place_def)
  with t'' assms(1) t'(1) show ?thesis
    by (auto simp: represents_def place_def byte_at_def)
qed

theorem type_backspace_undo_witness:
  "\<exists>t' t''. onTextInput [0xE2, 0x82, 0xAC] new_text_input = Some t' \<and> onTextInput [8] t' = Some t'' \<and> currentText t'' = []"
  using type_backspace_undo[OF new_represents, of "[0xE2, 0x82, 0xAC]"] euro
  by (auto simp: new_text_input_def)

text \<open>
  With Alt held, backspace stores a byte position as the character position. When the
  deletion stops behind a multi-byte character the two differ, so the reported caret is wrong:
  here for the text of a euro sign, a space and a letter.
\<close>

theorem alt_backspace_caret_wrong:
  "\<exists>t t'. represents t (place [[0xE2, 0x82, 0xAC], [32], [97]] 3) \<and> altPressed t \<and> onTextInput [8] t = Some t' \<and>
     currentText t' = [0xE2, 0x82, 0xAC] \<and> currentTextPosition t' = 3 \<and> currentTextPositionUTF t' = 3 \<and>
     utf_count (currentText t') = 1"
proof -
  let ?t = "new_text_input\<lparr>altPressed := True, currentText := [0xE2, 0x82, 0xAC, 32, 97], currentTextPosition := 5,
     currentTextPositionUTF := 3, currentTextCopyPosition := 5, currentTextCopyPositionUTF := 3\<rparr>"
  have "represents ?t (place [[0xE2, 0x82, 0xAC], [32], [97]] 3)"
    by (simp add: represents_def place_def ed_ok_def byte_at_def wf_char_def getCharByteSize_def is_cont_def)
  moreover have "altPressed ?t" by simp
  moreover let ?r = "after_edit (?t\<lparr>currentText := [0xE2, 0x82, 0xAC], currentTextPosition := 3, currentTextPositionUTF := 3\<rparr>)"
  have "onTextInput [8] ?t = Some ?r" by code_simp
  moreover have "currentText ?r = [0xE2, 0x82, 0xAC]" "currentTextPosition ?r = 3" "currentTextPositionUTF ?r = 3"
    by (simp_all add: edit_defs)
  moreover have "utf_count [0xE2, 0x82, 0xAC] = 1" by (simp add: getCharByteSize_def)
  ultimately show ?thesis by metis
qed

end
