(* ===== verification/Task_Thread.thy ===== *)
theory Task_Thread
  imports Prelude
begin

text \<open>
  The delayed task of \<^verbatim>\<open>cll-telemetry/src/task_with_delay_thread.cpp\<close>: a worker thread that is
  started on request, waits for the delay, runs the task and goes on while runs are requested.
  The threads are interleaved. A thread's position in the code is one constructor of its
  program counter; the positions are those where it can be made to wait for another thread (a
  mutex, a condition variable, a join), as every member is only used with the mutex held.
\<close>

section \<open>Threads and their positions\<close>

datatype client_pc =
    Idle
  | ReqLock bool | ReqLocked bool | ReqJoin | ReqNotify
  | TermLock | TermLocked | TermNotify | TermCheck | TermJoin

datatype worker_pc =
    NoThread | ThreadStart | LoopHead | CvWait | CvWake | InTask | Relock
  | SleepLock | SleepLocked | SleepWait | SleepWake | ThreadExit | ThreadDone

datatype lock_owner = FreeLock | ByClient nat | ByWorker

record task_thread =
  running :: bool
  hasPendingTask :: bool
  runImmediately :: bool
  stopping :: bool
  currentIsStopping :: bool \<comment> \<open>the pointer is not null\<close>
  mutex :: lock_owner
  worker :: worker_pc
  clients :: "client_pc list"
  runs :: nat \<comment> \<open>calls of the task so far\<close>

section \<open>Operations\<close>

definition acquire :: "lock_owner \<Rightarrow> task_thread \<Rightarrow> task_thread option" where
  "acquire me s = (if mutex s = FreeLock then Some (s\<lparr>mutex := me\<rparr>) else None)"

definition at :: "nat \<Rightarrow> client_pc \<Rightarrow> task_thread \<Rightarrow> task_thread" where
  "at c p s = s\<lparr>clients := (clients s)[c := p]\<rparr>"

definition notify_all :: "task_thread \<Rightarrow> task_thread" where
  "notify_all s = (case worker s of CvWait \<Rightarrow> s\<lparr>worker := CvWake\<rparr> | SleepWait \<Rightarrow> s\<lparr>worker := SleepWake\<rparr> | _ \<Rightarrow> s)"

text \<open>\<open>sleep\<close>, called by the task; it tests the pointer, not the flag behind it.\<close>

definition sleep :: "task_thread \<Rightarrow> task_thread option" where
  "sleep s = (case worker s of
       SleepLock \<Rightarrow> map_option (\<lambda>s. s\<lparr>worker := SleepLocked\<rparr>) (acquire ByWorker s)
     | SleepLocked \<Rightarrow> Some (s\<lparr>mutex := FreeLock, worker := (if \<not> currentIsStopping s then SleepWait else InTask)\<rparr>)
     | SleepWait \<Rightarrow> Some (s\<lparr>worker := SleepWake\<rparr>)
     | SleepWake \<Rightarrow> map_option (\<lambda>s. s\<lparr>mutex := FreeLock, worker := InTask\<rparr>) (acquire ByWorker s)
     | _ \<Rightarrow> None)"

text \<open>Inside the loop, with the mutex held: the request is taken and the task is called.\<close>

definition run_task :: "task_thread \<Rightarrow> task_thread" where
  "run_task s = s\<lparr>hasPendingTask := False, runImmediately := False, mutex := FreeLock, worker := InTask, runs := Suc (runs s)\<rparr>"

definition doThreadLoop :: "task_thread \<Rightarrow> task_thread option" where
  "doThreadLoop s = (case worker s of
       ThreadStart \<Rightarrow> map_option (\<lambda>s. s\<lparr>currentIsStopping := True, worker := LoopHead\<rparr>) (acquire ByWorker s)
     | LoopHead \<Rightarrow> Some (
         if hasPendingTask s then
           if \<not> runImmediately s \<and> \<not> stopping s then s\<lparr>mutex := FreeLock, worker := CvWait\<rparr> else run_task s
         else s\<lparr>running := False, currentIsStopping := False, mutex := FreeLock, worker := ThreadExit\<rparr>)
     | CvWait \<Rightarrow> Some (s\<lparr>worker := CvWake\<rparr>)
     | CvWake \<Rightarrow> map_option run_task (acquire ByWorker s)
     | InTask \<Rightarrow> Some (s\<lparr>worker := Relock\<rparr>)
     | Relock \<Rightarrow> map_option (\<lambda>s. s\<lparr>worker := LoopHead\<rparr>) (acquire ByWorker s)
     | ThreadExit \<Rightarrow> Some (s\<lparr>worker := ThreadDone\<rparr>)
     | NoThread \<Rightarrow> None
     | ThreadDone \<Rightarrow> None
     | _ \<Rightarrow> sleep s)"

definition requestRun :: "nat \<Rightarrow> task_thread \<Rightarrow> task_thread option" where
  "requestRun c s = (case clients s ! c of
       ReqLock immediate \<Rightarrow> map_option (at c (ReqLocked immediate)) (acquire (ByClient c) s)
     | ReqLocked immediate \<Rightarrow> (let s = s\<lparr>hasPendingTask := True, runImmediately := runImmediately s \<or> immediate\<rparr> in Some (
         if \<not> running s then
           let s = s\<lparr>running := True\<rparr> in
           if worker s \<noteq> NoThread then at c ReqJoin s else at c Idle (s\<lparr>worker := ThreadStart, mutex := FreeLock\<rparr>)
         else if immediate then at c ReqNotify (s\<lparr>mutex := FreeLock\<rparr>)
         else at c Idle (s\<lparr>mutex := FreeLock\<rparr>)))
     | ReqJoin \<Rightarrow> (if worker s = ThreadDone then Some (at c Idle (s\<lparr>worker := ThreadStart, mutex := FreeLock\<rparr>)) else None)
     | ReqNotify \<Rightarrow> Some (at c Idle (notify_all s))
     | _ \<Rightarrow> None)"

definition terminate :: "nat \<Rightarrow> task_thread \<Rightarrow> task_thread option" where
  "terminate c s = (case clients s ! c of
       TermLock \<Rightarrow> map_option (at c TermLocked) (acquire (ByClient c) s)
     | TermLocked \<Rightarrow> Some (at c TermNotify (s\<lparr>runImmediately := True, stopping := True, mutex := FreeLock\<rparr>))
     | TermNotify \<Rightarrow> Some (at c TermCheck (notify_all s))
     | TermCheck \<Rightarrow> Some (at c (if worker s \<noteq> NoThread then TermJoin else Idle) s)
     | TermJoin \<Rightarrow> (if worker s = ThreadDone then Some (at c Idle (s\<lparr>worker := NoThread\<rparr>)) else None)
     | _ \<Rightarrow> None)"

text \<open>
  What can happen next: a thread calls a function of the class, the task calls \<open>sleep\<close>, a
  client goes on inside its call, or the worker goes on (in \<open>InTask\<close>: the task returns). A
  waiting condition variable may always go on, as it waits with a time-out.
\<close>

datatype thread_action = CallRequest nat bool | CallTerminate nat | CallSleep | Client nat | Worker

definition from_idle :: "nat \<Rightarrow> client_pc \<Rightarrow> task_thread \<Rightarrow> task_thread option" where
  "from_idle c p s = (if c < length (clients s) \<and> clients s ! c = Idle then Some (at c p s) else None)"

fun exec :: "thread_action \<Rightarrow> task_thread \<Rightarrow> task_thread option" where
  "exec (CallRequest c immediate) s = from_idle c (ReqLock immediate) s"
| "exec (CallTerminate c) s = from_idle c TermLock s"
| "exec CallSleep s = (if worker s = InTask then Some (s\<lparr>worker := SleepLock\<rparr>) else None)"
| "exec (Client c) s = (if c < length (clients s) then
     case requestRun c s of None \<Rightarrow> terminate c s | Some t \<Rightarrow> Some t else None)"
| "exec Worker s = doThreadLoop s"

fun exec_all :: "thread_action list \<Rightarrow> task_thread \<Rightarrow> task_thread option" where
  "exec_all [] s = Some s"
| "exec_all (a # as) s = (case exec a s of None \<Rightarrow> None | Some t \<Rightarrow> exec_all as t)"

definition new_task :: "nat \<Rightarrow> task_thread" where
  "new_task n = \<lparr> running = False, hasPendingTask = False, runImmediately = False, stopping = False,
     currentIsStopping = False, mutex = FreeLock, worker = NoThread, clients = replicate n Idle, runs = 0 \<rparr>"

text \<open>Two threads that join the same \<open>std::thread\<close> at the same time: undefined behaviour.\<close>

definition double_join :: "task_thread \<Rightarrow> bool" where
  "double_join s \<longleftrightarrow> length (filter (\<lambda>p. p = ReqJoin \<or> p = TermJoin) (clients s)) > 1"

section \<open>Steps\<close>

text \<open>
  The class documents that no runs are requested once \<open>terminate\<close> was called. \<open>polite\<close> says
  this of a call, together with the caller being alone when it calls \<open>terminate\<close>.
\<close>

fun in_terminate :: "client_pc \<Rightarrow> bool" where
  "in_terminate TermLock = True"
| "in_terminate TermLocked = True"
| "in_terminate TermNotify = True"
| "in_terminate TermCheck = True"
| "in_terminate TermJoin = True"
| "in_terminate _ = False"

fun polite :: "thread_action \<Rightarrow> task_thread \<Rightarrow> bool" where
  "polite (CallRequest c immediate) s \<longleftrightarrow> \<not> stopping s \<and> (\<forall>p \<in> set (clients s). \<not> in_terminate p)"
| "polite (CallTerminate c) s \<longleftrightarrow> (\<forall>p \<in> set (clients s). p = Idle)"
| "polite _ s \<longleftrightarrow> True"

inductive moves :: "task_thread \<Rightarrow> task_thread \<Rightarrow> bool" where
  client: "exec (Client c) s = Some t \<Longrightarrow> moves s t"
| thread: "exec Worker s = Some t \<Longrightarrow> moves s t"

inductive task_step :: "task_thread \<Rightarrow> task_thread \<Rightarrow> bool" where
  "exec a s = Some t \<Longrightarrow> polite a s \<Longrightarrow> task_step s t"

inductive_simps moves_simps: "moves s t"
inductive_simps task_step_simps: "task_step s t"

section \<open>The invariant\<close>

fun holds_mutex :: "client_pc \<Rightarrow> bool" where
  "holds_mutex (ReqLocked _) = True"
| "holds_mutex ReqJoin = True"
| "holds_mutex TermLocked = True"
| "holds_mutex _ = False"

definition thread_holds :: "worker_pc \<Rightarrow> bool" where
  "thread_holds w \<longleftrightarrow> w \<in> {LoopHead, SleepLocked}"

definition thread_lives :: "worker_pc \<Rightarrow> bool" where
  "thread_lives w \<longleftrightarrow> w \<notin> {NoThread, ThreadExit, ThreadDone}"

definition owner_ok :: "task_thread \<Rightarrow> bool" where
  "owner_ok s \<longleftrightarrow> (\<forall>c < length (clients s). holds_mutex (clients s ! c) \<longleftrightarrow> mutex s = ByClient c) \<and>
     (thread_holds (worker s) \<longleftrightarrow> mutex s = ByWorker) \<and> (\<forall>c. mutex s = ByClient c \<longrightarrow> c < length (clients s))"

definition flags_ok :: "task_thread \<Rightarrow> bool" where
  "flags_ok s \<longleftrightarrow> (running s \<longleftrightarrow> thread_lives (worker s) \<or> ReqJoin \<in> set (clients s)) \<and>
     (ReqJoin \<in> set (clients s) \<longrightarrow> worker s \<in> {ThreadExit, ThreadDone}) \<and> (hasPendingTask s \<longrightarrow> running s) \<and>
     (thread_lives (worker s) \<and> worker s \<noteq> ThreadStart \<longrightarrow> currentIsStopping s) \<and> worker s \<noteq> SleepWait \<and> worker s \<noteq> SleepWake \<and>
     (worker s \<in> {CvWait, CvWake} \<longrightarrow> hasPendingTask s)"

definition calls_ok :: "task_thread \<Rightarrow> bool" where
  "calls_ok s \<longleftrightarrow> (\<forall>c < length (clients s). in_terminate (clients s ! c) \<longrightarrow>
     (\<forall>d < length (clients s). d \<noteq> c \<longrightarrow> clients s ! d = Idle) \<and> (clients s ! c = TermJoin \<longrightarrow> worker s \<noteq> NoThread))"

definition task_inv :: "task_thread \<Rightarrow> bool" where
  "task_inv s \<longleftrightarrow> owner_ok s \<and> flags_ok s \<and> calls_ok s"

lemmas task_defs = owner_ok_def flags_ok_def calls_ok_def thread_holds_def thread_lives_def

text \<open>The state of the other clients does not change with a client's step.\<close>

lemma client_step:
  assumes "exec (Client c) s = Some t"
  obtains (lock) immediate where "clients s ! c = ReqLock immediate" "mutex s = FreeLock" "t = at c (ReqLocked immediate) (s\<lparr>mutex := ByClient c\<rparr>)"
    | (term_lock) "clients s ! c = TermLock" "mutex s = FreeLock" "t = at c TermLocked (s\<lparr>mutex := ByClient c\<rparr>)"
    | (request) immediate where "clients s ! c = ReqLocked immediate" "running s"
      "t = at c (if immediate then ReqNotify else Idle) (s\<lparr>hasPendingTask := True, runImmediately := runImmediately s \<or> immediate, mutex := FreeLock\<rparr>)"
    | (join) immediate where "clients s ! c = ReqLocked immediate" "\<not> running s" "worker s \<noteq> NoThread"
      "t = at c ReqJoin (s\<lparr>hasPendingTask := True, runImmediately := runImmediately s \<or> immediate, running := True\<rparr>)"
    | (fresh) immediate where "clients s ! c = ReqLocked immediate" "\<not> running s" "worker s = NoThread"
      "t = at c Idle (s\<lparr>hasPendingTask := True, runImmediately := runImmediately s \<or> immediate, running := True, worker := ThreadStart, mutex := FreeLock\<rparr>)"
    | (restart) "clients s ! c = ReqJoin" "worker s = ThreadDone" "t = at c Idle (s\<lparr>worker := ThreadStart, mutex := FreeLock\<rparr>)"
    | (notify) "clients s ! c = ReqNotify" "t = at c Idle (notify_all s)"
    | (stop) "clients s ! c = TermLocked" "t = at c TermNotify (s\<lparr>runImmediately := True, stopping := True, mutex := FreeLock\<rparr>)"
    | (term_notify) "clients s ! c = TermNotify" "t = at c TermCheck (notify_all s)"
    | (check) "clients s ! c = TermCheck" "t = at c (if worker s \<noteq> NoThread then TermJoin else Idle) s"
    | (joined) "clients s ! c = TermJoin" "worker s = ThreadDone" "t = at c Idle (s\<lparr>worker := NoThread\<rparr>)"
  using assms by (cases "clients s ! c") (auto simp: requestRun_def terminate_def acquire_def Let_def split: if_splits)

lemma client_bound: "exec (Client c) s = Some t \<Longrightarrow> c < length (clients s)"
  by (auto split: if_splits)

lemma at_simps [simp]:
  "clients (at c p s) = (clients s)[c := p]" "mutex (at c p s) = mutex s" "worker (at c p s) = worker s" "running (at c p s) = running s"
  "hasPendingTask (at c p s) = hasPendingTask s" "currentIsStopping (at c p s) = currentIsStopping s" "stopping (at c p s) = stopping s"
  "runs (at c p s) = runs s"
  by (simp_all add: at_def)

lemma notify_all_simps [simp]:
  "clients (notify_all s) = clients s" "mutex (notify_all s) = mutex s" "running (notify_all s) = running s"
  "hasPendingTask (notify_all s) = hasPendingTask s" "currentIsStopping (notify_all s) = currentIsStopping s"
  "runs (notify_all s) = runs s" "stopping (notify_all s) = stopping s"
  "thread_holds (worker (notify_all s)) = thread_holds (worker s)" "thread_lives (worker (notify_all s)) = thread_lives (worker s)"
  "worker (notify_all s) = ThreadStart \<longleftrightarrow> worker s = ThreadStart" "worker (notify_all s) = NoThread \<longleftrightarrow> worker s = NoThread"
  "worker (notify_all s) = ThreadExit \<longleftrightarrow> worker s = ThreadExit" "worker (notify_all s) = ThreadDone \<longleftrightarrow> worker s = ThreadDone"
  "worker (notify_all s) = CvWake \<longleftrightarrow> worker s = CvWake \<or> worker s = CvWait" "worker (notify_all s) \<noteq> CvWait"
  "worker (notify_all s) = SleepWake \<longleftrightarrow> worker s = SleepWake \<or> worker s = SleepWait" "worker (notify_all s) \<noteq> SleepWait"
  by (auto simp: notify_all_def thread_holds_def thread_lives_def split: worker_pc.splits)

text \<open>What a step has to keep when it changes client \<open>c\<close> only, one rule for each part.\<close>

lemma owner_update:
  assumes "owner_ok s" "c < length (clients s)" "clients t = (clients s)[c := q]" "holds_mutex q \<longleftrightarrow> mutex t = ByClient c"
    "thread_holds (worker t) \<longleftrightarrow> mutex t = ByWorker" "\<And>d. d \<noteq> c \<Longrightarrow> mutex t = ByClient d \<longleftrightarrow> mutex s = ByClient d"
  shows "owner_ok t"
  unfolding owner_ok_def
proof (intro conjI allI impI)
  fix d assume d: "d < length (clients t)"
  show "holds_mutex (clients t ! d) \<longleftrightarrow> mutex t = ByClient d"
  proof (cases "d = c")
    case False
    then show ?thesis using assms(1,3,6) d by (simp add: owner_ok_def)
  qed (use assms(2-4) in simp)
next
  fix d assume "mutex t = ByClient d"
  then show "d < length (clients t)" using assms(1-3) assms(6)[of d] by (cases "d = c") (simp_all add: owner_ok_def)
qed (rule assms(5))

lemma owner_holds: "owner_ok s \<Longrightarrow> c < length (clients s) \<Longrightarrow> holds_mutex (clients s ! c) \<longleftrightarrow> mutex s = ByClient c"
  by (simp add: owner_ok_def)

lemma owner_thread: "owner_ok s \<Longrightarrow> thread_holds (worker s) \<longleftrightarrow> mutex s = ByWorker"
  by (simp add: owner_ok_def)

lemma owner_client:
  assumes inv: "owner_ok s" and step: "exec (Client c) s = Some t"
  shows "owner_ok t"
proof -
  note c = client_bound[OF step]
  note h = owner_holds[OF inv c] and w = owner_thread[OF inv]
  show ?thesis using step
  proof (cases rule: client_step)
    case (lock im)
    then show ?thesis using w by (intro owner_update[OF inv c, of t "ReqLocked im"]) simp_all
  next
    case term_lock
    then show ?thesis using w by (intro owner_update[OF inv c, of t TermLocked]) simp_all
  next
    case (request im)
    then show ?thesis using w h by (intro owner_update[OF inv c, of t "if im then ReqNotify else Idle"]) simp_all
  next
    case (join im)
    then show ?thesis using w h by (intro owner_update[OF inv c, of t ReqJoin]) simp_all
  next
    case (fresh im)
    then show ?thesis using w h by (intro owner_update[OF inv c, of t Idle]) (simp_all add: thread_holds_def)
  next
    case restart
    then show ?thesis using w h by (intro owner_update[OF inv c, of t Idle]) (simp_all add: thread_holds_def)
  next
    case notify
    then show ?thesis using w h by (intro owner_update[OF inv c, of t Idle]) simp_all
  next
    case stop
    then show ?thesis using w h by (intro owner_update[OF inv c, of t TermNotify]) simp_all
  next
    case term_notify
    then show ?thesis using w h by (intro owner_update[OF inv c, of t TermCheck]) simp_all
  next
    case check
    then show ?thesis using w h by (intro owner_update[OF inv c, of t "if worker s \<noteq> NoThread then TermJoin else Idle"]) simp_all
  next
    case joined
    then show ?thesis using w h by (intro owner_update[OF inv c, of t Idle]) (simp_all add: thread_holds_def)
  qed
qed

lemma calls_update:
  assumes "calls_ok s" "c < length (clients s)" "clients t = (clients s)[c := q]" "in_terminate q \<longrightarrow> in_terminate (clients s ! c)"
    "q \<noteq> Idle \<longrightarrow> clients s ! c \<noteq> Idle" "worker t = NoThread \<longrightarrow> worker s = NoThread \<or> in_terminate (clients s ! c)" "q = TermJoin \<longrightarrow> worker t \<noteq> NoThread"
  shows "calls_ok t"
  unfolding calls_ok_def
proof (intro allI impI)
  fix d assume d: "d < length (clients t)" "in_terminate (clients t ! d)"
  show "(\<forall>d' < length (clients t). d' \<noteq> d \<longrightarrow> clients t ! d' = Idle) \<and> (clients t ! d = TermJoin \<longrightarrow> worker t \<noteq> NoThread)"
  proof (cases "d = c")
    case True
    then have "in_terminate (clients s ! c)" "clients t ! d = q" using assms(2-4) d by simp_all
    moreover from this(1) have "\<forall>d' < length (clients s). d' \<noteq> c \<longrightarrow> clients s ! d' = Idle"
      using assms(1,2) unfolding calls_ok_def by blast
    ultimately show ?thesis using True assms(3,7) by simp
  next
    case False
    then have "in_terminate (clients s ! d)" "d < length (clients s)" using assms(3) d by simp_all
    then have o: "\<forall>d' < length (clients s). d' \<noteq> d \<longrightarrow> clients s ! d' = Idle" "clients s ! d = TermJoin \<longrightarrow> worker s \<noteq> NoThread"
      using assms(1) unfolding calls_ok_def by blast+
    then have i: "clients s ! c = Idle" using assms(2) False by simp
    then have "clients t = clients s" using assms(3,5) list_update_id[of "clients s" c] by simp
    moreover have "worker t = NoThread \<longrightarrow> worker s = NoThread" using assms(6) i by simp
    ultimately show ?thesis using o by metis
  qed
qed

lemma others_idle: "calls_ok s \<Longrightarrow> c < length (clients s) \<Longrightarrow> in_terminate (clients s ! c) \<Longrightarrow> d < length (clients s) \<Longrightarrow>
    d = c \<or> clients s ! d = Idle"
  unfolding calls_ok_def by blast

lemma calls_client:
  assumes inv: "calls_ok s" "flags_ok s" and step: "exec (Client c) s = Some t"
  shows "calls_ok t"
proof -
  note c = client_bound[OF step]
  show ?thesis using step
  proof (cases rule: client_step)
    case check
    then show ?thesis by (intro calls_update[OF inv(1) c, of t "if worker s \<noteq> NoThread then TermJoin else Idle"]) simp_all
  qed (auto intro!: calls_update[OF inv(1) c])
qed


lemma join_at: "c < length xs \<Longrightarrow> ReqJoin \<in> set (xs[c := q]) \<longleftrightarrow> q = ReqJoin \<or> (\<exists>d < length xs. d \<noteq> c \<and> xs ! d = ReqJoin)"
  by (auto simp: in_set_conv_nth nth_list_update)

lemma joins_alone:
  assumes "owner_ok s" "c < length (clients s)" "holds_mutex (clients s ! c) \<or> mutex s = FreeLock"
  shows "\<not> (\<exists>d < length (clients s). d \<noteq> c \<and> clients s ! d = ReqJoin)"
  using assms by (auto simp: owner_ok_def)

lemma join_kept:
  assumes "c < length xs" "xs ! c \<noteq> ReqJoin" "q \<noteq> ReqJoin"
  shows "ReqJoin \<in> set (xs[c := q]) \<longleftrightarrow> ReqJoin \<in> set xs"
  using assms by (auto simp: in_set_conv_nth nth_list_update)

lemma flags_client:
  assumes inv: "owner_ok s" "calls_ok s" "flags_ok s" and step: "exec (Client c) s = Some t"
  shows "flags_ok t"
proof -
  note c = client_bound[OF step]
  note k = join_kept[OF c] and a = joins_alone[OF inv(1) c] and j = join_at[OF c]
  have no: "ReqJoin \<notin> set (clients s)" if "holds_mutex (clients s ! c)" "clients s ! c \<noteq> ReqJoin"
    using a that by (auto simp: in_set_conv_nth)
  show ?thesis using step
  proof (cases rule: client_step)
    case (join im)
    then show ?thesis using inv(3) no by (auto simp: flags_ok_def j thread_lives_def)
  next
    case restart
    moreover have "ReqJoin \<in> set (clients s)" using c restart(1) by (metis nth_mem)
    ultimately show ?thesis using inv(3) a by (simp add: flags_ok_def j thread_lives_def)
  next
    case joined
    moreover have "ReqJoin \<notin> set (clients s)"
      using others_idle[OF inv(2) c] joined(1) by (fastforce simp: in_set_conv_nth)
    ultimately show ?thesis using inv(3) by (auto simp: flags_ok_def k thread_lives_def)
  qed (use inv(3) no in \<open>auto simp: flags_ok_def k thread_lives_def\<close>)
qed


lemma calls_other: "calls_ok s \<Longrightarrow> clients t = clients s \<Longrightarrow> worker t = NoThread \<longrightarrow> worker s = NoThread \<Longrightarrow> calls_ok t"
  unfolding calls_ok_def by metis

text \<open>A step of the worker; outside the clients it changes the flags, the mutex and its position.\<close>

lemma worker_step:
  assumes "task_inv s" "exec Worker s = Some t"
  shows "task_inv t" "clients t = clients s" "runs s \<le> runs t" "hasPendingTask s \<Longrightarrow> hasPendingTask t \<or> runs s < runs t"
proof -
  have o: "owner_ok s" "flags_ok s" "calls_ok s" using assms(1) by (simp_all add: task_inv_def)
  have e: "doThreadLoop s = Some t" using assms(2) by simp
  have free: "\<not> holds_mutex (clients s ! c)" if "c < length (clients s)" "mutex s = FreeLock \<or> thread_holds (worker s)" for c
    using o(1) that by (auto simp: owner_ok_def)
  have nj: "ReqJoin \<notin> set (clients s)" if "thread_lives (worker s)" using o(2) that by (auto simp: flags_ok_def thread_lives_def)
  show cs: "clients t = clients s" and "runs s \<le> runs t" and "hasPendingTask s \<Longrightarrow> hasPendingTask t \<or> runs s < runs t"
    using e by (auto simp: doThreadLoop_def sleep_def acquire_def run_task_def split: worker_pc.splits if_splits)
  have "owner_ok t" unfolding owner_ok_def cs
    using e free o(1)
    by (cases "worker s") (auto simp: doThreadLoop_def sleep_def acquire_def run_task_def owner_ok_def thread_holds_def split: if_splits)
  moreover have "flags_ok t" unfolding flags_ok_def cs
    using e nj o(2)
    by (cases "worker s") (auto simp: doThreadLoop_def sleep_def acquire_def run_task_def flags_ok_def thread_lives_def split: if_splits)
  moreover have "worker t = NoThread \<longrightarrow> worker s = NoThread"
    using e by (auto simp: doThreadLoop_def sleep_def acquire_def run_task_def split: worker_pc.splits if_splits)
  then have "calls_ok t" by (intro calls_other[OF o(3) cs])
  ultimately show "task_inv t" by (simp add: task_inv_def)
qed

lemma client_keeps:
  assumes "task_inv s" "exec (Client c) s = Some t"
  shows "task_inv t" "runs t = runs s" "hasPendingTask s \<Longrightarrow> hasPendingTask t"
proof -
  show "task_inv t" using assms(1) unfolding task_inv_def
    using owner_client[OF _ assms(2)] flags_client[OF _ _ _ assms(2)] calls_client[OF _ _ assms(2)] by blast
  show "runs t = runs s" "hasPendingTask s \<Longrightarrow> hasPendingTask t" using assms(2) by (cases rule: client_step; simp)+
qed


text \<open>The calls.\<close>

lemma call_keeps:
  assumes inv: "task_inv s" and step: "exec a s = Some t" "polite a s" and a: "a = CallRequest c b \<or> a = CallTerminate c \<or> a = CallSleep"
  shows "task_inv t"
proof -
  have o: "owner_ok s" "flags_ok s" "calls_ok s" using inv by (simp_all add: task_inv_def)
  consider (call) q where "c < length (clients s)" "clients s ! c = Idle" "t = at c q s" "\<not> holds_mutex q" "q \<noteq> ReqJoin" "q \<noteq> TermJoin"
      "in_terminate q \<longrightarrow> (\<forall>p \<in> set (clients s). p = Idle)" "\<forall>p \<in> set (clients s). \<not> in_terminate p"
    | (sleep) "worker s = InTask" "t = s\<lparr>worker := SleepLock\<rparr>"
    using a
  proof (elim disjE)
    assume r: "a = CallRequest c b"
    then show thesis using step call[of "ReqLock b"] by (simp add: from_idle_def split: if_splits)
  next
    assume r: "a = CallTerminate c"
    moreover from r have "\<forall>p \<in> set (clients s). \<not> in_terminate p" using step by fastforce
    ultimately show thesis using step call[of TermLock] by (simp add: from_idle_def split: if_splits)
  next
    assume "a = CallSleep"
    then show thesis using step sleep by (simp split: if_splits)
  qed
  then show ?thesis
  proof cases
    case call
    have "owner_ok t" using call(2-4) owner_thread[OF o(1)] owner_holds[OF o(1) call(1)] by (intro owner_update[OF o(1) call(1), of t q]) auto
    moreover have "flags_ok t" using o(2) call(2,3,5) by (auto simp: flags_ok_def join_kept[OF call(1)])
    moreover have "calls_ok t" unfolding calls_ok_def
    proof (intro allI impI)
      fix d assume d: "d < length (clients t)" "in_terminate (clients t ! d)"
      then have dc: "d = c" using call(1,3,8) by (cases "d = c") simp_all
      then have "in_terminate q" using call(1,3) d by simp
      then have "\<forall>d' < length (clients s). clients s ! d' = Idle" using call(7) nth_mem by blast
      then show "(\<forall>d' < length (clients t). d' \<noteq> d \<longrightarrow> clients t ! d' = Idle) \<and> (clients t ! d = TermJoin \<longrightarrow> worker t \<noteq> NoThread)"
        using dc call(1,3,6) by simp
    qed
    ultimately show ?thesis by (simp add: task_inv_def)
  next
    case sleep
    then have "owner_ok t" "flags_ok t" using o(1,2) by (auto simp: owner_ok_def flags_ok_def thread_holds_def thread_lives_def)
    moreover have "calls_ok t" using sleep by (intro calls_other[OF o(3)]) simp_all
    ultimately show ?thesis by (simp add: task_inv_def)
  qed
qed

lemma task_step_keeps: "task_inv s \<Longrightarrow> task_step s t \<Longrightarrow> task_inv t"
proof (erule task_step.cases)
  fix a s' t' assume inv: "task_inv s" and e: "s = s'" "t = t'" "exec a s' = Some t'" "polite a s'"
  show "task_inv t"
  proof (cases a)
    case (Client c)
    then show ?thesis using client_keeps(1)[OF inv] e by blast
  next
    case Worker
    then show ?thesis using worker_step(1)[OF inv] e by blast
  qed (use call_keeps[OF inv] e in blast)+
qed

lemma task_inv_new: "task_inv (new_task n)"
  by (simp add: new_task_def task_inv_def task_defs)

interpretation tasks: transition_system "\<lambda>s. \<exists>n. s = new_task n" task_step task_inv
  by unfold_locales (auto intro: task_inv_new task_step_keeps)

lemma moves_step: "moves s t \<Longrightarrow> task_step s t"
  by (erule moves.cases) (auto intro: task_step.intros[of "Client _"] task_step.intros[of Worker] simp del: exec.simps)

section \<open>Progress\<close>

text \<open>
  A bound on the steps that are left when nobody makes a new call and the task returns: each
  step of a client or of the worker lowers it.
\<close>

fun client_rank :: "client_pc \<Rightarrow> nat" where
  "client_rank Idle = 0"
| "client_rank (ReqLock _) = 21"
| "client_rank (ReqLocked _) = 20"
| "client_rank ReqJoin = 8"
| "client_rank ReqNotify = 1"
| "client_rank TermLock = 6"
| "client_rank TermLocked = 5"
| "client_rank TermNotify = 4"
| "client_rank TermCheck = 3"
| "client_rank TermJoin = 2"

fun worker_rank :: "worker_pc \<Rightarrow> nat" where
  "worker_rank NoThread = 0"
| "worker_rank ThreadStart = 7"
| "worker_rank LoopHead = 6"
| "worker_rank CvWait = 5"
| "worker_rank CvWake = 4"
| "worker_rank InTask = 8"
| "worker_rank Relock = 7"
| "worker_rank SleepLock = 12"
| "worker_rank SleepLocked = 11"
| "worker_rank SleepWait = 10"
| "worker_rank SleepWake = 9"
| "worker_rank ThreadExit = 1"
| "worker_rank ThreadDone = 0"

definition rank :: "task_thread \<Rightarrow> nat" where
  "rank s = sum_list (map client_rank (clients s)) + worker_rank (worker s) + (if hasPendingTask s then 10 else 0)"

lemma sum_rank_update:
  assumes "c < length xs"
  shows "sum_list (map client_rank (xs[c := q])) + client_rank (xs ! c) = sum_list (map client_rank xs) + client_rank q"
proof -
  have "client_rank (xs ! c) \<le> sum_list (map client_rank xs)"
    using assms elem_le_sum_list[of c "map client_rank xs"] by simp
  then show ?thesis using assms by (simp add: map_update sum_list_update)
qed

lemma rank_client:
  assumes "exec (Client c) s = Some t"
  shows "rank t < rank s"
proof -
  note c = client_bound[OF assms]
  note u = sum_rank_update[OF c]
  have n: "worker_rank (worker (notify_all s)) \<le> worker_rank (worker s)" by (simp add: notify_all_def split: worker_pc.split)
  show ?thesis using assms
  proof (cases rule: client_step)
    case (lock im)
    then show ?thesis using u[of "ReqLocked im"] by (simp add: rank_def)
  next
    case term_lock
    then show ?thesis using u[of TermLocked] by (simp add: rank_def)
  next
    case (request im)
    then show ?thesis using u[of "if im then ReqNotify else Idle"] by (cases im) (simp_all add: rank_def)
  next
    case (join im)
    then show ?thesis using u[of ReqJoin] by (simp add: rank_def)
  next
    case (fresh im)
    then show ?thesis using u[of Idle] by (simp add: rank_def)
  next
    case restart
    then show ?thesis using u[of Idle] by (simp add: rank_def)
  next
    case notify
    then show ?thesis using u[of Idle] n by (simp add: rank_def)
  next
    case stop
    then show ?thesis using u[of TermNotify] by (simp add: rank_def)
  next
    case term_notify
    then show ?thesis using u[of TermCheck] n by (simp add: rank_def)
  next
    case check
    then show ?thesis using u[of "if worker s \<noteq> NoThread then TermJoin else Idle"] by (cases "worker s = NoThread") (simp_all add: rank_def)
  next
    case joined
    then show ?thesis using u[of Idle] by (simp add: rank_def)
  qed
qed

lemma rank_worker: "task_inv s \<Longrightarrow> exec Worker s = Some t \<Longrightarrow> rank t < rank s"
  unfolding task_inv_def flags_ok_def
  by (cases "worker s") (auto simp: rank_def doThreadLoop_def sleep_def acquire_def run_task_def split: if_splits)


lemma rank_moves: "task_inv s \<Longrightarrow> moves s t \<Longrightarrow> rank t < rank s"
  by (erule moves.cases) (use rank_client rank_worker in blast)+

lemma rank_run: "(moves ^^ k) s t \<Longrightarrow> task_inv s \<Longrightarrow> rank t + k \<le> rank s"
proof (induction k arbitrary: t)
  case (Suc k)
  then obtain u where u: "(moves ^^ k) s u" "moves u t" by auto
  have "task_step\<^sup>*\<^sup>* s u" using relpowp_imp_rtranclp[OF u(1)] by (rule rtranclp_mono[THEN predicate2D, rotated]) (auto intro: moves_step)
  then have "task_inv u" using Suc.prems(2) by (rule tasks.inv_run)
  from rank_moves[OF this u(2)] Suc.IH[OF u(1) Suc.prems(2)] show ?case by linarith
qed simp

text \<open>Nobody is stuck: while a client is inside a call or the worker lives, something can move.\<close>

definition quiet :: "task_thread \<Rightarrow> bool" where
  "quiet s \<longleftrightarrow> (\<forall>p \<in> set (clients s). p = Idle) \<and> worker s \<in> {NoThread, ThreadDone}"

lemma client_can_move:
  assumes "c < length (clients s)" "exec (Client c) s = None"
  shows "clients s ! c = Idle \<or> mutex s \<noteq> FreeLock \<and> \<not> holds_mutex (clients s ! c) \<or>
    clients s ! c \<in> {ReqJoin, TermJoin} \<and> worker s \<noteq> ThreadDone"
  using assms by (cases "clients s ! c") (auto simp: requestRun_def terminate_def acquire_def Let_def split: if_splits)

lemma worker_can_move:
  assumes "exec Worker s = None"
  shows "worker s \<in> {NoThread, ThreadDone} \<or> mutex s \<noteq> FreeLock \<and> \<not> thread_holds (worker s)"
  using assms by (cases "worker s") (auto simp: doThreadLoop_def sleep_def acquire_def thread_holds_def split: if_splits)

lemma no_deadlock:
  assumes inv: "task_inv s" and stuck: "\<And>t. \<not> moves s t"
  shows "quiet s"
proof -
  have o: "owner_ok s" "flags_ok s" "calls_ok s" using inv by (simp_all add: task_inv_def)
  have w: "exec Worker s = None" using stuck moves.thread by (metis option.exhaust)
  have c: "exec (Client c) s = None" for c using stuck moves.client by (metis option.exhaust)
  have wait: "worker s = ThreadDone" if "c < length (clients s)" "clients s ! c \<in> {ReqJoin, TermJoin}" "mutex s = FreeLock \<or> clients s ! c = ReqJoin" for c
  proof (cases "clients s ! c = ReqJoin")
    case True
    then have "worker s \<in> {ThreadExit, ThreadDone}" using o(2) that(1) by (metis flags_ok_def nth_mem)
    then show ?thesis using w by (auto simp: doThreadLoop_def)
  next
    case False
    then have "worker s \<noteq> NoThread" "mutex s = FreeLock" using o(3) that by (auto simp: calls_ok_def)
    then show ?thesis using worker_can_move[OF w] by auto
  qed
  have free: "mutex s = FreeLock"
  proof (cases "mutex s")
    case ByWorker
    then have "worker s \<in> {LoopHead, SleepLocked}" using owner_thread[OF o(1)] by (simp add: thread_holds_def)
    then show ?thesis using w by (auto simp: doThreadLoop_def sleep_def)
  next
    case (ByClient d)
    then have d: "d < length (clients s)" "holds_mutex (clients s ! d)" using o(1) by (auto simp: owner_ok_def)
    then show ?thesis using client_can_move[OF d(1) c] wait[OF d(1)] by auto
  qed
  then have "worker s \<in> {NoThread, ThreadDone}" using worker_can_move[OF w] by blast
  moreover have "clients s ! d = Idle" if "d < length (clients s)" for d
    using client_can_move[OF that c] wait[OF that] free by auto
  ultimately show ?thesis by (auto simp: quiet_def in_set_conv_nth)
qed

lemma quiet_flags: "task_inv s \<Longrightarrow> quiet s \<Longrightarrow> \<not> running s \<and> \<not> hasPendingTask s"
  by (auto simp: quiet_def task_inv_def flags_ok_def thread_lives_def)

lemma pending_run: "moves\<^sup>*\<^sup>* s t \<Longrightarrow> task_inv s \<Longrightarrow> hasPendingTask s \<Longrightarrow> task_inv t \<and> runs s \<le> runs t \<and> (hasPendingTask t \<or> runs s < runs t)"
proof (induction rule: rtranclp_induct)
  case (step t u)
  then have t: "task_inv t" "runs s \<le> runs t" "hasPendingTask t \<or> runs s < runs t" by blast+
  from step.hyps(2) show ?case
  proof cases
    case (client c)
    then show ?thesis using client_keeps[OF t(1)] t by metis
  next
    case thread
    then show ?thesis using worker_step[OF t(1)] t by (metis order_le_less_trans less_le_trans order_trans less_imp_le)
  qed
qed simp


lemma goes_quiet: "task_inv s \<Longrightarrow> \<exists>t. moves\<^sup>*\<^sup>* s t \<and> (\<forall>u. \<not> moves t u)"
proof (induction "rank s" arbitrary: s rule: less_induct)
  case less
  show ?case
  proof (cases "\<exists>u. moves s u")
    case True
    then obtain u where u: "moves s u" by blast
    have "task_inv u" using less.prems moves_step[OF u] by (rule task_step_keeps)
    from less.hyps[OF rank_moves[OF less.prems u] this] show ?thesis using u by (meson converse_rtranclp_into_rtranclp)
  qed blast
qed

lemma two_of_filter: "1 < length (filter P xs) \<Longrightarrow> \<exists>c d. c < length xs \<and> d < length xs \<and> c \<noteq> d \<and> P (xs ! c) \<and> P (xs ! d)"
proof (induction xs)
  case (Cons x xs)
  show ?case
  proof (cases "1 < length (filter P xs)")
    case True
    then obtain c d where "c < length xs" "d < length xs" "c \<noteq> d" "P (xs ! c)" "P (xs ! d)" using Cons.IH by blast
    then show ?thesis by (intro exI[of _ "Suc c"] exI[of _ "Suc d"]) simp
  next
    case False
    then have "P x" "filter P xs \<noteq> []" using Cons.prems by (auto split: if_splits)
    then obtain d where "d < length xs" "P (xs ! d)" by (auto simp: filter_empty_conv in_set_conv_nth)
    then show ?thesis using \<open>P x\<close> by (intro exI[of _ 0] exI[of _ "Suc d"]) simp
  qed
qed simp

lemma join_once: "task_inv s \<Longrightarrow> \<not> double_join s"
proof
  assume inv: "task_inv s" and "double_join s"
  then obtain c d where cd: "c < length (clients s)" "d < length (clients s)" "c \<noteq> d"
      "clients s ! c = ReqJoin \<or> clients s ! c = TermJoin" "clients s ! d = ReqJoin \<or> clients s ! d = TermJoin"
    using two_of_filter unfolding double_join_def by blast
  have o: "owner_ok s" "calls_ok s" using inv by (simp_all add: task_inv_def)
  have "clients s ! c \<noteq> TermJoin" "clients s ! d \<noteq> TermJoin" using others_idle[OF o(2)] cd by fastforce+
  then show False using cd owner_holds[OF o(1) cd(1)] owner_holds[OF o(1) cd(2)] by simp
qed

section \<open>Properties\<close>

fun exec_polite :: "thread_action list \<Rightarrow> task_thread \<Rightarrow> task_thread option" where
  "exec_polite [] s = Some s"
| "exec_polite (a # as) s = (if polite a s then case exec a s of None \<Rightarrow> None | Some t \<Rightarrow> exec_polite as t else None)"

lemma exec_polite_steps: "exec_polite as s = Some t \<Longrightarrow> task_step\<^sup>*\<^sup>* s t"
proof (induction as arbitrary: s)
  case (Cons a as)
  then obtain u where u: "polite a s" "exec a s = Some u" "exec_polite as u = Some t"
    by (auto simp del: exec.simps polite.simps split: if_splits option.splits)
  then show ?case using Cons.IH by (meson converse_rtranclp_into_rtranclp task_step.intros)
qed simp

text \<open>
  C10: whatever the interleaving of the calls, the worker thread and its task, as long as nobody
  requests a run once \<open>terminate\<close> was called, the worker is never joined by two threads at once, a
  requested run always has a worker that will see it, the task's \<open>sleep\<close> never waits, and when
  \<open>terminate\<close> returns from its join no worker and no requested run is left.
\<close>
theorem task_thread_safe:
  assumes "task_step\<^sup>*\<^sup>* (new_task n) s"
  shows "\<not> double_join s \<and> (hasPendingTask s \<longrightarrow> running s) \<and> worker s \<noteq> SleepWait \<and>
    (\<forall>c t. clients s ! c = TermJoin \<longrightarrow> exec (Client c) s = Some t \<longrightarrow> quiet t \<and> \<not> running t \<and> \<not> hasPendingTask t)"
proof (intro conjI allI impI)
  have inv: "task_inv s" using tasks.inv_reachable[OF _ assms] by blast
  then show "\<not> double_join s" "worker s \<noteq> SleepWait" "hasPendingTask s \<Longrightarrow> running s"
    using join_once by (auto simp: task_inv_def flags_ok_def)
  fix c t assume c: "clients s ! c = TermJoin" and e: "exec (Client c) s = Some t"
  have b: "c < length (clients s)" using e by (rule client_bound)
  have "calls_ok s" using inv by (simp add: task_inv_def)
  then have "\<forall>d < length (clients s). d = c \<or> clients s ! d = Idle" using others_idle b c by simp
  moreover have "t = at c Idle (s\<lparr>worker := NoThread\<rparr>)" using e c by (cases rule: client_step) simp_all
  ultimately have "worker t = NoThread" "\<forall>d < length (clients t). clients t ! d = Idle" using b by (auto simp: nth_list_update)
  then show q: "quiet t" by (auto simp: quiet_def in_set_conv_nth)
  show "\<not> running t" "\<not> hasPendingTask t" using quiet_flags[OF client_keeps(1)[OF inv e] q] by simp_all
qed

text \<open>
  C5: a requested run is made. From any state such a program reaches with a run requested, when no
  further calls are made and the task returns each time, every way the threads are scheduled
  comes to an end after a bounded number of steps, and at the end the task was called after the
  request, no request is open, all calls have returned and the worker has ended.
\<close>
theorem requested_run_made:
  assumes "task_step\<^sup>*\<^sup>* (new_task n) s" "hasPendingTask s"
  shows "(\<forall>k t. (moves ^^ k) s t \<longrightarrow> k \<le> rank s) \<and> (\<exists>t. moves\<^sup>*\<^sup>* s t \<and> (\<forall>u. \<not> moves t u)) \<and>
    (\<forall>t. moves\<^sup>*\<^sup>* s t \<longrightarrow> (\<forall>u. \<not> moves t u) \<longrightarrow> runs s < runs t \<and> \<not> hasPendingTask t \<and> quiet t)"
proof -
  have inv: "task_inv s" using tasks.inv_reachable[OF _ assms(1)] by blast
  have "runs s < runs t \<and> \<not> hasPendingTask t \<and> quiet t" if t: "moves\<^sup>*\<^sup>* s t" "\<forall>u. \<not> moves t u" for t
  proof -
    have p: "task_inv t" "hasPendingTask t \<or> runs s < runs t" using pending_run[OF t(1) inv assms(2)] by blast+
    have "quiet t" using no_deadlock[OF p(1)] t(2) by blast
    then show ?thesis using quiet_flags[OF p(1)] p(2) by blast
  qed
  moreover have "k \<le> rank s" if "(moves ^^ k) s t" for k t using rank_run[OF that inv] by linarith
  ultimately show ?thesis using goes_quiet[OF inv] by blast
qed

text \<open>A client has requested a run at once and is about to come back with the next one.\<close>

definition sample_requests :: "thread_action list" where
  "sample_requests = [CallRequest 0 False, Client 0, Client 0, Worker, CallRequest 1 True, Worker, Client 1, Client 1]"

definition sample_task :: task_thread where
  "sample_task = \<lparr> running = True, hasPendingTask = True, runImmediately = True, stopping = False,
     currentIsStopping = True, mutex = FreeLock, worker = CvWait, clients = [Idle, ReqNotify], runs = 0 \<rparr>"

lemma sample_task: "exec_polite sample_requests (new_task 2) = Some sample_task"
  by code_simp

theorem task_thread_safe_witness:
  "\<not> double_join sample_task \<and> running sample_task"
  using task_thread_safe[OF exec_polite_steps[OF sample_task]] by (simp add: sample_task_def)

theorem requested_run_made_witness:
  "\<exists>t. moves\<^sup>*\<^sup>* sample_task t \<and> (\<forall>u. \<not> moves t u) \<and> 0 < runs t \<and> \<not> hasPendingTask t \<and> quiet t"
proof -
  have "hasPendingTask sample_task" "runs sample_task = 0" by (simp_all add: sample_task_def)
  then show ?thesis using requested_run_made[OF exec_polite_steps[OF sample_task]] by metis
qed

text \<open>
  Without that rule the worker can be joined by two threads at once, which is undefined
  behaviour. While one thread is in the join of \<open>terminate\<close>, which does not hold the mutex, and the worker has
  just decided to end, another thread's \<open>requestRun\<close> goes on to its own join.
\<close>
theorem terminate_join_race:
  "case exec_all ([CallRequest 1 False, Client 1, Client 1, Worker, Worker, CallTerminate 0, Client 0, Client 0, Client 0, Client 0] @
      [Worker, Worker, Worker, Worker, CallRequest 1 True, Client 1, Client 1]) (new_task 2) of
    Some t \<Rightarrow> double_join t \<and> stopping t | None \<Rightarrow> False"
  by code_simp

end
