(* ===== verification/Event_Batch.thy ===== *)
theory Event_Batch
  imports Prelude
begin

text \<open>
  The telemetry queues of \<^verbatim>\<open>cll-telemetry\<close>: the abstract classes \<open>EventBatch\<close> and
  \<open>BatchedEventList\<close> (\<^verbatim>\<open>event_batch.h\<close>) with the contract their users rely on, and the queue
  in memory (\<^verbatim>\<open>memory_event_batch.cpp\<close>). A virtual class is a record of its methods; JSON
  values are a type parameter and their serialisation \<open>dump\<close> is an argument.
\<close>

section \<open>Lists of events\<close>

text \<open>
  The classes derived from \<open>BatchedEventList\<close>: \<open>VectorBatchedEventList\<close>, the \<open>EventList\<close> of
  several files, and the two lists of the buffered queue. The pointer in a \<open>Wrapper\<close> may be null.
\<close>

datatype buffered_type = Wrapped | Memory | MergedType

datatype event_list =
    Vector (vec_data: bytes) (vec_events: nat) (vec_more: bool)
  | EventList event_list bool
  | Wrapper buffered_type "event_list option" bool
  | Merged event_list event_list bytes

text \<open>The accessors; \<open>None\<close> is the use of a null pointer.\<close>

fun getData :: "event_list \<Rightarrow> bytes option" where
  "getData (Vector d n m) = Some d"
| "getData (EventList w h) = getData w"
| "getData (Wrapper t w h) = (case w of None \<Rightarrow> None | Some l \<Rightarrow> getData l)"
| "getData (Merged w m d) = Some d"

fun getEventCount :: "event_list \<Rightarrow> nat option" where
  "getEventCount (Vector d n m) = Some n"
| "getEventCount (EventList w h) = getEventCount w"
| "getEventCount (Wrapper t w h) = (case w of None \<Rightarrow> None | Some l \<Rightarrow> getEventCount l)"
| "getEventCount (Merged w m d) = (case (getEventCount w, getEventCount m) of (Some a, Some b) \<Rightarrow> Some (a + b) | _ \<Rightarrow> None)"

fun hasMoreEvents :: "event_list \<Rightarrow> bool option" where
  "hasMoreEvents (Vector d n m) = Some m"
| "hasMoreEvents (EventList w h) = map_option (\<lambda>b. h \<or> b) (hasMoreEvents w)"
| "hasMoreEvents (Wrapper t w h) =
     (if h then Some True else case w of None \<Rightarrow> None | Some l \<Rightarrow> hasMoreEvents l)"
| "hasMoreEvents (Merged w m d) =
     (case hasMoreEvents w of None \<Rightarrow> None | Some True \<Rightarrow> Some True | Some False \<Rightarrow> hasMoreEvents m)"

definition getDataSize :: "event_list \<Rightarrow> nat option" where
  "getDataSize l = map_option length (getData l)"

text \<open>What ends the thread: an uncaught exception or undefined behaviour.\<close>

datatype batch_error = OpenFailed | NullList | BadCast | EraseOutOfRange | IdOverflow
  | InvalidArgument | OutOfRange | CompressError | BackoffOverflow | NoFuel

text \<open>Reading an accessor in the middle of a method.\<close>

definition deref :: "'a option \<Rightarrow> ('s, batch_error, 'a) prog" where
  "deref x = (case x of None \<Rightarrow> stop NullList | Some y \<Rightarrow> ret y)"

lemma wp_deref [wp_simps]: "wp (deref x) Q E = (case x of None \<Rightarrow> E NullList | Some y \<Rightarrow> Q y)"
  by (simp add: deref_def wp_simps split: option.split)

lemma deref_Some [simp]: "deref (Some y) = ret y"
  by (simp add: deref_def)

text \<open>Subtraction of \<open>size_t\<close> values.\<close>

definition size_sub :: "nat \<Rightarrow> nat \<Rightarrow> nat" where
  "size_sub a b = (if b \<le> a then a - b else a + 2 ^ 64 - b)"

lemma size_sub_le [simp]: "b \<le> a \<Longrightarrow> size_sub a b = a - b"
  by (simp add: size_sub_def)

section \<open>The abstract queue\<close>

record ('s, 'j) event_batch =
  addEvent :: "'j \<Rightarrow> ('s, batch_error, bool) prog"
  getEventsForUpload :: "nat \<Rightarrow> nat \<Rightarrow> ('s, batch_error, event_list option) prog"
  onEventsUploaded :: "event_list \<Rightarrow> ('s, batch_error, unit) prog"
  hasEvents :: "('s, batch_error, bool) prog"

text \<open>No list that \<open>FileEventBatch\<close> hands out is larger than this.\<close>

definition max_chunk :: nat where
  "max_chunk = 1024 * 1024"

text \<open>A list is the first \<open>n\<close> events of a queue, and says whether that is all of it.\<close>

definition covers :: "event_list \<Rightarrow> nat \<Rightarrow> bytes list \<Rightarrow> bool" where
  "covers l n q \<longleftrightarrow> n \<le> length q \<and> getEventCount l = Some n \<and> getData l = Some (concat (take n q))"

lemma coversD:
  "covers l n q \<Longrightarrow> getEventCount l = Some n"
  "covers l n q \<Longrightarrow> getData l = Some (concat (take n q))"
  "covers l n q \<Longrightarrow> n \<le> length q"
  by (simp_all add: covers_def)

lemma covers_append: "covers l n q \<Longrightarrow> covers l n (q @ r)"
  by (simp add: covers_def)

lemma covers_unique: "covers l n q \<Longrightarrow> covers l m r \<Longrightarrow> m = n"
  by (simp add: covers_def)

text \<open>
  The contract of a queue of events: \<open>queue\<close> is the list of the serialised events it holds,
  \<open>issued\<close> says that a list was handed out and not yet taken back, \<open>fits\<close> that an event can be
  stored at all, \<open>room k\<close> that \<open>k\<close> more events can be stored.
\<close>

abbreviation never :: "batch_error \<Rightarrow> 's \<Rightarrow> bool" where
  "never \<equiv> (\<lambda>_ _. False)"

locale event_queue =
  fixes B :: "('s, 'j) event_batch"
    and inv :: "'s \<Rightarrow> bool" and queue :: "'s \<Rightarrow> bytes list"
    and issued :: "'s \<Rightarrow> event_list \<Rightarrow> bool"
    and fits :: "'j \<Rightarrow> 's \<Rightarrow> bool" and room :: "nat \<Rightarrow> 's \<Rightarrow> bool" and line :: "'j \<Rightarrow> bytes"
  assumes add_spec: "inv s \<Longrightarrow> fits e s \<Longrightarrow> room (Suc k) s \<Longrightarrow>
      wp (addEvent B e) (\<lambda>ok t. inv t \<and> queue t = queue s @ (if ok then [line e] else []) \<and>
         room k t \<and> (\<forall>x. fits x s \<longrightarrow> fits x t)) never s"
    and get_spec: "inv s \<Longrightarrow> queue s \<noteq> [] \<Longrightarrow> 0 < mc \<Longrightarrow> 0 < ms \<Longrightarrow>
      wp (getEventsForUpload B mc ms) (\<lambda>r t. inv t \<and> queue t = queue s \<and>
         (\<forall>k. room k s \<longrightarrow> room k t) \<and> (\<forall>x. fits x s \<longrightarrow> fits x t) \<and>
         (\<exists>l n more. r = Some l \<and> issued t l \<and> covers l n (queue t) \<and> hasMoreEvents l = Some more \<and>
           (\<not> more \<longrightarrow> n = length (queue t)) \<and> n \<le> mc \<and> length (concat (take n (queue t))) \<le> ms \<and>
           (length (hd (queue t)) \<le> min ms max_chunk \<longrightarrow> 0 < n))) never s"
    and uploaded_spec: "inv s \<Longrightarrow> issued s l \<Longrightarrow> covers l n (queue s) \<Longrightarrow>
      wp (onEventsUploaded B l) (\<lambda>_ t. inv t \<and> queue t = drop n (queue s) \<and>
         (\<forall>k. room k s \<longrightarrow> room k t) \<and> (\<forall>x. fits x s \<longrightarrow> fits x t)) never s"
    and has_spec: "inv s \<Longrightarrow> hasEvents B s = (Inr (queue s \<noteq> []), s)"
    and room_less: "room k s \<Longrightarrow> j \<le> k \<Longrightarrow> room j s"

text \<open>
  A queue that may be added to while an upload is under way: lists handed out stay good.
\<close>

locale shared_queue = event_queue +
  assumes add_issued: "inv s \<Longrightarrow> fits e s \<Longrightarrow> room (Suc k) s \<Longrightarrow> issued s l \<Longrightarrow> wp (addEvent B e) (\<lambda>_ t. issued t l) never s"
begin

text \<open>Adding an event while a list is out and then taking the list back loses nothing.\<close>

lemma add_then_uploaded:
  assumes "inv s" "fits e s" "room (Suc k) s" "issued s l" "covers l n (queue s)"
  shows "wp (andthen (addEvent B e) (\<lambda>ok. seqp (onEventsUploaded B l) (ret ok)))
           (\<lambda>ok t. inv t \<and> queue t = drop n (queue s) @ (if ok then [line e] else [])) never s"
proof -
  have step: "wp (onEventsUploaded B l) (\<lambda>_ u. inv u \<and> queue u = drop n (queue s) @ (if ok then [line e] else [])) never t"
    if t: "inv t" "issued t l" "queue t = queue s @ (if ok then [line e] else [])" for ok t
  proof -
    have "covers l n (queue t)" using covers_append[OF assms(5)] t(3) by simp
    then show ?thesis using t(3) coversD(3)[OF assms(5)]
      by (intro wp_mono[OF uploaded_spec[OF t(1,2)]]) auto
  qed
  show ?thesis unfolding wp_andthen wp_seqp wp_ret
    by (rule wp_mono[OF wp_conj[OF add_spec[OF assms(1-3)] add_issued[OF assms(1-4)]]]) (elim conjE, rule step, assumption+, simp)
qed

end

text \<open>A queue that stores every event that fits while there is room.\<close>

locale storing_queue = event_queue +
  assumes add_stores: "inv s \<Longrightarrow> fits e s \<Longrightarrow> room (Suc k) s \<Longrightarrow> wp (addEvent B e) (\<lambda>ok _. ok) never s"
begin

lemma add_stored:
  assumes "inv s" "fits e s" "room (Suc k) s"
  shows "wp (addEvent B e) (\<lambda>ok t. ok \<and> inv t \<and> queue t = queue s @ [line e] \<and> room k t \<and> (\<forall>x. fits x s \<longrightarrow> fits x t)) never s"
  by (rule wp_mono[OF wp_conj[OF add_spec[OF assms] add_stores[OF assms]]]) auto

end

section \<open>The queue in memory\<close>

record 'j memory_batch =
  items :: "'j list"
  limit :: nat

text \<open>One event as a line of the upload format.\<close>

definition event_line :: "('j \<Rightarrow> bytes) \<Rightarrow> 'j \<Rightarrow> bytes" where
  "event_line dump e = dump e @ [13, 10]"

definition mem_addEvent :: "'j \<Rightarrow> ('j memory_batch, batch_error, bool) prog" where
  "mem_addEvent rawData = andthen (getp id) (\<lambda>b.
     if length (items b) \<ge> limit b then ret False
     else seqp (modp (\<lambda>b. b\<lparr>items := items b @ [rawData]\<rparr>)) (ret True))"

definition mem_hasEvents :: "('j memory_batch, batch_error, bool) prog" where
  "mem_hasEvents = getp (\<lambda>b. items b \<noteq> [])"

text \<open>The loop over the items: the bytes and the count so far.\<close>

fun mem_collect :: "('j \<Rightarrow> bytes) \<Rightarrow> nat \<Rightarrow> nat \<Rightarrow> 'j list \<Rightarrow> bytes \<Rightarrow> nat \<Rightarrow> bytes \<times> nat" where
  "mem_collect dump maxCount maxSize [] r count = (r, count)"
| "mem_collect dump maxCount maxSize (i # is) r count = (let itm = dump i; ns = length r + length itm + 2 in
     if ns > maxSize then (r, count)
     else let r = r @ itm @ [13, 10] in
       if count + 1 = maxCount then (r, count + 1) else mem_collect dump maxCount maxSize is r (count + 1))"

definition mem_getEventsForUpload ::
    "('j \<Rightarrow> bytes) \<Rightarrow> nat \<Rightarrow> nat \<Rightarrow> ('j memory_batch, batch_error, event_list option) prog" where
  "mem_getEventsForUpload dump maxCount maxSize = getp (\<lambda>b.
     if maxCount = 0 \<or> maxSize = 0 \<or> items b = [] then None
     else let (r, count) = mem_collect dump maxCount maxSize (items b) [] 0
          in Some (Vector r count (count < length (items b))))"

definition mem_onEventsUploaded :: "event_list \<Rightarrow> ('j memory_batch, batch_error, unit) prog" where
  "mem_onEventsUploaded events = andthen (deref (getEventCount events)) (\<lambda>n. andthen (getp items) (\<lambda>is.
     if n > length is then stop EraseOutOfRange else modp (\<lambda>b. b\<lparr>items := drop n is\<rparr>)))"

definition transferAllEvents :: "('j memory_batch, batch_error, 'j list) prog" where
  "transferAllEvents = andthen (getp items) (\<lambda>is. seqp (modp (\<lambda>b. b\<lparr>items := []\<rparr>)) (ret is))"

definition memory_ops :: "('j \<Rightarrow> bytes) \<Rightarrow> ('j memory_batch, 'j) event_batch" where
  "memory_ops dump = \<lparr> addEvent = mem_addEvent, getEventsForUpload = mem_getEventsForUpload dump,
     onEventsUploaded = mem_onEventsUploaded, hasEvents = mem_hasEvents \<rparr>"

subsection \<open>It meets the contract\<close>

definition mem_queue :: "('j \<Rightarrow> bytes) \<Rightarrow> 'j memory_batch \<Rightarrow> bytes list" where
  "mem_queue dump b = map (event_line dump) (items b)"

text \<open>The loop takes whole events while they fit, at least one when the first fits.\<close>

lemma mem_collect_prefix:
  assumes "mem_collect dump mc ms is r c = (r', c')" "length r \<le> ms" "c < mc"
  shows "\<exists>k \<le> length is. c' = c + k \<and> r' = r @ concat (take k (map (event_line dump) is)) \<and>
           length r' \<le> ms \<and> c' \<le> mc \<and>
           (is \<noteq> [] \<and> length r + length (event_line dump (hd is)) \<le> ms \<longrightarrow> 0 < k)"
  using assms
proof (induction dump mc ms "is" r c rule: mem_collect.induct)
  case (2 dump mc ms i "is" r c)
  let ?n = "length r + length (dump i) + 2"
  show ?case
  proof (cases "?n > ms")
    case True
    with 2 show ?thesis by (auto simp: event_line_def Let_def)
  next
    case False
    show ?thesis
    proof (cases "c + 1 = mc")
      case True
      with 2 False show ?thesis by (intro exI[of _ 1]) (auto simp: event_line_def Let_def)
    next
      case F: False
      with 2 False have "mem_collect dump mc ms is (r @ dump i @ [13, 10]) (c + 1) = (r', c')"
        by (simp add: Let_def)
      from 2(1)[OF refl refl False refl F this] False 2(4) F
      obtain k where "k \<le> length is" "c' = c + 1 + k" "length r' \<le> ms" "c' \<le> mc"
        "r' = (r @ dump i @ [13, 10]) @ concat (take k (map (event_line dump) is))" by auto
      then show ?thesis by (intro exI[of _ "Suc k"]) (auto simp: event_line_def[of dump i])
    qed
  qed
qed auto

definition mem_issued :: "('j \<Rightarrow> bytes) \<Rightarrow> 'j memory_batch \<Rightarrow> event_list \<Rightarrow> bool" where
  "mem_issued dump b l \<longleftrightarrow> (\<exists>n. covers l n (mem_queue dump b))"

lemma mem_get:
  assumes "items b \<noteq> []" "0 < mc" "0 < ms"
  obtains r n where "mem_getEventsForUpload dump mc ms b = (Inr (Some (Vector r n (n < length (items b)))), b)"
    "covers (Vector r n (n < length (items b))) n (mem_queue dump b)" "n \<le> mc" "length r \<le> ms"
    "length (event_line dump (hd (items b))) \<le> ms \<Longrightarrow> 0 < n"
proof -
  obtain r n where m: "mem_collect dump mc ms (items b) [] 0 = (r, n)" by (cases "mem_collect dump mc ms (items b) [] 0")
  from mem_collect_prefix[OF m] assms show ?thesis
    by (intro that[of r n]) (auto simp: mem_getEventsForUpload_def getp_def m covers_def mem_queue_def)
qed

lemma mem_queue_facts [simp]:
  "mem_queue dump b = [] \<longleftrightarrow> items b = []" "length (mem_queue dump b) = length (items b)"
  "items b \<noteq> [] \<Longrightarrow> hd (mem_queue dump b) = event_line dump (hd (items b))"
  by (simp_all add: mem_queue_def hd_map)

interpretation mem: shared_queue "memory_ops dump" "\<lambda>_. True" "mem_queue dump" "mem_issued dump" "\<lambda>_ _. True" "\<lambda>_ _. True"
    "event_line dump"
proof (unfold_locales, goal_cases)
  case (1 s e)
  show ?case by (auto simp: memory_ops_def mem_addEvent_def wp_simps mem_queue_def)
next
  case (2 s mc ms)
  then have "items s \<noteq> []" by simp
  then show ?case
    by (rule mem_get[of s mc ms dump]) (use 2 in \<open>auto simp: wp_def memory_ops_def mem_issued_def covers_def\<close>)
next
  case (3 s l n)
  then show ?case
    by (auto simp: memory_ops_def mem_onEventsUploaded_def wp_simps covers_def mem_queue_def drop_map)
next
  case (4 s)
  show ?case by (simp add: memory_ops_def mem_hasEvents_def getp_def)
next
  case (6 s e k l)
  then show ?case
    by (auto simp: memory_ops_def mem_addEvent_def wp_simps mem_issued_def mem_queue_def covers_def; force)
qed simp

end
