(* ===== verification/File_Batch.thy ===== *)
theory File_Batch
  imports Event_Batch
begin

text \<open>
  The queue kept in one file, \<^verbatim>\<open>cll-telemetry/src/file_event_batch.cpp\<close>: one event per line,
  appended at the end, uploaded from the front, the uploaded prefix cut off by copying the
  rest of the file over it. The operating system is a disk of named files with the answers
  that \<open>open\<close>, \<open>read\<close>, \<open>write\<close> and \<open>ftruncate\<close> will give, so short and failing transfers are covered.
\<close>

section \<open>The disk\<close>

type_synonym file_path = string

text \<open>
  The answers to come: whether an \<open>open\<close> or an \<open>ftruncate\<close> succeeds; for a transfer, \<open>None\<close> is an error and
  \<open>Some k\<close> a transfer of at most \<open>k + 1\<close> bytes. When the answers run out, calls do all they are
  asked to do.
\<close>

record disk =
  files :: "file_path \<Rightarrow> bytes option"
  opens :: "bool list"
  reads :: "nat option list"
  writes :: "nat option list"
  truncs :: "bool list"

definition content :: "file_path \<Rightarrow> disk \<Rightarrow> bytes" where
  "content p d = (case files d p of None \<Rightarrow> [] | Some c \<Rightarrow> c)"

definition put :: "file_path \<Rightarrow> bytes \<Rightarrow> disk \<Rightarrow> disk" where
  "put p c d = d\<lparr>files := (files d)(p := Some c)\<rparr>"

definition os_open :: "bool \<Rightarrow> file_path \<Rightarrow> (disk, batch_error, bool) prog" where
  "os_open create p = andthen (getp id) (\<lambda>d. seqp (modp (\<lambda>d. d\<lparr>opens := tl (opens d)\<rparr>))
     (if opens d \<noteq> [] \<and> \<not> hd (opens d) then ret False
      else if files d p \<noteq> None then ret True
      else if create then seqp (modp (put p [])) (ret True) else ret False))"

definition os_remove :: "file_path \<Rightarrow> (disk, batch_error, unit) prog" where
  "os_remove p = modp (\<lambda>d. d\<lparr>files := (files d)(p := None)\<rparr>)"

text \<open>The code never looks at the result of \<open>ftruncate\<close>; when it fails the file stays as it is.\<close>

definition os_ftruncate :: "file_path \<Rightarrow> nat \<Rightarrow> (disk, batch_error, unit) prog" where
  "os_ftruncate p n = modp (\<lambda>d. let d' = d\<lparr>truncs := tl (truncs d)\<rparr> in
     if truncs d \<noteq> [] \<and> \<not> hd (truncs d) then d'
     else put p (take n (content p d) @ replicate (n - length (content p d)) 0) d')"

text \<open>\<open>read\<close> and \<open>write\<close> at a file offset; writing behind the end leaves a gap of zero bytes.\<close>

definition os_read :: "file_path \<Rightarrow> nat \<Rightarrow> nat \<Rightarrow> disk \<Rightarrow> bytes option \<times> disk" where
  "os_read p off n d = (let d' = d\<lparr>reads := tl (reads d)\<rparr>; c = drop off (content p d) in
     case reads d of [] \<Rightarrow> (Some (take n c), d')
     | None # _ \<Rightarrow> (None, d')
     | Some k # _ \<Rightarrow> (Some (take (min n (Suc k)) c), d'))"

definition write_at :: "nat \<Rightarrow> bytes \<Rightarrow> bytes \<Rightarrow> bytes" where
  "write_at off bs c = take off c @ replicate (off - length c) 0 @ bs @ drop (off + length bs) c"

definition os_write :: "file_path \<Rightarrow> nat \<Rightarrow> bytes \<Rightarrow> disk \<Rightarrow> nat option \<times> disk" where
  "os_write p off bs d = (let d' = d\<lparr>writes := tl (writes d)\<rparr>;
       done = (\<lambda>n. (Some n, put p (write_at off (take n bs) (content p d)) d')) in
     case writes d of [] \<Rightarrow> done (length bs)
     | None # _ \<Rightarrow> (None, d')
     | Some k # _ \<Rightarrow> done (min (length bs) (Suc k)))"

lemma content_put [simp]: "content p (put p c d) = c" "p \<noteq> q \<Longrightarrow> content q (put p c d) = content q d"
  by (simp_all add: content_def put_def)

lemma put_fields [simp]: "opens (put p c d) = opens d" "reads (put p c d) = reads d" "writes (put p c d) = writes d"
  "truncs (put p c d) = truncs d"
  "files (put p c d) p = Some c" "p \<noteq> q \<Longrightarrow> files (put p c d) q = files d q"
  by (simp_all add: put_def)

lemma content_fields [simp]: "content p (d\<lparr>reads := r\<rparr>) = content p d" "content p (d\<lparr>writes := r\<rparr>) = content p d"
  "content p (d\<lparr>opens := os\<rparr>) = content p d"
  by (simp_all add: content_def)

lemma put_put [simp]: "put p c (put p c' d) = put p c d"
  by (simp add: put_def)

lemma os_read_files: "os_read p off n d = (r, d') \<Longrightarrow> files d' = files d"
  by (auto simp: os_read_def Let_def split: list.splits option.splits)

lemma os_read_content: "os_read p off n d = (r, d') \<Longrightarrow> content q d' = content q d"
  by (simp add: content_def os_read_files)

lemma os_read_progress: "os_read p off n d = (Some bs, d') \<Longrightarrow> bs \<noteq> [] \<Longrightarrow> off < length (content p d)"
  by (auto simp: os_read_def Let_def split: list.splits option.splits)

lemma os_write_progress: "os_write p off bs d = (Some n, d') \<Longrightarrow> bs \<noteq> [] \<Longrightarrow> 0 < n \<and> n \<le> length bs"
  by (auto simp: os_write_def Let_def split: list.splits option.splits)

section \<open>The batch\<close>

text \<open>\<open>fd\<close> is the file offset of the open descriptor, \<open>None\<close> a negative descriptor.\<close>

record file_batch =
  fb_path :: file_path
  fd :: "nat option"
  fileSize :: nat
  eventCount :: nat
  streamAtEnd :: bool
  finalized :: bool
  fb_maxCount :: nat
  fb_maxSize :: nat

type_synonym file_state = "file_batch \<times> disk"

text \<open>
  \<open>memchr\<close> for a newline, and the loop over the newlines of a buffer: the position behind the
  last one found and their number, at most \<open>lim\<close> of them.
\<close>

fun memchr_nl :: "bytes \<Rightarrow> nat option" where
  "memchr_nl [] = None"
| "memchr_nl (c # cs) = (if c = 10 then Some 0 else map_option Suc (memchr_nl cs))"

function nl_loop :: "bytes \<Rightarrow> nat \<Rightarrow> nat \<Rightarrow> nat option \<Rightarrow> nat \<times> nat" where
  "nl_loop bs pos events lim = (case memchr_nl (drop pos bs) of None \<Rightarrow> (pos, events)
     | Some i \<Rightarrow> if lim = Some (events + 1) then (pos + i + 1, events + 1)
                 else nl_loop bs (pos + i + 1) (events + 1) lim)"
  by pat_completeness auto
termination
proof (relation "measure (\<lambda>(bs, pos, _). length bs - pos)", simp, goal_cases)
  case (1 bs pos events lim i)
  then have "drop pos bs \<noteq> []" by (cases "drop pos bs") auto
  then show ?case by simp
qed

declare nl_loop.simps [simp del]

definition seekToEndAndGetFileSize :: "file_state \<Rightarrow> file_batch" where
  "seekToEndAndGetFileSize = (\<lambda>(b, d). case fd b of
     None \<Rightarrow> b\<lparr>streamAtEnd := True, fileSize := 0\<rparr>
   | Some _ \<Rightarrow> let n = length (content (fb_path b) d) in b\<lparr>fd := Some n, streamAtEnd := True, fileSize := n\<rparr>)"

text \<open>The reading loop of \<open>countEventsInFile\<close>: offset, end of the last line, number of lines.\<close>

function count_loop :: "file_path \<Rightarrow> nat \<Rightarrow> nat \<Rightarrow> nat \<Rightarrow> disk \<Rightarrow> (nat \<times> nat \<times> nat) \<times> disk" where
  "count_loop p off lastNewline events d = (case os_read p off (16 * 1024) d of
     (None, d') \<Rightarrow> ((off, lastNewline, events), d')
   | (Some bs, d') \<Rightarrow> if bs = [] then ((off, lastNewline, events), d')
       else let (pos, n) = nl_loop bs 0 0 None
            in count_loop p (off + length bs) (if n = 0 then lastNewline else off + pos) (events + n) d')"
  by pat_completeness auto
termination
proof (relation "measure (\<lambda>(p, off, _, _, d). length (content p d) - off)", simp, goal_cases)
  case (1 p off lastNewline events d r d' bs)
  then have *: "os_read p off (16 * 1024) d = (Some bs, d')" by simp
  from os_read_progress[OF this] 1 have "off < length (content p d)" "0 < length bs" by auto
  moreover have "content p d' = content p d" by (rule os_read_content[OF *])
  ultimately show ?case by (simp only: in_measure prod.case)
qed

declare count_loop.simps [simp del]

definition countEventsInFile :: "(file_state, batch_error, unit) prog" where
  "countEventsInFile = (\<lambda>(b, d). let b = b\<lparr>eventCount := 0\<rparr> in case fd b of None \<Rightarrow> (Inr (), b, d) | Some _ \<Rightarrow>
     let ((off, lastNewline, n), d) = count_loop (fb_path b) 0 0 0 d;
         b = b\<lparr>fd := Some off, streamAtEnd := False, eventCount := n\<rparr>
     in if lastNewline \<noteq> fileSize b
        then (Inr (), b\<lparr>fileSize := lastNewline\<rparr>, snd (os_ftruncate (fb_path b) lastNewline d))
        else (Inr (), b, d))"


definition FileEventBatch :: "file_path \<Rightarrow> (disk, batch_error, file_batch) prog" where
  "FileEventBatch p = andthen (os_open True p) (\<lambda>ok d.
     let b = \<lparr> fb_path = p, fd = (if ok then Some 0 else None), fileSize = 0, eventCount = 0, streamAtEnd = False,
               finalized = False, fb_maxCount = 0, fb_maxSize = 0 \<rparr>;
         (r, b, d) = countEventsInFile (seekToEndAndGetFileSize (b, d), d)
     in (map_sum id (\<lambda>_. b) r, d))"

definition setLimit :: "nat \<Rightarrow> nat \<Rightarrow> file_batch \<Rightarrow> file_batch" where
  "setLimit mc ms b = b\<lparr>fb_maxCount := mc, fb_maxSize := ms\<rparr>"

definition setFinalized :: "file_batch \<Rightarrow> file_batch" where
  "setFinalized b = b\<lparr>finalized := True\<rparr>"

definition canAddEventInt :: "nat \<Rightarrow> file_batch \<Rightarrow> bool" where
  "canAddEventInt n b \<longleftrightarrow> (fb_maxSize b = 0 \<or> fileSize b + n \<le> fb_maxSize b) \<and>
     (fb_maxCount b = 0 \<or> eventCount b + 1 \<le> fb_maxCount b)"

definition canAddEvent :: "nat \<Rightarrow> file_batch \<Rightarrow> bool" where
  "canAddEvent n b \<longleftrightarrow> \<not> finalized b \<and> canAddEventInt n b"

text \<open>The writing loop: whether all was written, and how many bytes were.\<close>

function write_loop :: "file_path \<Rightarrow> nat \<Rightarrow> bytes \<Rightarrow> disk \<Rightarrow> (bool \<times> nat) \<times> disk" where
  "write_loop p off bs d = (if bs = [] then ((True, 0), d) else case os_write p off bs d of
     (None, d') \<Rightarrow> ((False, 0), d')
   | (Some n, d') \<Rightarrow> let ((ok, m), d'') = write_loop p (off + n) (drop n bs) d' in ((ok, n + m), d''))"
  by pat_completeness auto
termination
proof (relation "measure (\<lambda>(_, _, bs, _). length bs)", simp, goal_cases)
  case (1 p off bs d r d' n)
  then have "os_write p off bs d = (Some n, d')" by simp
  from os_write_progress[OF this] 1 show ?case by simp
qed

declare write_loop.simps [simp del]

definition file_add_bytes :: "bytes \<Rightarrow> (file_state, batch_error, bool) prog" where
  "file_add_bytes data = (\<lambda>(b, d).
     if fd b = None \<or> finalized b \<or> \<not> canAddEventInt (length data) b then (Inr False, b, d)
     else let b = (if streamAtEnd b then b else seekToEndAndGetFileSize (b, d));
              off = the (fd b);
              ((ok, m), d) = write_loop (fb_path b) off data d;
              b = b\<lparr>fd := Some (off + m)\<rparr>
          in if \<not> ok then (Inr False, b, if m > 0 then snd (os_ftruncate (fb_path b) (fileSize b) d) else d)
             else (Inr True, b\<lparr>fileSize := fileSize b + m, eventCount := eventCount b + 1\<rparr>, d))"

definition file_addEvent :: "('j \<Rightarrow> bytes) \<Rightarrow> 'j \<Rightarrow> (file_state, batch_error, bool) prog" where
  "file_addEvent dump rawData = file_add_bytes (event_line dump rawData)"

text \<open>Reading until \<open>want\<close> bytes are there, the end is reached or a read fails.\<close>

function read_loop :: "file_path \<Rightarrow> nat \<Rightarrow> nat \<Rightarrow> disk \<Rightarrow> bytes \<times> disk" where
  "read_loop p off want d = (case os_read p off want d of
     (None, d') \<Rightarrow> ([], d')
   | (Some bs, d') \<Rightarrow> if bs = [] then ([], d')
       else let (rest, d'') = read_loop p (off + length bs) (want - length bs) d' in (bs @ rest, d''))"
  by pat_completeness auto
termination
proof (relation "measure (\<lambda>(p, off, _, d). length (content p d) - off)", simp, goal_cases)
  case (1 p off want d r d' bs)
  then have *: "os_read p off want d = (Some bs, d')" by simp
  from os_read_progress[OF this] 1 have "off < length (content p d)" "0 < length bs" by auto
  moreover have "content p d' = content p d" by (rule os_read_content[OF *])
  ultimately show ?case by (simp only: in_measure prod.case)
qed

declare read_loop.simps [simp del]

definition file_getEventsForUpload :: "nat \<Rightarrow> nat \<Rightarrow> (file_state, batch_error, event_list option) prog" where
  "file_getEventsForUpload maxCount maxSize = (\<lambda>(b, d).
     if fd b = None \<or> fileSize b = 0 \<or> maxCount = 0 then (Inr None, b, d)
     else let want = min (min maxSize max_chunk) (fileSize b);
              (data, d) = read_loop (fb_path b) 0 want d;
              (n, events) = nl_loop data 0 0 (Some maxCount);
              b = b\<lparr>fd := Some (length data), streamAtEnd := False\<rparr>
          in (Inr (Some (Vector (take n data) events (n < fileSize b))), b, d))"

text \<open>
  The copy loop of \<open>onEventsUploaded\<close>: the file is read through a second descriptor at \<open>src\<close> and
  written over itself at \<open>dst\<close>; a failed write leaves only the inner loop. The number of bytes
  written is the result.
\<close>

function copy_loop :: "file_path \<Rightarrow> nat \<Rightarrow> nat \<Rightarrow> disk \<Rightarrow> nat \<Rightarrow> nat option \<times> disk" where
  "copy_loop p src dst d 0 = (None, d)"
| "copy_loop p src dst d (Suc fuel) = (case os_read p src max_chunk d of
     (None, d') \<Rightarrow> (Some dst, d')
   | (Some bs, d') \<Rightarrow> if bs = [] then (Some dst, d')
       else let ((ok, m), d'') = write_loop p dst bs d'
            in copy_loop p (src + length bs) (dst + m) d'' fuel)"
  by pat_completeness auto
termination by (relation "measure (\<lambda>(_, _, _, _, fuel). fuel)") auto

text \<open>
  Each round reads at least one byte and the file does not grow behind the reading offset, so
  one round per byte and one more are enough.
\<close>

definition file_onEventsUploaded :: "event_list \<Rightarrow> (file_state, batch_error, unit) prog" where
  "file_onEventsUploaded events = (\<lambda>(b, d). if fd b = None then (Inr (), b, d) else
     case (getDataSize events, getEventCount events) of
       (Some sz, Some count) \<Rightarrow>
         if fileSize b = sz then
           let b = b\<lparr>fileSize := 0, eventCount := 0\<rparr> in
           if finalized b then (Inr (), b\<lparr>fd := None\<rparr>, snd (os_remove (fb_path b) d))
           else (Inr (), b, snd (os_ftruncate (fb_path b) 0 d))
         else (case os_open False (fb_path b) d of
             (Inl e, d) \<Rightarrow> (Inl e, b, d)
           | (Inr False, d) \<Rightarrow> (Inl OpenFailed, b, d)
           | (Inr True, d) \<Rightarrow> (case copy_loop (fb_path b) sz 0 d (length (content (fb_path b) d) + 1) of
                 (None, d) \<Rightarrow> (Inl NoFuel, b, d)
               | (Some n, d) \<Rightarrow>
                   (Inr (), b\<lparr>fd := Some n, fileSize := n, eventCount := size_sub (eventCount b) count\<rparr>,
                    snd (os_ftruncate (fb_path b) n d))))
     | _ \<Rightarrow> (Inl NullList, b, d))"

definition file_hasEvents :: "(file_state, batch_error, bool) prog" where
  "file_hasEvents = getp (\<lambda>(b, d). fileSize b \<noteq> 0)"

definition file_ops :: "('j \<Rightarrow> bytes) \<Rightarrow> (file_state, 'j) event_batch" where
  "file_ops dump = \<lparr> addEvent = file_addEvent dump, getEventsForUpload = file_getEventsForUpload,
     onEventsUploaded = file_onEventsUploaded, hasEvents = file_hasEvents \<rparr>"


section \<open>Lines\<close>

definition is_line :: "bytes \<Rightarrow> bool" where
  "is_line l \<longleftrightarrow> (\<exists>x. l = x @ [10] \<and> 10 \<notin> set x)"

function split_lines :: "bytes \<Rightarrow> bytes list" where
  "split_lines bs = (case memchr_nl bs of None \<Rightarrow> [] | Some i \<Rightarrow> take (Suc i) bs # split_lines (drop (Suc i) bs))"
  by pat_completeness auto
termination
proof (relation "measure length", simp, goal_cases)
  case (1 bs i)
  then have "bs \<noteq> []" by auto
  then show ?case by simp
qed

declare split_lines.simps [simp del]

lemma memchr_nl_line [simp]: "10 \<notin> set x \<Longrightarrow> memchr_nl (x @ 10 # r) = Some (length x)"
  by (induction x) auto

lemma memchr_nl_None [simp]: "memchr_nl bs = None \<longleftrightarrow> 10 \<notin> set bs"
  by (induction bs) auto

lemma memchr_nl_notin [simp]: "10 \<notin> set bs \<Longrightarrow> memchr_nl bs = None"
  by simp

lemma is_line_pos: "is_line l \<Longrightarrow> 0 < length l"
  by (auto simp: is_line_def)

lemma split_lines_line: "is_line l \<Longrightarrow> split_lines (l @ r) = l # split_lines r"
proof -
  assume "is_line l"
  then obtain x where x: "l = x @ [10]" "10 \<notin> set x" by (auto simp: is_line_def)
  show ?thesis by (subst split_lines.simps) (simp add: x)
qed

lemma split_lines_rest: "10 \<notin> set r \<Longrightarrow> split_lines r = []"
  by (subst split_lines.simps) simp

lemma split_lines_concat: "\<forall>l \<in> set ls. is_line l \<Longrightarrow> 10 \<notin> set r \<Longrightarrow> split_lines (concat ls @ r) = ls"
  by (induction ls) (auto simp: split_lines_line split_lines_rest)

lemma split_lines_concat' [simp]: "\<forall>l \<in> set ls. is_line l \<Longrightarrow> split_lines (concat ls) = ls"
  using split_lines_concat[of ls "[]"] by simp

text \<open>Every buffer is a sequence of lines and an unfinished rest.\<close>

lemma lines_split:
  obtains ls r where "bs = concat ls @ r" "\<forall>l \<in> set ls. is_line l" "10 \<notin> set r" "split_lines bs = ls"
proof -
  have "\<exists>ls r. bs = concat ls @ r \<and> (\<forall>l \<in> set ls. is_line l) \<and> 10 \<notin> set r"
  proof (induction "length bs" arbitrary: bs rule: less_induct)
    case less
    show ?case
    proof (cases "10 \<in> set bs")
      case True
      then obtain x r where s: "bs = x @ 10 # r" "10 \<notin> set x" by (metis split_list_first)
      with less[of r] obtain ls r' where "r = concat ls @ r'" "\<forall>l \<in> set ls. is_line l" "10 \<notin> set r'" by auto
      with s show ?thesis by (intro exI[of _ "(x @ [10]) # ls"] exI[of _ r']) (auto simp: is_line_def)
    qed (auto intro: exI[of _ "[]"])
  qed
  then obtain ls r where "bs = concat ls @ r" "\<forall>l \<in> set ls. is_line l" "10 \<notin> set r" by blast
  with split_lines_concat[of ls r] that show ?thesis by blast
qed

lemma split_lines_is_line: "l \<in> set (split_lines bs) \<Longrightarrow> is_line l"
  by (rule lines_split[of bs]) auto

text \<open>The newline loop finds the complete lines, up to the limit.\<close>

lemma nl_loop_lines:
  assumes "drop pos bs = concat ls @ r" "pos \<le> length bs" "\<forall>l \<in> set ls. is_line l" "10 \<notin> set r"
    "k = (case lim of None \<Rightarrow> length ls | Some m \<Rightarrow> min (length ls) (m - e))" "\<And>m. lim = Some m \<Longrightarrow> e < m"
  shows "nl_loop bs pos e lim = (pos + length (concat (take k ls)), e + k)"
  using assms
proof (induction ls arbitrary: pos e k)
  case Nil
  then show ?case by (subst nl_loop.simps) (auto split: option.splits)
next
  case (Cons l ls)
  then obtain x where x: "l = x @ [10]" "10 \<notin> set x" by (auto simp: is_line_def)
  have m: "memchr_nl (drop pos bs) = Some (length x)" using Cons.prems(1) x by simp
  have le: "pos + length x + 1 \<le> length bs" using arg_cong[OF Cons.prems(1), of length] Cons.prems(2) x by simp
  have d: "drop (pos + length x + 1) bs = concat ls @ r"
    using arg_cong[OF Cons.prems(1), of "drop (length x + 1)"] x by (simp add: add.commute)
  show ?case
  proof (cases "lim = Some (e + 1)")
    case True
    with Cons.prems(5) have "k = 1" by simp
    with True m x show ?thesis by (subst nl_loop.simps) simp
  next
    case False
    define k' where "k' = (case lim of None \<Rightarrow> length ls | Some m \<Rightarrow> min (length ls) (m - (e + 1)))"
    have lim: "e + 1 < m" if "lim = Some m" for m using Cons.prems(6)[OF that] False that by simp
    have k: "k = Suc k'" using Cons.prems(5) lim unfolding k'_def
      by (cases lim) (auto simp: Suc_diff_Suc)
    have "nl_loop bs (pos + length x + 1) (e + 1) lim = (pos + length x + 1 + length (concat (take k' ls)), e + 1 + k')"
      by (rule Cons.IH[OF d le _ Cons.prems(4) k'_def lim]) (use Cons.prems in auto)
    with False m x k show ?thesis by (subst nl_loop.simps) simp
  qed
qed

lemma take_lines:
  assumes "\<forall>l \<in> set ls. is_line l"
  shows "\<exists>k r. k \<le> length ls \<and> take w (concat ls) = concat (take k ls) @ r \<and> 10 \<notin> set r \<and>
           (ls \<noteq> [] \<and> length (hd ls) \<le> w \<longrightarrow> 0 < k)"
  using assms
proof (induction ls arbitrary: w)
  case (Cons l ls)
  then obtain x where x: "l = x @ [10]" "10 \<notin> set x" by (auto simp: is_line_def)
  show ?case
  proof (cases "length l \<le> w")
    case True
    obtain k r where "k \<le> length ls" "take (w - length l) (concat ls) = concat (take k ls) @ r" "10 \<notin> set r"
      using Cons.IH[of "w - length l"] Cons.prems by auto
    with True show ?thesis by (intro exI[of _ "Suc k"] exI[of _ r]) auto
  next
    case False
    then have "take w (l @ concat ls) = take w x" using x by simp
    with x False show ?thesis by (intro exI[of _ 0] exI[of _ "take w x"]) (auto dest: in_set_takeD)
  qed
qed simp


section \<open>The loops on a disk without errors\<close>

text \<open>No error is to come; transfers may still be short.\<close>

definition reliable :: "disk \<Rightarrow> bool" where
  "reliable d \<longleftrightarrow> False \<notin> set (opens d) \<and> None \<notin> set (reads d) \<and> None \<notin> set (writes d) \<and> False \<notin> set (truncs d)"

lemma in_tl: "x \<in> set (tl xs) \<Longrightarrow> x \<in> set xs"
  by (cases xs) auto

lemma reliable_put [simp]: "reliable (put p c d) = reliable d"
  by (simp add: reliable_def)

lemma reliable_tl [simp]:
  "reliable d \<Longrightarrow> reliable (d\<lparr>reads := tl (reads d)\<rparr>)" "reliable d \<Longrightarrow> reliable (d\<lparr>writes := tl (writes d)\<rparr>)"
  "reliable d \<Longrightarrow> reliable (d\<lparr>opens := tl (opens d)\<rparr>)"
  by (auto simp: reliable_def dest: in_tl)

text \<open>\<open>d'\<close> differs from \<open>d\<close> at most in the file \<open>p\<close>, which now holds \<open>c\<close>.\<close>

definition only_file :: "file_path \<Rightarrow> disk \<Rightarrow> bytes \<Rightarrow> disk \<Rightarrow> bool" where
  "only_file p d c d' \<longleftrightarrow> reliable d' \<and> files d' = (files d)(p := Some c)"

lemma only_fileD:
  "only_file p d c d' \<Longrightarrow> content p d' = c" "only_file p d c d' \<Longrightarrow> reliable d'" "only_file p d c d' \<Longrightarrow> files d' p = Some c"
  "only_file p d c d' \<Longrightarrow> q \<noteq> p \<Longrightarrow> files d' q = files d q" "only_file p d c d' \<Longrightarrow> q \<noteq> p \<Longrightarrow> content q d' = content q d"
  by (auto simp: only_file_def content_def)

lemma only_file_trans: "only_file p d c d' \<Longrightarrow> only_file p d' c' d'' \<Longrightarrow> only_file p d c' d''"
  by (simp add: only_file_def)

lemma only_file_same: "reliable d' \<Longrightarrow> files d' = files d \<Longrightarrow> files d p = Some c \<Longrightarrow> only_file p d c d'"
  by (simp add: only_file_def fun_upd_idem)

lemma os_ftruncate_only: "reliable d \<Longrightarrow> only_file p d (take n (content p d) @ replicate (n - length (content p d)) 0) (snd (os_ftruncate p n d))"
  by (cases "truncs d") (auto simp: os_ftruncate_def modp_def only_file_def put_def reliable_def Let_def)

lemma os_read_reliable:
  assumes "reliable d"
  obtains bs d' where "os_read p off n d = (Some bs, d')" "reliable d'" "files d' = files d"
    "take (length bs) (drop off (content p d)) = bs" "length bs \<le> n" "bs = [] \<Longrightarrow> n = 0 \<or> length (content p d) \<le> off"
proof -
  obtain m where m: "os_read p off n d = (Some (take m (drop off (content p d))), d\<lparr>reads := tl (reads d)\<rparr>)"
    "m \<le> n" "m = 0 \<longrightarrow> n = 0"
  proof (cases "reads d")
    case Nil
    then show ?thesis by (intro that[of n]) (simp_all add: os_read_def)
  next
    case (Cons r rs)
    with assms obtain k where "r = Some k" by (cases r) (auto simp: reliable_def)
    with Cons show ?thesis by (intro that[of "min n (Suc k)"]) (simp_all add: os_read_def min_def)
  qed
  show ?thesis by (rule that[OF m(1)]) (use assms m(2,3) in \<open>auto simp: min_def\<close>)
qed

lemma os_write_reliable:
  assumes "reliable d"
  obtains k d' where "os_write p off bs d = (Some (min (length bs) (Suc k)), d')"
    "only_file p d (write_at off (take (Suc k) bs) (content p d)) d'"
proof (cases "writes d")
  case Nil
  then have "os_write p off bs d = (Some (min (length bs) (Suc (length bs))),
      put p (write_at off (take (Suc (length bs)) bs) (content p d)) (d\<lparr>writes := tl (writes d)\<rparr>))"
    by (simp add: os_write_def)
  then show ?thesis by (rule that) (use assms in \<open>auto simp: only_file_def put_def reliable_def Nil\<close>)
next
  case (Cons r rs)
  with assms obtain k where "r = Some k" by (cases r) (auto simp: reliable_def)
  with Cons have "os_write p off bs d = (Some (min (length bs) (Suc k)),
      put p (write_at off (take (Suc k) bs) (content p d)) (d\<lparr>writes := tl (writes d)\<rparr>))"
    by (simp add: os_write_def min_def)
  then show ?thesis by (rule that) (use assms in \<open>auto simp: only_file_def put_def reliable_def Cons\<close>)
qed

lemma write_at_write_at:
  assumes "off \<le> length c" "n \<le> length bs"
  shows "write_at (off + n) (drop n bs) (write_at off (take n bs) c) = write_at off bs c"
  using assms by (simp add: write_at_def min_def flip: append_assoc) (simp add: add.commute)

lemma write_at_end [simp]: "write_at (length c) bs c = c @ bs"
  by (simp add: write_at_def)

lemma length_write_at: "off \<le> length c \<Longrightarrow> length (write_at off bs c) = max (length c) (off + length bs)"
  by (simp add: write_at_def)

lemma write_loop_reliable:
  assumes "reliable d" "off \<le> length (content p d)" "files d p \<noteq> None"
  shows "\<exists>d'. write_loop p off bs d = ((True, length bs), d') \<and> only_file p d (write_at off bs (content p d)) d'"
  using assms
proof (induction p off bs d rule: write_loop.induct)
  case (1 p off bs d)
  show ?case
  proof (cases "bs = []")
    case True
    with 1 show ?thesis
      by (subst write_loop.simps) (auto simp: write_at_def content_def intro!: only_file_same)
  next
    case False
    obtain k d' where w: "os_write p off bs d = (Some (min (length bs) (Suc k)), d')"
      "only_file p d (write_at off (take (Suc k) bs) (content p d)) d'"
      using os_write_reliable[OF 1(2)] by blast
    let ?n = "min (length bs) (Suc k)"
    have c: "content p d' = write_at off (take ?n bs) (content p d)" using only_fileD(1)[OF w(2)] by (simp add: min_def)
    have "\<exists>d''. write_loop p (off + ?n) (drop ?n bs) d' = ((True, length (drop ?n bs)), d'') \<and>
        only_file p d' (write_at (off + ?n) (drop ?n bs) (content p d')) d''"
    proof (rule 1(1)[OF False w(1)[symmetric] refl])
      show "reliable d'" "files d' p \<noteq> None" using only_fileD[OF w(2)] by simp_all
      show "off + ?n \<le> length (content p d')" using 1(3) by (simp add: c length_write_at)
    qed
    then obtain d'' where r: "write_loop p (off + ?n) (drop ?n bs) d' = ((True, length (drop ?n bs)), d'')"
      "only_file p d' (write_at (off + ?n) (drop ?n bs) (content p d')) d''" by blast
    have "write_loop p off bs d = ((True, length bs), d'')"
      using False w(1) r(1) by (subst write_loop.simps) simp
    moreover have "only_file p d (write_at off bs (content p d)) d''"
      using only_file_trans[OF w(2) r(2)] write_at_write_at[OF 1(3), of ?n bs] by (simp add: c)
    ultimately show ?thesis by blast
  qed
qed

lemma read_loop_reliable:
  assumes "reliable d"
  shows "\<exists>d'. read_loop p off want d = (take want (drop off (content p d)), d') \<and> reliable d' \<and> files d' = files d"
  using assms
proof (induction p off want d rule: read_loop.induct)
  case (1 p off want d)
  obtain bs d' where r: "os_read p off want d = (Some bs, d')" "reliable d'" "files d' = files d"
    "take (length bs) (drop off (content p d)) = bs" "length bs \<le> want" "bs = [] \<Longrightarrow> want = 0 \<or> length (content p d) \<le> off"
    using os_read_reliable[OF 1(2)] by blast
  show ?case
  proof (cases "bs = []")
    case True
    with r(6) have "take want (drop off (content p d)) = []" by auto
    with True r show ?thesis by (subst read_loop.simps) auto
  next
    case False
    from 1(1)[OF r(1)[symmetric] refl False r(2)] obtain d'' where
      d: "read_loop p (off + length bs) (want - length bs) d' =
            (take (want - length bs) (drop (off + length bs) (content p d')), d'')" "reliable d''" "files d'' = files d'"
      by blast
    have c: "content p d' = content p d" using r(3) by (simp add: content_def)
    have "bs @ take (want - length bs) (drop (off + length bs) (content p d)) = take want (drop off (content p d))"
      using take_add[of "length bs" "want - length bs" "drop off (content p d)"] r(4,5) by (simp add: add.commute)
    with False r(1) d c r(3) show ?thesis by (subst read_loop.simps) (auto simp: Let_def)
  qed
qed

text \<open>
  Counting chunk by chunk is counting over the whole file: the position behind the last newline
  and the number of newlines.
\<close>

definition last_nl :: "bytes \<Rightarrow> nat" where
  "last_nl bs = length (concat (split_lines bs))"

definition count_nl :: "bytes \<Rightarrow> nat" where
  "count_nl bs = length (filter (\<lambda>c. c = 10) bs)"

lemma filter_is_line [simp]: "is_line l \<Longrightarrow> filter (\<lambda>c. c = 10) l = [10]"
  by (auto simp: is_line_def filter_empty_conv)

lemma count_nl_lines: "count_nl bs = length (split_lines bs)"
proof (rule lines_split[of bs])
  fix ls r assume *: "bs = concat ls @ r" "\<forall>l \<in> set ls. is_line l" "10 \<notin> set r" "split_lines bs = ls"
  have "count_nl (concat ls) = length ls" using *(2) by (induction ls) (auto simp: count_nl_def)
  with * show ?thesis by (auto simp: count_nl_def filter_empty_conv)
qed

lemma nl_loop_all: "nl_loop bs 0 0 None = (last_nl bs, count_nl bs)"
proof (rule lines_split[of bs])
  fix ls r assume *: "bs = concat ls @ r" "\<forall>l \<in> set ls. is_line l" "10 \<notin> set r" "split_lines bs = ls"
  then show ?thesis using nl_loop_lines[of 0 bs ls r "length ls" 0 None] by (simp add: last_nl_def count_nl_lines)
qed

text \<open>The position behind the last newline, by what lies behind it.\<close>

lemma last_nl_unique: "10 \<notin> set r \<Longrightarrow> last_nl (x @ 10 # r) = length x + 1"
proof (rule lines_split[of "x @ [10]"])
  fix ls r' assume r: "10 \<notin> set r" and *: "x @ [10] = concat ls @ r'" "\<forall>l \<in> set ls. is_line l" "10 \<notin> set r'"
  have "r' = []" using * by (cases r' rule: rev_cases) auto
  then have c: "concat ls = x @ [10]" using *(1) by simp
  then have "split_lines (x @ 10 # r) = ls" "length (concat ls) = length x + 1"
    using split_lines_concat[OF *(2) r] unfolding c by simp_all
  then show ?thesis by (simp add: last_nl_def)
qed

lemma last_nl_take: "take (last_nl bs) bs = concat (split_lines bs)" "last_nl bs \<le> length bs"
  by (rule lines_split[of bs], simp add: last_nl_def)+

lemma last_nl_none: "10 \<notin> set r \<Longrightarrow> last_nl r = 0"
  by (simp add: last_nl_def split_lines_rest)

lemma last_nl_append: "last_nl (xs @ ys) = (if count_nl ys = 0 then last_nl xs else length xs + last_nl ys)"
proof (cases "10 \<in> set ys")
  case True
  then obtain a b where "ys = a @ 10 # b" "10 \<notin> set b" by (metis split_list_last)
  then show ?thesis using last_nl_unique[of b a] last_nl_unique[of b "xs @ a"] by (simp add: count_nl_def)
next
  case F: False
  then have z: "count_nl ys = 0" by (auto simp: count_nl_def filter_empty_conv)
  show ?thesis
  proof (cases "10 \<in> set xs")
    case True
    then obtain a b where "xs = a @ 10 # b" "10 \<notin> set b" by (metis split_list_last)
    then show ?thesis using F z last_nl_unique[of b a] last_nl_unique[of "b @ ys" a] by simp
  qed (use F z in \<open>simp add: last_nl_none\<close>)
qed

lemma count_nl_append: "count_nl (xs @ ys) = count_nl xs + count_nl ys"
  by (simp add: count_nl_def)

lemma count_loop_reliable:
  assumes "reliable d" "off \<le> length (content p d)" "ln = last_nl (take off (content p d))" "ev = count_nl (take off (content p d))"
  shows "\<exists>d'. count_loop p off ln ev d = ((length (content p d), last_nl (content p d), count_nl (content p d)), d') \<and>
           reliable d' \<and> files d' = files d"
  using assms
proof (induction p off ln ev d rule: count_loop.induct)
  case (1 p off ln ev d)
  obtain bs d' where r: "os_read p off (16 * 1024) d = (Some bs, d')" "reliable d'" "files d' = files d"
    "take (length bs) (drop off (content p d)) = bs" "bs = [] \<Longrightarrow> 16 * 1024 = (0::nat) \<or> length (content p d) \<le> off"
    using os_read_reliable[OF 1(2)] by blast
  show ?case
  proof (cases "bs = []")
    case True
    with 1(3) r(5) have "off = length (content p d)" by simp
    with 1(4,5) True r show ?thesis by (subst count_loop.simps) auto
  next
    case False
    let ?off = "off + length bs"
    have c: "content p d' = content p d" using r(3) by (simp add: content_def)
    have t: "take ?off (content p d) = take off (content p d) @ bs" using r(4) by (simp add: take_add)
    have le: "?off \<le> length (content p d)" using arg_cong[OF r(4), of length] 1(3) by simp
    have "\<exists>d''. count_loop p ?off (if count_nl bs = 0 then ln else off + last_nl bs) (ev + count_nl bs) d' =
        ((length (content p d'), last_nl (content p d'), count_nl (content p d')), d'') \<and> reliable d'' \<and> files d'' = files d'"
    proof (rule 1(1)[OF r(1)[symmetric] refl False nl_loop_all[symmetric] refl r(2)])
      show "?off \<le> length (content p d')" using le c by simp
      show "(if count_nl bs = 0 then ln else off + last_nl bs) = last_nl (take ?off (content p d'))"
        using 1(3,4) by (simp only: c t last_nl_append) (simp add: min_def)
      show "ev + count_nl bs = count_nl (take ?off (content p d'))"
        using 1(5) by (simp only: c t count_nl_append)
    qed
    with False r(1,3) c show ?thesis by (subst count_loop.simps) (simp add: nl_loop_all Let_def)
  qed
qed

text \<open>
  Copying the rest of a file over its beginning. Whatever the transfers do, one round per byte
  is enough; without errors the file then begins with its old rest.
\<close>

lemma copy_loop_reliable:
  assumes "reliable d" "dst \<le> src" "src \<le> length (content p d)" "files d p \<noteq> None" "length (content p d) - src < fuel"
  shows "\<exists>d' c'. copy_loop p src dst d fuel = (Some (dst + (length (content p d) - src)), d') \<and> only_file p d c' d' \<and>
     take (dst + (length (content p d) - src)) c' = take dst (content p d) @ drop src (content p d) \<and>
     length c' = length (content p d)"
  using assms
proof (induction fuel arbitrary: src dst d)
  case (Suc fuel)
  let ?c = "content p d"
  obtain bs d1 where r: "os_read p src max_chunk d = (Some bs, d1)" "reliable d1" "files d1 = files d"
    "take (length bs) (drop src ?c) = bs" "bs = [] \<Longrightarrow> max_chunk = 0 \<or> length ?c \<le> src"
    using os_read_reliable[OF Suc.prems(1)] by blast
  have c1: "content p d1 = ?c" using r(3) by (simp add: content_def)
  show ?case
  proof (cases "bs = []")
    case True
    with Suc.prems(3) r(5) have "src = length ?c" by (simp add: max_chunk_def)
    moreover have "only_file p d ?c d1"
      using Suc.prems(4) r by (auto intro!: only_file_same simp: content_def)
    ultimately show ?thesis using True r Suc.prems(2) by (auto intro!: exI[of _ ?c])
  next
    case False
    have m: "dst + length bs \<le> src + length bs" "src + length bs \<le> length ?c"
      using Suc.prems(2,3) arg_cong[OF r(4), of length] by auto
    obtain d2 where w: "write_loop p dst bs d1 = ((True, length bs), d2)" "only_file p d1 (write_at dst bs ?c) d2"
      using write_loop_reliable[of d1 dst p bs] r Suc.prems(2-4) c1 by auto
    let ?c2 = "write_at dst bs ?c"
    have c2: "content p d2 = ?c2" by (rule only_fileD(1)[OF w(2)])
    have l2: "length ?c2 = length ?c" using m Suc.prems(2,3) by (simp add: length_write_at)
    have h: "dst \<le> length ?c" using Suc.prems(2,3) by simp
    have t2: "take (dst + length bs) ?c2 = take dst ?c @ bs" using h by (simp add: write_at_def)
    have s2: "drop (src + length bs) ?c2 = drop (src + length bs) ?c"
    proof -
      have "write_at dst bs ?c = (take dst ?c @ bs) @ drop (dst + length bs) ?c" using h by (simp add: write_at_def)
      moreover have "length (take dst ?c @ bs) = dst + length bs" using h by simp
      ultimately have "drop (src + length bs) ?c2 = drop (src + length bs - (dst + length bs)) (drop (dst + length bs) ?c)"
        using m(1) by (metis append_Nil drop_all drop_append)
      then show ?thesis using m(1) by (metis add.commute drop_drop le_add_diff_inverse)
    qed
    have n2: "src + length bs \<le> length ?c2" "length ?c2 - (src + length bs) < fuel"
      using m l2 Suc.prems(5) length_greater_0_conv[of bs] False by (simp_all, linarith)
    obtain d' c' where i: "copy_loop p (src + length bs) (dst + length bs) d2 fuel =
          (Some (dst + length bs + (length ?c2 - (src + length bs))), d')" "only_file p d2 c' d'"
        "take (dst + length bs + (length ?c2 - (src + length bs))) c' = take (dst + length bs) ?c2 @ drop (src + length bs) ?c2"
        "length c' = length ?c2"
      using Suc.IH[of d2 "dst + length bs" "src + length bs"] only_fileD(2,3)[OF w(2)] c2 m n2 by auto
    have e: "dst + length bs + (length ?c2 - (src + length bs)) = dst + (length ?c - src)" using m l2 by linarith
    have bsd: "bs @ drop (src + length bs) ?c = drop src ?c"
      using append_take_drop_id[of "length bs" "drop src ?c"] r(4) by (simp add: add.commute)
    have "copy_loop p src dst d (Suc fuel) = (Some (dst + (length ?c - src)), d')"
      using r(1) False w(1) i(1) by (simp add: e[symmetric])
    moreover have "only_file p d c' d'"
      using i(2) w(2) r(3) by (simp add: only_file_def)
    ultimately show ?thesis using i(3)[unfolded e t2 s2 append_assoc bsd] i(4)[unfolded l2] by blast
  qed
qed simp


declare copy_loop.simps [simp del]

section \<open>The batch holds its lines\<close>

text \<open>The members agree with a file that holds \<open>c\<close>.\<close>

definition complete :: "bytes \<Rightarrow> bool" where
  "complete c \<longleftrightarrow> concat (split_lines c) = c"

definition file_good :: "file_batch \<Rightarrow> bytes \<Rightarrow> bool" where
  "file_good b c \<longleftrightarrow> (\<exists>off. fd b = Some off \<and> (streamAtEnd b \<longrightarrow> off = length c)) \<and> complete c \<and>
     fileSize b = length c \<and> eventCount b = length (split_lines c)"

definition same_setup :: "file_batch \<Rightarrow> file_batch \<Rightarrow> bool" where
  "same_setup b b' \<longleftrightarrow> fb_path b' = fb_path b \<and> finalized b' = finalized b \<and>
     fb_maxCount b' = fb_maxCount b \<and> fb_maxSize b' = fb_maxSize b"

lemma same_setup_refl [simp]: "same_setup b b"
  by (simp add: same_setup_def)

lemma complete_concat [simp]: "\<forall>l \<in> set ls. is_line l \<Longrightarrow> complete (concat ls)"
  by (simp add: complete_def)

lemma completeE:
  assumes "complete c"
  obtains ls where "c = concat ls" "\<forall>l \<in> set ls. is_line l" "split_lines c = ls"
  using assms by (metis complete_def split_lines_is_line)

lemma split_lines_append_line: "complete c \<Longrightarrow> is_line l \<Longrightarrow> split_lines (c @ l) = split_lines c @ [l] \<and> complete (c @ l)"
proof (erule completeE)
  fix ls assume "c = concat ls" "\<forall>l \<in> set ls. is_line l" "is_line l"
  then show ?thesis using split_lines_concat'[of "ls @ [l]"] complete_concat[of "ls @ [l]"] by simp
qed

lemma split_lines_empty: "complete c \<Longrightarrow> split_lines c = [] \<longleftrightarrow> c = []"
  by (auto elim!: completeE simp: split_lines_rest)

lemma event_line_is_line: "10 \<notin> set (dump e) \<Longrightarrow> is_line (event_line dump e)"
  by (auto simp: is_line_def event_line_def intro!: exI[of _ "dump e @ [13]"])

text \<open>Opening a file drops an unfinished line at its end.\<close>

lemma os_open_reliable:
  assumes "reliable d" "create \<or> files d p \<noteq> None"
  shows "\<exists>d'. os_open create p d = (Inr True, d') \<and> only_file p d (content p d) d'"
proof -
  have "opens d = [] \<or> hd (opens d)" using assms(1) by (cases "opens d") (auto simp: reliable_def)
  then show ?thesis using assms
    by (cases "files d p") (auto simp: os_open_def prog_simps only_file_def put_def content_def fun_upd_idem
        reliable_def dest: in_tl)
qed

lemma FileEventBatch_opens:
  assumes "reliable d"
  shows "\<exists>b d'. FileEventBatch p d = (Inr b, d') \<and> only_file p d (concat (split_lines (content p d))) d' \<and>
    file_good b (concat (split_lines (content p d))) \<and> fb_path b = p \<and> \<not> finalized b \<and> fb_maxCount b = 0 \<and> fb_maxSize b = 0"
proof -
  let ?c = "content p d" and ?ls = "split_lines (content p d)"
  have ls: "\<forall>l \<in> set ?ls. is_line l" using split_lines_is_line by blast
  obtain d1 where o: "os_open True p d = (Inr True, d1)" "only_file p d ?c d1" using os_open_reliable[OF assms] by blast
  note o1 = only_fileD[OF o(2)]
  obtain d2 where l: "count_loop p 0 0 0 d1 = ((length ?c, last_nl ?c, count_nl ?c), d2)" "reliable d2" "files d2 = files d1"
    using count_loop_reliable[of d1 0 p 0 0] o1 by (auto simp: last_nl_none count_nl_def)
  have c2: "content p d2 = ?c" using l(3) o1(1) by (simp add: content_def)
  have tr: "only_file p d2 (concat ?ls) (snd (os_ftruncate p (last_nl ?c) d2))"
    using os_ftruncate_only[OF l(2), of p "last_nl ?c"] by (simp add: c2 last_nl_take)
  have same: "only_file p d (concat ?ls) d2" if "last_nl ?c = length ?c"
    using last_nl_take(1)[of ?c] that l(2,3) o(2) by (simp add: only_file_def)
  have trunc: "only_file p d (concat ?ls) (snd (os_ftruncate p (last_nl ?c) d2))"
    using tr l(3) o(2) by (simp add: only_file_def)
  let ?b = "\<lparr> fb_path = p, fd = Some (length ?c), fileSize = last_nl ?c, eventCount = count_nl ?c, streamAtEnd = False,
               finalized = False, fb_maxCount = 0, fb_maxSize = 0 \<rparr>"
  have "os_open True p d = (Inr True, d1)" by (fact o(1))
  then have "FileEventBatch p d = (Inr ?b, if last_nl ?c \<noteq> length ?c then snd (os_ftruncate p (last_nl ?c) d2) else d2)"
    by (simp add: FileEventBatch_def andthen_def seekToEndAndGetFileSize_def countEventsInFile_def Let_def o1(1) l(1))
  moreover have "file_good ?b (concat ?ls)" using ls by (simp add: file_good_def last_nl_def count_nl_lines)
  moreover have "only_file p d (concat ?ls) (if last_nl ?c \<noteq> length ?c then snd (os_ftruncate p (last_nl ?c) d2) else d2)"
    using same trunc by simp
  ultimately show ?thesis by (intro exI conjI) (assumption+, simp_all)
qed


lemma file_add_good:
  assumes "reliable d" "files d (fb_path b) = Some c" "file_good b c" "is_line data"
  shows "\<exists>b' d'. file_add_bytes data (b, d) = (Inr (canAddEvent (length data) b), b', d') \<and> same_setup b b' \<and>
    (let c' = (if canAddEvent (length data) b then c @ data else c) in only_file (fb_path b) d c' d' \<and> file_good b' c')"
proof (cases "canAddEvent (length data) b")
  case False
  then show ?thesis using assms
    by (auto simp: file_add_bytes_def canAddEvent_def file_good_def only_file_same)
next
  case True
  let ?p = "fb_path b"
  let ?b = "if streamAtEnd b then b else seekToEndAndGetFileSize (b, d)"
  have c: "content ?p d = c" using assms(2) by (simp add: content_def)
  obtain off where off: "fd b = Some off" "streamAtEnd b \<longrightarrow> off = length c" using assms(3) by (auto simp: file_good_def)
  have b: "fd ?b = Some (length c)" "fileSize ?b = length c" "eventCount ?b = eventCount b" "streamAtEnd ?b"
    "fb_path ?b = ?p" "same_setup b ?b"
    using off assms(3) by (auto simp: seekToEndAndGetFileSize_def c Let_def file_good_def same_setup_def)
  obtain d' where w: "write_loop ?p (length c) data d = ((True, length data), d')" "only_file ?p d (c @ data) d'"
    using write_loop_reliable[of d "length c" ?p data] assms c by auto
  let ?b' = "?b\<lparr>fd := Some (length c + length data), fileSize := length c + length data, eventCount := eventCount b + 1\<rparr>"
  have "file_add_bytes data (b, d) = (Inr True, ?b', d')"
    using True off(1) b(1-3,5) w(1) unfolding file_add_bytes_def canAddEvent_def
    by (simp add: Let_def del: if_split) 
  moreover have "file_good ?b' (c @ data)"
    using split_lines_append_line[of c data] assms(3,4) by (simp add: file_good_def)
  moreover have "same_setup b ?b'" using b(6) by (simp add: same_setup_def del: if_split)
  ultimately show ?thesis using True w(2) by (simp add: Let_def)
qed

lemma file_get_good:
  assumes "reliable d" "files d (fb_path b) = Some c" "file_good b c" "c \<noteq> []" "0 < mc"
  shows "\<exists>l n b' d' more. file_getEventsForUpload mc ms (b, d) = (Inr (Some l), b', d') \<and> only_file (fb_path b) d c d' \<and>
    file_good b' c \<and> \<not> streamAtEnd b' \<and> same_setup b b' \<and> covers l n (split_lines c) \<and> hasMoreEvents l = Some more \<and>
    (\<not> more \<longrightarrow> n = length (split_lines c)) \<and> n \<le> mc \<and> length (concat (take n (split_lines c))) \<le> ms \<and>
    (length (hd (split_lines c)) \<le> min ms max_chunk \<longrightarrow> 0 < n)"
proof -
  let ?p = "fb_path b" and ?w = "min (min ms max_chunk) (fileSize b)"
  have cc: "content ?p d = c" using assms(2) by (simp add: content_def)
  obtain ls where ls: "c = concat ls" "\<forall>l \<in> set ls. is_line l" "split_lines c = ls" "ls \<noteq> []"
  proof -
    have "complete c" using assms(3) by (simp add: file_good_def)
    then show ?thesis by (rule completeE) (use assms(4) in \<open>auto intro: that\<close>)
  qed
  have size: "fileSize b = length c" "fd b \<noteq> None" using assms(3) by (auto simp: file_good_def)
  obtain k r where k: "k \<le> length ls" "take ?w c = concat (take k ls) @ r" "10 \<notin> set r" "length (hd ls) \<le> ?w \<longrightarrow> 0 < k"
    using take_lines[OF ls(2), of ?w] ls(1,4) by auto
  have hd: "length (hd ls) \<le> length c" using ls(1,4) by (cases ls) auto
  obtain d' where r: "read_loop ?p 0 ?w d = (take ?w c, d')" "reliable d'" "files d' = files d"
    using read_loop_reliable[OF assms(1), of ?p 0 ?w] cc by auto
  let ?n = "min k mc"
  have nl: "nl_loop (take ?w c) 0 0 (Some mc) = (length (concat (take ?n ls)), ?n)"
  proof -
    have "\<forall>l \<in> set (take k ls). is_line l" using ls(2) by (auto dest: in_set_takeD)
    moreover have "?n = min (length (take k ls)) mc" using k(1) by (simp add: min.absorb2)
    moreover have "take ?n (take k ls) = take ?n ls" by (simp add: min.absorb1)
    ultimately show ?thesis
      using nl_loop_lines[of 0 "take ?w c" "take k ls" r ?n 0 "Some mc"] k(2,3) assms(5) by simp
  qed
  have pre: "take (length (concat (take ?n ls))) (take ?w c) = concat (take ?n ls)"
  proof -
    have "concat (take k ls) = concat (take ?n ls) @ concat (drop ?n (take k ls))"
      using arg_cong[OF append_take_drop_id[of ?n "take k ls"], of concat]
      by (simp only: concat_append take_take min.absorb1[OF min.cobounded1])
    then show ?thesis by (simp add: k(2))
  qed
  have le: "length (concat (take ?n ls)) \<le> ?w" 
  proof (rule ord_eq_le_trans[OF arg_cong[OF pre[symmetric], of length]])
    show "length (take (length (concat (take ?n ls))) (take ?w c)) \<le> ?w"
      unfolding length_take by (rule min.coboundedI1) (rule min.cobounded2)
  qed
  let ?m = "length (concat (take ?n ls)) < length c"
  have full: "?n = length ls" if "\<not> ?m"
  proof (rule ccontr)
    assume "?n \<noteq> length ls"
    then have "?n < length ls" using k(1) by simp
    then have "ls ! ?n \<in> set ls" "c = concat (take ?n ls) @ ls ! ?n @ concat (drop (Suc ?n) ls)"
      using ls(1) arg_cong[OF id_take_nth_drop[of ?n ls], of concat] by (simp_all only: nth_mem concat_append concat.simps)
    with ls(2) is_line_pos[of "ls ! ?n"] that show False by simp
  qed
  let ?l = "Vector (concat (take ?n ls)) ?n ?m" and ?b' = "b\<lparr>fd := Some (length (take ?w c)), streamAtEnd := False\<rparr>"
  have "file_getEventsForUpload mc ms (b, d) = (Inr (Some ?l), ?b', d')"
    using assms(4,5) size r(1) nl pre unfolding file_getEventsForUpload_def by (simp add: Let_def)
  moreover have "only_file ?p d c d'" using r(2,3) assms(2) by (rule only_file_same)
  moreover have "file_good ?b' c" "same_setup b ?b'" using assms(3) by (simp_all add: file_good_def same_setup_def)
  moreover have "covers ?l ?n (split_lines c)" using k(1) ls(3) by (simp add: covers_def)
  moreover have "length (hd ls) \<le> min ms max_chunk \<longrightarrow> 0 < ?n" using k(4) hd size assms(5) by simp
  moreover have "\<not> ?m \<longrightarrow> ?n = length ls" using full by blast
  ultimately show ?thesis using le ls(3)
    by (intro exI[of _ ?l] exI[of _ ?n] exI[of _ ?b'] exI[of _ d'] exI[of _ ?m]) simp
qed


text \<open>Taking back a list cuts its events off the front of the file, or closes and removes it.\<close>

lemma file_uploaded_good:
  assumes "reliable d" "files d (fb_path b) = Some c" "file_good b c" "covers l n (split_lines c)"
    "n = length (split_lines c) \<Longrightarrow> \<not> streamAtEnd b"
  shows "\<exists>b' d'. file_onEventsUploaded l (b, d) = (Inr (), b', d') \<and> same_setup b b' \<and>
    (if n = length (split_lines c) \<and> finalized b
     then fd b' = None \<and> fileSize b' = 0 \<and> eventCount b' = 0 \<and> reliable d' \<and> files d' = (files d)(fb_path b := None)
     else only_file (fb_path b) d (concat (drop n (split_lines c))) d' \<and> file_good b' (concat (drop n (split_lines c))))"
proof -
  let ?p = "fb_path b"
  have cc: "content ?p d = c" using assms(2) by (simp add: content_def)
  obtain ls where ls: "c = concat ls" "\<forall>l \<in> set ls. is_line l" "split_lines c = ls"
  proof -
    have "complete c" using assms(3) by (simp add: file_good_def)
    then show ?thesis by (rule completeE) (auto intro: that)
  qed
  have l: "getEventCount l = Some n" "getDataSize l = Some (length (concat (take n ls)))" "n \<le> length ls"
    using assms(4) ls(3) by (simp_all add: covers_def getDataSize_def)
  obtain off where off: "fd b = Some off" using assms(3) by (auto simp: file_good_def)
  have fs: "fileSize b = length c" "eventCount b = length ls"
    using assms(3) ls(3) by (auto simp: file_good_def)
  have split: "c = concat (take n ls) @ concat (drop n ls)" using ls(1) by (metis append_take_drop_id concat_append)
  have dl: "\<forall>l \<in> set (drop n ls). is_line l" using ls(2) by (auto dest: in_set_dropD)
  show ?thesis
  proof (cases "n = length ls")
    case True
    then have sz: "length (concat (take n ls)) = fileSize b" using fs(1) ls(1) by simp
    let ?b = "b\<lparr>fileSize := 0, eventCount := 0\<rparr>"
    show ?thesis
    proof (cases "finalized b")
      case fin: True
      have "file_onEventsUploaded l (b, d) = (Inr (), ?b\<lparr>fd := None\<rparr>, snd (os_remove ?p d))"
        using l(1,2) off sz fin by (simp add: file_onEventsUploaded_def Let_def)
      with True fin assms(1) ls(3) show ?thesis
        by (simp add: os_remove_def modp_def same_setup_def reliable_def)
    next
      case fin: False
      have "file_onEventsUploaded l (b, d) = (Inr (), ?b, snd (os_ftruncate ?p 0 d))"
        using l(1,2) off sz fin by (simp add: file_onEventsUploaded_def Let_def)
      moreover have "only_file ?p d [] (snd (os_ftruncate ?p 0 d))" using os_ftruncate_only[OF assms(1), of ?p 0] by simp
      ultimately show ?thesis using True fin ls(3) assms(3) assms(5)
        by (auto simp: file_good_def same_setup_def complete_def split_lines_rest)
    qed
  next
    case False
    then have "drop n ls \<noteq> []" using l(3) by simp
    then have "0 < length (concat (drop n ls))" using dl is_line_pos by (cases "drop n ls") auto
    then have sz: "length (concat (take n ls)) \<noteq> fileSize b" using fs(1) split by (metis length_append less_add_same_cancel1 nat_neq_iff)
    obtain d1 where o: "os_open False ?p d = (Inr True, d1)" "only_file ?p d c d1"
      using os_open_reliable[OF assms(1), of False ?p] assms(2) cc by auto
    note o1 = only_fileD[OF o(2)]
    let ?sz = "length (concat (take n ls))"
    have "?sz \<le> length c" using split by (metis length_append le_add1)
    then obtain d2 c2 where k: "copy_loop ?p ?sz 0 d1 (length c + 1) = (Some (length c - ?sz), d2)" "only_file ?p d1 c2 d2"
        "take (length c - ?sz) c2 = drop ?sz c" "length c2 = length c"
      using copy_loop_reliable[OF o1(2), of 0 ?sz ?p "length c + 1", unfolded o1(1)] o1(3)
        le_imp_less_Suc[OF diff_le_self[of "length c" ?sz]] by auto
    have rest: "drop ?sz c = concat (drop n ls)" by (metis split append_eq_conv_conj)
    let ?d = "snd (os_ftruncate ?p (length c - ?sz) d2)"
    let ?b = "b\<lparr>fd := Some (length c - ?sz), fileSize := length c - ?sz, eventCount := length ls - n\<rparr>"
    have run: "file_onEventsUploaded l (b, d) = (Inr (), ?b, ?d)"
      using l sz[symmetric] fs off o(1) o1(1) k(1) by (simp add: file_onEventsUploaded_def Let_def)
    have "only_file ?p d2 (concat (drop n ls)) ?d"
      using os_ftruncate_only[OF only_fileD(2)[OF k(2)], of ?p "length c - ?sz"] only_fileD(1)[OF k(2)] k(3,4) rest by simp
    then have "only_file ?p d (concat (drop n ls)) ?d" using k(2) o(2) by (simp add: only_file_def)
    moreover have "length c - ?sz = length (concat (drop n ls))" using rest by (metis length_drop)
    then have "file_good ?b (concat (drop n ls))" using dl by (simp add: file_good_def)
    ultimately show ?thesis using run False ls(3)
      by (intro exI[of _ ?b] exI[of _ ?d]) (simp add: same_setup_def)
  qed
qed


section \<open>The contract\<close>

definition file_inv :: "file_state \<Rightarrow> bool" where
  "file_inv = (\<lambda>(b, d). reliable d \<and>
     (if fd b = None then fileSize b = 0 else \<exists>c. files d (fb_path b) = Some c \<and> file_good b c))"

definition file_queue :: "file_state \<Rightarrow> bytes list" where
  "file_queue = (\<lambda>(b, d). if fd b = None then [] else split_lines (content (fb_path b) d))"

text \<open>A list that covers the whole file was handed out after the last event was appended.\<close>

definition file_issued :: "file_state \<Rightarrow> event_list \<Rightarrow> bool" where
  "file_issued s l \<longleftrightarrow> (\<exists>n. covers l n (file_queue s) \<and> (n = length (file_queue s) \<longrightarrow> \<not> streamAtEnd (fst s)))"

text \<open>A serialised event has no newline in it.\<close>

definition one_line :: "('j \<Rightarrow> bytes) \<Rightarrow> 'j \<Rightarrow> bool" where
  "one_line dump e \<longleftrightarrow> 10 \<notin> set (dump e)"

lemma file_invE:
  assumes "file_inv (b, d)"
  obtains "fd b = None" "fileSize b = 0" "reliable d" "file_queue (b, d) = []"
  | c where "files d (fb_path b) = Some c" "file_good b c" "reliable d" "file_queue (b, d) = split_lines c" "fd b \<noteq> None"
  using assms by (auto simp: file_inv_def file_queue_def content_def split: if_splits)

lemma file_invI:
  assumes "only_file p d c d'" "file_good b' c" "fb_path b' = p"
  shows "file_inv (b', d')" "file_queue (b', d') = split_lines c"
proof -
  have "fd b' \<noteq> None" using assms(2) by (auto simp: file_good_def)
  then show "file_inv (b', d')" "file_queue (b', d') = split_lines c"
    using assms only_fileD[OF assms(1)] by (auto simp: file_inv_def file_queue_def)
qed

lemma file_add_spec:
  assumes "file_inv (b, d)" "one_line dump e"
  obtains ok b' d' where "file_addEvent dump e (b, d) = (Inr ok, b', d')" "file_inv (b', d')"
    "file_queue (b', d') = file_queue (b, d) @ (if ok then [event_line dump e] else [])"
    "\<not> ok \<Longrightarrow> b' = b"
proof (rule file_invE[OF assms(1)])
  assume "fd b = None"
  then show ?thesis using assms(1) by (intro that[of False b d]) (simp_all add: file_addEvent_def file_add_bytes_def)
next
  fix c assume c: "files d (fb_path b) = Some c" "file_good b c" "reliable d" "file_queue (b, d) = split_lines c" "fd b \<noteq> None"
  let ?l = "event_line dump e"
  have l: "is_line ?l" using assms(2) by (simp add: one_line_def event_line_is_line)
  show ?thesis
  proof (cases "canAddEvent (length ?l) b")
    case False
    then have "file_addEvent dump e (b, d) = (Inr False, b, d)"
      by (auto simp: file_addEvent_def file_add_bytes_def canAddEvent_def)
    then show ?thesis using assms(1) by (intro that[of False b d]) simp_all
  next
    case True
    then obtain b' d' where r: "file_add_bytes ?l (b, d) = (Inr True, b', d')" "same_setup b b'"
        "only_file (fb_path b) d (c @ ?l) d'" "file_good b' (c @ ?l)"
      using file_add_good[OF c(3,1,2) l] by (auto simp: Let_def)
    note i = file_invI[OF r(3,4)]
    show ?thesis using r i c(4) split_lines_append_line[of c ?l] l c(2)
      by (intro that[of True b' d']) (simp_all add: file_addEvent_def same_setup_def file_good_def)
  qed
qed

interpretation one_file: shared_queue "file_ops dump" file_inv file_queue file_issued "\<lambda>e _. one_line dump e" "\<lambda>_ _. True"
    "event_line dump"
proof (unfold_locales, goal_cases)
  case (1 s e)
  obtain b d where s: "s = (b, d)" by (cases s)
  from 1(1,2) show ?case unfolding s by (rule file_add_spec) (simp add: wp_def file_ops_def)
next
  case (2 s mc ms)
  obtain b d where s: "s = (b, d)" by (cases s)
  from 2(1) have "file_inv (b, d)" by (simp add: s)
  then show ?case
  proof (rule file_invE)
    fix c assume c: "files d (fb_path b) = Some c" "file_good b c" "reliable d" "file_queue (b, d) = split_lines c" "fd b \<noteq> None"
    have "c \<noteq> []" using 2(2) c(4) by (auto simp: s split_lines_rest)
    from file_get_good[OF c(3,1,2) this 2(3), of ms] obtain l n b' d' more where
      g: "file_getEventsForUpload mc ms (b, d) = (Inr (Some l), b', d')" "only_file (fb_path b) d c d'" "file_good b' c"
        "\<not> streamAtEnd b'" "same_setup b b'" "covers l n (split_lines c)" "hasMoreEvents l = Some more"
        "\<not> more \<longrightarrow> n = length (split_lines c)" "n \<le> mc" "length (concat (take n (split_lines c))) \<le> ms"
        "length (hd (split_lines c)) \<le> min ms max_chunk \<longrightarrow> 0 < n" by blast
    have p: "fb_path b' = fb_path b" using g(5) by (simp add: same_setup_def)
    note i = file_invI[OF g(2,3) p]
    have "file_issued (b', d') l" using g(4,6) i(2) by (auto simp: file_issued_def)
    with i have "file_inv (b', d') \<and> file_queue (b', d') = file_queue (b, d) \<and> (\<forall>k::nat. True \<longrightarrow> True) \<and>
       (\<forall>x. one_line dump x \<longrightarrow> one_line dump x) \<and> (\<exists>l' n more. Some l = Some l' \<and> file_issued (b', d') l' \<and> covers l' n (file_queue (b', d')) \<and> hasMoreEvents l' = Some more \<and>
           (\<not> more \<longrightarrow> n = length (file_queue (b', d'))) \<and> n \<le> mc \<and> length (concat (take n (file_queue (b', d')))) \<le> ms \<and>
           (length (hd (file_queue (b', d'))) \<le> min ms max_chunk \<longrightarrow> 0 < n))"
      using g(6-11) unfolding i(2) c(4) by blast
    then show ?thesis unfolding s wp_def file_ops_def event_batch.simps g(1) prod.case sum.case .
  qed (use 2 in \<open>simp add: s\<close>)
next
  case (3 s l n)
  obtain b d where s: "s = (b, d)" by (cases s)
  from 3(1) have "file_inv (b, d)" by (simp add: s)
  then show ?case
  proof (rule file_invE)
    fix c assume c: "files d (fb_path b) = Some c" "file_good b c" "reliable d" "file_queue (b, d) = split_lines c" "fd b \<noteq> None"
    have v: "covers l n (split_lines c)" using 3(3) c(4) by (simp add: s)
    have e: "\<not> streamAtEnd b" if "n = length (split_lines c)"
      using 3(2) that c(4) covers_unique[OF v] by (auto simp: file_issued_def s)
    obtain b' d' where u: "file_onEventsUploaded l (b, d) = (Inr (), b', d')" "same_setup b b'"
      "if n = length (split_lines c) \<and> finalized b
       then fd b' = None \<and> fileSize b' = 0 \<and> eventCount b' = 0 \<and> reliable d' \<and> files d' = (files d)(fb_path b := None)
       else only_file (fb_path b) d (concat (drop n (split_lines c))) d' \<and> file_good b' (concat (drop n (split_lines c)))"
      using file_uploaded_good[OF c(3,1,2) v e] by blast
    have p: "fb_path b' = fb_path b" using u(2) by (simp add: same_setup_def)
    show ?thesis
    proof (cases "n = length (split_lines c) \<and> finalized b")
      case True
      then show ?thesis using u c(4) by (auto simp: s wp_def file_ops_def file_inv_def file_queue_def)
    next
      case False
      then have "only_file (fb_path b) d (concat (drop n (split_lines c))) d'" "file_good b' (concat (drop n (split_lines c)))"
        using u(3) by presburger+
      note i = file_invI[OF this p]
      moreover have "\<forall>l \<in> set (drop n (split_lines c)). is_line l" by (auto dest: in_set_dropD split_lines_is_line)
      ultimately show ?thesis using u(1) c(4) by (simp add: s wp_def file_ops_def)
    qed
  qed (use 3 in \<open>auto simp: wp_def file_ops_def file_onEventsUploaded_def s\<close>)
next
  case (4 s)
  obtain b d where s: "s = (b, d)" by (cases s)
  from 4 show ?case unfolding s
    by (rule file_invE) (auto simp: file_ops_def file_hasEvents_def getp_def file_good_def split_lines_empty)
next
  case (6 s e k l)
  obtain b d where s: "s = (b, d)" by (cases s)
  from 6(1) have "file_inv (b, d)" by (simp add: s)
  from this 6(2) show ?case
  proof (rule file_add_spec)
    fix ok b' d' assume a: "file_addEvent dump e (b, d) = (Inr ok, b', d')"
      "file_queue (b', d') = file_queue (b, d) @ (if ok then [event_line dump e] else [])"
      "\<not> ok \<Longrightarrow> b' = b"
    obtain n where n: "covers l n (file_queue (b, d))" "n = length (file_queue (b, d)) \<longrightarrow> \<not> streamAtEnd b"
      using 6(4) by (auto simp: file_issued_def s)
    have "file_issued (b', d') l"
      using a(2,3) n coversD(3)[OF n(1)] covers_append[OF n(1)] by (cases ok) (auto simp: file_issued_def intro!: exI[of _ n])
    then show ?thesis using a(1) by (simp add: s wp_def file_ops_def)
  qed
qed simp


section \<open>Properties\<close>

text \<open>
  C24: opening an event file recovers it: the complete lines are the queue, in order, the counters
  agree with them, and an unfinished line at the end, as an interrupted write leaves it, is cut
  off. Reads may be short.
\<close>
theorem file_reopen_recovers:
  assumes "reliable d" "files d p = Some (concat ls @ r)" "\<forall>l \<in> set ls. is_line l" "10 \<notin> set r"
  shows "\<exists>b d'. FileEventBatch p d = (Inr b, d') \<and> file_queue (b, d') = ls \<and> eventCount b = length ls \<and>
    fileSize b = length (concat ls) \<and> content p d' = concat ls"
proof -
  have s: "split_lines (content p d) = ls" using assms(2) split_lines_concat[OF assms(3,4)] by (simp add: content_def)
  from FileEventBatch_opens[OF assms(1), of p] obtain b d' where o: "FileEventBatch p d = (Inr b, d')"
      "only_file p d (concat ls) d'" "file_good b (concat ls)" "fb_path b = p" unfolding s by blast
  show ?thesis using o(1) file_invI(2)[OF o(2-4)] only_fileD(1)[OF o(2)] o(3) assms(3)
    by (intro exI[of _ b] exI[of _ d']) (auto simp: file_good_def)
qed

text \<open>A file with two lines and an unfinished third, on a disk whose next read is short.\<close>

definition torn_disk :: disk where
  "torn_disk = \<lparr> files = [''f'' \<mapsto> [97, 10, 98, 10, 99]], opens = [], reads = [Some 1], writes = [], truncs = [] \<rparr>"

theorem file_reopen_recovers_witness:
  "\<exists>b d'. FileEventBatch ''f'' torn_disk = (Inr b, d') \<and> file_queue (b, d') = [[97, 10], [98, 10]] \<and> eventCount b = 2 \<and>
    fileSize b = 4 \<and> content ''f'' d' = [97, 10, 98, 10]"
proof -
  have "reliable torn_disk" "files torn_disk ''f'' = Some (concat [[97, 10], [98, 10]] @ [99])"
    "\<forall>l \<in> set [[97, 10], [98, 10]]. is_line l" "10 \<notin> set [99 :: u8]"
    by (simp_all add: torn_disk_def reliable_def is_line_def)
  from file_reopen_recovers[OF this] show ?thesis by (simp add: eval_nat_numeral)
qed

text \<open>
  A write that fails half-way leaves the descriptor behind the end of the truncated file; the
  next event is stored behind as many zero bytes as had been written, and the size the batch keeps
  does not count them.
\<close>
theorem failed_write_leaves_gap:
  assumes "fd b = Some (length c)" "streamAtEnd b" "fileSize b = length c" "\<not> finalized b" "fb_maxSize b = 0" "fb_maxCount b = 0"
    and "files d (fb_path b) = Some c" "writes d = [Some k, None]" "truncs d = []" "Suc k < length x" "y \<noteq> []"
  shows "\<exists>b1 d1 b2 d2. file_add_bytes x (b, d) = (Inr False, b1, d1) \<and> content (fb_path b) d1 = c \<and>
    file_add_bytes y (b1, d1) = (Inr True, b2, d2) \<and> content (fb_path b) d2 = c @ replicate (Suc k) 0 @ y \<and>
    fileSize b2 = length c + length y"
proof -
  let ?p = "fb_path b" and ?x = "take (Suc k) x"
  have c: "content ?p d = c" using assms(7) by (simp add: content_def)
  let ?d1 = "put ?p (c @ ?x) (d\<lparr>writes := [None]\<rparr>)"
  have w1: "os_write ?p (length c) x d = (Some (Suc k), ?d1)" using assms(8,10) c by (simp add: os_write_def Let_def)
  have w2: "os_write ?p (length c + Suc k) (drop (Suc k) x) ?d1 = (None, ?d1\<lparr>writes := []\<rparr>)"
    by (simp add: os_write_def Let_def)
  have l: "write_loop ?p (length c) x d = ((False, Suc k), ?d1\<lparr>writes := []\<rparr>)"
  proof -
    have ne: "x \<noteq> []" "drop (Suc k) x \<noteq> []" using assms(10) by auto
    have "write_loop ?p (length c + Suc k) (drop (Suc k) x) ?d1 = ((False, 0), ?d1\<lparr>writes := []\<rparr>)"
      using ne(2) w2 by (subst write_loop.simps) simp
    then show ?thesis using ne(1) w1 by (subst write_loop.simps) simp
  qed
  let ?d2 = "snd (os_ftruncate ?p (length c) (?d1\<lparr>writes := []\<rparr>))" and ?b1 = "b\<lparr>fd := Some (length c + Suc k)\<rparr>"
  have r1: "file_add_bytes x (b, d) = (Inr False, ?b1, ?d2)"
    using assms(1-6) l by (simp add: file_add_bytes_def canAddEventInt_def Let_def)
  have c2: "content ?p ?d2 = c" "writes ?d2 = []" using assms(9) by (simp_all add: os_ftruncate_def modp_def Let_def)
  let ?d3 = "put ?p (write_at (length c + Suc k) y c) (?d2\<lparr>writes := []\<rparr>)"
  have "os_write ?p (length c + Suc k) y ?d2 = (Some (length y), ?d3)" using c2 by (simp add: os_write_def Let_def)
  then have l2: "write_loop ?p (length c + Suc k) y ?d2 = ((True, length y), ?d3)"
    using assms(11) by (subst write_loop.simps) (simp add: write_loop.simps)
  have "file_add_bytes y (?b1, ?d2) = (Inr True, ?b1\<lparr>fd := Some (length c + Suc k + length y), fileSize := length c + length y,
      eventCount := eventCount b + 1\<rparr>, ?d3)"
    using assms(2-6) l2 by (simp add: file_add_bytes_def canAddEventInt_def Let_def)
  moreover have "content ?p ?d3 = c @ replicate (Suc k) 0 @ y" by (simp add: write_at_def)
  ultimately show ?thesis using r1 c2(1) by (intro exI conjI) (assumption+, simp)
qed

definition half_written_disk :: disk where
  "half_written_disk = \<lparr> files = [''f'' \<mapsto> [97, 10]], opens = [], reads = [], writes = [Some 0, None], truncs = [] \<rparr>"

definition half_written_batch :: file_batch where
  "half_written_batch = \<lparr> fb_path = ''f'', fd = Some 2, fileSize = 2, eventCount = 1, streamAtEnd = True, finalized = False,
     fb_maxCount = 0, fb_maxSize = 0 \<rparr>"

theorem failed_write_leaves_gap_witness:
  "\<exists>b1 d1 b2 d2. file_add_bytes [98, 10] (half_written_batch, half_written_disk) = (Inr False, b1, d1) \<and> content ''f'' d1 = [97, 10] \<and>
    file_add_bytes [99, 10] (b1, d1) = (Inr True, b2, d2) \<and> content ''f'' d2 = [97, 10, 0, 99, 10] \<and> fileSize b2 = 4"
  using failed_write_leaves_gap[of half_written_batch "[97, 10]" half_written_disk 0 "[98, 10]" "[99, 10]"]
  by (simp add: half_written_batch_def half_written_disk_def eval_nat_numeral)

end
