(* ===== verification/Decimal.thy ===== *)
theory Decimal
  imports Prelude
begin

text \<open>
  Decimal numbers as the C++ library prints and reads them; shared by the file names of the
  telemetry queues, its settings, the property files and the command line.
\<close>

section \<open>Printing\<close>

text \<open>An integer as \<open>operator<<\<close> prints it.\<close>

fun dec_digits :: "nat \<Rightarrow> string" where
  "dec_digits n = (if n < 10 then [char_of (48 + n)] else dec_digits (n div 10) @ [char_of (48 + n mod 10)])"

declare dec_digits.simps [simp del]

definition show_int :: "int \<Rightarrow> string" where
  "show_int i = (if i < 0 then CHR ''-'' # dec_digits (nat (- i)) else dec_digits (nat i))"

section \<open>Reading\<close>

definition is_digit :: "char \<Rightarrow> bool" where
  "is_digit c \<longleftrightarrow> 48 \<le> (of_char c :: nat) \<and> (of_char c :: nat) \<le> 57"

definition is_white :: "char \<Rightarrow> bool" where
  "is_white c \<longleftrightarrow> c = CHR '' '' \<or> 9 \<le> (of_char c :: nat) \<and> (of_char c :: nat) \<le> 13"

definition dec_value :: "string \<Rightarrow> nat" where
  "dec_value s = foldl (\<lambda>v c. v * 10 + (of_char c - 48)) 0 s"

text \<open>\<open>std::stoi\<close>: white space, a sign, digits; what follows the digits is ignored.\<close>

datatype number_error = NotANumber | NumberOutOfRange

definition stoi :: "string \<Rightarrow> number_error + int" where
  "stoi s = (let s = dropWhile is_white s;
       neg = (s \<noteq> [] \<and> hd s = CHR ''-'');
       s = (if s \<noteq> [] \<and> (hd s = CHR ''-'' \<or> hd s = CHR ''+'') then tl s else s);
       ds = takeWhile is_digit s; v = (if neg then - int (dec_value ds) else int (dec_value ds)) in
     if ds = [] then Inl NotANumber
     else if - (2 ^ 31) \<le> v \<and> v < 2 ^ 31 then Inr v else Inl NumberOutOfRange)"

section \<open>What was printed is read back\<close>

lemma dec_value_snoc: "dec_value (s @ [c]) = dec_value s * 10 + (of_char c - 48)"
  by (simp add: dec_value_def)

lemma dec_value_digits [simp]: "dec_value (dec_digits n) = n"
proof (induction n rule: dec_digits.induct)
  case (1 n)
  show ?case
  proof (cases "n < 10")
    case True
    then show ?thesis by (subst dec_digits.simps) (simp add: dec_value_def)
  next
    case False
    then show ?thesis by (subst dec_digits.simps) (simp add: dec_value_snoc 1)
  qed
qed

lemma dec_digits_digits: "\<forall>c \<in> set (dec_digits n). is_digit c"
proof (induction n rule: dec_digits.induct)
  case (1 n)
  show ?case using 1 by (subst dec_digits.simps) (auto simp: is_digit_def)
qed

lemma dec_digits_nonempty [simp]: "dec_digits n \<noteq> []"
  by (subst dec_digits.simps) simp

lemma show_int_inject [simp]: "show_int i = show_int j \<longleftrightarrow> i = j"
proof -
  have minus: "hd (dec_digits n) \<noteq> CHR ''-''" for n
    using dec_digits_digits[of n] dec_digits_nonempty[of n] by (cases "dec_digits n") (auto simp: is_digit_def)
  have inj: "dec_digits m = dec_digits n \<longleftrightarrow> m = n" for m n using dec_value_digits by metis
  show ?thesis using minus[of "nat i"] minus[of "nat j"]
    by (auto simp: show_int_def inj) (metis list.sel(1))+
qed

text \<open>How a reader sees the digits: nothing to skip in front, all of them digits.\<close>

lemma dec_digits_head [simp]:
  "dropWhile is_white (dec_digits n) = dec_digits n" "takeWhile is_digit (dec_digits n) = dec_digits n"
  "hd (dec_digits n) \<noteq> CHR ''-''" "hd (dec_digits n) \<noteq> CHR ''+''"
proof -
  obtain c cs where s: "dec_digits n = c # cs" by (cases "dec_digits n") auto
  have d: "\<forall>c \<in> set (dec_digits n). is_digit c" by (rule dec_digits_digits)
  then have c: "\<not> is_white c" "c \<noteq> CHR ''-''" "c \<noteq> CHR ''+''" by (auto simp: s is_digit_def is_white_def)
  show "dropWhile is_white (dec_digits n) = dec_digits n" "takeWhile is_digit (dec_digits n) = dec_digits n"
    "hd (dec_digits n) \<noteq> CHR ''-''" "hd (dec_digits n) \<noteq> CHR ''+''"
    using c d s by (simp_all add: takeWhile_eq_all_conv)
qed

lemma stoi_show: "- (2 ^ 31) \<le> i \<Longrightarrow> i < 2 ^ 31 \<Longrightarrow> stoi (show_int i) = Inr i"
proof (cases "i < 0")
  case True
  assume i: "- (2 ^ 31) \<le> i"
  have w: "\<not> is_white (CHR ''-'')" by (simp add: is_white_def)
  have "stoi (CHR ''-'' # dec_digits (nat (- i))) = Inr i" unfolding stoi_def Let_def using True i w by simp
  then show ?thesis using True by (simp add: show_int_def)
next
  case False
  assume "i < 2 ^ 31"
  then show ?thesis using False unfolding stoi_def show_int_def Let_def by simp
qed

lemma show_int_chars: "c \<in> set (show_int i) \<Longrightarrow> is_digit c \<or> c = CHR ''-''"
  using dec_digits_digits by (auto simp: show_int_def split: if_splits)

end
