(* ===== verification/Multi_Batch.thy ===== *)
theory Multi_Batch
  imports File_Batch Decimal "HOL-Library.Multiset"
begin

text \<open>
  The queue spread over numbered files, \<^verbatim>\<open>cll-telemetry/src/multi_file_event_batch.cpp\<close>: a
  newest file that events are appended to, an oldest file that is uploaded from, and the
  numbers of the files between them. When the newest file is full it is closed and a file with
  the next number is started.
\<close>

section \<open>File names\<close>

text \<open>\<open>std::stoull\<close>: white space, a sign, digits; what follows the digits is ignored.\<close>

definition stoull :: "string \<Rightarrow> batch_error + nat" where
  "stoull s = (let s = dropWhile is_white s;
       neg = (s \<noteq> [] \<and> hd s = CHR ''-'');
       s = (if s \<noteq> [] \<and> (hd s = CHR ''-'' \<or> hd s = CHR ''+'') then tl s else s);
       ds = takeWhile is_digit s; v = dec_value ds in
     if ds = [] then Inl InvalidArgument
     else if v \<ge> 2 ^ 64 then Inl OutOfRange
     else Inr (if neg then (2 ^ 64 - v) mod 2 ^ 64 else v))"

text \<open>The conversion of the result to \<open>long long\<close>.\<close>

definition to_long_long :: "nat \<Rightarrow> int" where
  "to_long_long v = (if v < 2 ^ 63 then int v else int v - 2 ^ 64)"

section \<open>The batch\<close>

record multi_batch =
  mb_path :: string
  mb_prefix :: string
  mb_suffix :: string
  fileMaxSize :: nat
  fileMaxEvents :: nat
  oldestBatch :: "file_batch option"
  oldBatches :: "int list"
  newestBatch :: file_batch
  newestBatchId :: int

type_synonym multi_state = "multi_batch \<times> disk"
type_synonym 'a multi = "(multi_state, batch_error, 'a) prog"

definition getBatchFileName :: "multi_batch \<Rightarrow> int \<Rightarrow> file_path" where
  "getBatchFileName m i = mb_path m @ mb_prefix m @ show_int i @ mb_suffix m"

text \<open>
  The entries of a directory with whether they are regular files, as \<open>readdir\<close> lists them, are
  an argument; \<open>None\<close> is a directory that cannot be opened.
\<close>

definition batch_id :: "string \<Rightarrow> string \<Rightarrow> string \<times> bool \<Rightarrow> int option" where
  "batch_id prefix suffix = (\<lambda>(name, regular). let len = length name in
     if \<not> regular \<or> len < length prefix + length suffix \<or> take (length prefix) name \<noteq> prefix \<or>
        drop (len - length suffix) name \<noteq> suffix then None
     else case stoull (take (len - length prefix - length suffix) (drop (length prefix) name)) of
        Inl _ \<Rightarrow> None | Inr v \<Rightarrow> Some (to_long_long v))"

definition getBatches :: "string \<Rightarrow> string \<Rightarrow> (string \<times> bool) list option \<Rightarrow> int list" where
  "getBatches prefix suffix dir = (case dir of None \<Rightarrow> [] | Some es \<Rightarrow> sort (List.map_filter (batch_id prefix suffix) es))"

definition openBatch :: "multi_batch \<Rightarrow> int \<Rightarrow> bool \<Rightarrow> (disk, batch_error, file_batch) prog" where
  "openBatch m i write = andthen (FileEventBatch (getBatchFileName m i)) (\<lambda>ev.
     let ev = setLimit (fileMaxEvents m) (fileMaxSize m) ev in ret (if write then ev else setFinalized ev))"

text \<open>The null pointer in \<open>newestBatch\<close> until the constructor has opened the file.\<close>

definition no_batch :: file_batch where
  "no_batch = \<lparr> fb_path = [], fd = None, fileSize = 0, eventCount = 0, streamAtEnd = False, finalized = False,
     fb_maxCount = 0, fb_maxSize = 0 \<rparr>"

definition MultiFileEventBatch ::
    "(string \<Rightarrow> (string \<times> bool) list option) \<Rightarrow> string \<Rightarrow> string \<Rightarrow> string \<Rightarrow> nat \<Rightarrow> nat \<Rightarrow> disk \<Rightarrow>
     (batch_error + multi_batch) \<times> disk" where
  "MultiFileEventBatch readdir path prefix suffix maxEvents maxSize d = (let
       path = (if path \<noteq> [] \<and> last path \<noteq> CHR ''/'' then path @ ''/'' else path);
       ids = getBatches prefix suffix (readdir path);
       m = \<lparr> mb_path = path, mb_prefix = prefix, mb_suffix = suffix, fileMaxSize = maxSize, fileMaxEvents = maxEvents,
             oldestBatch = None, oldBatches = butlast ids, newestBatch = no_batch,
             newestBatchId = (if ids = [] then 0 else last ids) \<rparr>
     in andthen (openBatch m (newestBatchId m) True) (\<lambda>b. ret (m\<lparr>newestBatch := b\<rparr>)) d)"

text \<open>Running the methods of the parts.\<close>

definition on_disk :: "(disk, batch_error, 'a) prog \<Rightarrow> 'a multi" where
  "on_disk f = (\<lambda>(m, d). case f d of (r, d) \<Rightarrow> (r, m, d))"

definition on_newest :: "(file_state, batch_error, 'a) prog \<Rightarrow> 'a multi" where
  "on_newest f = (\<lambda>(m, d). case f (newestBatch m, d) of (r, b, d) \<Rightarrow> (r, m\<lparr>newestBatch := b\<rparr>, d))"

definition on_oldest :: "file_batch \<Rightarrow> (file_state, batch_error, 'a) prog \<Rightarrow> 'a multi" where
  "on_oldest b f = (\<lambda>(m, d). case f (b, d) of (r, b, d) \<Rightarrow> (r, m\<lparr>oldestBatch := Some b\<rparr>, d))"

definition set_multi :: "(multi_batch \<Rightarrow> multi_batch) \<Rightarrow> unit multi" where
  "set_multi f = modp (\<lambda>(m, d). (f m, d))"

text \<open>The loop of \<open>checkOldestBatch\<close> over the numbers of the old files.\<close>

fun check_loop :: "int list \<Rightarrow> unit multi" where
  "check_loop [] = ret ()"
| "check_loop (fr # rest) = seqp (set_multi (\<lambda>m. m\<lparr>oldBatches := rest\<rparr>)) (andthen (getp fst) (\<lambda>m.
     andthen (on_disk (openBatch m fr False)) (\<lambda>b.
       if fileSize b \<noteq> 0 then set_multi (\<lambda>m. m\<lparr>oldestBatch := Some b\<rparr>)
       else seqp (on_disk (os_remove (fb_path b))) (check_loop rest))))"

definition checkOldestBatch :: "unit multi" where
  "checkOldestBatch = andthen (getp fst) (\<lambda>m. if oldestBatch m = None then check_loop (oldBatches m) else ret ())"

text \<open>Closing the newest file and starting the next one; the increment of the number may overflow.\<close>

definition retire :: "multi_batch \<Rightarrow> multi_batch" where
  "retire m = (let m = m\<lparr>newestBatch := setFinalized (newestBatch m)\<rparr> in
     if oldestBatch m = None \<and> oldBatches m = [] then m\<lparr>oldestBatch := Some (newestBatch m)\<rparr>
     else m\<lparr>oldBatches := oldBatches m @ [newestBatchId m]\<rparr>)"

definition roll :: "unit multi" where
  "roll = seqs [set_multi retire,
     andthen (getp fst) (\<lambda>m. if newestBatchId m = 2 ^ 63 - 1 then stop IdOverflow
       else set_multi (\<lambda>m. m\<lparr>newestBatchId := newestBatchId m + 1\<rparr>)),
     andthen (getp fst) (\<lambda>m. andthen (on_disk (openBatch m (newestBatchId m) True)) (\<lambda>b.
       set_multi (\<lambda>m. m\<lparr>newestBatch := b\<rparr>)))]"

definition multi_addEvent :: "('j \<Rightarrow> bytes) \<Rightarrow> 'j \<Rightarrow> bool multi" where
  "multi_addEvent dump rawData = (let data = event_line dump rawData in
     seqp (andthen (getp fst) (\<lambda>m. whenp (\<not> canAddEvent (length data) (newestBatch m)) roll))
       (on_newest (file_add_bytes data)))"

definition multi_getEventsForUpload :: "nat \<Rightarrow> nat \<Rightarrow> event_list option multi" where
  "multi_getEventsForUpload maxCount maxSize = seqp checkOldestBatch (andthen (getp fst) (\<lambda>m.
     case oldestBatch m of
       Some b \<Rightarrow> andthen (on_oldest b (file_getEventsForUpload maxCount maxSize)) (\<lambda>r. ret (map_option (\<lambda>l. EventList l True) r))
     | None \<Rightarrow> andthen (on_newest (file_getEventsForUpload maxCount maxSize)) (\<lambda>r. ret (map_option (\<lambda>l. EventList l False) r))))"

definition multi_onEventsUploaded :: "event_list \<Rightarrow> unit multi" where
  "multi_onEventsUploaded events = (case events of
     EventList w h \<Rightarrow> andthen (getp fst) (\<lambda>m. case oldestBatch m of
         Some b \<Rightarrow> seqp (on_oldest b (file_onEventsUploaded w)) (set_multi (\<lambda>m. case oldestBatch m of
             Some b \<Rightarrow> if fileSize b = 0 then m\<lparr>oldestBatch := None\<rparr> else m | None \<Rightarrow> m))
       | None \<Rightarrow> on_newest (file_onEventsUploaded w))
   | _ \<Rightarrow> stop BadCast)"

definition multi_hasEvents :: "bool multi" where
  "multi_hasEvents = getp (\<lambda>(m, d). oldBatches m \<noteq> [] \<or> oldestBatch m \<noteq> None \<or> fileSize (newestBatch m) \<noteq> 0)"

definition setFileLimits :: "nat \<Rightarrow> nat \<Rightarrow> unit multi" where
  "setFileLimits maxEvents maxSize = set_multi (\<lambda>m. m\<lparr>fileMaxSize := maxSize, fileMaxEvents := maxEvents,
     oldestBatch := map_option (setLimit maxEvents maxSize) (oldestBatch m),
     newestBatch := setLimit maxEvents maxSize (newestBatch m)\<rparr>)"

definition multi_ops :: "('j \<Rightarrow> bytes) \<Rightarrow> (multi_state, 'j) event_batch" where
  "multi_ops dump = \<lparr> addEvent = multi_addEvent dump, getEventsForUpload = multi_getEventsForUpload,
     onEventsUploaded = multi_onEventsUploaded, hasEvents = multi_hasEvents \<rparr>"

section \<open>Numbers in names\<close>

lemma getBatchFileName_inject [simp]: "getBatchFileName m i = getBatchFileName m j \<longleftrightarrow> i = j"
  by (simp add: getBatchFileName_def)

text \<open>A printed number is read back.\<close>

lemma stoull_show: "0 \<le> i \<Longrightarrow> i < 2 ^ 63 \<Longrightarrow> map_sum id to_long_long (stoull (show_int i)) = Inr i"
proof -
  assume i: "0 \<le> i" "i < 2 ^ 63"
  then show ?thesis using dec_digits_head[of "nat i"] unfolding stoull_def show_int_def
    by (simp add: Let_def to_long_long_def nat_less_iff)
qed


section \<open>The files together\<close>

definition lines_of :: "file_path \<Rightarrow> disk \<Rightarrow> bytes list" where
  "lines_of p d = split_lines (content p d)"

definition newest_ok :: "multi_batch \<Rightarrow> disk \<Rightarrow> bytes \<Rightarrow> bool" where
  "newest_ok m d c \<longleftrightarrow> (let b = newestBatch m in files d (fb_path b) = Some c \<and> file_good b c \<and>
     fb_path b = getBatchFileName m (newestBatchId m) \<and> \<not> finalized b \<and>
     fb_maxCount b = fileMaxEvents m \<and> fb_maxSize b = fileMaxSize m)"

definition old_ok :: "multi_batch \<Rightarrow> disk \<Rightarrow> int \<Rightarrow> bool" where
  "old_ok m d i \<longleftrightarrow> i < newestBatchId m \<and> (\<exists>c. files d (getBatchFileName m i) = Some c \<and> complete c \<and> c \<noteq> [])"

definition oldest_ok :: "multi_batch \<Rightarrow> disk \<Rightarrow> file_batch \<Rightarrow> bytes \<Rightarrow> bool" where
  "oldest_ok m d b c \<longleftrightarrow> finalized b \<and> files d (fb_path b) = Some c \<and> file_good b c \<and> c \<noteq> [] \<and>
     (\<exists>j < newestBatchId m. (\<forall>i \<in> set (oldBatches m). j < i) \<and> fb_path b = getBatchFileName m j)"

text \<open>
  Every file but the newest holds events, the numbers ascend from the oldest to the newest, and
  the numbers above it are free.
\<close>

definition multi_inv :: "multi_state \<Rightarrow> bool" where
  "multi_inv = (\<lambda>(m, d). reliable d \<and> (\<exists>c. newest_ok m d c) \<and> sorted_wrt (<) (oldBatches m) \<and>
     (\<forall>i \<in> set (oldBatches m). old_ok m d i) \<and>
     (case oldestBatch m of None \<Rightarrow> True | Some b \<Rightarrow> \<exists>c. oldest_ok m d b c) \<and>
     (\<forall>j > newestBatchId m. files d (getBatchFileName m j) = None))"

definition oldest_lines :: "multi_batch \<Rightarrow> disk \<Rightarrow> bytes list" where
  "oldest_lines m d = (case oldestBatch m of None \<Rightarrow> [] | Some b \<Rightarrow> lines_of (fb_path b) d)"

definition multi_queue :: "multi_state \<Rightarrow> bytes list" where
  "multi_queue = (\<lambda>(m, d). oldest_lines m d @ concat (map (\<lambda>i. lines_of (getBatchFileName m i) d) (oldBatches m)) @
     lines_of (fb_path (newestBatch m)) d)"

text \<open>A list handed out covers a part of the file it was taken from, the first one in the queue.\<close>

definition multi_issued :: "multi_state \<Rightarrow> event_list \<Rightarrow> bool" where
  "multi_issued = (\<lambda>(m, d) l. \<exists>w h b. l = EventList w h \<and>
     (oldestBatch m = Some b \<or> oldestBatch m = None \<and> oldBatches m = [] \<and> b = newestBatch m) \<and>
     (\<exists>n. covers w n (lines_of (fb_path b) d) \<and> (n = length (lines_of (fb_path b) d) \<longrightarrow> \<not> streamAtEnd b)))"

lemma newest_okD:
  assumes "newest_ok m d c"
  shows "files d (fb_path (newestBatch m)) = Some c" "file_good (newestBatch m) c"
    "fb_path (newestBatch m) = getBatchFileName m (newestBatchId m)" "\<not> finalized (newestBatch m)"
    "fb_maxCount (newestBatch m) = fileMaxEvents m" "fb_maxSize (newestBatch m) = fileMaxSize m"
    "lines_of (fb_path (newestBatch m)) d = split_lines c"
  using assms by (auto simp: newest_ok_def Let_def lines_of_def content_def)

lemma multi_invD:
  assumes "multi_inv (m, d)"
  shows "reliable d" "\<exists>c. newest_ok m d c" "sorted_wrt (<) (oldBatches m)" "i \<in> set (oldBatches m) \<Longrightarrow> old_ok m d i"
    "oldestBatch m = Some b \<Longrightarrow> \<exists>c. oldest_ok m d b c" "j > newestBatchId m \<Longrightarrow> files d (getBatchFileName m j) = None"
  using assms by (auto simp: multi_inv_def)

text \<open>Changing the newest file leaves the others alone.\<close>

lemma newest_frame:
  assumes inv: "multi_inv (m, d)" and chg: "only_file (fb_path (newestBatch m)) d c' d'" and good: "file_good b' c'"
    and su: "same_setup (newestBatch m) b'"
  shows "multi_inv (m\<lparr>newestBatch := b'\<rparr>, d')"
    "multi_queue (m\<lparr>newestBatch := b'\<rparr>, d') = oldest_lines m d @
       concat (map (\<lambda>i. lines_of (getBatchFileName m i) d) (oldBatches m)) @ split_lines c'"
    "oldest_lines (m\<lparr>newestBatch := b'\<rparr>) d' = oldest_lines m d"
    "lines_of (fb_path b') d' = split_lines c'"
proof -
  obtain c where c: "newest_ok m d c" using multi_invD(2)[OF inv] by blast
  note n = newest_okD[OF c] and o = only_fileD[OF chg]
  have name: "getBatchFileName (m\<lparr>newestBatch := b'\<rparr>) i = getBatchFileName m i" for i by (simp add: getBatchFileName_def)
  have other: "files d' (getBatchFileName m i) = files d (getBatchFileName m i)" if "i \<noteq> newestBatchId m" for i
    using o(4) that n(3) by simp
  have old: "files d' (fb_path b) = files d (fb_path b)" if b: "oldestBatch m = Some b" for b
    using multi_invD(5)[OF inv b] other by (auto simp: oldest_ok_def)
  have oldl: "lines_of (getBatchFileName m i) d' = lines_of (getBatchFileName m i) d" if "i \<in> set (oldBatches m)" for i
    using multi_invD(4)[OF inv that] other[of i] by (simp add: lines_of_def content_def old_ok_def)
  have p: "fb_path b' = fb_path (newestBatch m)" using su by (simp add: same_setup_def)
  show l: "lines_of (fb_path b') d' = split_lines c'" using o(1) p by (simp add: lines_of_def)
  show ol: "oldest_lines (m\<lparr>newestBatch := b'\<rparr>) d' = oldest_lines m d"
    using old by (simp add: oldest_lines_def lines_of_def content_def split: option.split)
  have "newest_ok (m\<lparr>newestBatch := b'\<rparr>) d' c'"
    using n good su o(3) by (simp add: newest_ok_def Let_def name same_setup_def)
  moreover have "old_ok (m\<lparr>newestBatch := b'\<rparr>) d' i" if "i \<in> set (oldBatches m)" for i
    using multi_invD(4)[OF inv that] other[of i] by (auto simp: old_ok_def name)
  moreover have "\<exists>c. oldest_ok (m\<lparr>newestBatch := b'\<rparr>) d' b c" if b: "oldestBatch m = Some b" for b
    using multi_invD(5)[OF inv b] old[OF b] by (auto simp: oldest_ok_def name)
  ultimately show "multi_inv (m\<lparr>newestBatch := b'\<rparr>, d')"
    using multi_invD(3,6)[OF inv] o(2) other by (auto simp: multi_inv_def name split: option.split)
  show "multi_queue (m\<lparr>newestBatch := b'\<rparr>, d') = oldest_lines m d @
       concat (map (\<lambda>i. lines_of (getBatchFileName m i) d) (oldBatches m)) @ split_lines c'"
    using oldl by (simp add: multi_queue_def ol l name cong: map_cong)
qed


lemma newest_issued:
  assumes "oldestBatch m = None \<Longrightarrow> oldBatches m = [] \<Longrightarrow>
      (\<exists>n. covers w n (lines_of (fb_path b') d') \<and> (n = length (lines_of (fb_path b') d') \<longrightarrow> \<not> streamAtEnd b'))"
    and "multi_issued (m, d) (EventList w h)" "oldest_lines (m\<lparr>newestBatch := b'\<rparr>) d' = oldest_lines m d"
  shows "multi_issued (m\<lparr>newestBatch := b'\<rparr>, d') (EventList w h)"
  using assms by (cases "oldestBatch m") (auto simp: multi_issued_def oldest_lines_def)

text \<open>Rolling over: the full newest file joins the old ones and an empty one takes its place.\<close>

lemma openBatch_new:
  assumes "reliable d" "files d (getBatchFileName m i) = None"
  shows "\<exists>b d'. openBatch m i True d = (Inr b, d') \<and> only_file (getBatchFileName m i) d [] d' \<and> file_good b [] \<and>
    fb_path b = getBatchFileName m i \<and> \<not> finalized b \<and> fb_maxCount b = fileMaxEvents m \<and> fb_maxSize b = fileMaxSize m"
proof -
  have c: "concat (split_lines (content (getBatchFileName m i) d)) = []"
    using assms(2) by (simp add: content_def split_lines_rest)
  from FileEventBatch_opens[OF assms(1), of "getBatchFileName m i"] show ?thesis
    by (auto simp: openBatch_def andthen_def ret_def Let_def setLimit_def c file_good_def)
qed

lemma retireE:
  obtains "oldestBatch m = None" "oldBatches m = []" "oldestBatch (retire m) = Some (setFinalized (newestBatch m))" "oldBatches (retire m) = []"
  | "oldestBatch m \<noteq> None \<or> oldBatches m \<noteq> []" "oldestBatch (retire m) = oldestBatch m" "oldBatches (retire m) = oldBatches m @ [newestBatchId m]"
  by (cases "oldestBatch m = None \<and> oldBatches m = []") (auto simp: retire_def Let_def)

lemma retire_fields [simp]:
  "newestBatchId (retire m) = newestBatchId m" "fileMaxSize (retire m) = fileMaxSize m" "fileMaxEvents (retire m) = fileMaxEvents m"
  "mb_path (retire m) = mb_path m" "mb_prefix (retire m) = mb_prefix m" "mb_suffix (retire m) = mb_suffix m"
  by (simp_all add: retire_def Let_def)

lemma name_fields [simp]:
  "getBatchFileName (retire m) = getBatchFileName m" "getBatchFileName (m\<lparr>newestBatchId := i\<rparr>) = getBatchFileName m"
  "getBatchFileName (m\<lparr>newestBatch := b\<rparr>) = getBatchFileName m" "getBatchFileName (m\<lparr>oldestBatch := ob\<rparr>) = getBatchFileName m"
  "getBatchFileName (m\<lparr>oldBatches := is\<rparr>) = getBatchFileName m"
  by (simp_all add: getBatchFileName_def fun_eq_iff)

lemma setFinalized_facts [simp]:
  "fb_path (setFinalized b) = fb_path b" "finalized (setFinalized b)" "file_good (setFinalized b) c = file_good b c"
  "streamAtEnd (setFinalized b) = streamAtEnd b" "fileSize (setFinalized b) = fileSize b"
  "fb_path (setLimit mc ms b) = fb_path b" "file_good (setLimit mc ms b) c = file_good b c"
  by (simp_all add: setFinalized_def setLimit_def file_good_def)

lemma roll_run:
  assumes inv: "multi_inv (m, d)" and id: "newestBatchId m < 2 ^ 63 - 1"
  shows "\<exists>b d'. roll (m, d) = (Inr (), (retire m)\<lparr>newestBatchId := newestBatchId m + 1, newestBatch := b\<rparr>, d') \<and>
    only_file (getBatchFileName m (newestBatchId m + 1)) d [] d' \<and> file_good b [] \<and> fb_path b = getBatchFileName m (newestBatchId m + 1) \<and>
    \<not> finalized b \<and> fb_maxCount b = fileMaxEvents m \<and> fb_maxSize b = fileMaxSize m"
proof -
  let ?i = "newestBatchId m" and ?N = "getBatchFileName m"
  let ?m1 = "(retire m)\<lparr>newestBatchId := newestBatchId m + 1\<rparr>"
  obtain b d' where o: "openBatch ?m1 (?i + 1) True d = (Inr b, d')" "only_file (?N (?i + 1)) d [] d'"
      "file_good b []" "fb_path b = ?N (?i + 1)" "\<not> finalized b" "fb_maxCount b = fileMaxEvents m" "fb_maxSize b = fileMaxSize m"
    using openBatch_new[OF multi_invD(1)[OF inv], of ?m1 "?i + 1"] multi_invD(6)[OF inv, of "?i + 1"] by auto
  have "roll (m, d) = (Inr (), ?m1\<lparr>newestBatch := b\<rparr>, d')"
    using id o(1) by (simp add: roll_def seqs.simps seqp_def andthen_def set_multi_def modp_def getp_def ret_def on_disk_def)
  with o show ?thesis by auto
qed

lemma roll_spec:
  assumes inv: "multi_inv (m, d)" and ne: "newest_ok m d c" "c \<noteq> []" and id: "newestBatchId m < 2 ^ 63 - 1"
  shows "\<exists>m' d'. roll (m, d) = (Inr (), m', d') \<and> multi_inv (m', d') \<and> multi_queue (m', d') = multi_queue (m, d) \<and>
    newest_ok m' d' [] \<and> fileMaxSize m' = fileMaxSize m \<and> newestBatchId m' = newestBatchId m + 1 \<and> (\<forall>l. multi_issued (m, d) l \<longrightarrow> multi_issued (m', d') l)"
proof -
  let ?i = "newestBatchId m" and ?N = "getBatchFileName m"
  note n = newest_okD[OF ne(1)]
  obtain b d' where run: "roll (m, d) = (Inr (), (retire m)\<lparr>newestBatchId := ?i + 1, newestBatch := b\<rparr>, d')"
      and o: "True" "only_file (?N (?i + 1)) d [] d'"
      "file_good b []" "fb_path b = ?N (?i + 1)" "\<not> finalized b" "fb_maxCount b = fileMaxEvents m" "fb_maxSize b = fileMaxSize m"
    using roll_run[OF inv id] by blast
  let ?m2 = "(retire m)\<lparr>newestBatchId := ?i + 1, newestBatch := b\<rparr>"
  note oc = only_fileD[OF o(2)]
  have other: "files d' (?N j) = files d (?N j)" if "j \<noteq> ?i + 1" for j using oc(4) that by simp
  then have lines: "lines_of (?N j) d' = lines_of (?N j) d" if "j \<noteq> ?i + 1" for j
    using that by (simp add: lines_of_def content_def)
  have old_lt: "j < ?i" if "j \<in> set (oldBatches m)" for j using multi_invD(4)[OF inv that] by (simp add: old_ok_def)
  have oldl: "map (\<lambda>j. lines_of (?N j) d') (oldBatches m) = map (\<lambda>j. lines_of (?N j) d) (oldBatches m)"
    using lines old_lt by (intro map_cong) force+
  have oldk: "old_ok ?m2 d' j" if "j \<in> set (oldBatches m)" for j
    using multi_invD(4)[OF inv that] old_lt[OF that] other[of j] by (simp add: old_ok_def)
  have ilines: "lines_of (?N ?i) d' = split_lines c" "files d' (?N ?i) = Some c" using lines[of ?i] other[of ?i] n by simp_all
  have n2: "newest_ok ?m2 d' []" using o oc(3) by (simp add: newest_ok_def Let_def)
  have nl: "lines_of (?N (?i + 1)) d' = []" using oc(1) by (simp add: lines_of_def split_lines_rest)
  have free: "files d' (?N j) = None" if "j > ?i + 1" for j using other[of j] multi_invD(6)[OF inv, of j] that by simp
  have "multi_inv (?m2, d') \<and> multi_queue (?m2, d') = multi_queue (m, d) \<and> (\<forall>l. multi_issued (m, d) l \<longrightarrow> multi_issued (?m2, d') l)"
  proof (cases rule: retireE[of m])
    case 1
    have k: "oldest_ok ?m2 d' (setFinalized (newestBatch m)) c"
      using n ne(2) ilines 1 by (auto simp: oldest_ok_def)
    have "multi_inv (?m2, d')" using 1 n2 k free oc(2) by (auto simp: multi_inv_def)
    moreover have "multi_queue (?m2, d') = multi_queue (m, d)"
      using 1 n ilines nl o(4) by (simp add: multi_queue_def oldest_lines_def)
    moreover have "multi_issued (?m2, d') l" if "multi_issued (m, d) l" for l
      using that 1 n ilines by (auto simp: multi_issued_def)
    ultimately show ?thesis by blast
  next
    case 2
    have ik: "old_ok ?m2 d' ?i" using ilines ne(2) n(2) by (simp add: old_ok_def file_good_def)
    have ob: "lines_of (fb_path ob) d' = lines_of (fb_path ob) d" "\<exists>c. oldest_ok ?m2 d' ob c" if ob: "oldestBatch m = Some ob" for ob
    proof -
      obtain c' where k: "oldest_ok m d ob c'" using multi_invD(5)[OF inv ob] by blast
      obtain j where j: "j < ?i" "\<forall>i \<in> set (oldBatches m). j < i" "fb_path ob = ?N j" using k by (auto simp: oldest_ok_def)
      then have "files d' (fb_path ob) = files d (fb_path ob)" using other[of j] by simp
      with j k 2 have "oldest_ok ?m2 d' ob c'" by (auto simp: oldest_ok_def intro!: exI[of _ j])
      then show "\<exists>c. oldest_ok ?m2 d' ob c" by blast
      show "lines_of (fb_path ob) d' = lines_of (fb_path ob) d" using j lines[of j] by simp
    qed
    have "multi_inv (?m2, d')"
      using 2 n2 oldk ik old_lt free oc(2) multi_invD(3)[OF inv] ob(2) by (auto simp: multi_inv_def sorted_wrt_append split: option.split)
    moreover have ol: "oldest_lines ?m2 d' = oldest_lines m d"
      using 2 ob(1) by (auto simp: oldest_lines_def split: option.split)
    moreover have "multi_queue (?m2, d') = multi_queue (m, d)"
      using 2 n ilines nl o(4) arg_cong[OF oldl, of concat] by (simp add: multi_queue_def ol del: map_eq_conv)
    moreover have "multi_issued (?m2, d') l" if "multi_issued (m, d) l" for l
      using that 2 ob(1) by (auto simp: multi_issued_def)
    ultimately show ?thesis by blast
  qed
  with run n2 show ?thesis by (intro exI[of _ ?m2] exI[of _ d']) simp
qed


text \<open>An event that fits into an empty file, and numbers left for \<open>k\<close> more files.\<close>

definition multi_fits :: "('j \<Rightarrow> bytes) \<Rightarrow> 'j \<Rightarrow> multi_state \<Rightarrow> bool" where
  "multi_fits dump e = (\<lambda>(m, d). one_line dump e \<and> (fileMaxSize m = 0 \<or> length (event_line dump e) \<le> fileMaxSize m))"

definition multi_room :: "nat \<Rightarrow> multi_state \<Rightarrow> bool" where
  "multi_room k = (\<lambda>(m, d). newestBatchId m + int k < 2 ^ 63)"

lemma add_newest:
  assumes inv: "multi_inv (m, d)" and l: "is_line l" and can: "canAddEvent (length l) (newestBatch m)"
  shows "\<exists>m' d'. on_newest (file_add_bytes l) (m, d) = (Inr True, m', d') \<and> multi_inv (m', d') \<and>
    multi_queue (m', d') = multi_queue (m, d) @ [l] \<and> fileMaxSize m' = fileMaxSize m \<and>
    newestBatchId m' = newestBatchId m \<and> (\<forall>x. multi_issued (m, d) x \<longrightarrow> multi_issued (m', d') x)"
proof -
  obtain c where c: "newest_ok m d c" using multi_invD(2)[OF inv] by blast
  note n = newest_okD[OF c]
  obtain b' d' where a: "file_add_bytes l (newestBatch m, d) = (Inr True, b', d')" "same_setup (newestBatch m) b'"
      "only_file (fb_path (newestBatch m)) d (c @ l) d'" "file_good b' (c @ l)"
    using file_add_good[OF multi_invD(1)[OF inv] n(1,2) l] can by (auto simp: Let_def)
  note f = newest_frame[OF inv a(3,4,2)]
  have s: "split_lines (c @ l) = split_lines c @ [l]"
    using split_lines_append_line[OF _ l, of c] n(2) by (simp add: file_good_def)
  have "multi_issued (m\<lparr>newestBatch := b'\<rparr>, d') x" if x: "multi_issued (m, d) x" for x
  proof -
    obtain w h where w: "x = EventList w h" using x by (auto simp: multi_issued_def)
    have "\<exists>k. covers w k (lines_of (fb_path b') d') \<and> (k = length (lines_of (fb_path b') d') \<longrightarrow> \<not> streamAtEnd b')"
      if "oldestBatch m = None" "oldBatches m = []"
    proof -
      from x that n(7) w obtain k where k: "covers w k (split_lines c)" by (auto simp: multi_issued_def)
      then show ?thesis using coversD(3)[OF k] covers_append[OF k, of "[l]"] by (intro exI[of _ k]) (simp add: f(4) s)
    qed
    then show ?thesis using x f(3) unfolding w by (rule newest_issued)
  qed
  moreover have "multi_queue (m\<lparr>newestBatch := b'\<rparr>, d') = multi_queue (m, d) @ [l]"
    using f(2) s n(7) by (simp add: multi_queue_def)
  ultimately show ?thesis using a(1) f(1) by (auto simp: on_newest_def)
qed

lemma multi_add:
  assumes inv: "multi_inv (m, d)" and fits: "multi_fits dump e (m, d)" and room: "multi_room (Suc k) (m, d)"
  shows "\<exists>m' d'. multi_addEvent dump e (m, d) = (Inr True, m', d') \<and> multi_inv (m', d') \<and>
    multi_queue (m', d') = multi_queue (m, d) @ [event_line dump e] \<and> fileMaxSize m' = fileMaxSize m \<and>
    newestBatchId m' \<le> newestBatchId m + 1 \<and> (\<forall>x. multi_issued (m, d) x \<longrightarrow> multi_issued (m', d') x)"
proof -
  let ?l = "event_line dump e"
  have l: "is_line ?l" using fits by (simp add: multi_fits_def one_line_def event_line_is_line)
  show ?thesis
  proof (cases "canAddEvent (length ?l) (newestBatch m)")
    case True
    with add_newest[OF inv l True] show ?thesis
      by (auto simp: multi_addEvent_def Let_def seqp_def andthen_def getp_def whenp_def ret_def)
  next
    case False
    obtain c where c: "newest_ok m d c" using multi_invD(2)[OF inv] by blast
    have empty_can: "canAddEvent (length ?l) (newestBatch m')"
      if "newest_ok m' d' []" "fileMaxSize m' = fileMaxSize m" for m' d'
      using newest_okD[OF that(1)] that(2) fits by (auto simp: canAddEvent_def canAddEventInt_def multi_fits_def file_good_def split_lines_rest)
    have "c \<noteq> []" using empty_can[of m d] c False by auto
    then obtain m1 d1 where r: "roll (m, d) = (Inr (), m1, d1)" "multi_inv (m1, d1)" "multi_queue (m1, d1) = multi_queue (m, d)"
        "newest_ok m1 d1 []" "fileMaxSize m1 = fileMaxSize m" "newestBatchId m1 = newestBatchId m + 1" "\<forall>x. multi_issued (m, d) x \<longrightarrow> multi_issued (m1, d1) x"
      using roll_spec[OF inv c] room by (auto simp: multi_room_def)
    from add_newest[OF r(2) l empty_can[OF r(4,5)]] r False show ?thesis
      by (auto simp: multi_addEvent_def Let_def seqp_def andthen_def getp_def whenp_def)
  qed
qed

text \<open>Before an upload the first old file is opened when none is.\<close>

lemma multi_check:
  assumes inv: "multi_inv (m, d)"
  shows "\<exists>m' d'. checkOldestBatch (m, d) = (Inr (), m', d') \<and> multi_inv (m', d') \<and> multi_queue (m', d') = multi_queue (m, d) \<and>
    (oldestBatch m' = None \<longrightarrow> oldBatches m' = []) \<and>
    fileMaxSize m' = fileMaxSize m \<and> newestBatchId m' = newestBatchId m"
proof (cases "oldestBatch m = None \<and> oldBatches m \<noteq> []")
  case False
  then have "checkOldestBatch (m, d) = (Inr (), m, d)"
    by (auto simp: checkOldestBatch_def andthen_def getp_def ret_def)
  with False inv show ?thesis by auto
next
  case True
  then obtain i rest where old: "oldBatches m = i # rest" "oldestBatch m = None" by (cases "oldBatches m") auto
  let ?N = "getBatchFileName m"
  obtain c where i: "i < newestBatchId m" "files d (?N i) = Some c" "complete c" "c \<noteq> []"
    using multi_invD(4)[OF inv, of i] old by (auto simp: old_ok_def)
  have cc: "content (?N i) d = c" "concat (split_lines c) = c" using i by (simp_all add: content_def complete_def)
  let ?m1 = "m\<lparr>oldBatches := rest\<rparr>"
  obtain b d' where o: "FileEventBatch (?N i) d = (Inr b, d')" "only_file (?N i) d c d'" "file_good b c" "fb_path b = ?N i"
    using FileEventBatch_opens[OF multi_invD(1)[OF inv], of "?N i"] cc by auto
  let ?b = "setFinalized (setLimit (fileMaxEvents m) (fileMaxSize m) b)"
  have b: "fb_path ?b = ?N i" "file_good ?b c" "finalized ?b" using o by simp_all
  have fs: "fileSize ?b \<noteq> 0" using b(2) i(4) by (simp add: file_good_def)
  have same: "files d' = files d" using o(2) i(2) by (simp add: only_file_def fun_upd_idem)
  let ?m2 = "m\<lparr>oldBatches := rest, oldestBatch := Some ?b\<rparr>"
  have "checkOldestBatch (m, d) = (Inr (), ?m2, d')"
    using old o(1) fs
    by (simp add: checkOldestBatch_def seqp_def andthen_def getp_def set_multi_def modp_def on_disk_def openBatch_def ret_def Let_def)
  moreover have "multi_inv (?m2, d')"
  proof -
    have "oldest_ok ?m2 d' ?b c" using b i same multi_invD(3)[OF inv] old by (auto simp: oldest_ok_def)
    moreover obtain cn where "newest_ok m d cn" using multi_invD(2)[OF inv] by blast
    then have "newest_ok ?m2 d' cn" using same by (auto simp: newest_ok_def Let_def)
    moreover have "old_ok ?m2 d' j" if "j \<in> set rest" for j
      using multi_invD(4)[OF inv, of j] that old same by (auto simp: old_ok_def)
    ultimately show ?thesis
      using multi_invD(3,6)[OF inv] old same only_fileD(2)[OF o(2)] by (auto simp: multi_inv_def)
  qed
  moreover have "multi_queue (?m2, d') = multi_queue (m, d)"
    using old b(1) same by (simp add: multi_queue_def oldest_lines_def lines_of_def content_def)
  ultimately show ?thesis by auto
qed


text \<open>Changing or removing the oldest file leaves the others alone.\<close>

definition tail_lines :: "multi_batch \<Rightarrow> disk \<Rightarrow> bytes list" where
  "tail_lines m d = concat (map (\<lambda>i. lines_of (getBatchFileName m i) d) (oldBatches m)) @ lines_of (fb_path (newestBatch m)) d"

lemma multi_queue_parts: "multi_queue (m, d) = oldest_lines m d @ tail_lines m d"
  by (simp add: multi_queue_def tail_lines_def)

lemma oldest_frame:
  assumes inv: "multi_inv (m, d)" and b: "oldestBatch m = Some b" and rel: "reliable d'"
    and other: "\<And>q. q \<noteq> fb_path b \<Longrightarrow> files d' q = files d q"
    and new: "\<And>b'. ob = Some b' \<Longrightarrow> same_setup b b' \<and> files d' (fb_path b) = Some c' \<and> file_good b' c' \<and> c' \<noteq> []"
  shows "multi_inv (m\<lparr>oldestBatch := ob\<rparr>, d')"
    "multi_queue (m\<lparr>oldestBatch := ob\<rparr>, d') = (if ob = None then [] else split_lines c') @ tail_lines m d"
proof -
  let ?m = "m\<lparr>oldestBatch := ob\<rparr>" and ?N = "getBatchFileName m"
  obtain c j where k: "oldest_ok m d b c" and j: "j < newestBatchId m" "j \<notin> set (oldBatches m)" "fb_path b = ?N j"
    and jl: "\<forall>i \<in> set (oldBatches m). j < i"
  proof -
    obtain c where c: "oldest_ok m d b c" using multi_invD(5)[OF inv b] by blast
    then obtain j where "j < newestBatchId m" "\<forall>i \<in> set (oldBatches m). j < i" "fb_path b = ?N j" by (auto simp: oldest_ok_def)
    with c that[of c j] show ?thesis by blast
  qed
  have fi: "files d' (?N i) = files d (?N i)" if "i \<noteq> j" for i using other[of "?N i"] j that by simp
  obtain cn where cn: "newest_ok m d cn" using multi_invD(2)[OF inv] by blast
  note n = newest_okD[OF cn]
  have nn: "files d' (?N (newestBatchId m)) = files d (?N (newestBatchId m))" using fi[of "newestBatchId m"] j by simp
  have "newest_ok ?m d' cn" using n nn by (simp add: newest_ok_def Let_def)
  moreover have olds: "old_ok ?m d' i" if "i \<in> set (oldBatches m)" for i
  proof -
    have "files d' (?N i) = files d (?N i)" using fi[of i] that j(2) by auto
    then show ?thesis using multi_invD(4)[OF inv that] by (simp add: old_ok_def)
  qed
  moreover have ob: "oldest_ok ?m d' b' c' \<and> fb_path b' = fb_path b" if "ob = Some b'" for b'
    using new[OF that] k j(1,3) jl by (auto simp: oldest_ok_def same_setup_def)
  moreover have "files d' (?N i) = None" if "i > newestBatchId m" for i using fi[of i] j that multi_invD(6)[OF inv that] by simp
  ultimately show "multi_inv (?m, d')"
    using multi_invD(3)[OF inv] rel by (cases ob) (auto simp: multi_inv_def)
  have tl: "tail_lines ?m d' = tail_lines m d"
  proof -
    have "map (\<lambda>i. lines_of (?N i) d') (oldBatches m) = map (\<lambda>i. lines_of (?N i) d) (oldBatches m)"
    proof (rule map_cong[OF refl])
      fix i assume "i \<in> set (oldBatches m)"
      then have "i \<noteq> j" using j(2) by auto
      then show "lines_of (?N i) d' = lines_of (?N i) d" by (simp add: lines_of_def content_def fi)
    qed
    then show ?thesis using nn n(3) by (simp add: tail_lines_def lines_of_def content_def del: map_eq_conv)
  qed
  show "multi_queue (?m, d') = (if ob = None then [] else split_lines c') @ tail_lines m d"
    using ob new tl by (cases ob) (auto simp: multi_queue_parts oldest_lines_def lines_of_def content_def)
qed

lemma oldest_okD:
  assumes "oldest_ok m d b c"
  shows "files d (fb_path b) = Some c" "file_good b c" "c \<noteq> []" "finalized b" "lines_of (fb_path b) d = split_lines c"
  using assms by (simp_all add: oldest_ok_def lines_of_def content_def)

lemma multi_get:
  assumes inv: "multi_inv (m, d)" and ne: "multi_queue (m, d) \<noteq> []" and mc: "0 < mc"
  shows "\<exists>l n m' d' more. multi_getEventsForUpload mc ms (m, d) = (Inr (Some l), m', d') \<and> multi_inv (m', d') \<and>
    multi_queue (m', d') = multi_queue (m, d) \<and> multi_issued (m', d') l \<and> fileMaxSize m' = fileMaxSize m \<and>
    newestBatchId m' = newestBatchId m \<and> covers l n (multi_queue (m, d)) \<and>
    hasMoreEvents l = Some more \<and> (\<not> more \<longrightarrow> n = length (multi_queue (m, d))) \<and> n \<le> mc \<and>
    length (concat (take n (multi_queue (m, d)))) \<le> ms \<and> (length (hd (multi_queue (m, d))) \<le> min ms max_chunk \<longrightarrow> 0 < n)"
proof -
  obtain m1 d1 where ch: "checkOldestBatch (m, d) = (Inr (), m1, d1)" "multi_inv (m1, d1)" "multi_queue (m1, d1) = multi_queue (m, d)"
      "oldestBatch m1 = None \<longrightarrow> oldBatches m1 = []" "fileMaxSize m1 = fileMaxSize m"
      "newestBatchId m1 = newestBatchId m" using multi_check[OF inv] by (elim exE conjE)
  note i1 = multi_invD[OF ch(2)]
  show ?thesis
  proof (cases "oldestBatch m1")
    case (Some b)
    obtain c where c: "oldest_ok m1 d1 b c" using i1(5)[OF Some] by blast
    note o = oldest_okD[OF c]
    obtain l n b' d' more where g: "file_getEventsForUpload mc ms (b, d1) = (Inr (Some l), b', d')" "only_file (fb_path b) d1 c d'"
        "file_good b' c" "\<not> streamAtEnd b'" "same_setup b b'" "covers l n (split_lines c)" "hasMoreEvents l = Some more"
        "n \<le> mc" "length (concat (take n (split_lines c))) \<le> ms" "length (hd (split_lines c)) \<le> min ms max_chunk \<longrightarrow> 0 < n"
      using file_get_good[OF i1(1) o(1-3) mc, of ms] by blast
    note oc = only_fileD[OF g(2)]
    have fr: "multi_inv (m1\<lparr>oldestBatch := Some b'\<rparr>, d')"
      "multi_queue (m1\<lparr>oldestBatch := Some b'\<rparr>, d') = split_lines c @ tail_lines m1 d1"
      using oldest_frame[OF ch(2) Some oc(2) oc(4), of "Some b'" c] g(5,3) oc(3) o(3) by auto
    have q: "multi_queue (m, d) = split_lines c @ tail_lines m1 d1"
      using ch(3) Some o(5) by (simp add: multi_queue_parts oldest_lines_def)
    have sl: "split_lines c \<noteq> []" using o(2,3) by (simp add: file_good_def split_lines_empty)
    have "multi_issued (m1\<lparr>oldestBatch := Some b'\<rparr>, d') (EventList l True)"
      using g(4,5,6) oc(1) by (auto simp: multi_issued_def lines_of_def same_setup_def)
    moreover have "covers (EventList l True) n (multi_queue (m, d))" using covers_append[OF g(6)] by (simp add: q covers_def)
    moreover have "multi_getEventsForUpload mc ms (m, d) = (Inr (Some (EventList l True)), m1\<lparr>oldestBatch := Some b'\<rparr>, d')"
      using ch(1) Some g(1) by (simp add: multi_getEventsForUpload_def seqp_def andthen_def getp_def on_oldest_def ret_def)
    ultimately show ?thesis using fr q g(7-10) coversD(3)[OF g(6)] sl ch(5,6)
      by (intro exI[of _ "EventList l True"] exI[of _ n] exI[of _ "m1\<lparr>oldestBatch := Some b'\<rparr>"] exI[of _ d'] exI[of _ True]) simp
  next
    case None
    with ch(4) have old: "oldBatches m1 = []" by simp
    obtain c where c: "newest_ok m1 d1 c" using i1(2) by blast
    note n1 = newest_okD[OF c]
    have q: "multi_queue (m, d) = split_lines c"
      using ch(3) None old n1(7) by (simp add: multi_queue_def oldest_lines_def)
    then have "c \<noteq> []" using ne by (auto simp: split_lines_rest)
    then obtain l n b' d' more where g: "file_getEventsForUpload mc ms (newestBatch m1, d1) = (Inr (Some l), b', d')"
        "only_file (fb_path (newestBatch m1)) d1 c d'" "file_good b' c" "\<not> streamAtEnd b'" "same_setup (newestBatch m1) b'"
        "covers l n (split_lines c)" "hasMoreEvents l = Some more" "\<not> more \<longrightarrow> n = length (split_lines c)"
        "n \<le> mc" "length (concat (take n (split_lines c))) \<le> ms" "length (hd (split_lines c)) \<le> min ms max_chunk \<longrightarrow> 0 < n"
      using file_get_good[OF i1(1) n1(1,2) _ mc, of ms] by blast
    note f = newest_frame[OF ch(2) g(2,3,5)]
    have "multi_issued (m1\<lparr>newestBatch := b'\<rparr>, d') (EventList l False)"
      using g(4,6) None old f(4) by (auto simp: multi_issued_def)
    moreover have "covers (EventList l False) n (multi_queue (m, d))" using g(6) by (simp add: q covers_def)
    moreover have "multi_getEventsForUpload mc ms (m, d) = (Inr (Some (EventList l False)), m1\<lparr>newestBatch := b'\<rparr>, d')"
      using ch(1) None g(1) by (simp add: multi_getEventsForUpload_def seqp_def andthen_def getp_def on_newest_def ret_def)
    moreover have "multi_queue (m1\<lparr>newestBatch := b'\<rparr>, d') = multi_queue (m, d)"
      using f(2) None old q by (simp add: oldest_lines_def)
    ultimately show ?thesis using f(1) q g(7-11) ch(5,6)
      by (intro exI[of _ "EventList l False"] exI[of _ n] exI[of _ "m1\<lparr>newestBatch := b'\<rparr>"] exI[of _ d'] exI[of _ more]) simp
  qed
qed


lemma multi_uploaded:
  assumes inv: "multi_inv (m, d)" and iss: "multi_issued (m, d) l" and cov: "covers l n (multi_queue (m, d))"
  shows "\<exists>m' d'. multi_onEventsUploaded l (m, d) = (Inr (), m', d') \<and> multi_inv (m', d') \<and>
    multi_queue (m', d') = drop n (multi_queue (m, d)) \<and> fileMaxSize m' = fileMaxSize m \<and> newestBatchId m' = newestBatchId m"
proof -
  obtain w h b k where l: "l = EventList w h"
      and b: "oldestBatch m = Some b \<or> oldestBatch m = None \<and> oldBatches m = [] \<and> b = newestBatch m"
      and k: "covers w k (lines_of (fb_path b) d)" "k = length (lines_of (fb_path b) d) \<longrightarrow> \<not> streamAtEnd b"
    using iss by (auto simp: multi_issued_def)
  have kn: "k = n" using cov k(1) by (simp add: covers_def l)
  from b show ?thesis
  proof
    assume ob: "oldestBatch m = Some b"
    obtain c where c: "oldest_ok m d b c" using multi_invD(5)[OF inv ob] by blast
    note o = oldest_okD[OF c]
    obtain b' d' where u: "file_onEventsUploaded w (b, d) = (Inr (), b', d')" "same_setup b b'"
      "if n = length (split_lines c) \<and> finalized b
       then fd b' = None \<and> fileSize b' = 0 \<and> eventCount b' = 0 \<and> reliable d' \<and> files d' = (files d)(fb_path b := None)
       else only_file (fb_path b) d (concat (drop n (split_lines c))) d' \<and> file_good b' (concat (drop n (split_lines c)))"
      using file_uploaded_good[OF multi_invD(1)[OF inv] o(1,2), of w n] k kn o(5) by (auto simp: covers_def)
    have q: "multi_queue (m, d) = split_lines c @ tail_lines m d" using ob o(5) by (simp add: multi_queue_parts oldest_lines_def)
    have nl: "n \<le> length (split_lines c)" using coversD(3)[OF k(1)] kn o(5) by simp
    have run: "multi_onEventsUploaded l (m, d) = (Inr (), m\<lparr>oldestBatch := if fileSize b' = 0 then None else Some b'\<rparr>, d')"
      using ob u(1) by (simp add: l multi_onEventsUploaded_def seqp_def andthen_def getp_def on_oldest_def set_multi_def modp_def)
    show ?thesis
    proof (cases "n = length (split_lines c)")
      case True
      with u(3) o(4) have f: "fileSize b' = 0" "reliable d'" "files d' = (files d)(fb_path b := None)" by simp_all
      have "multi_inv (m\<lparr>oldestBatch := None\<rparr>, d')" "multi_queue (m\<lparr>oldestBatch := None\<rparr>, d') = tail_lines m d"
        using oldest_frame[OF inv ob f(2), of None] f(3) by simp_all
      then show ?thesis using run f(1) q True by auto
    next
      case False
      with u(3) have f: "only_file (fb_path b) d (concat (drop n (split_lines c))) d'" "file_good b' (concat (drop n (split_lines c)))"
        by simp_all
      have dl: "\<forall>l \<in> set (drop n (split_lines c)). is_line l" by (auto dest: in_set_dropD split_lines_is_line)
      have sp: "split_lines (concat (drop n (split_lines c))) = drop n (split_lines c)" using dl by simp
      then have ne: "concat (drop n (split_lines c)) \<noteq> []" using False nl split_lines_rest[of "[]"] by (metis drop_eq_Nil2 empty_iff empty_set le_antisym)
      then have fs: "fileSize b' \<noteq> 0" using f(2) by (simp add: file_good_def del: concat_eq_Nil_conv)
      have "multi_inv (m\<lparr>oldestBatch := Some b'\<rparr>, d')"
        "multi_queue (m\<lparr>oldestBatch := Some b'\<rparr>, d') = drop n (split_lines c) @ tail_lines m d"
        using oldest_frame[OF inv ob only_fileD(2)[OF f(1)] only_fileD(4)[OF f(1)], of "Some b'" "concat (drop n (split_lines c))"]
          u(2) f(2) only_fileD(3)[OF f(1)] ne sp by simp_all
      then show ?thesis using run fs q nl by auto
    qed
  next
    assume "oldestBatch m = None \<and> oldBatches m = [] \<and> b = newestBatch m"
    then have ob: "oldestBatch m = None" "oldBatches m = []" "b = newestBatch m" by simp_all
    obtain c where c: "newest_ok m d c" using multi_invD(2)[OF inv] by blast
    note n1 = newest_okD[OF c]
    obtain b' d' where u: "file_onEventsUploaded w (newestBatch m, d) = (Inr (), b', d')" "same_setup (newestBatch m) b'"
        "only_file (fb_path (newestBatch m)) d (concat (drop n (split_lines c))) d'" "file_good b' (concat (drop n (split_lines c)))"
      using file_uploaded_good[OF multi_invD(1)[OF inv] n1(1,2), of w n] k kn n1(4,7) ob(3) by (auto simp: covers_def)
    note f = newest_frame[OF inv u(3,4,2)]
    have "\<forall>l \<in> set (drop n (split_lines c)). is_line l" by (auto dest: in_set_dropD split_lines_is_line)
    then have "multi_queue (m\<lparr>newestBatch := b'\<rparr>, d') = drop n (multi_queue (m, d))"
      using f(2) ob n1(7) by (simp add: multi_queue_def oldest_lines_def)
    moreover have "multi_onEventsUploaded l (m, d) = (Inr (), m\<lparr>newestBatch := b'\<rparr>, d')"
      using ob u(1) by (simp add: l multi_onEventsUploaded_def andthen_def getp_def on_newest_def)
    ultimately show ?thesis using f(1) by auto
  qed
qed

lemma multi_has:
  assumes inv: "multi_inv (m, d)"
  shows "multi_hasEvents (m, d) = (Inr (multi_queue (m, d) \<noteq> []), m, d)"
proof -
  obtain c where c: "newest_ok m d c" using multi_invD(2)[OF inv] by blast
  note n = newest_okD[OF c]
  have new: "fileSize (newestBatch m) \<noteq> 0 \<longleftrightarrow> lines_of (fb_path (newestBatch m)) d \<noteq> []"
    using n(2,7) by (simp add: file_good_def split_lines_empty)
  have old: "lines_of (getBatchFileName m i) d \<noteq> []" if "i \<in> set (oldBatches m)" for i
    using multi_invD(4)[OF inv that] by (auto simp: old_ok_def lines_of_def content_def split_lines_empty)
  have oldest: "oldest_lines m d \<noteq> []" if ob: "oldestBatch m = Some b" for b
    using multi_invD(5)[OF inv ob] ob by (auto simp: oldest_lines_def oldest_ok_def lines_of_def content_def file_good_def split_lines_empty)
  have "multi_queue (m, d) \<noteq> [] \<longleftrightarrow> oldBatches m \<noteq> [] \<or> oldestBatch m \<noteq> None \<or> fileSize (newestBatch m) \<noteq> 0"
    using new old oldest by (cases "oldBatches m"; cases "oldestBatch m") (auto simp: multi_queue_def oldest_lines_def)
  then show ?thesis by (simp add: multi_hasEvents_def getp_def)
qed

lemma multi_stable:
  "fileMaxSize m' = fileMaxSize m \<Longrightarrow> multi_fits dump x (m', d') = multi_fits dump x (m, d)"
  "newestBatchId m' = newestBatchId m \<Longrightarrow> multi_room k (m', d') = multi_room k (m, d)"
  "newestBatchId m' \<le> newestBatchId m + 1 \<Longrightarrow> multi_room (Suc k) (m, d) \<Longrightarrow> multi_room k (m', d')"
  by (simp_all add: multi_fits_def multi_room_def)

interpretation multi: shared_queue "multi_ops dump" multi_inv multi_queue multi_issued "multi_fits dump" multi_room "event_line dump"
proof (unfold_locales, goal_cases)
  case (1 s e k)
  obtain m d where s: "s = (m, d)" by (cases s)
  have "multi_inv (m, d)" "multi_fits dump e (m, d)" and k: "multi_room (Suc k) (m, d)" using 1 by (simp_all add: s)
  from multi_add[OF this] obtain m' d' where g: "multi_addEvent dump e (m, d) = (Inr True, m', d')" "multi_inv (m', d')"
      "multi_queue (m', d') = multi_queue (m, d) @ [event_line dump e]"
      and st: "fileMaxSize m' = fileMaxSize m" "newestBatchId m' \<le> newestBatchId m + 1" by (elim exE conjE)
  show ?case unfolding wp_def multi_ops_def event_batch.simps s g(1) prod.case sum.case multi_stable(1)[OF st(1), of dump _ d' d]
    using g(2,3) multi_stable(3)[OF st(2) k] by simp
next
  case (2 s mc ms)
  obtain m d where s: "s = (m, d)" by (cases s)
  have "multi_inv (m, d)" "multi_queue (m, d) \<noteq> []" using 2(1,2) by (simp_all add: s)
  from multi_get[OF this 2(3), of ms] obtain l n m' d' more where
    g: "multi_getEventsForUpload mc ms (m, d) = (Inr (Some l), m', d')" "multi_inv (m', d')"
      "multi_queue (m', d') = multi_queue (m, d)" "multi_issued (m', d') l" "covers l n (multi_queue (m', d'))"
      "hasMoreEvents l = Some more" "\<not> more \<longrightarrow> n = length (multi_queue (m', d'))" "n \<le> mc"
      "length (concat (take n (multi_queue (m', d')))) \<le> ms" "length (hd (multi_queue (m', d'))) \<le> min ms max_chunk \<longrightarrow> 0 < n"
      and st: "fileMaxSize m' = fileMaxSize m" "newestBatchId m' = newestBatchId m"
    by (elim exE conjE) auto
  show ?case unfolding wp_def multi_ops_def event_batch.simps s g(1) prod.case sum.case
      multi_stable(1)[OF st(1), of dump _ d' d] multi_stable(2)[OF st(2), of _ d' d]
    using g(2-10) by blast
next
  case (3 s l n)
  obtain m d where s: "s = (m, d)" by (cases s)
  have "multi_inv (m, d)" "multi_issued (m, d) l" "covers l n (multi_queue (m, d))" using 3 by (simp_all add: s)
  from multi_uploaded[OF this] obtain m' d' where g: "multi_onEventsUploaded l (m, d) = (Inr (), m', d')" "multi_inv (m', d')"
      "multi_queue (m', d') = drop n (multi_queue (m, d))"
      and st: "fileMaxSize m' = fileMaxSize m" "newestBatchId m' = newestBatchId m" by (elim exE conjE)
  show ?case unfolding wp_def multi_ops_def event_batch.simps s g(1) prod.case sum.case
      multi_stable(1)[OF st(1), of dump _ d' d] multi_stable(2)[OF st(2), of _ d' d]
    using g(2,3) by simp
next
  case (4 s)
  then show ?case using multi_has[of "fst s" "snd s"] by (simp add: multi_ops_def)
next
  case (5 k s j)
  then show ?case by (auto simp: multi_room_def)
next
  case (6 s e k l)
  then show ?case using multi_add[of "fst s" "snd s" dump e k] by (auto simp: wp_def multi_ops_def)
qed

interpretation multi_storing: storing_queue "multi_ops dump" multi_inv multi_queue multi_issued "multi_fits dump" multi_room "event_line dump"
proof (unfold_locales, goal_cases)
  case (1 s e k)
  then show ?case using multi_add[of "fst s" "snd s" dump e k] by (auto simp: wp_def multi_ops_def)
qed


section \<open>Starting again\<close>

text \<open>The files of a queue, first to last.\<close>

definition batch_paths :: "multi_batch \<Rightarrow> file_path list" where
  "batch_paths m = (case oldestBatch m of None \<Rightarrow> [] | Some b \<Rightarrow> [fb_path b]) @ map (getBatchFileName m) (oldBatches m) @ [fb_path (newestBatch m)]"

lemma batch_id_name:
  assumes "0 \<le> i" "i < 2 ^ 63"
  shows "batch_id prefix suffix (prefix @ show_int i @ suffix, True) = Some i"
proof (cases "stoull (show_int i)")
  case (Inr v)
  then show ?thesis using stoull_show[OF assms] by (simp add: batch_id_def Let_def)
qed (use stoull_show[OF assms] in simp)

lemma getBatches_listing:
  assumes "mset es = mset (map (\<lambda>i. (prefix @ show_int i @ suffix, True)) ids) + mset others"
    "\<forall>x \<in> set others. batch_id prefix suffix x = None" "\<forall>i \<in> set ids. 0 \<le> i \<and> i < 2 ^ 63" "sorted_wrt (<) ids"
  shows "getBatches prefix suffix (Some es) = ids"
proof -
  let ?f = "batch_id prefix suffix" and ?g = "\<lambda>i. (prefix @ show_int i @ suffix, True)"
  have mf: "mset (List.map_filter ?f xs) = image_mset (the \<circ> ?f) (filter_mset (\<lambda>x. ?f x \<noteq> None) (mset xs))" for xs
    by (simp add: List.map_filter_def)
  have f: "?f (?g i) = Some i" if "i \<in> set ids" for i using assms(3) that by (intro batch_id_name) auto
  have k: "List.map_filter ?f (map ?g ids) = ids" using f by (induction ids) (auto simp: List.map_filter_def)
  have n: "List.map_filter ?f others = []" using assms(2) by (simp add: List.map_filter_def filter_empty_conv)
  have "mset (List.map_filter ?f es) = mset (List.map_filter ?f (map ?g ids)) + mset (List.map_filter ?f others)"
    by (simp only: mf assms(1) filter_union_mset image_mset_union)
  then have "mset ids = mset (List.map_filter ?f es)" using k n by simp
  moreover have "sorted ids" using assms(4) by (rule strict_sorted_imp_sorted)
  ultimately show ?thesis by (simp add: getBatches_def properties_for_sort)
qed

text \<open>The numbers of the files ascend.\<close>

lemma batch_paths_ids:
  assumes inv: "multi_inv (m, d)" and ids: "map (getBatchFileName m) ids = batch_paths m"
  shows "ids = butlast ids @ [newestBatchId m]" "sorted_wrt (<) ids" "\<forall>i \<in> set (butlast ids). old_ok m d i"
    "concat (map (\<lambda>i. lines_of (getBatchFileName m i) d) (butlast ids)) =
     oldest_lines m d @ concat (map (\<lambda>i. lines_of (getBatchFileName m i) d) (oldBatches m))"
proof -
  let ?N = "getBatchFileName m"
  obtain c where c: "newest_ok m d c" using multi_invD(2)[OF inv] by blast
  have inj: "inj ?N" by (rule injI) simp
  have lt: "i < newestBatchId m" if "i \<in> set (oldBatches m)" for i using multi_invD(4)[OF inv that] by (simp add: old_ok_def)
  obtain js where js: "ids = js @ oldBatches m @ [newestBatchId m]" "\<forall>j \<in> set js. j < newestBatchId m \<and> (\<forall>i \<in> set (oldBatches m). j < i) \<and> old_ok m d j"
      "oldest_lines m d = concat (map (\<lambda>i. lines_of (?N i) d) js)" "length js \<le> 1"
  proof (cases "oldestBatch m")
    case None
    then have "map ?N ids = map ?N (oldBatches m @ [newestBatchId m])" using ids newest_okD(3)[OF c] by (simp add: batch_paths_def)
    then have "ids = oldBatches m @ [newestBatchId m]" using inj by (simp only: inj_map_eq_map)
    then show ?thesis using None by (intro that[of "[]"]) (simp_all add: oldest_lines_def)
  next
    case (Some b)
    then obtain cb where k: "oldest_ok m d b cb" using multi_invD(5)[OF inv] by blast
    then obtain j where j: "j < newestBatchId m" "\<forall>i \<in> set (oldBatches m). j < i" "fb_path b = ?N j" by (auto simp: oldest_ok_def)
    then have "map ?N ids = map ?N (j # oldBatches m @ [newestBatchId m])" using Some ids newest_okD(3)[OF c] by (simp add: batch_paths_def)
    then have "ids = j # oldBatches m @ [newestBatchId m]" using inj by (simp only: inj_map_eq_map)
    moreover have "old_ok m d j" using k j by (auto simp: oldest_ok_def old_ok_def file_good_def)
    ultimately show ?thesis using Some j by (intro that[of "[j]"]) (simp_all add: oldest_lines_def)
  qed
  have bl: "butlast ids = js @ oldBatches m" using js(1) by (simp add: butlast_append)
  show "ids = butlast ids @ [newestBatchId m]" using bl js(1) by simp
  have "sorted_wrt (<) js" using js(4) by (cases js) auto
  then show "sorted_wrt (<) ids" using js lt multi_invD(3)[OF inv] by (auto simp: sorted_wrt_append)
  show "\<forall>i \<in> set (butlast ids). old_ok m d i" using bl js(2) multi_invD(4)[OF inv] by auto
  show "concat (map (\<lambda>i. lines_of (?N i) d) (butlast ids)) = oldest_lines m d @ concat (map (\<lambda>i. lines_of (?N i) d) (oldBatches m))"
    using bl js(3) by simp
qed

section \<open>Properties\<close>

text \<open>A directory with one file that holds \<open>ls\<close>.\<close>

definition sample_multi :: "nat \<Rightarrow> bytes list \<Rightarrow> multi_state" where
  "sample_multi lim ls = (let n = length (concat ls); b = \<lparr> fb_path = ''/n0.txt'', fd = Some n, fileSize = n, eventCount = length ls,
       streamAtEnd = True, finalized = False, fb_maxCount = 0, fb_maxSize = lim \<rparr> in
     (\<lparr> mb_path = ''/'', mb_prefix = ''n'', mb_suffix = ''.txt'', fileMaxSize = lim, fileMaxEvents = 0, oldestBatch = None,
        oldBatches = [], newestBatch = b, newestBatchId = 0 \<rparr>,
      \<lparr> files = [''/n0.txt'' \<mapsto> concat ls], opens = [], reads = [Some 0], writes = [Some 0], truncs = [] \<rparr>))"

lemma show_zero: "show_int 0 = ''0''"
proof -
  have "char_of (48 :: nat) = CHR ''0''" by code_simp
  then show ?thesis by (simp add: show_int_def dec_digits.simps)
qed

lemma sample_multi:
  assumes "\<forall>l \<in> set ls. is_line l"
  shows "multi_inv (sample_multi lim ls)" "multi_queue (sample_multi lim ls) = ls" "multi_room k (sample_multi lim ls) = (int k < 2 ^ 63)"
    "multi_fits dump e (sample_multi lim ls) = (one_line dump e \<and> (lim = 0 \<or> length (event_line dump e) \<le> lim))"
    "mb_path (fst (sample_multi lim ls)) = ''/''" "fileMaxSize (fst (sample_multi lim ls)) = lim"
proof -
  obtain m d where s: "sample_multi lim ls = (m, d)" by (cases "sample_multi lim ls")
  have n0: "getBatchFileName m 0 = ''/n0.txt''" using s by (auto simp: sample_multi_def Let_def getBatchFileName_def show_zero)
  have other: "getBatchFileName m j \<noteq> ''/n0.txt''" if "0 < j" for j using n0 getBatchFileName_inject[of m j 0] that by auto
  show "multi_inv (sample_multi lim ls)" unfolding s using s n0 other assms
    by (auto simp: sample_multi_def Let_def multi_inv_def newest_ok_def reliable_def file_good_def)
  show "multi_queue (sample_multi lim ls) = ls"
    using assms by (simp add: sample_multi_def Let_def multi_queue_def oldest_lines_def lines_of_def content_def)
qed (simp_all add: sample_multi_def Let_def multi_room_def multi_fits_def)

text \<open>
  C12: a restart keeps what is stored. Opening the queue again on the disk it was left on, when the
  directory lists the numbered files in any order and whatever other entries, gives a queue with
  the same events in the same order, ready for use.
\<close>
theorem multi_restart_keeps_events:
  assumes inv: "multi_inv (m, d)" and path: "mb_path m = [] \<or> last (mb_path m) = CHR ''/''"
    and ids: "map (getBatchFileName m) ids = batch_paths m" "\<forall>i \<in> set ids. 0 \<le> i \<and> i < 2 ^ 63"
    and dir: "readdir (mb_path m) = Some es"
      "mset es = mset (map (\<lambda>i. (mb_prefix m @ show_int i @ mb_suffix m, True)) ids) + mset others"
      "\<forall>x \<in> set others. batch_id (mb_prefix m) (mb_suffix m) x = None"
  shows "\<exists>m' d'. MultiFileEventBatch readdir (mb_path m) (mb_prefix m) (mb_suffix m) me ms d = (Inr m', d') \<and>
    multi_inv (m', d') \<and> multi_queue (m', d') = multi_queue (m, d)"
proof -
  let ?N = "getBatchFileName m" and ?i = "newestBatchId m"
  note b = batch_paths_ids[OF inv ids(1)]
  obtain c where c: "newest_ok m d c" using multi_invD(2)[OF inv] by blast
  note n = newest_okD[OF c]
  have gb: "getBatches (mb_prefix m) (mb_suffix m) (Some es) = ids" by (rule getBatches_listing[OF dir(2,3) ids(2) b(2)])
  have li: "ids \<noteq> []" "last ids = ?i" using b(1) by (metis snoc_eq_iff_butlast)+
  let ?m0 = "\<lparr> mb_path = mb_path m, mb_prefix = mb_prefix m, mb_suffix = mb_suffix m, fileMaxSize = ms, fileMaxEvents = me,
     oldestBatch = None, oldBatches = butlast ids, newestBatch = no_batch, newestBatchId = ?i \<rparr>"
  have name: "getBatchFileName ?m0 = ?N" by (simp add: getBatchFileName_def fun_eq_iff)
  have cc: "content (?N ?i) d = c" "concat (split_lines c) = c" using n(1-3) by (simp_all add: content_def file_good_def complete_def)
  obtain nb d' where o: "FileEventBatch (?N ?i) d = (Inr nb, d')" "only_file (?N ?i) d c d'" "file_good nb c" "fb_path nb = ?N ?i" "\<not> finalized nb"
    using FileEventBatch_opens[OF multi_invD(1)[OF inv], of "?N ?i"] cc by auto
  have same: "files d' = files d" "reliable d'" using o(2) n(1,3) by (simp_all add: only_file_def fun_upd_idem)
  let ?nb = "setLimit me ms nb"
  define m' where "m' = ?m0\<lparr>newestBatch := ?nb\<rparr>"
  have m': "oldestBatch m' = None" "oldBatches m' = butlast ids" "newestBatch m' = ?nb" "newestBatchId m' = ?i" "fileMaxSize m' = ms"
    "fileMaxEvents m' = me" by (simp_all add: m'_def)
  have run: "MultiFileEventBatch readdir (mb_path m) (mb_prefix m) (mb_suffix m) me ms d = (Inr m', d')"
    using path dir(1) gb li o(1)
    by (auto simp: MultiFileEventBatch_def Let_def openBatch_def name andthen_def ret_def m'_def)
  have name': "getBatchFileName m' = ?N" by (simp add: getBatchFileName_def fun_eq_iff m'_def)
  have "newest_ok m' d' c" using o n same by (simp add: newest_ok_def Let_def name' m') (simp add: setLimit_def)
  moreover have "old_ok m' d' i" if "i \<in> set (butlast ids)" for i
    using b(3) that same by (auto simp: old_ok_def name' m')
  moreover have "sorted_wrt (<) (butlast ids)" using b(1,2) by (metis sorted_wrt_append)
  ultimately have "multi_inv (m', d')" using same multi_invD(6)[OF inv] by (auto simp: multi_inv_def name' m')
  moreover have "multi_queue (m', d') = multi_queue (m, d)"
    using b(4) o(4) n(3) same by (simp add: multi_queue_def oldest_lines_def[of m'] name' m' lines_of_def content_def)
  ultimately show ?thesis using run by blast
qed

theorem multi_restart_keeps_events_witness:
  "\<exists>m' d'. MultiFileEventBatch (\<lambda>_. Some [(''x'', False), (''n0.txt'', True)]) ''/'' ''n'' ''.txt'' 0 9 (snd (sample_multi 4 [[97, 10]])) = (Inr m', d') \<and>
    multi_inv (m', d') \<and> multi_queue (m', d') = [[97, 10]]"
proof -
  let ?s = "sample_multi 4 [[97, 10]]"
  have ls: "\<forall>l \<in> set [[97, 10]]. is_line l" by (simp add: is_line_def)
  note s = sample_multi[OF ls]
  have "multi_inv (fst ?s, snd ?s)" using s(1)[of 4] by simp
  moreover have "mb_path (fst ?s) = [] \<or> last (mb_path (fst ?s)) = CHR ''/''" using s(5)[of 4] by simp
  moreover have "map (getBatchFileName (fst ?s)) [0] = batch_paths (fst ?s)" "\<forall>i \<in> set [0]. 0 \<le> i \<and> i < (2::int) ^ 63"
    by (simp_all add: sample_multi_def Let_def getBatchFileName_def show_zero batch_paths_def)
  moreover have "mset [(''x'', False), (''n0.txt'', True)] =
      mset (map (\<lambda>i. (mb_prefix (fst ?s) @ show_int i @ mb_suffix (fst ?s), True)) [0]) + mset [(''x'', False)]"
    by (simp add: sample_multi_def Let_def show_zero)
  moreover have "\<forall>x \<in> set [(''x'', False)]. batch_id (mb_prefix (fst ?s)) (mb_suffix (fst ?s)) x = None"
    by (simp add: batch_id_def)
  ultimately show ?thesis
    using multi_restart_keeps_events[of "fst ?s" "snd ?s" "[0]" "\<lambda>_. Some [(''x'', False), (''n0.txt'', True)]" _ "[(''x'', False)]" 0 9] s(2,5)[of 4]
    by (simp add: sample_multi_def Let_def)
qed

text \<open>
  C17: events may be recorded while an upload is under way: what was handed out for upload is the
  front of the queue, an event added before the upload is confirmed is stored at the end, even when
  the file it was taken from is closed meanwhile, and the confirmation removes exactly what was
  handed out.
\<close>
theorem multi_add_during_upload:
  assumes inv: "multi_inv s" and "multi_queue s \<noteq> []" "0 < mc" "0 < ms" "multi_fits dump e s" "multi_room (Suc k) s"
  shows "\<exists>l n s1 s2 s3. multi_getEventsForUpload mc ms s = (Inr (Some l), s1) \<and> multi_addEvent dump e s1 = (Inr True, s2) \<and>
    multi_onEventsUploaded l s2 = (Inr (), s3) \<and> getData l = Some (concat (take n (multi_queue s))) \<and> n \<le> mc \<and>
    multi_queue s3 = drop n (multi_queue s) @ [event_line dump e]"
proof -
  obtain l n s1 where
    g: "multi_getEventsForUpload mc ms s = (Inr (Some l), s1)" and i: "multi_inv s1" "multi_queue s1 = multi_queue s"
      "multi_issued s1 l" "covers l n (multi_queue s1)" "n \<le> mc" and f: "multi_fits dump e s1" "multi_room (Suc k) s1"
  proof -
    from wp_returns[OF multi.get_spec[OF assms(1-4), of dump]] obtain r s1 where
      r: "getEventsForUpload (multi_ops dump) mc ms s = (Inr r, s1)" "multi_inv s1 \<and> multi_queue s1 = multi_queue s"
        "(\<forall>k. multi_room k s \<longrightarrow> multi_room k s1) \<and> (\<forall>x. multi_fits dump x s \<longrightarrow> multi_fits dump x s1)"
        "\<exists>l n. r = Some l \<and> multi_issued s1 l \<and> covers l n (multi_queue s1) \<and> n \<le> mc" by blast
    from r(4) obtain l n where "r = Some l" "multi_issued s1 l" "covers l n (multi_queue s1)" "n \<le> mc" by blast
    with r(1-3) assms(5,6) that[of l s1 n] show ?thesis by (simp add: multi_ops_def)
  qed
  note add = multi.add_spec[OF i(1) f] and iss = multi.add_issued[OF i(1) f i(3)] and st = multi_storing.add_stores[OF i(1) f]
  have "wp (addEvent (multi_ops dump) e) (\<lambda>ok t. ok \<and> multi_inv t \<and> multi_queue t = multi_queue s1 @ [event_line dump e] \<and> multi_issued t l) never s1"
    by (rule wp_mono[OF wp_conj[OF wp_conj[OF add iss] st]]) auto
  from wp_returns[OF this] obtain s2 where
    a: "multi_addEvent dump e s1 = (Inr True, s2)" "multi_inv s2" "multi_queue s2 = multi_queue s1 @ [event_line dump e]" "multi_issued s2 l"
    by (auto simp: multi_ops_def)
  from wp_returns[OF multi.uploaded_spec[OF a(2,4), of n dump]] i(4) obtain s3 where
    u: "multi_onEventsUploaded l s2 = (Inr (), s3)" "multi_queue s3 = drop n (multi_queue s2)"
    by (auto simp: multi_ops_def a(3) covers_append)
  show ?thesis using g a u i coversD(2,3)[OF i(4)] by (intro exI[of _ l] exI[of _ n] exI[of _ s1] exI[of _ s2] exI[of _ s3]) simp
qed

theorem multi_add_during_upload_witness:
  "\<exists>l n s1 s2 s3. multi_getEventsForUpload 1 100 (sample_multi 4 [[97, 10], [98, 10]]) = (Inr (Some l), s1) \<and>
    multi_addEvent id [99] s1 = (Inr True, s2) \<and> multi_onEventsUploaded l s2 = (Inr (), s3) \<and>
    getData l = Some (concat (take n [[97, 10], [98, 10]])) \<and> n \<le> 1 \<and> multi_queue s3 = drop n [[97, 10], [98, 10]] @ [[99, 13, 10]]"
proof -
  let ?ls = "[[97, 10], [98, 10]]"
  have ls: "\<forall>l \<in> set ?ls. is_line l" by (simp add: is_line_def)
  note s = sample_multi[OF ls]
  have "multi_fits id [99] (sample_multi 4 ?ls)" "multi_room (Suc 0) (sample_multi 4 ?ls)" "multi_queue (sample_multi 4 ?ls) \<noteq> []"
    by (simp_all add: s one_line_def event_line_def)
  from multi_add_during_upload[OF s(1)[of 4] this(3) _ _ this(1,2), of 1 100] show ?thesis
    by (simp add: s(2) event_line_def)
qed


text \<open>
  An event that is larger than the file limit, recorded while nothing is stored, is dropped, and
  the queue is then stuck: it says that it has events, it hands out none, and events recorded later
  are stored and never handed out.
\<close>
theorem oversized_event_blocks:
  assumes inv: "multi_inv s" and empty: "multi_queue s = []" and big: "0 < fileMaxSize (fst s)" "fileMaxSize (fst s) < length (event_line dump e)"
    and fits: "multi_fits dump x s" and room: "multi_room 1 s"
  shows "\<exists>s1 s2. multi_addEvent dump e s = (Inr False, s1) \<and> multi_hasEvents s1 = (Inr True, s1) \<and>
    multi_addEvent dump x s1 = (Inr True, s2) \<and>
    (\<forall>mc ms. multi_getEventsForUpload mc ms s1 = (Inr None, s1) \<and> multi_getEventsForUpload mc ms s2 = (Inr None, s2))"
proof -
  obtain m d where s: "s = (m, d)" by (cases s)
  note inv = inv[unfolded s]
  have "oldBatches m = []" "oldestBatch m = None" "fileSize (newestBatch m) = 0"
    using multi_has[OF inv] empty by (auto simp: multi_hasEvents_def getp_def s)
  then have rt: "oldestBatch (retire m) = Some (setFinalized (newestBatch m))" "oldBatches (retire m) = []"
    and z: "fileSize (setFinalized (newestBatch m)) = 0" by (cases rule: retireE[of m]; simp)+
  obtain c where c: "newest_ok m d c" using multi_invD(2)[OF inv] by blast
  let ?N = "getBatchFileName m" and ?i = "newestBatchId m" and ?l = "event_line dump e"
  obtain b d' where r: "roll (m, d) = (Inr (), (retire m)\<lparr>newestBatchId := ?i + 1, newestBatch := b\<rparr>, d')"
      "only_file (?N (?i + 1)) d [] d'" "file_good b []" "fb_path b = ?N (?i + 1)" "\<not> finalized b"
      "fb_maxCount b = fileMaxEvents m" "fb_maxSize b = fileMaxSize m"
    using roll_run[OF inv] room by (auto simp: multi_room_def s)
  let ?m1 = "(retire m)\<lparr>newestBatchId := ?i + 1, newestBatch := b\<rparr>"
  have no: "\<not> canAddEvent (length ?l) (newestBatch m)" "\<not> canAddEventInt (length ?l) b"
    using newest_okD(6)[OF c] r(7) big by (auto simp: canAddEvent_def canAddEventInt_def s)
  have a1: "multi_addEvent dump e (m, d) = (Inr False, ?m1, d')"
    using no r(1) by (simp add: multi_addEvent_def Let_def seqp_def andthen_def getp_def whenp_def on_newest_def file_add_bytes_def)
  have h1: "multi_hasEvents (?m1, d') = (Inr True, ?m1, d')" using rt by (simp add: multi_hasEvents_def getp_def)
  have stuck: "multi_getEventsForUpload mc ms (t, d2) = (Inr None, t, d2)"
    if "oldestBatch t = Some (setFinalized (newestBatch m))" for t d2 mc ms
    using that z by (simp add: multi_getEventsForUpload_def checkOldestBatch_def seqp_def andthen_def getp_def ret_def on_oldest_def
        file_getEventsForUpload_def)
  let ?x = "event_line dump x"
  have can: "canAddEvent (length ?x) b"
    using fits r(3,5-7) by (auto simp: multi_fits_def canAddEvent_def canAddEventInt_def file_good_def s split_lines_rest)
  have "is_line ?x" using fits by (simp add: multi_fits_def one_line_def event_line_is_line s)
  from file_add_good[OF only_fileD(2)[OF r(2)] _ r(3) this] only_fileD(3)[OF r(2)] r(4) can obtain b2 d2
    where f: "file_add_bytes ?x (b, d') = (Inr True, b2, d2)" by auto
  have a2: "multi_addEvent dump x (?m1, d') = (Inr True, ?m1\<lparr>newestBatch := b2\<rparr>, d2)"
    using can f by (simp add: multi_addEvent_def Let_def seqp_def andthen_def getp_def whenp_def ret_def on_newest_def)
  show ?thesis using a1 h1 a2 stuck[of ?m1] stuck[of "?m1\<lparr>newestBatch := b2\<rparr>"] rt(1)
    by (intro exI[of _ "(?m1, d')"] exI[of _ "(?m1\<lparr>newestBatch := b2\<rparr>, d2)"]) (simp add: s)
qed

theorem oversized_event_blocks_witness:
  "\<exists>s1 s2. multi_addEvent id [97, 98, 99] (sample_multi 4 []) = (Inr False, s1) \<and> multi_hasEvents s1 = (Inr True, s1) \<and>
    multi_addEvent id [97] s1 = (Inr True, s2) \<and>
    (\<forall>mc ms. multi_getEventsForUpload mc ms s1 = (Inr None, s1) \<and> multi_getEventsForUpload mc ms s2 = (Inr None, s2))"
proof -
  note s = sample_multi[of "[]", simplified]
  have "0 < fileMaxSize (fst (sample_multi 4 []))" "fileMaxSize (fst (sample_multi 4 [])) < length (event_line id [97, 98, 99])"
    "multi_fits id [97] (sample_multi 4 [])" "multi_room 1 (sample_multi 4 [])"
    by (simp_all add: s one_line_def event_line_def)
  from oversized_event_blocks[OF s(1,2) this] show ?thesis .
qed

end
