(* ===== verification/Event_Upload.thy ===== *)
theory Event_Upload
  imports Multi_Batch
begin

text \<open>
  The buffered queue, \<^verbatim>\<open>cll-telemetry/src/buffered_event_batch.cpp\<close>, which keeps events in memory
  in front of another queue, and the uploader, \<^verbatim>\<open>cll-telemetry/src/event_uploader.cpp\<close>. The HTTP
  server, zlib, the clock and the registered upload steps are arguments.
\<close>

section \<open>The buffered queue\<close>

record ('s, 'j) buffered =
  wrapped :: 's
  mem :: "'j memory_batch"

type_synonym ('s, 'j, 'a) buf = "(('s, 'j) buffered, batch_error, 'a) prog"

definition on_mem :: "('j memory_batch, batch_error, 'a) prog \<Rightarrow> ('s, 'j, 'a) buf" where
  "on_mem f = (\<lambda>b. case f (mem b) of (r, m) \<Rightarrow> (r, b\<lparr>mem := m\<rparr>))"

definition on_wrapped :: "('s, batch_error, 'a) prog \<Rightarrow> ('s, 'j, 'a) buf" where
  "on_wrapped f = (\<lambda>b. case f (wrapped b) of (r, w) \<Rightarrow> (r, b\<lparr>wrapped := w\<rparr>))"

definition flushInternal :: "('s, 'j) event_batch \<Rightarrow> ('s, 'j, unit) buf" where
  "flushInternal W = andthen (on_mem transferAllEvents) (\<lambda>is.
     seqs (map (\<lambda>i. andthen (on_wrapped (addEvent W i)) (\<lambda>_. ret ())) is))"

definition buf_addEvent :: "('s, 'j) event_batch \<Rightarrow> 'j \<Rightarrow> ('s, 'j, bool) buf" where
  "buf_addEvent W rawData = andthen (on_mem (mem_addEvent rawData)) (\<lambda>ok.
     if ok then ret True else seqp (flushInternal W) (on_mem (mem_addEvent rawData)))"

text \<open>The constructor of the merged list copies the data of both.\<close>

definition MergedBufferedEventList :: "event_list \<Rightarrow> event_list \<Rightarrow> ('s, 'j, event_list) buf" where
  "MergedBufferedEventList w m = andthen (deref (getData w)) (\<lambda>wd. andthen (deref (getData m)) (\<lambda>md. ret (Merged w m (wd @ md))))"

text \<open>A list of the wrapped queue, with events from memory added when it is all there was.\<close>

definition merge_memory :: "('j \<Rightarrow> bytes) \<Rightarrow> nat \<Rightarrow> nat \<Rightarrow> event_list \<Rightarrow> ('s, 'j, event_list option) buf" where
  "merge_memory dump maxCount maxSize l = andthen (deref (hasMoreEvents l)) (\<lambda>mo. andthen (on_mem mem_hasEvents) (\<lambda>inMem.
     let wrap = ret (Some (Wrapper Wrapped (Some l) inMem)) in
     if \<not> mo \<and> inMem then
       andthen (deref (getEventCount l)) (\<lambda>n. andthen (deref (getDataSize l)) (\<lambda>sz.
       andthen (on_mem (mem_getEventsForUpload dump (size_sub maxCount n) (size_sub maxSize sz))) (\<lambda>rm. case rm of
         Some lm \<Rightarrow> andthen (MergedBufferedEventList l lm) (\<lambda>x. ret (Some x))
       | None \<Rightarrow> wrap)))
     else wrap))"

definition buf_getEventsForUpload ::
    "('s, 'j) event_batch \<Rightarrow> ('j \<Rightarrow> bytes) \<Rightarrow> nat \<Rightarrow> nat \<Rightarrow> ('s, 'j, event_list option) buf" where
  "buf_getEventsForUpload W dump maxCount maxSize = (let
       from_mem = andthen (on_mem (mem_getEventsForUpload dump maxCount maxSize)) (\<lambda>r. ret (Some (Wrapper Memory r False)))
     in andthen (on_wrapped (hasEvents W)) (\<lambda>h. if \<not> h then from_mem else
       andthen (on_wrapped (getEventsForUpload W maxCount maxSize)) (\<lambda>r. case r of
         None \<Rightarrow> from_mem | Some l \<Rightarrow> merge_memory dump maxCount maxSize l)))"

definition buf_onEventsUploaded :: "('s, 'j) event_batch \<Rightarrow> event_list \<Rightarrow> ('s, 'j, unit) buf" where
  "buf_onEventsUploaded W events = (case events of
     Wrapper Wrapped w _ \<Rightarrow> andthen (deref w) (\<lambda>l. on_wrapped (onEventsUploaded W l))
   | Wrapper Memory w _ \<Rightarrow> andthen (deref w) (\<lambda>l. on_mem (mem_onEventsUploaded l))
   | Merged w m _ \<Rightarrow> seqp (on_wrapped (onEventsUploaded W w)) (on_mem (mem_onEventsUploaded m))
   | _ \<Rightarrow> stop BadCast)"

definition buf_hasEvents :: "('s, 'j) event_batch \<Rightarrow> ('s, 'j, bool) buf" where
  "buf_hasEvents W = andthen (on_mem mem_hasEvents) (\<lambda>h. if h then ret True else on_wrapped (hasEvents W))"

definition flush :: "('s, 'j) event_batch \<Rightarrow> ('s, 'j, unit) buf" where
  "flush W = flushInternal W"

definition buffered_ops :: "('s, 'j) event_batch \<Rightarrow> ('j \<Rightarrow> bytes) \<Rightarrow> (('s, 'j) buffered, 'j) event_batch" where
  "buffered_ops W dump = \<lparr> addEvent = buf_addEvent W, getEventsForUpload = buf_getEventsForUpload W dump,
     onEventsUploaded = buf_onEventsUploaded W, hasEvents = buf_hasEvents W \<rparr>"

lemma wp_on_mem [wp_simps]: "wp (on_mem f) Q E = (\<lambda>b. wp f (\<lambda>x m. Q x (b\<lparr>mem := m\<rparr>)) (\<lambda>e m. E e (b\<lparr>mem := m\<rparr>)) (mem b))"
  by (auto simp: wp_def on_mem_def fun_eq_iff split: prod.split sum.split)

lemma wp_on_wrapped [wp_simps]:
  "wp (on_wrapped f) Q E = (\<lambda>b. wp f (\<lambda>x w. Q x (b\<lparr>wrapped := w\<rparr>)) (\<lambda>e w. E e (b\<lparr>wrapped := w\<rparr>)) (wrapped b))"
  by (auto simp: wp_def on_wrapped_def fun_eq_iff split: prod.split sum.split)

section \<open>Uploading\<close>

type_synonym headers = "(string \<times> string) list"

record request =
  req_url :: string
  req_headers :: headers
  req_body :: bytes

text \<open>The answer to a request: a failure to send it, or a status with headers.\<close>

datatype response = HttpError | HttpResponse int headers

definition findHeader :: "string \<Rightarrow> headers \<Rightarrow> string" where
  "findHeader name hs = (case filter (\<lambda>h. fst h = name) hs of [] \<Rightarrow> [] | h # _ \<Rightarrow> snd h)"

datatype upload_status = Success | ErrorGeneric | ErrorRateLimit int

text \<open>
  The answers to come (none left: sending fails), the answers of the steps to a refused
  authentication, and the exchanges so far.
\<close>

record http =
  responses :: "response list"
  auth_answers :: "bool list"
  exchanges :: "(request \<times> response) list"

record uploader =
  url :: string
  steps :: "(event_list \<Rightarrow> headers \<Rightarrow> headers) list"
  compress :: "bytes \<Rightarrow> bytes option"
  getUploadTimestamp :: "nat \<Rightarrow> string"

definition make_request :: "uploader \<Rightarrow> event_list \<Rightarrow> bool \<Rightarrow> (http, batch_error, request) prog" where
  "make_request u batch deflated = andthen (deref (getData batch)) (\<lambda>data. andthen (getp exchanges) (\<lambda>ex. let
       hs = [(''Content-Type'', ''application/x-json-stream; charset=utf-8''), (''X-UploadTime'', getUploadTimestamp u (length ex))];
       own = fold (\<lambda>h. h batch) (steps u) [] in
     if deflated then case compress u data of None \<Rightarrow> stop CompressError
       | Some z \<Rightarrow> ret \<lparr> req_url = url u, req_headers = hs @ [(''Accept'', ''application/json''),
           (''Accept-Encoding'', ''gzip, deflate''), (''Content-Encoding'', ''deflate'')] @ own, req_body = z \<rparr>
     else ret \<lparr> req_url = url u, req_headers = hs @ own, req_body = data \<rparr>))"

definition http_send :: "request \<Rightarrow> (http, batch_error, response) prog" where
  "http_send r = (\<lambda>h. let a = (case responses h of [] \<Rightarrow> HttpError | a # _ \<Rightarrow> a)
     in (Inr a, h\<lparr>responses := tl (responses h), exchanges := exchanges h @ [(r, a)]\<rparr>))"

text \<open>Every step is asked, also after one has said yes.\<close>

definition onAuthenticationFailed :: "uploader \<Rightarrow> (http, batch_error, bool) prog" where
  "onAuthenticationFailed u = (\<lambda>h. let n = length (steps u)
     in (Inr (True \<in> set (take n (auth_answers h))), h\<lparr>auth_answers := drop n (auth_answers h)\<rparr>))"

text \<open>One attempt; \<open>again\<close> is the retry after new authentication, \<open>None\<close> when it is not allowed.\<close>

definition attempt ::
    "uploader \<Rightarrow> event_list \<Rightarrow> bool \<Rightarrow> (http, batch_error, upload_status) prog option \<Rightarrow> (http, batch_error, upload_status) prog" where
  "attempt u batch deflated again = andthen (make_request u batch deflated) (\<lambda>req. andthen (http_send req) (\<lambda>res. case res of
       HttpError \<Rightarrow> ret ErrorGeneric
     | HttpResponse status hs \<Rightarrow>
         if status = 200 then ret Success
         else if status = 429 \<or> status = 503 then
           let retryAfter = findHeader ''Retry-After'' hs in
           if retryAfter = [] then ret ErrorGeneric
           else case stoull retryAfter of Inl e \<Rightarrow> stop e | Inr v \<Rightarrow> ret (ErrorRateLimit (to_long_long v))
         else if status = 401 then
           andthen (onAuthenticationFailed u) (\<lambda>retry. case again of
             Some p \<Rightarrow> if retry then p else ret ErrorGeneric
           | None \<Rightarrow> ret ErrorGeneric)
         else ret ErrorGeneric))"

definition sendEvents :: "uploader \<Rightarrow> event_list \<Rightarrow> bool \<Rightarrow> bool \<Rightarrow> (http, batch_error, upload_status) prog" where
  "sendEvents u batch deflated canRetry = attempt u batch deflated (if canRetry then Some (attempt u batch deflated None) else None)"

text \<open>
  Uploading from a queue. The recursion after a dropped event is bounded by fuel; a queue that
  meets its contract never needs it.
\<close>

definition on_batch :: "('s, batch_error, 'a) prog \<Rightarrow> ('s \<times> http, batch_error, 'a) prog" where
  "on_batch f = (\<lambda>(s, h). case f s of (r, s) \<Rightarrow> (r, s, h))"

definition on_http :: "(http, batch_error, 'a) prog \<Rightarrow> ('s \<times> http, batch_error, 'a) prog" where
  "on_http f = (\<lambda>(s, h). case f h of (r, h) \<Rightarrow> (r, s, h))"

definition SIZE_MAX :: nat where
  "SIZE_MAX = 2 ^ 64 - 1"

fun sendBatch :: "nat \<Rightarrow> uploader \<Rightarrow> ('s, 'j) event_batch \<Rightarrow> nat \<Rightarrow> nat \<Rightarrow> ('s \<times> http, batch_error, upload_status) prog" where
  "sendBatch 0 u B maxCount maxSize = stop NoFuel"
| "sendBatch (Suc fuel) u B maxCount maxSize = andthen (on_batch (getEventsForUpload B maxCount maxSize)) (\<lambda>events. case events of
     None \<Rightarrow> andthen (on_batch (hasEvents B)) (\<lambda>h. if \<not> h then ret Success else
       andthen (on_batch (getEventsForUpload B 1 SIZE_MAX)) (\<lambda>ev. case ev of
         None \<Rightarrow> ret ErrorGeneric
       | Some l \<Rightarrow> seqp (on_batch (onEventsUploaded B l)) (sendBatch fuel u B maxCount maxSize)))
   | Some l \<Rightarrow> andthen (deref (getEventCount l)) (\<lambda>n. andthen (on_http (sendEvents u l (n > 1) True)) (\<lambda>st.
       seqp (whenp (st = Success) (on_batch (onEventsUploaded B l))) (ret st))))"

lemma wp_on_batch [wp_simps]: "wp (on_batch f) Q E = (\<lambda>(s, h). wp f (\<lambda>x s. Q x (s, h)) (\<lambda>e s. E e (s, h)) s)"
  by (auto simp: wp_def on_batch_def fun_eq_iff split: prod.split sum.split)

lemma wp_on_http [wp_simps]: "wp (on_http f) Q E = (\<lambda>(s, h). wp f (\<lambda>x h. Q x (s, h)) (\<lambda>e h. E e (s, h)) h)"
  by (auto simp: wp_def on_http_def fun_eq_iff split: prod.split sum.split)


section \<open>The buffered queue keeps the contract\<close>

definition buf_inv :: "('s \<Rightarrow> bool) \<Rightarrow> ('j \<Rightarrow> 's \<Rightarrow> bool) \<Rightarrow> ('s, 'j) buffered \<Rightarrow> bool" where
  "buf_inv I fits b \<longleftrightarrow> I (wrapped b) \<and> (\<forall>e \<in> set (items (mem b)). fits e (wrapped b)) \<and> 0 < limit (mem b)"

definition buf_queue :: "('s \<Rightarrow> bytes list) \<Rightarrow> ('j \<Rightarrow> bytes) \<Rightarrow> ('s, 'j) buffered \<Rightarrow> bytes list" where
  "buf_queue queue dump b = queue (wrapped b) @ mem_queue dump (mem b)"

definition buf_room :: "(nat \<Rightarrow> 's \<Rightarrow> bool) \<Rightarrow> nat \<Rightarrow> ('s, 'j) buffered \<Rightarrow> bool" where
  "buf_room room k b = room (length (items (mem b)) + k) (wrapped b)"

definition buf_fits :: "('j \<Rightarrow> 's \<Rightarrow> bool) \<Rightarrow> 'j \<Rightarrow> ('s, 'j) buffered \<Rightarrow> bool" where
  "buf_fits fits e b = fits e (wrapped b)"

text \<open>A list comes from the wrapped queue, from memory with nothing before it, or from both.\<close>

definition buf_issued ::
    "('s \<Rightarrow> event_list \<Rightarrow> bool) \<Rightarrow> ('s \<Rightarrow> bytes list) \<Rightarrow> ('j \<Rightarrow> bytes) \<Rightarrow> ('s, 'j) buffered \<Rightarrow> event_list \<Rightarrow> bool" where
  "buf_issued issued queue dump b l \<longleftrightarrow>
     (\<exists>w h n. l = Wrapper Wrapped (Some w) h \<and> issued (wrapped b) w \<and> covers w n (queue (wrapped b))) \<or>
     (\<exists>w h n. l = Wrapper Memory (Some w) h \<and> queue (wrapped b) = [] \<and> covers w n (mem_queue dump (mem b))) \<or>
     (\<exists>w m x n. l = Merged w m x \<and> issued (wrapped b) w \<and> covers w (length (queue (wrapped b))) (queue (wrapped b)) \<and>
        covers m n (mem_queue dump (mem b)))"

locale buffered_queue = storing_queue +
  fixes dump :: "'b \<Rightarrow> bytes"
  assumes line_dump: "line e = event_line dump e"
begin

abbreviation "binv \<equiv> buf_inv inv fits"
abbreviation "bqueue \<equiv> buf_queue queue dump"
abbreviation "broom \<equiv> buf_room room"

text \<open>Flushing moves the events in memory to the end of the wrapped queue.\<close>

lemma forward_all:
  assumes "inv (wrapped b)" "\<forall>e \<in> set is. fits e (wrapped b)" "room (length is + k) (wrapped b)"
  shows "wp (seqs (map (\<lambda>i. andthen (on_wrapped (addEvent B i)) (\<lambda>_. ret ())) is))
    (\<lambda>_ t. inv (wrapped t) \<and> queue (wrapped t) = queue (wrapped b) @ map line is \<and> room k (wrapped t) \<and> mem t = mem b \<and>
       (\<forall>x. fits x (wrapped b) \<longrightarrow> fits x (wrapped t))) never b"
  using assms
proof (induction "is" arbitrary: b)
  case Nil
  then show ?case by (simp add: wp_simps)
next
  case (Cons i "is")
  from Cons.prems have "inv (wrapped b)" "fits i (wrapped b)" "room (Suc (length is + k)) (wrapped b)" by simp_all
  note a = add_stored[OF this]
  show ?case unfolding list.map seqs.simps wp_seqp wp_andthen wp_on_wrapped wp_ret
  proof (rule wp_mono[OF a])
    fix ok w
    assume t: "ok \<and> inv w \<and> queue w = queue (wrapped b) @ [line i] \<and> room (length is + k) w \<and> (\<forall>x. fits x (wrapped b) \<longrightarrow> fits x w)"
    let ?b = "b\<lparr>wrapped := w\<rparr>"
    have "inv (wrapped ?b)" "\<forall>e \<in> set is. fits e (wrapped ?b)" "room (length is + k) (wrapped ?b)"
      using t Cons.prems(2) by simp_all
    from Cons.IH[OF this] show "wp (seqs (map (\<lambda>i. andthen (on_wrapped (addEvent B i)) (\<lambda>_. ret ())) is))
      (\<lambda>_ t. inv (wrapped t) \<and> queue (wrapped t) = queue (wrapped b) @ line i # map line is \<and> room k (wrapped t) \<and>
         mem t = mem b \<and> (\<forall>x. fits x (wrapped b) \<longrightarrow> fits x (wrapped t))) never ?b"
      by (rule wp_mono) (use t in auto)
  qed simp
qed

lemma flush_spec:
  assumes "binv b" "broom k b"
  shows "wp (flushInternal B) (\<lambda>_ t. binv t \<and> bqueue t = bqueue b \<and> items (mem t) = [] \<and> broom k t \<and>
    (\<forall>x. fits x (wrapped b) \<longrightarrow> fits x (wrapped t))) never b"
proof -
  let ?b = "b\<lparr>mem := (mem b)\<lparr>items := []\<rparr>\<rparr>" and ?is = "items (mem b)"
  have p: "inv (wrapped ?b)" "\<forall>e \<in> set ?is. fits e (wrapped ?b)" "room (length ?is + k) (wrapped ?b)"
    using assms by (simp_all add: buf_inv_def buf_room_def)
  have l: "map line ?is = mem_queue dump (mem b)" by (simp add: mem_queue_def line_dump)
  have "wp (seqs (map (\<lambda>i. andthen (on_wrapped (addEvent B i)) (\<lambda>_. ret ())) ?is))
    (\<lambda>_ t. binv t \<and> bqueue t = bqueue b \<and> items (mem t) = [] \<and> broom k t \<and>
       (\<forall>x. fits x (wrapped b) \<longrightarrow> fits x (wrapped t))) never ?b"
    by (rule wp_mono[OF forward_all[OF p]])
      (use assms(1) l in \<open>auto simp: buf_inv_def buf_queue_def buf_room_def mem_queue_def\<close>)
  then show ?thesis
    by (simp add: flushInternal_def transferAllEvents_def wp_simps)
qed

lemma buf_add:
  assumes "binv b" "buf_fits fits e b" "broom (Suc k) b"
  shows "wp (buf_addEvent B e) (\<lambda>ok t. ok \<and> binv t \<and> bqueue t = bqueue b @ [line e] \<and> broom k t \<and>
    (\<forall>x. buf_fits fits x b \<longrightarrow> buf_fits fits x t)) never b"
proof (cases "length (items (mem b)) < limit (mem b)")
  case True
  then show ?thesis using assms
    by (auto simp: buf_addEvent_def mem_addEvent_def wp_simps buf_inv_def buf_queue_def buf_room_def buf_fits_def
        mem_queue_def line_dump)
next
  case False
  have "wp (flushInternal B) (\<lambda>_. wp (on_mem (mem_addEvent e)) (\<lambda>ok t. ok \<and> binv t \<and> bqueue t = bqueue b @ [line e] \<and> broom k t \<and>
    (\<forall>x. buf_fits fits x b \<longrightarrow> buf_fits fits x t)) never) never b"
    unfolding wp_on_mem
    by (rule wp_mono[OF flush_spec[OF assms(1,3)]])
      (use assms(2) in \<open>auto simp: mem_addEvent_def wp_simps buf_inv_def buf_queue_def buf_room_def buf_fits_def mem_queue_def line_dump\<close>)
  then show ?thesis using False
    by (simp add: buf_addEvent_def wp_seqp wp_andthen wp_on_mem wp_if mem_addEvent_def wp_getp wp_ret)
qed

lemma buf_has: "binv b \<Longrightarrow> buf_hasEvents B b = (Inr (bqueue b \<noteq> []), b)"
  by (auto simp: buf_hasEvents_def on_mem_def on_wrapped_def mem_hasEvents_def andthen_def getp_def ret_def
      buf_inv_def buf_queue_def has_spec)

text \<open>What a list taken from memory promises, whatever precedes it in the queue.\<close>

lemma buf_get_memory:
  assumes "binv b" "queue (wrapped b) = []" "bqueue b \<noteq> []" "0 < mc" "0 < ms"
  shows "\<exists>w n. mem_getEventsForUpload dump mc ms (mem b) = (Inr (Some w), mem b) \<and>
    covers w n (mem_queue dump (mem b)) \<and> hasMoreEvents w = Some (n < length (mem_queue dump (mem b))) \<and> n \<le> mc \<and>
    length (concat (take n (mem_queue dump (mem b)))) \<le> ms \<and> (length (hd (mem_queue dump (mem b))) \<le> ms \<longrightarrow> 0 < n)"
proof -
  have i: "items (mem b) \<noteq> []" using assms(2,3) by (auto simp: buf_queue_def)
  then show ?thesis
    by (rule mem_get[of "mem b" mc ms dump]) (use assms(4,5) i in \<open>auto simp: covers_def\<close>)
qed

lemma buf_get_wrapped:
  assumes inv: "binv b" and iss: "issued (wrapped b) l" and cov: "covers l n (queue (wrapped b))"
    and mo: "hasMoreEvents l = Some mo" "\<not> mo \<longrightarrow> n = length (queue (wrapped b))"
    and lim: "n \<le> mc" "length (concat (take n (queue (wrapped b)))) \<le> ms"
    and first: "queue (wrapped b) \<noteq> []" "length (hd (queue (wrapped b))) \<le> min ms max_chunk \<longrightarrow> 0 < n"
  shows "wp (merge_memory dump mc ms l)
     (\<lambda>r t. t = b \<and> (\<exists>l n mo. r = Some l \<and> buf_issued issued queue dump t l \<and> covers l n (bqueue t) \<and> hasMoreEvents l = Some mo \<and>
        (\<not> mo \<longrightarrow> n = length (bqueue t)) \<and> n \<le> mc \<and> length (concat (take n (bqueue t))) \<le> ms \<and>
        (length (hd (bqueue t)) \<le> min ms max_chunk \<longrightarrow> 0 < n))) never b"
proof -
  let ?q = "queue (wrapped b)" and ?i = "items (mem b)"
  let ?sz = "length (concat (take n ?q))"
  have c: "getEventCount l = Some n" "getDataSize l = Some ?sz" "n \<le> length ?q" "getData l = Some (concat (take n ?q))"
    using cov by (simp_all add: covers_def getDataSize_def)
  have h: "hd (bqueue b) = hd ?q" using first(1) by (simp add: buf_queue_def)
  let ?P = "\<lambda>l' n' mo'. buf_issued issued queue dump b l' \<and> covers l' n' (bqueue b) \<and> hasMoreEvents l' = Some mo' \<and>
        (\<not> mo' \<longrightarrow> n' = length (bqueue b)) \<and> n' \<le> mc \<and> length (concat (take n' (bqueue b))) \<le> ms \<and>
        (length (hd (bqueue b)) \<le> min ms max_chunk \<longrightarrow> 0 < n')"
  have wrap: "?P (Wrapper Wrapped (Some l) inMem) n (inMem \<or> mo)" if "inMem \<longleftrightarrow> ?i \<noteq> []" for inMem
    using c mo lim first(2) h iss cov that by (auto simp: buf_issued_def covers_def buf_queue_def)
  show ?thesis
  proof (cases "\<not> mo \<and> ?i \<noteq> [] \<and> 0 < mc - n \<and> 0 < ms - ?sz")
    case True
    then have n: "n = length ?q" using mo(2) by simp
    from True obtain r k where g: "mem_getEventsForUpload dump (mc - n) (ms - ?sz) (mem b) =
        (Inr (Some (Vector r k (k < length ?i))), mem b)" "covers (Vector r k (k < length ?i)) k (mem_queue dump (mem b))"
        "k \<le> mc - n" "length r \<le> ms - ?sz"
      using mem_get[of "mem b" "mc - n" "ms - ?sz" dump] by blast
    let ?lm = "Vector r k (k < length ?i)"
    have k: "k \<le> length ?i" "r = concat (take k (mem_queue dump (mem b)))" using g(2) by (simp_all add: covers_def)
    have "?P (Merged l ?lm (concat ?q @ r)) (n + k) (k < length ?i)"
      using c mo(1) True lim n k g(2,3,4) iss cov h first(2)
      by (auto simp: buf_issued_def covers_def buf_queue_def)
    moreover have "merge_memory dump mc ms l b = (Inr (Some (Merged l ?lm (concat ?q @ r))), b)"
      using True c g(1) lim n mo(1)
      by (simp add: merge_memory_def mem_hasEvents_def MergedBufferedEventList_def andthen_def on_mem_def getp_def ret_def Let_def)
    ultimately show ?thesis unfolding wp_def by (simp only: prod.case sum.case) blast
  next
    case False
    have "mem_getEventsForUpload dump (mc - n) (ms - ?sz) (mem b) = (Inr None, mem b)" if "\<not> mo" "?i \<noteq> []"
      using False that by (auto simp: mem_getEventsForUpload_def getp_def)
    then have "merge_memory dump mc ms l b = (Inr (Some (Wrapper Wrapped (Some l) (?i \<noteq> []))), b)"
      using False c lim mo(1)
      by (auto simp: merge_memory_def mem_hasEvents_def andthen_def on_mem_def getp_def ret_def Let_def)
    then show ?thesis unfolding wp_def using wrap[OF refl] by (simp only: prod.case sum.case) blast
  qed
qed

lemma buf_get:
  assumes inv: "binv b" and ne: "bqueue b \<noteq> []" and mc: "0 < mc" and ms: "0 < ms"
  shows "wp (buf_getEventsForUpload B dump mc ms) (\<lambda>r t. binv t \<and> bqueue t = bqueue b \<and>
      (\<forall>k. broom k b \<longrightarrow> broom k t) \<and> (\<forall>x. buf_fits fits x b \<longrightarrow> buf_fits fits x t) \<and>
      (\<exists>l n mo. r = Some l \<and> buf_issued issued queue dump t l \<and> covers l n (bqueue t) \<and> hasMoreEvents l = Some mo \<and>
        (\<not> mo \<longrightarrow> n = length (bqueue t)) \<and> n \<le> mc \<and> length (concat (take n (bqueue t))) \<le> ms \<and>
        (length (hd (bqueue t)) \<le> min ms max_chunk \<longrightarrow> 0 < n))) never b" (is "wp _ ?Q never b")
proof (cases "queue (wrapped b) = []")
  case True
  obtain w n where g: "mem_getEventsForUpload dump mc ms (mem b) = (Inr (Some w), mem b)" "covers w n (mem_queue dump (mem b))"
      "hasMoreEvents w = Some (n < length (mem_queue dump (mem b)))" "n \<le> mc"
      "length (concat (take n (mem_queue dump (mem b)))) \<le> ms" "length (hd (mem_queue dump (mem b))) \<le> ms \<longrightarrow> 0 < n"
    using buf_get_memory[OF inv True ne mc ms] by blast
  have q: "bqueue b = mem_queue dump (mem b)" using True by (simp add: buf_queue_def)
  have "buf_issued issued queue dump b (Wrapper Memory (Some w) False)" using True g(2) by (auto simp: buf_issued_def)
  moreover have "covers (Wrapper Memory (Some w) False) n (bqueue b)" using g(2) q by (simp add: covers_def)
  ultimately have "?Q (Some (Wrapper Memory (Some w) False)) b"
    using inv g(3-6) coversD(3)[OF g(2)] unfolding q
    by (intro conjI exI[of _ "Wrapper Memory (Some w) False"] exI[of _ n] exI[of _ "n < length (mem_queue dump (mem b))"]) auto
  moreover have "hasEvents B (wrapped b) = (Inr False, wrapped b)" using has_spec[of "wrapped b"] inv True by (simp add: buf_inv_def)
  ultimately show ?thesis
    by (simp add: buf_getEventsForUpload_def Let_def wp_def andthen_def on_wrapped_def on_mem_def ret_def g(1))
next
  case False
  have i: "inv (wrapped b)" using inv by (simp add: buf_inv_def)
  have h: "hasEvents B (wrapped b) = (Inr True, wrapped b)" using has_spec[OF i] False by simp
  have "wp (getEventsForUpload B mc ms) (\<lambda>r w. wp (case r of
      None \<Rightarrow> andthen (on_mem (mem_getEventsForUpload dump mc ms)) (\<lambda>r. ret (Some (Wrapper Memory r False)))
    | Some l \<Rightarrow> merge_memory dump mc ms l) ?Q never (b\<lparr>wrapped := w\<rparr>)) never (wrapped b)"
  proof (rule wp_mono[OF get_spec[OF i False mc ms]])
    fix r w
    assume a: "inv w \<and> queue w = queue (wrapped b) \<and> (\<forall>k. room k (wrapped b) \<longrightarrow> room k w) \<and> (\<forall>x. fits x (wrapped b) \<longrightarrow> fits x w) \<and>
      (\<exists>l n mo. r = Some l \<and> issued w l \<and> covers l n (queue w) \<and> hasMoreEvents l = Some mo \<and>
        (\<not> mo \<longrightarrow> n = length (queue w)) \<and> n \<le> mc \<and> length (concat (take n (queue w))) \<le> ms \<and>
        (length (hd (queue w)) \<le> min ms max_chunk \<longrightarrow> 0 < n))"
    then obtain l n mo where l: "r = Some l" "issued w l" "covers l n (queue w)" "hasMoreEvents l = Some mo"
        "\<not> mo \<longrightarrow> n = length (queue w)" "n \<le> mc" "length (concat (take n (queue w))) \<le> ms"
        "length (hd (queue w)) \<le> min ms max_chunk \<longrightarrow> 0 < n" by (elim exE conjE)
    let ?b = "b\<lparr>wrapped := w\<rparr>"
    have st: "binv ?b" "bqueue ?b = bqueue b" "\<forall>k. broom k b \<longrightarrow> broom k ?b" "\<forall>x. buf_fits fits x b \<longrightarrow> buf_fits fits x ?b"
      using inv a by (auto simp: buf_inv_def buf_queue_def buf_room_def buf_fits_def)
    have "issued (wrapped ?b) l" "covers l n (queue (wrapped ?b))" "queue (wrapped ?b) \<noteq> []"
      "\<not> mo \<longrightarrow> n = length (queue (wrapped ?b))" "length (concat (take n (queue (wrapped ?b)))) \<le> ms"
      "length (hd (queue (wrapped ?b))) \<le> min ms max_chunk \<longrightarrow> 0 < n" using l a False by simp_all
    note gw = buf_get_wrapped[OF st(1) this(1,2) l(4) this(4) l(6) this(5) this(3) this(6)]
    show "wp (case r of
      None \<Rightarrow> andthen (on_mem (mem_getEventsForUpload dump mc ms)) (\<lambda>r. ret (Some (Wrapper Memory r False)))
    | Some l \<Rightarrow> merge_memory dump mc ms l) ?Q never ?b"
      unfolding l(1) option.case by (rule wp_mono[OF gw]) (use st in auto)
  qed simp
  then show ?thesis by (simp add: buf_getEventsForUpload_def Let_def wp_andthen wp_on_wrapped wp_def[of "hasEvents B"] h)
qed

lemma buf_uploaded:
  assumes inv: "binv b" and iss: "buf_issued issued queue dump b l" and cov: "covers l n (bqueue b)"
  shows "wp (buf_onEventsUploaded B l) (\<lambda>_ t. binv t \<and> bqueue t = drop n (bqueue b) \<and>
      (\<forall>k. broom k b \<longrightarrow> broom k t) \<and> (\<forall>x. buf_fits fits x b \<longrightarrow> buf_fits fits x t)) never b"
proof -
  have i: "inv (wrapped b)" using inv by (simp add: buf_inv_def)
  consider (w) w h k where "l = Wrapper Wrapped (Some w) h" "issued (wrapped b) w" "covers w k (queue (wrapped b))"
    | (m) w h k where "l = Wrapper Memory (Some w) h" "queue (wrapped b) = []" "covers w k (mem_queue dump (mem b))"
    | (wm) w m x k where "l = Merged w m x" "issued (wrapped b) w" "covers w (length (queue (wrapped b))) (queue (wrapped b))"
        "covers m k (mem_queue dump (mem b))"
    using iss unfolding buf_issued_def by blast
  then show ?thesis
  proof cases
    case w
    then have n: "n = k" "n \<le> length (queue (wrapped b))" using cov by (auto simp: covers_def)
    show ?thesis unfolding w(1) buf_onEventsUploaded_def event_list.case buffered_type.case deref_Some andthen_ret wp_on_wrapped
      by (rule wp_mono[OF uploaded_spec[OF i w(2) w(3)]])
        (use inv n in \<open>auto simp: buf_inv_def buf_queue_def buf_room_def buf_fits_def\<close>)
  next
    case m
    then have n: "n = k" "n \<le> length (items (mem b))" "getEventCount w = Some n" using cov by (auto simp: covers_def)
    have "k \<le> j \<Longrightarrow> room (j + x) (wrapped b) \<Longrightarrow> room (j - k + x) (wrapped b)" for j x k
      using room_less[of "j + x" "wrapped b" "j - k + x"] by simp
    then show ?thesis using m(2) inv n
      by (auto simp: m(1) buf_onEventsUploaded_def mem_onEventsUploaded_def wp_simps buf_inv_def buf_queue_def buf_room_def
          buf_fits_def mem_queue_def drop_map dest: in_set_dropD)
  next
    case wm
    then have n: "n = length (queue (wrapped b)) + k" "k \<le> length (items (mem b))" "getEventCount m = Some k"
      using cov by (auto simp: covers_def)
    have rl: "room (length (items (mem b)) + x) w' \<Longrightarrow> room (length (items (mem b)) - k + x) w'" for x w'
      using room_less[of "length (items (mem b)) + x" w' "length (items (mem b)) - k + x"] by simp
    show ?thesis unfolding wm(1) buf_onEventsUploaded_def event_list.case wp_seqp wp_on_wrapped
      by (rule wp_mono[OF uploaded_spec[OF i wm(2,3)]])
        (use inv n rl in \<open>auto simp: mem_onEventsUploaded_def wp_simps buf_inv_def buf_queue_def buf_room_def buf_fits_def
          mem_queue_def drop_map dest: in_set_dropD\<close>)
  qed
qed

end


sublocale buffered_queue \<subseteq> buf: storing_queue "buffered_ops B dump" "buf_inv inv fits" "buf_queue queue dump"
    "buf_issued issued queue dump" "buf_fits fits" "buf_room room" line
proof (unfold_locales, goal_cases)
  case (1 s e k)
  have "addEvent (buffered_ops B dump) e = buf_addEvent B e" by (simp add: buffered_ops_def)
  then show ?case using wp_mono[OF buf_add[OF 1]] by auto
next
  case (2 s mc ms)
  then show ?case using buf_get[of s mc ms] by (simp add: buffered_ops_def)
next
  case (3 s l n)
  then show ?case using buf_uploaded[of s l n] by (simp add: buffered_ops_def)
next
  case (4 s)
  then show ?case using buf_has[of s] by (simp add: buffered_ops_def)
next
  case (5 k s j)
  then show ?case using room_less[of "length (items (mem s)) + k" "wrapped s" "length (items (mem s)) + j"]
    by (simp add: buf_room_def)
next
  case (6 s e k)
  have "addEvent (buffered_ops B dump) e = buf_addEvent B e" by (simp add: buffered_ops_def)
  then show ?case using wp_mono[OF buf_add[OF 6]] by auto
qed

section \<open>Uploads and the queue\<close>

text \<open>The bodies the server accepted.\<close>

definition accepted :: "http \<Rightarrow> bytes list" where
  "accepted h = map (\<lambda>x. req_body (fst x)) (filter (\<lambda>x. case snd x of HttpResponse s _ \<Rightarrow> s = 200 | HttpError \<Rightarrow> False) (exchanges h))"

text \<open>What is sent for \<open>n\<close> events: more than one are compressed.\<close>

definition payload :: "uploader \<Rightarrow> bytes list \<Rightarrow> bytes" where
  "payload u ls = (if length ls > 1 then case compress u (concat ls) of Some z \<Rightarrow> z | None \<Rightarrow> [] else concat ls)"

text \<open>A \<open>Retry-After\<close> header that is no number ends the upload thread.\<close>

abbreviation bad_retry :: "batch_error \<Rightarrow> 's \<Rightarrow> bool" where
  "bad_retry \<equiv> (\<lambda>e _. e = InvalidArgument \<or> e = OutOfRange)"

lemma stoull_error: "stoull s = Inl e \<Longrightarrow> e = InvalidArgument \<or> e = OutOfRange"
  by (auto simp: stoull_def Let_def split: if_splits)

lemma attempt_spec:
  assumes "getData l = Some data" "deflated \<Longrightarrow> compress u data = Some z" "body = (if deflated then z else data)"
    "\<And>p h'. again = Some p \<Longrightarrow> accepted h' = accepted h \<Longrightarrow>
       wp p (\<lambda>st h2. accepted h2 = accepted h @ (if st = Success then [body] else [])) bad_retry h'"
  shows "wp (attempt u l deflated again) (\<lambda>st h'. accepted h' = accepted h @ (if st = Success then [body] else [])) bad_retry h"
proof -
  obtain r where r: "make_request u l deflated h = (Inr r, h)" "req_body r = body"
    using assms(1-3) by (cases deflated) (auto simp: make_request_def andthen_def getp_def ret_def Let_def)
  obtain a h1 where s: "http_send r h = (Inr a, h1)" "exchanges h1 = exchanges h @ [(r, a)]"
    by (simp add: http_send_def Let_def)
  have acc: "accepted h1 = accepted h @ (case a of HttpResponse s _ \<Rightarrow> if s = 200 then [body] else [] | HttpError \<Rightarrow> [])"
    using s(2) r(2) by (simp add: accepted_def split: response.split)
  have auth: "accepted (snd (onAuthenticationFailed u h')) = accepted h'" "\<exists>b. fst (onAuthenticationFailed u h') = Inr b" for h'
    by (simp_all add: onAuthenticationFailed_def Let_def accepted_def)
  have "wp (case a of HttpError \<Rightarrow> ret ErrorGeneric | HttpResponse status hs \<Rightarrow>
         if status = 200 then ret Success
         else if status = 429 \<or> status = 503 then
           let retryAfter = findHeader ''Retry-After'' hs in
           if retryAfter = [] then ret ErrorGeneric
           else case stoull retryAfter of Inl e \<Rightarrow> stop e | Inr v \<Rightarrow> ret (ErrorRateLimit (to_long_long v))
         else if status = 401 then
           andthen (onAuthenticationFailed u) (\<lambda>retry. case again of
             Some p \<Rightarrow> if retry then p else ret ErrorGeneric | None \<Rightarrow> ret ErrorGeneric)
         else ret ErrorGeneric) (\<lambda>st h'. accepted h' = accepted h @ (if st = Success then [body] else [])) bad_retry h1"
  proof (cases a)
    case (HttpResponse status hs)
    consider "status = 200" | "status = 429 \<or> status = 503" | "status = 401" | "status \<notin> {200, 429, 503, 401}" by blast
    then show ?thesis
    proof cases
      case 2
      then show ?thesis using acc HttpResponse stoull_error
        by (auto simp: wp_simps Let_def wp_def stop_def ret_def split: sum.split)
    next
      case 3
      obtain b h2 where o: "onAuthenticationFailed u h1 = (Inr b, h2)" "accepted h2 = accepted h"
        using auth[of h1] acc HttpResponse 3 by (cases "onAuthenticationFailed u h1") auto
      then show ?thesis using 3 HttpResponse assms(4)[of _ h2]
        by (cases again) (auto simp: wp_simps wp_def[of "onAuthenticationFailed u"])
    qed (use acc HttpResponse in \<open>auto simp: wp_simps\<close>)
  qed (use acc in \<open>simp add: wp_simps\<close>)
  then show ?thesis unfolding attempt_def wp_andthen[of "make_request _ _ _"] wp_andthen[of "http_send _"]
    by (simp add: wp_def[of "make_request _ _ _"] r(1) wp_def[of "http_send _"] s(1))
qed

lemma sendEvents_spec:
  assumes "getData l = Some data" "deflated \<Longrightarrow> compress u data = Some z" "body = (if deflated then z else data)"
  shows "wp (sendEvents u l deflated True) (\<lambda>st h'. accepted h' = accepted h @ (if st = Success then [body] else [])) bad_retry h"
  unfolding sendEvents_def
proof (rule attempt_spec[OF assms])
  fix p h' assume p: "(if True then Some (attempt u l deflated None) else None) = Some p" and h': "accepted h' = accepted h"
  have "wp (attempt u l deflated None) (\<lambda>st h2. accepted h2 = accepted h' @ (if st = Success then [body] else [])) bad_retry h'"
    by (rule attempt_spec[OF assms]) simp_all
  then show "wp p (\<lambda>st h2. accepted h2 = accepted h @ (if st = Success then [body] else [])) bad_retry h'" using p h' by simp
qed


lemma sendEvents_ok:
  assumes "getData l = Some data" "deflated \<Longrightarrow> compress u data = Some z" "responses h = HttpResponse 200 hs # rest"
  shows "\<exists>h'. sendEvents u l deflated True h = (Inr Success, h') \<and> responses h' = rest"
  using assms by (cases deflated) (auto simp: sendEvents_def attempt_def make_request_def http_send_def andthen_def getp_def ret_def Let_def)

context event_queue
begin

lemma sendBatch_ok:
  assumes inv: "inv s" and ne: "queue s \<noteq> []" and mc: "0 < mc" and ms: "0 < ms" and z: "\<And>x. compress u x \<noteq> None"
    and ok: "responses h = HttpResponse 200 hs # rest"
  shows "wp (sendBatch (Suc f) u B mc ms) (\<lambda>st (t, h'). st = Success \<and> responses h' = rest) never (s, h)" (is "wp _ ?Q _ _")
proof -
  let ?k = "\<lambda>r. (case r of
        None \<Rightarrow> andthen (on_batch (hasEvents B)) (\<lambda>h. if \<not> h then ret Success else
          andthen (on_batch (getEventsForUpload B 1 SIZE_MAX)) (\<lambda>ev. case ev of
            None \<Rightarrow> ret ErrorGeneric | Some l \<Rightarrow> seqp (on_batch (onEventsUploaded B l)) (sendBatch f u B mc ms)))
      | Some l \<Rightarrow> andthen (deref (getEventCount l)) (\<lambda>n. andthen (on_http (sendEvents u l (n > 1) True)) (\<lambda>st.
          seqp (whenp (st = Success) (on_batch (onEventsUploaded B l))) (ret st))))"
  have "wp (getEventsForUpload B mc ms) (\<lambda>r t. wp (?k r) ?Q never (t, h)) never s"
  proof (rule wp_mono[OF get_spec[OF inv ne mc ms]])
    fix r t
    assume a: "inv t \<and> queue t = queue s \<and> (\<forall>k. room k s \<longrightarrow> room k t) \<and> (\<forall>x. fits x s \<longrightarrow> fits x t) \<and>
      (\<exists>l n mo. r = Some l \<and> issued t l \<and> covers l n (queue t) \<and> hasMoreEvents l = Some mo \<and>
        (\<not> mo \<longrightarrow> n = length (queue t)) \<and> n \<le> mc \<and> length (concat (take n (queue t))) \<le> ms \<and>
        (length (hd (queue t)) \<le> min ms max_chunk \<longrightarrow> 0 < n))"
    then obtain l n where l: "r = Some l" "issued t l" "covers l n (queue t)" and it: "inv t" by (elim exE conjE)
    note c = coversD[OF l(3)]
    obtain zd where zd: "compress u (concat (take n (queue t))) = Some zd" using z by blast
    obtain h' where h': "sendEvents u l (n > 1) True h = (Inr Success, h')" "responses h' = rest"
      using sendEvents_ok[OF c(2) zd ok] by blast
    have "wp (onEventsUploaded B l) (\<lambda>_ t'. ?Q Success (t', h')) never t"
      by (rule wp_mono[OF uploaded_spec[OF it l(2,3)]]) (use h' in auto)
    then show "wp (?k r) ?Q never (t, h)"
      by (simp add: l(1) c(1) wp_simps wp_def[of "sendEvents _ _ _ _"] h'(1)[unfolded One_nat_def])
  qed simp
  then show ?thesis unfolding sendBatch.simps wp_andthen[of "on_batch (getEventsForUpload B mc ms)"] wp_on_batch prod.case .
qed

text \<open>
  Sending from a queue that holds events: either the server took the first \<open>n\<close> events, once, and
  they are gone from the queue, or nothing changed.
\<close>

lemma sendBatch_spec:
  assumes inv: "inv s" and ne: "queue s \<noteq> []" and mc: "0 < mc" and ms: "0 < ms" and z: "\<And>x. compress u x \<noteq> None"
  shows "wp (sendBatch (Suc f) u B mc ms) (\<lambda>st (t, h'). inv t \<and> (\<forall>k. room k s \<longrightarrow> room k t) \<and> (\<forall>x. fits x s \<longrightarrow> fits x t) \<and>
     (\<exists>n \<le> length (queue s). (length (hd (queue s)) \<le> min ms max_chunk \<longrightarrow> 0 < n) \<and>
        (if st = Success then queue t = drop n (queue s) \<and> accepted h' = accepted h @ [payload u (take n (queue s))]
         else queue t = queue s \<and> accepted h' = accepted h))) bad_retry (s, h)" (is "wp _ ?Q _ _")
proof -
  have "wp (getEventsForUpload B mc ms) (\<lambda>r t. wp (case r of
        None \<Rightarrow> andthen (on_batch (hasEvents B)) (\<lambda>h. if \<not> h then ret Success else
          andthen (on_batch (getEventsForUpload B 1 SIZE_MAX)) (\<lambda>ev. case ev of
            None \<Rightarrow> ret ErrorGeneric | Some l \<Rightarrow> seqp (on_batch (onEventsUploaded B l)) (sendBatch f u B mc ms)))
      | Some l \<Rightarrow> andthen (deref (getEventCount l)) (\<lambda>n. andthen (on_http (sendEvents u l (n > 1) True)) (\<lambda>st.
          seqp (whenp (st = Success) (on_batch (onEventsUploaded B l))) (ret st)))) ?Q bad_retry (t, h)) bad_retry s"
  proof (rule wp_mono[OF get_spec[OF inv ne mc ms]])
    fix r t
    assume a: "inv t \<and> queue t = queue s \<and> (\<forall>k. room k s \<longrightarrow> room k t) \<and> (\<forall>x. fits x s \<longrightarrow> fits x t) \<and>
      (\<exists>l n mo. r = Some l \<and> issued t l \<and> covers l n (queue t) \<and> hasMoreEvents l = Some mo \<and>
        (\<not> mo \<longrightarrow> n = length (queue t)) \<and> n \<le> mc \<and> length (concat (take n (queue t))) \<le> ms \<and>
        (length (hd (queue t)) \<le> min ms max_chunk \<longrightarrow> 0 < n))"
    then obtain l n where l: "r = Some l" "issued t l" "covers l n (queue t)" "length (hd (queue t)) \<le> min ms max_chunk \<longrightarrow> 0 < n"
      by (elim exE conjE)
    note c = coversD[OF l(3)]
    obtain zd where zd: "compress u (concat (take n (queue t))) = Some zd" using z by blast
    have body: "payload u (take n (queue s)) = (if n > 1 then zd else concat (take n (queue t)))"
      using a zd c(3) by (simp add: payload_def min_def)
    have st: "wp (sendEvents u l (n > 1) True) (\<lambda>st h'. accepted h' = accepted h @ (if st = Success then [payload u (take n (queue s))] else [])) bad_retry h"
      by (rule sendEvents_spec[OF c(2) zd body])
    have up: "wp (onEventsUploaded B l) (\<lambda>_ t'. ?Q Success (t', h')) bad_retry t"
      if h': "accepted h' = accepted h @ [payload u (take n (queue s))]" for h'
      by (rule wp_mono[OF uploaded_spec[OF _ l(2,3)]]) (use a h' c(3) l(4) in \<open>auto intro!: exI[of _ n]\<close>)
    have nope: "?Q st (t, h')" if "accepted h' = accepted h" "st \<noteq> Success" for h' st
      using a that c(3) l(4) by (auto intro!: exI[of _ n])
    show "wp (case r of
        None \<Rightarrow> andthen (on_batch (hasEvents B)) (\<lambda>h. if \<not> h then ret Success else
          andthen (on_batch (getEventsForUpload B 1 SIZE_MAX)) (\<lambda>ev. case ev of
            None \<Rightarrow> ret ErrorGeneric | Some l \<Rightarrow> seqp (on_batch (onEventsUploaded B l)) (sendBatch f u B mc ms)))
      | Some l \<Rightarrow> andthen (deref (getEventCount l)) (\<lambda>n. andthen (on_http (sendEvents u l (n > 1) True)) (\<lambda>st.
          seqp (whenp (st = Success) (on_batch (onEventsUploaded B l))) (ret st)))) ?Q bad_retry (t, h)"
      unfolding l(1) option.case c(1) deref_Some andthen_ret wp_andthen wp_on_http prod.case
    proof (rule wp_mono[OF st])
      fix st h' assume h': "accepted h' = accepted h @ (if st = Success then [payload u (take n (queue s))] else [])"
      show "wp (seqp (whenp (st = Success) (on_batch (onEventsUploaded B l))) (ret st)) ?Q bad_retry (t, h')"
      proof (cases "st = Success")
        case True
        with up[of h'] h' show ?thesis by (simp add: wp_simps)
      next
        case False
        with nope[of h' st] h' show ?thesis by (simp add: wp_simps)
      qed
    qed simp
  qed simp
  then show ?thesis unfolding sendBatch.simps wp_andthen[of "on_batch (getEventsForUpload B mc ms)"] wp_on_batch prod.case .
qed

end


section \<open>Recording and uploading\<close>

text \<open>
  A session: events are recorded and, in between, uploads are attempted as the upload task does,
  when the queue has events.
\<close>

datatype 'j action = Record 'j | Upload

fun session :: "uploader \<Rightarrow> ('s, 'j) event_batch \<Rightarrow> nat \<Rightarrow> nat \<Rightarrow> 'j action list \<Rightarrow> ('s \<times> http, batch_error, unit) prog" where
  "session u B mc ms [] = ret ()"
| "session u B mc ms (Record e # as) = seqp (on_batch (addEvent B e)) (session u B mc ms as)"
| "session u B mc ms (Upload # as) = andthen (on_batch (hasEvents B)) (\<lambda>h.
     seqp (whenp h (andthen (sendBatch 1 u B mc ms) (\<lambda>_. ret ()))) (session u B mc ms as))"

fun recorded :: "'j action list \<Rightarrow> 'j list" where
  "recorded [] = []"
| "recorded (Record e # as) = e # recorded as"
| "recorded (Upload # as) = recorded as"

context storing_queue
begin

text \<open>
  Every event is accepted by the server once and in order, or still queued: the accepted
  bodies are those of consecutive chunks of the events, and the queue holds the rest.
\<close>

lemma session_exactly_once:
  assumes "inv s" "\<forall>e \<in> set (recorded as). fits e s" "room (length (recorded as)) s" "0 < mc" "0 < ms" "\<And>x. compress u x \<noteq> None"
  shows "wp (session u B mc ms as) (\<lambda>_ (t, h'). inv t \<and> (\<exists>chunks. accepted h' = accepted h @ map (payload u) chunks \<and>
     concat chunks @ queue t = queue s @ map line (recorded as))) bad_retry (s, h)"
  using assms
proof (induction "as" arbitrary: s h)
  case Nil
  then show ?case by (auto simp: wp_simps intro!: exI[of _ "[]"])
next
  case (Cons a as)
  let ?Q = "\<lambda>s h as. (\<lambda>_ (t, h'). inv t \<and> (\<exists>chunks. accepted h' = accepted h @ map (payload u) chunks \<and>
     concat chunks @ queue t = queue s @ map line (recorded as)))"
  show ?case
  proof (cases a)
    case (Record e)
    have p: "inv s" "fits e s" "room (Suc (length (recorded as))) s" using Cons.prems Record by simp_all
    have step: "wp (session u B mc ms as) (?Q s h (a # as)) bad_retry (t, h)"
      if t: "inv t" "queue t = queue s @ [line e]" "room (length (recorded as)) t" "\<forall>x. fits x s \<longrightarrow> fits x t" for t
    proof -
      have "\<forall>e \<in> set (recorded as). fits e t" using Cons.prems(2) t(4) Record by simp
      from Cons.IH[OF t(1) this t(3) Cons.prems(4-6)] show ?thesis
        by (rule wp_mono) (use t(2) Record in auto)
    qed
    have "wp (addEvent B e) (\<lambda>ok t. wp (session u B mc ms as) (?Q s h (a # as)) bad_retry (t, h)) bad_retry s"
      by (rule wp_mono[OF add_stored[OF p]]) (elim conjE, rule step, assumption+, simp)
    then show ?thesis unfolding Record session.simps wp_seqp wp_on_batch prod.case .
  next
    case Upload
    have p: "\<forall>e \<in> set (recorded as). fits e s" "room (length (recorded as)) s" using Cons.prems Upload by simp_all
    have h: "hasEvents B s = (Inr (queue s \<noteq> []), s)" using has_spec Cons.prems(1) .
    have idle: "wp (session u B mc ms as) (?Q s h (a # as)) bad_retry (s, h)"
      using Cons.IH[OF Cons.prems(1) p Cons.prems(4-6)] Upload by simp
    have send: "wp (sendBatch 1 u B mc ms) (\<lambda>_. wp (session u B mc ms as) (?Q s h (a # as)) bad_retry) bad_retry (s, h)"
      if ne: "queue s \<noteq> []"
    proof -
      have "wp (session u B mc ms as) (?Q s h (a # as)) bad_retry th"
        if th: "case th of (t, h') \<Rightarrow> inv t \<and> (\<forall>k. room k s \<longrightarrow> room k t) \<and> (\<forall>x. fits x s \<longrightarrow> fits x t) \<and>
         (\<exists>n \<le> length (queue s). (length (hd (queue s)) \<le> min ms max_chunk \<longrightarrow> 0 < n) \<and>
          (if st = Success then queue t = drop n (queue s) \<and> accepted h' = accepted h @ [payload u (take n (queue s))]
           else queue t = queue s \<and> accepted h' = accepted h))" for st th
      proof -
        obtain t h' n where t: "th = (t, h')" "inv t" "\<forall>k. room k s \<longrightarrow> room k t" "\<forall>x. fits x s \<longrightarrow> fits x t" "n \<le> length (queue s)"
          "if st = Success then queue t = drop n (queue s) \<and> accepted h' = accepted h @ [payload u (take n (queue s))]
           else queue t = queue s \<and> accepted h' = accepted h" using th by auto
        have "\<forall>e \<in> set (recorded as). fits e t" "room (length (recorded as)) t" using t(3,4) p by simp_all
        from Cons.IH[OF t(2) this Cons.prems(4-6), of h'] show ?thesis unfolding t(1)
        proof (rule wp_mono)
          fix x th assume "?Q t h' as x th"
          then obtain t2 h2 ch where q: "th = (t2, h2)" "inv t2" "accepted h2 = accepted h' @ map (payload u) ch"
            "concat ch @ queue t2 = queue t @ map line (recorded as)" by (cases th) auto
          show "?Q s h (a # as) x th"
          proof (cases "st = Success")
            case True
            then show ?thesis using t(5,6) q Upload by (auto intro!: exI[of _ "take n (queue s) # ch"])
          next
            case False
            then show ?thesis using t(5,6) q Upload by (auto intro!: exI[of _ ch])
          qed
        qed
      qed
      then show ?thesis unfolding One_nat_def
        by (intro wp_mono[OF sendBatch_spec[OF Cons.prems(1) ne Cons.prems(4-6)]])
    qed
    show ?thesis unfolding Upload session.simps wp_andthen[of "on_batch _"] wp_on_batch prod.case wp_def[of "hasEvents B"] h sum.case
        wp_seqp wp_whenp wp_andthen wp_ret
    proof (cases "queue s \<noteq> []")
      case True
      then have q: "(queue s \<noteq> []) = True" by simp
      show "(if queue s \<noteq> [] then wp (sendBatch 1 u B mc ms) (\<lambda>_. wp (session u B mc ms as) (?Q s h (Upload # as)) bad_retry) bad_retry
          else wp (session u B mc ms as) (?Q s h (Upload # as)) bad_retry) (s, h)"
        using send[OF True] unfolding Upload q if_True .
    next
      case False
      then have q: "(queue s \<noteq> []) = False" by simp
      show "(if queue s \<noteq> [] then wp (sendBatch 1 u B mc ms) (\<lambda>_. wp (session u B mc ms as) (?Q s h (Upload # as)) bad_retry) bad_retry
          else wp (session u B mc ms as) (?Q s h (Upload # as)) bad_retry) (s, h)"
        using idle unfolding Upload q if_False .
    qed
  qed
qed

end

interpretation normal: buffered_queue "multi_ops dump" multi_inv multi_queue multi_issued "multi_fits dump" multi_room "event_line dump" dump
  by unfold_locales simp


section \<open>Properties\<close>

abbreviation normal_ops :: "('j \<Rightarrow> bytes) \<Rightarrow> ((multi_state, 'j) buffered, 'j) event_batch" where
  "normal_ops dump \<equiv> buffered_ops (multi_ops dump) dump"

text \<open>
  C1: the queue for normal events, a memory buffer in front of numbered files, delivers every event
  once and in order. Through any sequence of recordings and upload attempts, with any answers of
  the server, the bodies it accepted are those of consecutive chunks of what was recorded, and
  what remains is queued. The thread only ends early on a \<open>Retry-After\<close> header that is no number.
\<close>
theorem telemetry_exactly_once:
  assumes "buf_inv multi_inv (multi_fits dump) b" "\<forall>e \<in> set (recorded as). multi_fits dump e (wrapped b)"
    "buf_room multi_room (length (recorded as)) b" "0 < mc" "0 < ms" "\<And>x. compress u x \<noteq> None"
  shows "case session u (normal_ops dump) mc ms as (b, h) of
      (Inr _, t, h') \<Rightarrow> \<exists>chunks. accepted h' = accepted h @ map (payload u) chunks \<and>
        concat chunks @ buf_queue multi_queue dump t = buf_queue multi_queue dump b @ map (event_line dump) (recorded as)
    | (Inl e, _) \<Rightarrow> e = InvalidArgument \<or> e = OutOfRange"
proof -
  have "\<forall>e \<in> set (recorded as). buf_fits (multi_fits dump) e b" using assms(2) by (simp add: buf_fits_def)
  from normal.buf.session_exactly_once[OF assms(1) this assms(3-6), of h] show ?thesis
    by (auto simp: wp_def split: prod.splits sum.splits)
qed

definition sample_buffered :: "nat \<Rightarrow> bytes list \<Rightarrow> (multi_state, bytes) buffered" where
  "sample_buffered lim is = \<lparr> wrapped = sample_multi 100 [], mem = \<lparr> items = is, limit = lim \<rparr> \<rparr>"

lemma sample_buffered:
  assumes "0 < lim" "\<forall>e \<in> set is. 10 \<notin> set e \<and> length e < 90"
  shows "buf_inv multi_inv (multi_fits id) (sample_buffered lim is)" "buf_room multi_room k (sample_buffered lim is) = (int (length is) + int k < 2 ^ 63)"
    "multi_fits id e (wrapped (sample_buffered lim is)) = (10 \<notin> set e \<and> length e + 2 \<le> 100)"
    "multi_queue (wrapped (sample_buffered lim is)) = []"
  using assms sample_multi(1,2,3)[of "[]", simplified] sample_multi(4)[of "[]" "id :: bytes \<Rightarrow> bytes", simplified]
  by (auto simp: sample_buffered_def buf_inv_def buf_room_def one_line_def event_line_def)

definition sample_uploader :: uploader where
  "sample_uploader = \<lparr> url = ''u'', steps = [], compress = Some, getUploadTimestamp = (\<lambda>_. ''t'') \<rparr>"

definition sample_http :: http where
  "sample_http = \<lparr> responses = [HttpResponse 200 [], HttpResponse 503 []], auth_answers = [], exchanges = [] \<rparr>"

theorem telemetry_exactly_once_witness:
  "case session sample_uploader (normal_ops id) 5 50 [Record [97], Record [98], Upload] (sample_buffered 2 [], sample_http) of
      (Inr _, t, h') \<Rightarrow> \<exists>chunks. accepted h' = accepted sample_http @ map (payload sample_uploader) chunks \<and>
        concat chunks @ buf_queue multi_queue id t = buf_queue multi_queue id (sample_buffered 2 []) @ [[97, 13, 10], [98, 13, 10]]
    | (Inl e, _) \<Rightarrow> e = InvalidArgument \<or> e = OutOfRange"
proof -
  let ?as = "[Record [97], Record [98], Upload] :: bytes action list"
  note s = sample_buffered[of 2 "[]", simplified]
  have "\<forall>e \<in> set (recorded ?as). multi_fits id e (wrapped (sample_buffered 2 []))"
    "buf_room multi_room (length (recorded ?as)) (sample_buffered 2 [])" "(0 :: nat) < 5" "(0 :: nat) < 50"
    "\<And>x. compress sample_uploader x \<noteq> None"
    by (simp_all add: s sample_uploader_def)
  from telemetry_exactly_once[OF s(1) this, of sample_http] show ?thesis
    by (simp only: recorded.simps list.map event_line_def id_apply append.simps)
qed


text \<open>
  C25: recording an event while events from memory are being uploaded can break the buffered queue.
  When the buffer is full, the recording moves the events under upload to the files, and the
  confirmation of the upload then erases more events from memory than there are.
\<close>
theorem flush_during_upload:
  assumes inv: "buf_inv multi_inv (multi_fits dump) b" and empty: "multi_queue (wrapped b) = []"
    and full: "length (items (mem b)) = limit (mem b)" "1 < limit (mem b)"
    and fits: "multi_fits dump e (wrapped b)" and room: "buf_room multi_room 1 b"
    and lim: "length (items (mem b)) \<le> mc" "length (concat (mem_queue dump (mem b))) \<le> ms"
  shows "\<exists>l b1 b2 b3. buf_getEventsForUpload (multi_ops dump) dump mc ms b = (Inr (Some l), b1) \<and>
    buf_addEvent (multi_ops dump) e b1 = (Inr True, b2) \<and> buf_onEventsUploaded (multi_ops dump) l b2 = (Inl EraseOutOfRange, b3)"
proof -
  let ?q = "mem_queue dump (mem b)" and ?n = "length (items (mem b))"
  have collect: "mem_collect dump mc ms is r k = (r @ concat (map (event_line dump) is), k + length is)"
    if "k + length is \<le> mc" "length r + length (concat (map (event_line dump) is)) \<le> ms" for "is" r k
    using that by (induction "is" arbitrary: r k) (auto simp: event_line_def Let_def)
  have q0: "?n \<noteq> 0" "0 < mc" "items (mem b) \<noteq> []" using full lim(1) by auto
  have "0 < length (concat ?q)" using q0(3) by (cases "items (mem b)") (auto simp: mem_queue_def event_line_def)
  from less_le_trans[OF this lim(2)] have ms: "0 < ms" .
  let ?l = "Wrapper Memory (Some (Vector (concat ?q) ?n False)) False"
  have has: "hasEvents (multi_ops dump) (wrapped b) = (Inr False, wrapped b)"
    using multi.has_spec[of "wrapped b" dump] inv empty by (simp add: buf_inv_def)
  have g: "buf_getEventsForUpload (multi_ops dump) dump mc ms b = (Inr (Some ?l), b)"
    using collect[of 0 "items (mem b)" "[]"] lim ms q0 has
    by (simp add: buf_getEventsForUpload_def Let_def andthen_def on_wrapped_def on_mem_def mem_getEventsForUpload_def getp_def ret_def mem_queue_def)
  have fb: "buf_fits (multi_fits dump) e b" using fits by (simp add: buf_fits_def)
  from normal.flush_spec[OF inv room] obtain b1 where f: "flushInternal (multi_ops dump) b = (Inr (), b1)" "items (mem b1) = []"
      "buf_inv multi_inv (multi_fits dump) b1" by (auto dest: wp_returns)
  have a: "buf_addEvent (multi_ops dump) e b = (Inr True, b1\<lparr>mem := (mem b1)\<lparr>items := [e]\<rparr>\<rparr>)"
    using full f by (simp add: buf_addEvent_def mem_addEvent_def andthen_def seqp_def on_mem_def getp_def ret_def modp_def buf_inv_def)
  have "buf_onEventsUploaded (multi_ops dump) ?l (b1\<lparr>mem := (mem b1)\<lparr>items := [e]\<rparr>\<rparr>) = (Inl EraseOutOfRange, b1\<lparr>mem := (mem b1)\<lparr>items := [e]\<rparr>\<rparr>)"
    using full by (simp add: buf_onEventsUploaded_def mem_onEventsUploaded_def andthen_def on_mem_def getp_def stop_def ret_def)
  with g a show ?thesis by blast
qed

theorem flush_during_upload_witness:
  "\<exists>l b1 b2 b3. buf_getEventsForUpload (multi_ops id) id 9 50 (sample_buffered 2 [[97], [98]]) = (Inr (Some l), b1) \<and>
    buf_addEvent (multi_ops id) [99] b1 = (Inr True, b2) \<and> buf_onEventsUploaded (multi_ops id) l b2 = (Inl EraseOutOfRange, b3)"
proof -
  let ?is = "[[97], [98]] :: bytes list"
  have "(0 :: nat) < 2" "\<forall>e \<in> set ?is. 10 \<notin> set e \<and> length e < 90" by simp_all
  note s = sample_buffered[OF this]
  have i: "items (mem (sample_buffered 2 ?is)) = ?is" "limit (mem (sample_buffered 2 ?is)) = 2" by (simp_all add: sample_buffered_def)
  show ?thesis
    by (rule flush_during_upload[OF s(1,4)]) (simp_all add: i s mem_queue_def event_line_def)
qed

end
