(* ===== verification/Event_Manager.thy ===== *)
theory Event_Manager
  imports Event_Upload
begin

text \<open>
  The event manager, \<^verbatim>\<open>cll-telemetry/src/event_manager.cpp\<close>: where an event goes when it is
  recorded, and the two tasks that upload, one for the stored queues and one for the events
  that are to be sent at once. The download of the configuration is an argument; the tasks'
  threads appear as the runs that are requested and the pauses that are taken.
\<close>

datatype task_call = RunMain bool | RunRealtime bool | Sleep int | TerminateMain | TerminateRealtime

record ('c, 'n, 'j) event_manager =
  criticalStorageBatch :: 'c
  normalStorageBatch :: 'n
  realtimeMemoryBatch :: "'j memory_batch"
  httpClient :: http
  uploaderMaxEvents :: nat
  uploaderMaxSize :: nat
  stoppingAnswers :: "bool list"
  taskCalls :: "task_call list"

type_synonym ('c, 'n, 'j, 'a) manager = "(('c, 'n, 'j) event_manager, batch_error, 'a) prog"

definition PersistenceCritical :: u32 where "PersistenceCritical = 2"
definition LatencyRealtime :: u32 where "LatencyRealtime = 512"

definition EventFlagSet :: "u32 \<Rightarrow> u32 \<Rightarrow> bool" where
  "EventFlagSet a b \<longleftrightarrow> a AND b \<noteq> 0"

definition on_crit :: "('c \<times> http, batch_error, 'a) prog \<Rightarrow> ('c, 'n, 'j, 'a) manager" where
  "on_crit f = (\<lambda>m. case f (criticalStorageBatch m, httpClient m) of
     (r, c, h) \<Rightarrow> (r, m\<lparr>criticalStorageBatch := c, httpClient := h\<rparr>))"

definition on_norm :: "('n \<times> http, batch_error, 'a) prog \<Rightarrow> ('c, 'n, 'j, 'a) manager" where
  "on_norm f = (\<lambda>m. case f (normalStorageBatch m, httpClient m) of
     (r, n, h) \<Rightarrow> (r, m\<lparr>normalStorageBatch := n, httpClient := h\<rparr>))"

definition on_realtime :: "('j memory_batch \<times> http, batch_error, 'a) prog \<Rightarrow> ('c, 'n, 'j, 'a) manager" where
  "on_realtime f = (\<lambda>m. case f (realtimeMemoryBatch m, httpClient m) of
     (r, b, h) \<Rightarrow> (r, m\<lparr>realtimeMemoryBatch := b, httpClient := h\<rparr>))"

definition task :: "task_call \<Rightarrow> ('c, 'n, 'j, unit) manager" where
  "task c = modp (\<lambda>m. m\<lparr>taskCalls := taskCalls m @ [c]\<rparr>)"

text \<open>\<open>isStopping\<close> of the main upload task; no more answers: it is not stopping.\<close>

definition isStopping :: "('c, 'n, 'j, bool) manager" where
  "isStopping = (\<lambda>m. (Inr (stoppingAnswers m \<noteq> [] \<and> hd (stoppingAnswers m)), m\<lparr>stoppingAnswers := tl (stoppingAnswers m)\<rparr>))"

definition em_start :: "('c, 'n, 'j, unit) manager" where
  "em_start = task (RunMain True)"

text \<open>Recording an event, given with its flags as the serialiser left it.\<close>

definition store :: "('c, 'j) event_batch \<Rightarrow> ('n, 'j) event_batch \<Rightarrow> u32 \<Rightarrow> 'j \<Rightarrow> ('c, 'n, 'j, bool) manager" where
  "store C N flags ev = (if EventFlagSet flags PersistenceCritical then on_crit (on_batch (addEvent C ev)) else on_norm (on_batch (addEvent N ev)))"

definition em_add :: "('c, 'j) event_batch \<Rightarrow> ('n, 'j) event_batch \<Rightarrow> u32 \<Rightarrow> 'j \<Rightarrow> ('c, 'n, 'j, unit) manager" where
  "em_add C N flags serialized = (let
       stored = (\<lambda>realtime. andthen (store C N flags serialized) (\<lambda>added. whenp added (task (RunMain realtime)))) in
     if EventFlagSet flags LatencyRealtime then
       andthen (on_realtime (on_batch (mem_addEvent serialized))) (\<lambda>ok. if ok then task (RunRealtime False) else stored True)
     else stored False)"

text \<open>The main task; \<open>backoff\<close> is the next pause in milliseconds.\<close>

definition baseBackoffTime :: int where
  "baseBackoffTime = 5000"

text \<open>What follows an attempt: the next round, after a pause when it failed.\<close>

definition after_upload :: "(int \<Rightarrow> ('c, 'n, 'j, unit) manager) \<Rightarrow> int \<Rightarrow> upload_status \<Rightarrow> ('c, 'n, 'j, unit) manager" where
  "after_upload again backoff st = (case st of
       Success \<Rightarrow> again baseBackoffTime
     | ErrorRateLimit s \<Rightarrow> seqp (task (Sleep (1000 * s))) (again baseBackoffTime)
     | ErrorGeneric \<Rightarrow> seqp (task (Sleep backoff))
         (if 2 * backoff \<ge> 2 ^ 63 then stop BackoffOverflow else again (2 * backoff)))"

fun upload_loop ::
    "nat \<Rightarrow> ('c, 'n, 'j, unit) manager \<Rightarrow> uploader \<Rightarrow> ('c, 'j) event_batch \<Rightarrow> ('n, 'j) event_batch \<Rightarrow> int \<Rightarrow> ('c, 'n, 'j, unit) manager" where
  "upload_loop 0 update u C N backoff = stop NoFuel"
| "upload_loop (Suc fuel) update u C N backoff = andthen isStopping (\<lambda>stopping. if stopping then ret () else
     andthen (on_norm (on_batch (hasEvents N))) (\<lambda>n. andthen (if n then ret True else on_crit (on_batch (hasEvents C))) (\<lambda>some.
     if \<not> some then ret () else seqp update (andthen (getp id) (\<lambda>m.
       let next = after_upload (upload_loop fuel update u C N) backoff in
       andthen (on_crit (on_batch (hasEvents C))) (\<lambda>c.
       if c then andthen (on_crit (sendBatch fuel u C (uploaderMaxEvents m) (uploaderMaxSize m))) next
       else andthen (on_norm (on_batch (hasEvents N))) (\<lambda>n.
       if n then andthen (on_norm (sendBatch fuel u N (uploaderMaxEvents m) (uploaderMaxSize m))) next
       else ret ())))))))"

definition uploadTasks ::
    "nat \<Rightarrow> ('c, 'n, 'j, unit) manager \<Rightarrow> uploader \<Rightarrow> ('c, 'j) event_batch \<Rightarrow> ('n, 'j) event_batch \<Rightarrow> ('c, 'n, 'j, unit) manager" where
  "uploadTasks fuel update u C N = seqp update (upload_loop fuel update u C N baseBackoffTime)"

text \<open>The realtime task: on a failure its events move to the stored queues and the main task is started.\<close>

fun transfer :: "('c, 'j) event_batch \<Rightarrow> ('n, 'j) event_batch \<Rightarrow> ('j \<Rightarrow> u32) \<Rightarrow> 'j list \<Rightarrow> ('c, 'n, 'j, unit) manager" where
  "transfer C N flags [] = ret ()"
| "transfer C N flags (ev # evs) = seqp (store C N (flags ev) ev) (transfer C N flags evs)"

fun uploadRealtimeTasks ::
    "nat \<Rightarrow> ('c, 'n, 'j, unit) manager \<Rightarrow> uploader \<Rightarrow> ('j \<Rightarrow> bytes) \<Rightarrow> ('j \<Rightarrow> u32) \<Rightarrow> ('c, 'j) event_batch \<Rightarrow> ('n, 'j) event_batch \<Rightarrow>
     ('c, 'n, 'j, unit) manager" where
  "uploadRealtimeTasks 0 update u dump flags C N = stop NoFuel"
| "uploadRealtimeTasks (Suc fuel) update u dump flags C N = andthen (on_realtime (on_batch mem_hasEvents)) (\<lambda>h. if \<not> h then ret () else
     seqp update (andthen (getp id) (\<lambda>m.
       andthen (on_realtime (sendBatch fuel u (memory_ops dump) (uploaderMaxEvents m) (uploaderMaxSize m))) (\<lambda>st.
         seqp (whenp (st \<noteq> Success) (andthen (on_realtime (on_batch transferAllEvents)) (\<lambda>evs.
             seqp (transfer C N flags evs) (task (RunMain True)))))
           (uploadRealtimeTasks fuel update u dump flags C N)))))"


section \<open>Rules\<close>

declare upload_loop.simps [simp del] sendBatch.simps [simp del]

lemma wp_on_crit [wp_simps]: "wp (on_crit f) Q E = (\<lambda>m. wp f (\<lambda>x (c, h). Q x (m\<lparr>criticalStorageBatch := c, httpClient := h\<rparr>))
    (\<lambda>e (c, h). E e (m\<lparr>criticalStorageBatch := c, httpClient := h\<rparr>)) (criticalStorageBatch m, httpClient m))"
  by (auto simp: wp_def on_crit_def fun_eq_iff split: prod.split sum.split)

lemma wp_on_norm [wp_simps]: "wp (on_norm f) Q E = (\<lambda>m. wp f (\<lambda>x (n, h). Q x (m\<lparr>normalStorageBatch := n, httpClient := h\<rparr>))
    (\<lambda>e (n, h). E e (m\<lparr>normalStorageBatch := n, httpClient := h\<rparr>)) (normalStorageBatch m, httpClient m))"
  by (auto simp: wp_def on_norm_def fun_eq_iff split: prod.split sum.split)

lemma wp_on_realtime [wp_simps]: "wp (on_realtime f) Q E = (\<lambda>m. wp f (\<lambda>x (b, h). Q x (m\<lparr>realtimeMemoryBatch := b, httpClient := h\<rparr>))
    (\<lambda>e (b, h). E e (m\<lparr>realtimeMemoryBatch := b, httpClient := h\<rparr>)) (realtimeMemoryBatch m, httpClient m))"
  by (auto simp: wp_def on_realtime_def fun_eq_iff split: prod.split sum.split)

lemma wp_task [wp_simps]: "wp (task c) Q E = (\<lambda>m. Q () (m\<lparr>taskCalls := taskCalls m @ [c]\<rparr>))"
  by (simp add: task_def wp_simps)

lemma wp_isStopping [wp_simps]: "wp isStopping Q E = (\<lambda>m. Q (stoppingAnswers m \<noteq> [] \<and> hd (stoppingAnswers m))
    (m\<lparr>stoppingAnswers := tl (stoppingAnswers m)\<rparr>))"
  by (simp add: isStopping_def wp_def fun_eq_iff)

text \<open>Two queues, the critical one and the normal one, that both meet their contracts.\<close>

locale upload_manager =
  crit: event_queue C cinv cqueue cissued cfits croom cline + norm: event_queue N ninv nqueue nissued nfits nroom nline
  for C :: "('c, 'j) event_batch" and cinv cqueue cissued cfits croom cline
    and N :: "('n, 'j) event_batch" and ninv nqueue nissued nfits nroom nline
begin

abbreviation sound :: "('c, 'n, 'j) event_manager \<Rightarrow> bool" where
  "sound m \<equiv> cinv (criticalStorageBatch m) \<and> ninv (normalStorageBatch m) \<and> 0 < uploaderMaxEvents m \<and> 0 < uploaderMaxSize m"

abbreviation "cq m \<equiv> cqueue (criticalStorageBatch m)"
abbreviation "nq m \<equiv> nqueue (normalStorageBatch m)"

lemma wp_has:
  "sound m \<Longrightarrow> wp (on_crit (on_batch (hasEvents C))) Q E m = Q (cq m \<noteq> []) m"
  "sound m \<Longrightarrow> wp (on_norm (on_batch (hasEvents N))) Q E m = Q (nq m \<noteq> []) m"
  by (simp_all add: wp_simps wp_def[of "hasEvents _"] crit.has_spec norm.has_spec)

text \<open>
  One round with an accepting server: a part of the critical queue is delivered, or a part of
  the normal queue when there is no critical event.
\<close>

abbreviation short_lines :: "nat \<Rightarrow> bytes list \<Rightarrow> bool" where
  "short_lines ms q \<equiv> (\<forall>l \<in> set q. length l \<le> min ms max_chunk)"

lemma crit_step:
  assumes s: "sound m" and ne: "cq m \<noteq> []" and z: "\<And>x. compress u x \<noteq> None" and short: "short_lines (uploaderMaxSize m) (cq m)"
    and ok: "responses (httpClient m) = HttpResponse 200 hs # rest"
  shows "wp (on_crit (sendBatch (Suc f) u C (uploaderMaxEvents m) (uploaderMaxSize m))) (\<lambda>st t. st = Success \<and> sound t \<and>
     nq t = nq m \<and> uploaderMaxSize t = uploaderMaxSize m \<and> taskCalls t = taskCalls m \<and> stoppingAnswers t = stoppingAnswers m \<and>
     responses (httpClient t) = rest \<and> (\<exists>n > 0. n \<le> length (cq m) \<and> cq t = drop n (cq m) \<and>
       accepted (httpClient t) = accepted (httpClient m) @ [payload u (take n (cq m))])) never m"
proof -
  have p: "cinv (criticalStorageBatch m)" "0 < uploaderMaxEvents m" "0 < uploaderMaxSize m" using s by simp_all
  have h: "length (hd (cq m)) \<le> min (uploaderMaxSize m) max_chunk" using short ne by (cases "cq m") auto
  show ?thesis unfolding wp_on_crit
    by (rule wp_mono[OF wp_conj[OF crit.sendBatch_spec[where h = "httpClient m" and f = f and u = u, OF p(1) ne p(2,3) z]
          crit.sendBatch_ok[where f = f and u = u, OF p(1) ne p(2,3) z ok]]])
      (use s h in auto)
qed

lemma norm_step:
  assumes s: "sound m" and ne: "nq m \<noteq> []" and z: "\<And>x. compress u x \<noteq> None" and short: "short_lines (uploaderMaxSize m) (nq m)"
    and ok: "responses (httpClient m) = HttpResponse 200 hs # rest"
  shows "wp (on_norm (sendBatch (Suc f) u N (uploaderMaxEvents m) (uploaderMaxSize m))) (\<lambda>st t. st = Success \<and> sound t \<and>
     cq t = cq m \<and> uploaderMaxSize t = uploaderMaxSize m \<and> taskCalls t = taskCalls m \<and> stoppingAnswers t = stoppingAnswers m \<and>
     responses (httpClient t) = rest \<and> (\<exists>n > 0. n \<le> length (nq m) \<and> nq t = drop n (nq m) \<and>
       accepted (httpClient t) = accepted (httpClient m) @ [payload u (take n (nq m))])) never m"
proof -
  have p: "ninv (normalStorageBatch m)" "0 < uploaderMaxEvents m" "0 < uploaderMaxSize m" using s by simp_all
  have h: "length (hd (nq m)) \<le> min (uploaderMaxSize m) max_chunk" using short ne by (cases "nq m") auto
  show ?thesis unfolding wp_on_norm
    by (rule wp_mono[OF wp_conj[OF norm.sendBatch_spec[where h = "httpClient m" and f = f and u = u, OF p(1) ne p(2,3) z]
          norm.sendBatch_ok[where f = f and u = u, OF p(1) ne p(2,3) z ok]]])
      (use s h in auto)
qed

text \<open>A round of the loop, when the task is not told to stop.\<close>

lemma body_wp:
  assumes s: "sound m"
  shows "wp (andthen (on_norm (on_batch (hasEvents N))) (\<lambda>n. andthen (if n then ret True else on_crit (on_batch (hasEvents C))) (\<lambda>some.
     if \<not> some then ret () else seqp (ret ()) (andthen (getp id) (\<lambda>m. let next = nx in
       andthen (on_crit (on_batch (hasEvents C))) (\<lambda>c.
       if c then andthen (on_crit (sendBatch fuel u C (uploaderMaxEvents m) (uploaderMaxSize m))) next
       else andthen (on_norm (on_batch (hasEvents N))) (\<lambda>n.
       if n then andthen (on_norm (sendBatch fuel u N (uploaderMaxEvents m) (uploaderMaxSize m))) next
       else ret ()))))))) Q E m =
    (if cq m \<noteq> [] then wp (on_crit (sendBatch fuel u C (uploaderMaxEvents m) (uploaderMaxSize m))) (\<lambda>st. wp (nx st) Q E) E m
     else if nq m \<noteq> [] then wp (on_norm (sendBatch fuel u N (uploaderMaxEvents m) (uploaderMaxSize m))) (\<lambda>st. wp (nx st) Q E) E m
     else Q () m)"
  by (cases "nq m = []"; cases "cq m = []") (simp_all add: wp_andthen wp_seqp wp_ret wp_getp wp_has[OF s] Let_def)

lemma round_wp:
  assumes s: "sound m" and ns: "\<not> (stoppingAnswers m \<noteq> [] \<and> hd (stoppingAnswers m))"
  shows "wp (upload_loop (Suc fuel) (ret ()) u C N backoff) Q E m = (let m = m\<lparr>stoppingAnswers := tl (stoppingAnswers m)\<rparr>;
      next = (\<lambda>st. wp (after_upload (upload_loop fuel (ret ()) u C N) backoff st) Q E) in
    if cq m \<noteq> [] then wp (on_crit (sendBatch fuel u C (uploaderMaxEvents m) (uploaderMaxSize m))) next E m
    else if nq m \<noteq> [] then wp (on_norm (sendBatch fuel u N (uploaderMaxEvents m) (uploaderMaxSize m))) next E m
    else Q () m)"
proof -
  let ?m = "m\<lparr>stoppingAnswers := tl (stoppingAnswers m)\<rparr>"
  have s': "sound ?m" using s by simp
  have ns': "(stoppingAnswers m \<noteq> [] \<and> hd (stoppingAnswers m)) = False" using ns by blast
  show ?thesis
    unfolding upload_loop.simps wp_andthen[of isStopping] wp_isStopping ns' if_False body_wp[OF s'] by (simp only: Let_def)
qed

text \<open>With an accepting server the main task ends with both queues empty, the critical events first.\<close>

abbreviation drained :: "uploader \<Rightarrow> ('c, 'n, 'j) event_manager \<Rightarrow> ('c, 'n, 'j) event_manager \<Rightarrow> bool" where
  "drained u m t \<equiv> cq t = [] \<and> nq t = [] \<and> taskCalls t = taskCalls m \<and>
     (\<exists>chunks. accepted (httpClient t) = accepted (httpClient m) @ map (payload u) chunks \<and> concat chunks = cq m @ nq m)"

lemma upload_drains:
  assumes "sound m" "True \<notin> set (stoppingAnswers m)" "\<And>x. compress u x \<noteq> None"
    "short_lines (uploaderMaxSize m) (cq m)" "short_lines (uploaderMaxSize m) (nq m)"
    "responses (httpClient m) = map (HttpResponse 200) hss @ rest" "length (cq m) + length (nq m) \<le> length hss"
    "length (cq m) + length (nq m) < fuel"
  shows "wp (upload_loop fuel (ret ()) u C N backoff) (\<lambda>_ t. drained u m t) never m"
  using assms
proof (induction fuel arbitrary: m hss backoff)
  case (Suc fuel)
  let ?m = "m\<lparr>stoppingAnswers := tl (stoppingAnswers m)\<rparr>"
  have s: "sound ?m" using Suc.prems(1) by simp
  have ns: "\<not> (stoppingAnswers m \<noteq> [] \<and> hd (stoppingAnswers m))" using Suc.prems(2) by (cases "stoppingAnswers m") auto
  have ts: "True \<notin> set (tl (stoppingAnswers m))" using Suc.prems(2) by (cases "stoppingAnswers m") auto
  have again: "wp (upload_loop fuel (ret ()) u C N b) (\<lambda>_ t'. drained u m t') never t"
    if t: "sound t" "uploaderMaxSize t = uploaderMaxSize m" "taskCalls t = taskCalls m" "stoppingAnswers t = stoppingAnswers ?m"
      "responses (httpClient t) = map (HttpResponse 200) hss' @ rest" "Suc (length hss') = length hss"
      "accepted (httpClient t) = accepted (httpClient m) @ [payload u ch]" "ch @ cq t @ nq t = cq m @ nq m" "ch \<noteq> []"
    for t b ch hss'
  proof -
    have len: "length ch + length (cq t) + length (nq t) = length (cq m) + length (nq m)"
      using arg_cong[OF t(8), of length] by simp
    have set: "set (cq t) \<union> set (nq t) \<subseteq> set (cq m) \<union> set (nq m)" using arg_cong[OF t(8), of set] by auto
    have l: "length (cq t) + length (nq t) \<le> length hss'" "length (cq t) + length (nq t) < fuel"
      using len t(6,9) Suc.prems(7,8) length_greater_0_conv[of ch] by linarith+
    have sh: "short_lines (uploaderMaxSize t) (cq t)" "short_lines (uploaderMaxSize t) (nq t)"
      using set Suc.prems(4,5) t(2) by auto
    have st: "True \<notin> set (stoppingAnswers t)" using ts t(4) by simp
    have "drained u m t'" if d: "drained u t t'" for t'
    proof -
      obtain chunks where "accepted (httpClient t') = accepted (httpClient t) @ map (payload u) chunks" "concat chunks = cq t @ nq t"
        using d by blast
      then have "accepted (httpClient t') = accepted (httpClient m) @ map (payload u) (ch # chunks)" "concat (ch # chunks) = cq m @ nq m"
        using t(7,8) by simp_all
      then show ?thesis using d t(3) by metis
    qed
    then show ?thesis by (intro wp_mono[OF Suc.IH[OF t(1) st Suc.prems(3) sh t(5) l]])
  qed
  show ?case
  proof (cases "cq m = [] \<and> nq m = []")
    case True
    then show ?thesis using Suc.prems(1) by (simp add: round_wp[OF _ ns] Let_def)
  next
    case False
    then obtain hs hss' where hss: "hss = hs # hss'" using Suc.prems(7) by (cases hss) auto
    obtain f where f: "fuel = Suc f" using False Suc.prems(8) by (cases fuel) auto
    have ok: "responses (httpClient ?m) = HttpResponse 200 hs # (map (HttpResponse 200) hss' @ rest)" using Suc.prems(6) hss by simp
    show ?thesis
    proof (cases "cq m = []")
      case c: True
      with False have ne: "nq ?m \<noteq> []" by simp
      have "wp (on_norm (sendBatch (Suc f) u N (uploaderMaxEvents ?m) (uploaderMaxSize ?m)))
          (\<lambda>st. wp (after_upload (upload_loop fuel (ret ()) u C N) backoff st) (\<lambda>_ t. drained u m t) never) never ?m"
      proof (rule wp_mono[OF norm_step[OF s ne Suc.prems(3) _ ok]], goal_cases)
        case (2 st t)
        then obtain n where "0 < n" "n \<le> length (nq m)" "nq t = drop n (nq m)"
          "accepted (httpClient t) = accepted (httpClient m) @ [payload u (take n (nq m))]" by auto
        moreover have "st = Success" "sound t" "cq t = cq m" "uploaderMaxSize t = uploaderMaxSize m" "taskCalls t = taskCalls m"
          "stoppingAnswers t = stoppingAnswers ?m" "responses (httpClient t) = map (HttpResponse 200) hss' @ rest"
          using 2 by simp_all
        ultimately show ?case using hss again[of t hss' "take n (nq m)" baseBackoffTime] c ne by (simp add: after_upload_def)
      qed (use Suc.prems(5) in simp_all)
      then show ?thesis using Suc.prems(1) c ne by (simp add: f round_wp[OF _ ns] Let_def)
    next
      case c: False
      then have ne: "cq ?m \<noteq> []" by simp
      have "wp (on_crit (sendBatch (Suc f) u C (uploaderMaxEvents ?m) (uploaderMaxSize ?m)))
          (\<lambda>st. wp (after_upload (upload_loop fuel (ret ()) u C N) backoff st) (\<lambda>_ t. drained u m t) never) never ?m"
      proof (rule wp_mono[OF crit_step[OF s ne Suc.prems(3) _ ok]], goal_cases)
        case (2 st t)
        then obtain n where "0 < n" "n \<le> length (cq m)" "cq t = drop n (cq m)"
          "accepted (httpClient t) = accepted (httpClient m) @ [payload u (take n (cq m))]" by auto
        moreover have "st = Success" "sound t" "nq t = nq m" "uploaderMaxSize t = uploaderMaxSize m" "taskCalls t = taskCalls m"
          "stoppingAnswers t = stoppingAnswers ?m" "responses (httpClient t) = map (HttpResponse 200) hss' @ rest"
          using 2 by simp_all
        ultimately show ?case using hss again[of t hss' "take n (cq m)" baseBackoffTime] ne by (simp add: after_upload_def)
      qed (use Suc.prems(4) in simp_all)
      then show ?thesis using Suc.prems(1) c ne by (simp add: f round_wp[OF _ ns] Let_def)
    qed
  qed
qed simp

end


interpretation telemetry: upload_manager "multi_ops dump" multi_inv multi_queue multi_issued "multi_fits dump" multi_room "event_line dump"
    "buffered_ops (multi_ops dump) dump" "buf_inv multi_inv (multi_fits dump)" "buf_queue multi_queue dump"
    "buf_issued multi_issued multi_queue dump" "buf_fits (multi_fits dump)" "buf_room multi_room" "event_line dump"
  by unfold_locales


section \<open>Properties\<close>

text \<open>
  C9: with a server that accepts what it is sent, the main upload task ends, with both stored
  queues empty and without a pause. The accepted bodies are those of consecutive chunks, first of
  all the critical events, then of all the normal ones, files before memory. One round of fuel
  for each event, and one to see that nothing is left, is enough.
\<close>
theorem upload_tasks_drain:
  assumes "multi_inv (criticalStorageBatch m)" "buf_inv multi_inv (multi_fits dump) (normalStorageBatch m)"
    "0 < uploaderMaxEvents m" "0 < uploaderMaxSize m" "True \<notin> set (stoppingAnswers m)" "\<And>x. compress u x \<noteq> None"
    "\<forall>l \<in> set (multi_queue (criticalStorageBatch m)). length l \<le> min (uploaderMaxSize m) max_chunk"
    "\<forall>l \<in> set (buf_queue multi_queue dump (normalStorageBatch m)). length l \<le> min (uploaderMaxSize m) max_chunk"
    "responses (httpClient m) = map (HttpResponse 200) hss @ rest"
    "length (multi_queue (criticalStorageBatch m)) + length (buf_queue multi_queue dump (normalStorageBatch m)) \<le> length hss"
    "length (multi_queue (criticalStorageBatch m)) + length (buf_queue multi_queue dump (normalStorageBatch m)) < fuel"
  shows "\<exists>t chunks. uploadTasks fuel (ret ()) u (multi_ops dump) (normal_ops dump) m = (Inr (), t) \<and>
    multi_queue (criticalStorageBatch t) = [] \<and> buf_queue multi_queue dump (normalStorageBatch t) = [] \<and> taskCalls t = taskCalls m \<and>
    accepted (httpClient t) = accepted (httpClient m) @ map (payload u) chunks \<and>
    concat chunks = multi_queue (criticalStorageBatch m) @ buf_queue multi_queue dump (normalStorageBatch m)"
proof -
  have s: "multi_inv (criticalStorageBatch m) \<and> buf_inv multi_inv (multi_fits dump) (normalStorageBatch m) \<and>
    0 < uploaderMaxEvents m \<and> 0 < uploaderMaxSize m" using assms(1-4) by blast
  from wp_returns[OF telemetry.upload_drains[where backoff = baseBackoffTime, OF s assms(5-11)]]
  show ?thesis by (auto simp: uploadTasks_def seqp_def andthen_def ret_def)
qed

definition sample_manager :: "(multi_state, (multi_state, bytes) buffered, bytes) event_manager" where
  "sample_manager = \<lparr> criticalStorageBatch = sample_multi 100 [[99, 13, 10]], normalStorageBatch = sample_buffered 2 [[97], [98]],
     realtimeMemoryBatch = \<lparr> items = [], limit = 2 \<rparr>,
     httpClient = \<lparr> responses = [HttpResponse 200 [], HttpResponse 200 [], HttpResponse 200 []], auth_answers = [], exchanges = [] \<rparr>,
     uploaderMaxEvents = 2, uploaderMaxSize = 50, stoppingAnswers = [False], taskCalls = [] \<rparr>"

theorem upload_tasks_drain_witness:
  "\<exists>t chunks. uploadTasks 4 (ret ()) sample_uploader (multi_ops id) (normal_ops id) sample_manager = (Inr (), t) \<and>
    multi_queue (criticalStorageBatch t) = [] \<and> buf_queue multi_queue id (normalStorageBatch t) = [] \<and> taskCalls t = [] \<and>
    accepted (httpClient t) = map (payload sample_uploader) chunks \<and> concat chunks = [[99, 13, 10], [97, 13, 10], [98, 13, 10]]"
proof -
  have ls: "\<forall>l \<in> set [[99, 13, 10]]. is_line (l :: bytes)" by (simp add: is_line_def)
  have "(0 :: nat) < 2" "\<forall>e \<in> set [[97], [98]]. 10 \<notin> set e \<and> length (e :: bytes) < 90" by simp_all
  note b = sample_buffered[OF this]
  have m: "mem (sample_buffered 2 [[97], [98]]) = \<lparr> items = [[97], [98]], limit = 2 \<rparr>" by (simp add: sample_buffered_def)
  have q: "multi_queue (criticalStorageBatch sample_manager) = [[99, 13, 10]]"
    "buf_queue multi_queue id (normalStorageBatch sample_manager) = [[97, 13, 10], [98, 13, 10]]"
    using sample_multi(2)[OF ls] b(4) m by (simp_all add: sample_manager_def buf_queue_def mem_queue_def event_line_def)
  have inv: "multi_inv (criticalStorageBatch sample_manager)" "buf_inv multi_inv (multi_fits id) (normalStorageBatch sample_manager)"
    using sample_multi(1)[OF ls] b(1) by (simp_all add: sample_manager_def)
  have mc: "3 \<le> max_chunk" by (simp add: max_chunk_def)
  have r: "responses (httpClient sample_manager) = map (HttpResponse 200) [[], [], []] @ []" by (simp add: sample_manager_def)
  have rest: "0 < uploaderMaxEvents sample_manager" "0 < uploaderMaxSize sample_manager" "True \<notin> set (stoppingAnswers sample_manager)"
    "\<And>x. compress sample_uploader x \<noteq> None" "accepted (httpClient sample_manager) = []" "taskCalls sample_manager = []"
    "uploaderMaxSize sample_manager = 50"
    by (simp_all add: sample_manager_def sample_uploader_def accepted_def)
  from upload_tasks_drain[OF inv rest(1-4) _ _ r, of 4] show ?thesis
    using mc by (simp add: q rest(5-7))
qed

end
