(* ===== verification/Configuration.thy ===== *)
theory Configuration
  imports Event_Manager "HOL-Library.Countable"
begin

text \<open>
  The telemetry settings: \<^verbatim>\<open>configuration.cpp\<close>, \<^verbatim>\<open>configuration_manager.h\<close> and
  \<^verbatim>\<open>file_configuration_cache.cpp\<close> of \<^verbatim>\<open>cll-telemetry\<close>, and what the event manager does when they change.
  The JSON library is an argument: a record of the functions the code calls, with the
  documented laws the theorems need as the predicate \<open>json_ok\<close>. The server, the clock and the
  opening of the cache file answer from lists. Times are counted in nanoseconds, as the
  system clock does, and leave the program when they leave 64 bits.
\<close>

section \<open>The JSON library\<close>

record 'j json_lib =
  j_null :: 'j
  j_object :: 'j
  j_is_object :: "'j \<Rightarrow> bool"
  j_find :: "'j \<Rightarrow> string \<Rightarrow> 'j option" \<comment> \<open>\<open>find\<close>; \<open>None\<close> is \<open>end()\<close>\<close>
  j_at :: "'j \<Rightarrow> string \<Rightarrow> 'j option" \<comment> \<open>reading through \<open>operator[]\<close>; \<open>None\<close>: the call throws\<close>
  j_put :: "'j \<Rightarrow> string \<Rightarrow> 'j \<Rightarrow> 'j option" \<comment> \<open>assigning through \<open>operator[]\<close>; \<open>None\<close>: the call throws\<close>
  j_num :: "'j \<Rightarrow> int option" \<comment> \<open>\<open>get<int>\<close> of a number; \<open>None\<close>: not a number\<close>
  j_long :: "'j \<Rightarrow> int option" \<comment> \<open>\<open>get<long long>\<close>\<close>
  j_str :: "'j \<Rightarrow> string option" \<comment> \<open>\<open>get<std::string>\<close>\<close>
  j_of_long :: "int \<Rightarrow> 'j"
  j_of_str :: "string \<Rightarrow> 'j"
  j_parse :: "string \<Rightarrow> 'j option"
  j_read :: "string \<Rightarrow> 'j \<Rightarrow> 'j" \<comment> \<open>the variable after \<open>stream >> variable\<close>, also when that throws\<close>
  j_dump :: "'j \<Rightarrow> string"

definition in64 :: "int \<Rightarrow> bool" where
  "in64 x \<longleftrightarrow> - (2 ^ 63) \<le> x \<and> x < 2 ^ 63"

text \<open>The laws: an object keeps what is put, an absent key reads as null, null becomes an object, printing is read back.\<close>

definition put_ok :: "'j json_lib \<Rightarrow> 'j \<Rightarrow> bool" where
  "put_ok J j \<longleftrightarrow> (\<forall>k v. case j_put J j k v of None \<Rightarrow> False
     | Some j' \<Rightarrow> j_is_object J j' \<and> (\<forall>k'. j_find J j' k' = (if k' = k then Some v else j_find J j k')))"

definition json_ok :: "'j json_lib \<Rightarrow> bool" where
  "json_ok J \<longleftrightarrow> j_is_object J (j_object J) \<and> (\<forall>k. j_find J (j_object J) k = None) \<and> (\<forall>k. j_find J (j_null J) k = None) \<and>
     put_ok J (j_null J) \<and> (\<forall>j. j_is_object J j \<longrightarrow> put_ok J j) \<and>
     (\<forall>j k. j_is_object J j \<longrightarrow> j_at J j k = (case j_find J j k of None \<Rightarrow> Some (j_null J) | v \<Rightarrow> v)) \<and>
     j_num J (j_null J) = None \<and> j_str J (j_null J) = None \<and>
     (\<forall>n. in64 n \<longrightarrow> j_long J (j_of_long J n) = Some n) \<and> (\<forall>s. j_str J (j_of_str J s) = Some s) \<and>
     (\<forall>j v. j_read J (j_dump J j) v = j)"

section \<open>State\<close>

datatype config_error = JsonTypeError | StoiError number_error | TimeOverflow | AttemptOverflow | NullCache | Uninitialised

text \<open>\<open>Threw\<close>: sending failed, and \<open>response.status\<close> has the indeterminate value given.\<close>

datatype fetched = Fetched int headers string | Threw int

record config_property =
  p_value :: int
  valueSet :: bool

record configuration =
  downloadMinRetryTime :: int
  downloadAttempt :: int
  config_url :: string
  downloaded :: bool
  expires :: int
  maxEventSizeInBytes :: config_property
  maxEventsPerPost :: config_property
  queueDrainInterval :: config_property

record 'j cached_configuration =
  c_expires :: int
  c_refreshInterval :: int \<comment> \<open>seconds\<close>
  c_etag :: string
  c_data :: 'j

record 'j config_world =
  clock_now :: int
  clock_ticks :: "int list"
  answers :: "fetched list"
  requests :: "(string \<times> string option) list" \<comment> \<open>address and \<open>If-None-Match\<close>\<close>
  cache :: "'j option" \<comment> \<open>the data of the cache object; \<open>None\<close>: no cache\<close>
  cache_file :: "string option"
  cache_opens :: "bool list"

type_synonym ('j, 'a) config_prog = "('j config_world, config_error, 'a) prog"
type_synonym ('j, 'a) conf_prog = "(configuration \<times> 'j config_world, config_error, 'a) prog"

definition system_now :: "('j, int) config_prog" where
  "system_now = (\<lambda>w. (Inr (clock_now w), w\<lparr>clock_now := clock_now w + (case clock_ticks w of [] \<Rightarrow> 0 | t # _ \<Rightarrow> t), clock_ticks := tl (clock_ticks w)\<rparr>))"

definition in_world :: "('j, 'a) config_prog \<Rightarrow> ('j, 'a) conf_prog" where
  "in_world f = (\<lambda>(c, w). case f w of (r, w) \<Rightarrow> (r, c, w))"

definition set_conf :: "(configuration \<Rightarrow> configuration) \<Rightarrow> ('j, unit) conf_prog" where
  "set_conf f = modp (\<lambda>(c, w). (f c, w))"

definition get_conf :: "(configuration \<Rightarrow> 'a) \<Rightarrow> ('j, 'a) conf_prog" where
  "get_conf f = getp (\<lambda>(c, w). f c)"

text \<open>A point of time plus seconds.\<close>

definition time_plus :: "int \<Rightarrow> int \<Rightarrow> ('s, config_error, int) prog" where
  "time_plus t secs = (if in64 (secs * 10 ^ 9) \<and> in64 (t + secs * 10 ^ 9) then ret (t + secs * 10 ^ 9) else stop TimeOverflow)"

section \<open>The cache file\<close>

definition cache_load :: "'j json_lib \<Rightarrow> ('j, unit) config_prog" where
  "cache_load J = modp (\<lambda>w. case cache_file w of None \<Rightarrow> w | Some s \<Rightarrow> w\<lparr>cache := map_option (j_read J s) (cache w)\<rparr>)"

definition FileConfigurationCache :: "'j json_lib \<Rightarrow> ('j, unit) config_prog" where
  "FileConfigurationCache J = seqp (modp (\<lambda>w. w\<lparr>cache := Some (j_object J)\<rparr>)) (cache_load J)"

definition cache_store :: "'j json_lib \<Rightarrow> ('j, unit) config_prog" where
  "cache_store J = modp (\<lambda>w. let ok = (cache_opens w = [] \<or> hd (cache_opens w)); w = w\<lparr>cache_opens := tl (cache_opens w)\<rparr> in
     if ok then w\<lparr>cache_file := map_option (j_dump J) (cache w)\<rparr> else w)"

definition thrown :: "'a option \<Rightarrow> ('s, config_error, 'a) prog" where
  "thrown x = (case x of None \<Rightarrow> stop JsonTypeError | Some v \<Rightarrow> ret v)"

definition value_or :: "'j json_lib \<Rightarrow> ('j \<Rightarrow> 'a option) \<Rightarrow> 'j \<Rightarrow> string \<Rightarrow> 'a \<Rightarrow> ('s, config_error, 'a) prog" where
  "value_or J get en key def = (if \<not> j_is_object J en then stop JsonTypeError else
     case j_find J en key of None \<Rightarrow> ret def | Some v \<Rightarrow> thrown (get v))"

definition readFromCache :: "'j json_lib \<Rightarrow> string \<Rightarrow> ('j, 'j cached_configuration option) config_prog" where
  "readFromCache J addr = andthen (getp cache) (\<lambda>data. case data of None \<Rightarrow> stop NullCache | Some data \<Rightarrow>
     (case j_find J data addr of None \<Rightarrow> ret None | Some en \<Rightarrow>
       andthen (value_or J (j_long J) en ''refreshInterval'' 0) (\<lambda>r.
       andthen (value_or J (j_long J) en ''expires'' 0) (\<lambda>ms.
       if \<not> in64 (ms * 10 ^ 6) then stop TimeOverflow else
       andthen (value_or J (j_str J) en ''etag'' []) (\<lambda>tag.
       andthen (value_or J Some en ''data'' (j_object J)) (\<lambda>d.
       ret (Some \<lparr> c_expires = ms * 10 ^ 6, c_refreshInterval = r, c_etag = tag, c_data = d \<rparr>)))))))"

text \<open>\<open>en[key] = v\<close> for the entry of an address.\<close>

definition put_entry :: "'j json_lib \<Rightarrow> string \<Rightarrow> string \<Rightarrow> 'j \<Rightarrow> ('j, unit) config_prog" where
  "put_entry J addr key v = andthen (getp cache) (\<lambda>data. case data of None \<Rightarrow> stop NullCache | Some data \<Rightarrow>
     andthen (thrown (j_at J data addr)) (\<lambda>en. andthen (thrown (j_put J en key v)) (\<lambda>en.
     andthen (thrown (j_put J data addr en)) (\<lambda>data. modp (\<lambda>w. w\<lparr>cache := Some data\<rparr>)))))"

definition writeConfigToCache :: "'j json_lib \<Rightarrow> string \<Rightarrow> 'j cached_configuration \<Rightarrow> ('j, unit) config_prog" where
  "writeConfigToCache J addr c = seqs
     [put_entry J addr ''expires'' (j_of_long J (c_expires c sdiv 10 ^ 6)),
      put_entry J addr ''refreshInterval'' (j_of_long J (c_refreshInterval c)),
      put_entry J addr ''etag'' (j_of_str J (c_etag c)), put_entry J addr ''data'' (c_data c), cache_store J]"

section \<open>One configuration\<close>

definition asInt :: "'j json_lib \<Rightarrow> 'j \<Rightarrow> ('s, config_error, int) prog" where
  "asInt J v = (case j_num J v of Some n \<Rightarrow> ret n | None \<Rightarrow>
     (case j_str J v of None \<Rightarrow> stop JsonTypeError | Some s \<Rightarrow> (case stoi s of Inl e \<Rightarrow> stop (StoiError e) | Inr n \<Rightarrow> ret n)))"

definition prop_reset :: config_property where
  "prop_reset = \<lparr> p_value = 0, valueSet = False \<rparr>"

definition prop_from_json :: "'j json_lib \<Rightarrow> 'j \<Rightarrow> string \<Rightarrow> ('s, config_error, config_property) prog" where
  "prop_from_json J j name = (case j_find J j name of None \<Rightarrow> ret prop_reset
     | Some f \<Rightarrow> andthen (asInt J f) (\<lambda>n. ret \<lparr> p_value = n, valueSet = True \<rparr>))"

definition applyFromJson :: "'j json_lib \<Rightarrow> 'j \<Rightarrow> ('j, unit) conf_prog" where
  "applyFromJson J j = seqs
     [andthen (prop_from_json J j ''MAXEVENTSIZEINBYTES'') (\<lambda>p. set_conf (\<lambda>c. c\<lparr>maxEventSizeInBytes := p\<rparr>)),
      andthen (prop_from_json J j ''MAXEVENTSPERPOST'') (\<lambda>p. set_conf (\<lambda>c. c\<lparr>maxEventsPerPost := p\<rparr>)),
      andthen (prop_from_json J j ''QUEUEDRAININTERVAL'') (\<lambda>p. set_conf (\<lambda>c. c\<lparr>queueDrainInterval := p\<rparr>))]"

definition importCached :: "'j json_lib \<Rightarrow> 'j cached_configuration \<Rightarrow> ('j, unit) conf_prog" where
  "importCached J e = seqp (set_conf (\<lambda>c. c\<lparr>expires := c_expires e, downloaded := True\<rparr>)) (applyFromJson J (c_data e))"

definition loadFromCache :: "'j json_lib \<Rightarrow> ('j, bool) conf_prog" where
  "loadFromCache J = andthen (get_conf config_url) (\<lambda>addr. andthen (in_world (readFromCache J addr)) (\<lambda>e.
     case e of None \<Rightarrow> ret False | Some e \<Rightarrow> seqp (importCached J e) (ret True)))"

definition needsRedownload :: "('j, bool) conf_prog" where
  "needsRedownload = andthen (get_conf downloaded) (\<lambda>d. if \<not> d then ret True else
     andthen (in_world system_now) (\<lambda>t. get_conf (\<lambda>c. t \<ge> expires c)))"

definition safeParseJson :: "'j json_lib \<Rightarrow> string \<Rightarrow> 'j" where
  "safeParseJson J s = (case j_parse J s of None \<Rightarrow> j_object J | Some j \<Rightarrow> j)"

definition send_request :: "string \<Rightarrow> string option \<Rightarrow> ('j, fetched) config_prog" where
  "send_request addr match = (\<lambda>w. (Inr (case answers w of [] \<Rightarrow> Threw 0 | a # _ \<Rightarrow> a),
     w\<lparr>answers := tl (answers w), requests := requests w @ [(addr, match)]\<rparr>))"

definition write_back :: "'j json_lib \<Rightarrow> 'j cached_configuration \<Rightarrow> ('j, unit) conf_prog" where
  "write_back J e = andthen (get_conf config_url) (\<lambda>addr. andthen (in_world (getp cache)) (\<lambda>k.
     whenp (k \<noteq> None) (in_world (writeConfigToCache J addr e))))"

text \<open>A new configuration was received.\<close>

definition on_ok :: "'j json_lib \<Rightarrow> int \<Rightarrow> headers \<Rightarrow> string \<Rightarrow> ('j, bool) conf_prog" where
  "on_ok J requestStart hs body = (let val = safeParseJson J body in
     andthen (thrown (j_at J val ''settings'')) (\<lambda>settings.
     andthen (thrown (j_at J val ''refreshInterval'')) (\<lambda>r. andthen (asInt J r) (\<lambda>minutes.
     andthen (time_plus requestStart (minutes * 60)) (\<lambda>until.
     let e = \<lparr> c_expires = until, c_refreshInterval = minutes * 60, c_etag = findHeader ''ETag'' hs, c_data = settings \<rparr> in
     seqp (applyFromJson J settings) (seqp (set_conf (\<lambda>c. c\<lparr>expires := until, downloaded := True\<rparr>)) (seqp (write_back J e)
       (seqp (set_conf (\<lambda>c. c\<lparr>downloadAttempt := 0\<rparr>)) (ret True)))))))))"

text \<open>The server says that the cached configuration is still right.\<close>

definition on_not_modified :: "'j json_lib \<Rightarrow> int \<Rightarrow> 'j cached_configuration option \<Rightarrow> ('j, bool) conf_prog" where
  "on_not_modified J requestStart cached = (case cached of None \<Rightarrow> stop Uninitialised | Some e \<Rightarrow>
     andthen (time_plus requestStart (c_refreshInterval e)) (\<lambda>until.
     let e = e\<lparr>c_expires := until\<rparr> in seqp (importCached J e) (seqp (write_back J e) (ret True))))"

definition on_failure :: "int \<Rightarrow> ('j, bool) conf_prog" where
  "on_failure requestStart = andthen (get_conf downloadAttempt) (\<lambda>a.
     if a + 2 \<ge> 2 ^ 31 then stop AttemptOverflow else
     andthen (time_plus requestStart (2 ^ nat (min (a + 2) 8))) (\<lambda>t.
     seqp (set_conf (\<lambda>c. c\<lparr>downloadAttempt := a + 1, downloadMinRetryTime := t\<rparr>)) (ret False)))"

definition fetch :: "'j json_lib \<Rightarrow> int \<Rightarrow> 'j cached_configuration option \<Rightarrow> ('j, bool) conf_prog" where
  "fetch J requestStart cached = andthen (get_conf config_url) (\<lambda>addr.
     andthen (in_world (send_request addr (map_option (\<lambda>e. CHR 0x22 # c_etag e @ [CHR 0x22]) cached))) (\<lambda>response.
     let (status, hs, body) = (case response of Fetched s hs b \<Rightarrow> (s, hs, b) | Threw s \<Rightarrow> (s, [], [])) in
     if status = 200 then on_ok J requestStart hs body
     else if status = 304 then on_not_modified J requestStart cached
     else on_failure requestStart))"

definition download :: "'j json_lib \<Rightarrow> ('j, bool) conf_prog" where
  "download J = andthen (in_world system_now) (\<lambda>requestStart. andthen (get_conf downloadMinRetryTime) (\<lambda>m.
     if requestStart < m then ret False else
     andthen (get_conf config_url) (\<lambda>addr. andthen (in_world (getp cache)) (\<lambda>k.
     andthen (if k = None then ret None else in_world (readFromCache J addr)) (\<lambda>cached.
     case cached of None \<Rightarrow> fetch J requestStart None
     | Some e \<Rightarrow> andthen (in_world system_now) (\<lambda>t. if t < c_expires e then
          seqp (importCached J e) (seqp (set_conf (\<lambda>c. c\<lparr>downloadAttempt := 0\<rparr>)) (ret True))
        else fetch J requestStart (Some e)))))))"

section \<open>All configurations\<close>

fun get_property :: "(configuration \<Rightarrow> config_property) \<Rightarrow> int \<Rightarrow> configuration list \<Rightarrow> int" where
  "get_property sel def [] = def"
| "get_property sel def (c # cs) = (if valueSet (sel c) then p_value (sel c) else get_property sel def cs)"

definition getMaxEventSizeInBytes :: "configuration list \<Rightarrow> int" where
  "getMaxEventSizeInBytes = get_property maxEventSizeInBytes 6400"

definition getMaxEventsPerPost :: "configuration list \<Rightarrow> int" where
  "getMaxEventsPerPost = get_property maxEventsPerPost 500"

definition getQueueDrainInterval :: "configuration list \<Rightarrow> int" where
  "getQueueDrainInterval = get_property queueDrainInterval 120"

definition new_configuration :: "string \<Rightarrow> configuration" where
  "new_configuration u = \<lparr> downloadMinRetryTime = 0, downloadAttempt = 0, config_url = u, downloaded = False, expires = 0,
     maxEventSizeInBytes = prop_reset, maxEventsPerPost = prop_reset, queueDrainInterval = prop_reset \<rparr>"

definition addDefaultConfigurations :: "string \<Rightarrow> configuration list \<Rightarrow> configuration list" where
  "addDefaultConfigurations iKey cs = cs @ [new_configuration ''https://settings.data.microsoft.com/settings/v2.0/androidLL/app'',
     new_configuration (''https://settings.data.microsoft.com/settings/v2.0/telemetry/'' @ iKey)]"

definition hasDownloadedConfigs :: "configuration list \<Rightarrow> bool" where
  "hasDownloadedConfigs cs = list_all downloaded cs"

type_synonym ('j, 'a) configs = "(configuration list \<times> 'j config_world, config_error, 'a) prog"

text \<open>An operation on each configuration in turn; the number of those that returned true.\<close>

definition at_config :: "nat \<Rightarrow> ('j, 'a) conf_prog \<Rightarrow> ('j, 'a) configs" where
  "at_config i f = (\<lambda>(cs, w). case f (cs ! i, w) of (r, c, w) \<Rightarrow> (r, cs[i := c], w))"

fun for_configs :: "('j, bool) conf_prog \<Rightarrow> nat list \<Rightarrow> ('j, bool) configs" where
  "for_configs f [] = ret False"
| "for_configs f (i # is) = andthen (at_config i f) (\<lambda>b. andthen (for_configs f is) (\<lambda>r. ret (b \<or> r)))"

definition loadCachedConfigs :: "'j json_lib \<Rightarrow> ('j, unit) configs" where
  "loadCachedConfigs J = andthen (getp (\<lambda>(cs, w). length cs)) (\<lambda>n. seqp (for_configs (loadFromCache J) [0..<n]) (ret ()))"

text \<open>Whether anything was downloaded; the update callbacks are called exactly then.\<close>

definition downloadConfigs :: "'j json_lib \<Rightarrow> ('j, bool) configs" where
  "downloadConfigs J = andthen (getp (\<lambda>(cs, w). length cs)) (\<lambda>n.
     for_configs (andthen needsRedownload (\<lambda>needed. if needed then download J else ret False)) [0..<n])"

section \<open>The event manager's part\<close>

definition size_t_of :: "int \<Rightarrow> nat" where
  "size_t_of n = nat (n mod 2 ^ 64)"

definition onConfigurationUpdated :: "configuration list \<Rightarrow> (multi_state, (multi_state, 'e) buffered, 'e, unit) manager" where
  "onConfigurationUpdated cs = (let n = size_t_of (getMaxEventsPerPost cs); z = size_t_of (getMaxEventSizeInBytes cs) in seqs
     [on_norm (on_batch (on_wrapped (setFileLimits n z))), on_crit (on_batch (setFileLimits n z)),
      modp (\<lambda>m. m\<lparr>uploaderMaxSize := z\<rparr>), modp (\<lambda>m. m\<lparr>uploaderMaxEvents := n\<rparr>)])"

definition updateConfigIfNeeded :: "'j json_lib \<Rightarrow>
    ((multi_state, (multi_state, 'e) buffered, 'e) event_manager \<times> configuration list \<times> 'j config_world, config_error + batch_error, unit) prog" where
  "updateConfigIfNeeded J = (\<lambda>(m, s). case downloadConfigs J s of
       (Inl e, s) \<Rightarrow> (Inl (Inl e), m, s)
     | (Inr changed, cs, w) \<Rightarrow> (case whenp changed (onConfigurationUpdated cs) m of (r, m) \<Rightarrow> (map_sum Inr id r, m, cs, w)))"

text \<open>
  The constructor: the cached settings are loaded, both queues are opened with the limits they
  give, and new settings are asked for. The queues of one directory have different file names, so each has its own disk.
\<close>

definition open_queues :: "configuration list \<Rightarrow> (string \<Rightarrow> (string \<times> bool) list option) \<Rightarrow> string \<Rightarrow> disk \<Rightarrow> disk \<Rightarrow> http \<Rightarrow>
    batch_error + (multi_state, (multi_state, 'e) buffered, 'e) event_manager" where
  "open_queues cs readdir dir dn dc h = (let n = size_t_of (getMaxEventsPerPost cs); z = size_t_of (getMaxEventSizeInBytes cs) in
     case MultiFileEventBatch readdir dir ''normal'' ''.txt'' n z dn of (Inl e, _) \<Rightarrow> Inl e | (Inr mn, dn) \<Rightarrow>
     (case MultiFileEventBatch readdir dir ''crit'' ''.txt'' n z dc of (Inl e, _) \<Rightarrow> Inl e | (Inr mc, dc) \<Rightarrow>
       Inr \<lparr> criticalStorageBatch = (mc, dc), normalStorageBatch = \<lparr> wrapped = (mn, dn), mem = \<lparr> items = [], limit = 50 \<rparr> \<rparr>,
         realtimeMemoryBatch = \<lparr> items = [], limit = 50 \<rparr>, httpClient = h, uploaderMaxEvents = n, uploaderMaxSize = z,
         stoppingAnswers = [], taskCalls = [] \<rparr>))"

definition EventManager :: "'j json_lib \<Rightarrow> string \<Rightarrow> (string \<Rightarrow> (string \<times> bool) list option) \<Rightarrow> string \<Rightarrow> disk \<Rightarrow> disk \<Rightarrow> http \<Rightarrow> 'j config_world \<Rightarrow>
    (config_error + batch_error) + (multi_state, (multi_state, 'e) buffered, 'e) event_manager \<times> configuration list \<times> 'j config_world" where
  "EventManager J iKey readdir dir dn dc h w = (
     case seqp (\<lambda>(cs, w). case FileConfigurationCache J w of (r, w) \<Rightarrow> (r, cs, w)) (loadCachedConfigs J) (addDefaultConfigurations iKey [], w) of
       (Inl e, _) \<Rightarrow> Inl (Inl e)
     | (Inr _, cs, w) \<Rightarrow> (case open_queues cs readdir dir dn dc h of
         Inl e \<Rightarrow> Inl (Inr e)
       | Inr m \<Rightarrow> (case updateConfigIfNeeded J (m, cs, w) of (Inl e, _) \<Rightarrow> Inl e | (Inr _, s) \<Rightarrow> Inr s)))"

text \<open>The destructor; the buffered queue stores what is in memory when it is destroyed.\<close>

definition em_destroy :: "('e \<Rightarrow> bytes) \<Rightarrow> (multi_state, (multi_state, 'e) buffered, 'e, unit) manager" where
  "em_destroy dump = seqs [task TerminateMain, task TerminateRealtime, on_norm (on_batch (flush (multi_ops dump)))]"

section \<open>Rules\<close>

lemma wp_in_world [wp_simps]: "wp (in_world f) Q E = (\<lambda>(c, w). wp f (\<lambda>x w. Q x (c, w)) (\<lambda>e w. E e (c, w)) w)"
  by (auto simp: wp_def in_world_def fun_eq_iff split: prod.split sum.split)

lemma wp_get_conf [wp_simps]: "wp (get_conf f) Q E = (\<lambda>(c, w). Q (f c) (c, w))"
  by (auto simp: get_conf_def wp_simps fun_eq_iff)

lemma wp_set_conf [wp_simps]: "wp (set_conf f) Q E = (\<lambda>(c, w). Q () (f c, w))"
  by (auto simp: set_conf_def wp_simps fun_eq_iff)

lemma wp_system_now [wp_simps]: "wp system_now Q E = (\<lambda>w. Q (clock_now w)
    (w\<lparr>clock_now := clock_now w + (case clock_ticks w of [] \<Rightarrow> 0 | t # _ \<Rightarrow> t), clock_ticks := tl (clock_ticks w)\<rparr>))"
  by (simp add: wp_def system_now_def fun_eq_iff)

lemma wp_send_request [wp_simps]: "wp (send_request u match) Q E = (\<lambda>w. Q (case answers w of [] \<Rightarrow> Threw 0 | a # _ \<Rightarrow> a)
    (w\<lparr>answers := tl (answers w), requests := requests w @ [(u, match)]\<rparr>))"
  by (simp add: wp_def send_request_def fun_eq_iff)

lemma wp_thrown [wp_simps]: "wp (thrown x) Q E = (case x of None \<Rightarrow> E JsonTypeError | Some v \<Rightarrow> Q v)"
  by (cases x) (simp_all add: thrown_def wp_simps)

lemma wp_time_plus [wp_simps]: "wp (time_plus t n) Q E = (if in64 (n * 10 ^ 9) \<and> in64 (t + n * 10 ^ 9) then Q (t + n * 10 ^ 9) else E TimeOverflow)"
  by (simp add: time_plus_def wp_simps)

section \<open>The cache returns what it was given\<close>

text \<open>What the four fields of an entry hold.\<close>

definition entry_holds :: "'j json_lib \<Rightarrow> 'j \<Rightarrow> int \<Rightarrow> int \<Rightarrow> string \<Rightarrow> 'j \<Rightarrow> bool" where
  "entry_holds J en ms r tag d \<longleftrightarrow> j_is_object J en \<and> j_find J en ''expires'' = Some (j_of_long J ms) \<and>
     j_find J en ''refreshInterval'' = Some (j_of_long J r) \<and> j_find J en ''etag'' = Some (j_of_str J tag) \<and> j_find J en ''data'' = Some d"

lemma json_put:
  assumes "json_ok J" "j = j_null J \<or> j_is_object J j"
  obtains j' where "j_put J j k v = Some j'" "j_is_object J j'" "\<And>k'. j_find J j' k' = (if k' = k then Some v else j_find J j k')"
proof -
  have "put_ok J j" using assms by (auto simp: json_ok_def)
  then show thesis using that unfolding put_ok_def by (auto split: option.splits elim!: allE[of _ k] allE[of _ v])
qed

text \<open>One assignment to a field: the entry and the table of entries stay objects, only that field of that entry changes.\<close>

lemma put_entry_spec:
  assumes J: "json_ok J" and c: "cache w = Some data" "j_is_object J data" and en: "en = j_null J \<or> j_is_object J en"
    and at: "j_find J data u = Some en \<or> j_find J data u = None \<and> en = j_null J"
  shows "\<exists>en' data'. put_entry J u k v w = (Inr (), w\<lparr>cache := Some data'\<rparr>) \<and> j_is_object J data' \<and> j_is_object J en' \<and>
    (\<forall>u'. j_find J data' u' = (if u' = u then Some en' else j_find J data u')) \<and> (\<forall>k'. j_find J en' k' = (if k' = k then Some v else j_find J en k'))"
proof -
  have a: "j_at J data u = Some en" using J c(2) at by (auto simp: json_ok_def split: option.splits)
  obtain en' where en': "j_put J en k v = Some en'" "j_is_object J en'" "\<And>k'. j_find J en' k' = (if k' = k then Some v else j_find J en k')"
    using json_put[OF J en] by blast
  obtain data' where d': "j_put J data u en' = Some data'" "j_is_object J data'" "\<And>u'. j_find J data' u' = (if u' = u then Some en' else j_find J data u')"
    using json_put[OF J disjI2[OF c(2)]] by blast
  have "put_entry J u k v w = (Inr (), w\<lparr>cache := Some data'\<rparr>)" by (simp add: put_entry_def c a en' d' thrown_def prog_defs)
  then show ?thesis using d'(2,3) en'(2,3) by blast
qed

lemma put_entries_spec:
  assumes "json_ok J" "cache w = Some data" "j_is_object J data" "en = j_null J \<or> j_is_object J en"
    "j_find J data u = Some en \<or> j_find J data u = None \<and> en = j_null J"
  shows "\<exists>en' data'. seqs (map (\<lambda>(k, v). put_entry J u k v) kvs) w = (Inr (), w\<lparr>cache := Some data'\<rparr>) \<and>
    (kvs \<noteq> [] \<longrightarrow> j_is_object J en' \<and> j_find J data' u = Some en') \<and> (\<forall>u'. u' \<noteq> u \<longrightarrow> j_find J data' u' = j_find J data u') \<and>
    (\<forall>k. j_find J en' k = (case map_of (rev kvs) k of None \<Rightarrow> j_find J en k | v \<Rightarrow> v))"
  using assms
proof (induction kvs arbitrary: w data en)
  case Nil
  then show ?case by (intro exI[of _ en] exI[of _ data]) (simp add: ret_def)
next
  case (Cons kv kvs)
  obtain k v where kv: "kv = (k, v)" by (cases kv)
  from put_entry_spec[OF Cons.prems, of k v] obtain e1 d1 where
    1: "put_entry J u k v w = (Inr (), w\<lparr>cache := Some d1\<rparr>)" "j_is_object J d1" "j_is_object J e1"
      "\<forall>u'. j_find J d1 u' = (if u' = u then Some e1 else j_find J data u')" "\<forall>k'. j_find J e1 k' = (if k' = k then Some v else j_find J en k')"
    by (elim exE conjE)
  have "cache (w\<lparr>cache := Some d1\<rparr>) = Some d1" "j_find J d1 u = Some e1 \<or> j_find J d1 u = None \<and> e1 = j_null J" using 1(4) by simp_all
  from Cons.IH[OF Cons.prems(1) this(1) 1(2) disjI2[OF 1(3)] this(2)] obtain en' data' where
    2: "seqs (map (\<lambda>(k, v). put_entry J u k v) kvs) (w\<lparr>cache := Some d1\<rparr>) = (Inr (), w\<lparr>cache := Some d1, cache := Some data'\<rparr>)"
      "kvs \<noteq> [] \<longrightarrow> j_is_object J en' \<and> j_find J data' u = Some en'" "\<forall>u'. u' \<noteq> u \<longrightarrow> j_find J data' u' = j_find J d1 u'"
      "\<forall>k. j_find J en' k = (case map_of (rev kvs) k of None \<Rightarrow> j_find J e1 k | v \<Rightarrow> v)" by (elim exE conjE)
  have run: "seqs (map (\<lambda>(k, v). put_entry J u k v) (kv # kvs)) w = (Inr (), w\<lparr>cache := Some data'\<rparr>)"
    using 1(1) 2(1) by (simp add: kv seqp_def andthen_def)
  show ?case
  proof (cases "kvs = []")
    case True
    then have "data' = d1" using 2(1) by (auto simp: ret_def dest: arg_cong[where f = cache])
    then show ?thesis using run 1 True by (intro exI[of _ e1] exI[of _ data']) (simp add: kv)
  next
    case False
    have "\<forall>k'. j_find J en' k' = (case map_of (rev (kv # kvs)) k' of None \<Rightarrow> j_find J en k' | v \<Rightarrow> v)"
      using 2(4) 1(5) by (simp add: kv map_add_def split: option.split)
    then show ?thesis using run 2(2,3) 1(4) False by (intro exI[of _ en'] exI[of _ data']) simp
  qed
qed

definition entry_fields :: "'j json_lib \<Rightarrow> 'j cached_configuration \<Rightarrow> (string \<times> 'j) list" where
  "entry_fields J e = [(''expires'', j_of_long J (c_expires e sdiv 10 ^ 6)), (''refreshInterval'', j_of_long J (c_refreshInterval e)),
     (''etag'', j_of_str J (c_etag e)), (''data'', c_data e)]"

lemma write_fields: "writeConfigToCache J u e = seqp (seqs (map (\<lambda>(k, v). put_entry J u k v) (entry_fields J e))) (cache_store J)"
proof -
  have "seqs [cache_store J] = cache_store J"
    by (auto simp: seqp_def andthen_def ret_def fun_eq_iff split: prod.split sum.split)
  then show ?thesis
    using seqs_append[of "map (\<lambda>(k, v). put_entry J u k v) (entry_fields J e)" "[cache_store J]"]
    by (simp add: writeConfigToCache_def entry_fields_def)
qed

lemma write_spec:
  assumes J: "json_ok J" and c: "cache w = Some data" "j_is_object J data" and opn: "cache_opens w = [] \<or> hd (cache_opens w)"
    and old: "\<forall>en. j_find J data u = Some en \<longrightarrow> j_is_object J en"
  shows "\<exists>data' en w'. writeConfigToCache J u e w = (Inr (), w') \<and> cache w' = Some data' \<and> cache_file w' = Some (j_dump J data') \<and>
    j_find J data' u = Some en \<and> entry_holds J en (c_expires e sdiv 10 ^ 6) (c_refreshInterval e) (c_etag e) (c_data e) \<and>
    (\<forall>u'. u' \<noteq> u \<longrightarrow> j_find J data' u' = j_find J data u')"
proof -
  let ?en = "case j_find J data u of None \<Rightarrow> j_null J | Some en \<Rightarrow> en"
  have "?en = j_null J \<or> j_is_object J ?en" "j_find J data u = Some ?en \<or> j_find J data u = None \<and> ?en = j_null J"
    using old by (auto split: option.splits)
  from put_entries_spec[OF J c this, of "entry_fields J e"] obtain en data' where
    p: "seqs (map (\<lambda>(k, v). put_entry J u k v) (entry_fields J e)) w = (Inr (), w\<lparr>cache := Some data'\<rparr>)"
      "entry_fields J e \<noteq> [] \<longrightarrow> j_is_object J en \<and> j_find J data' u = Some en" "\<forall>u'. u' \<noteq> u \<longrightarrow> j_find J data' u' = j_find J data u'"
      "\<forall>k. j_find J en k = (case map_of (rev (entry_fields J e)) k of None \<Rightarrow> j_find J ?en k | v \<Rightarrow> v)" by blast
  have "entry_holds J en (c_expires e sdiv 10 ^ 6) (c_refreshInterval e) (c_etag e) (c_data e)"
    using p(2,4) by (simp add: entry_holds_def entry_fields_def)
  moreover have "writeConfigToCache J u e w = (Inr (), w\<lparr>cache := Some data', cache_opens := tl (cache_opens w), cache_file := Some (j_dump J data')\<rparr>)"
    using p(1) opn by (simp add: write_fields seqp_def andthen_def cache_store_def modp_def Let_def)
  ultimately show ?thesis using p(2,3) by (auto simp: entry_fields_def)
qed

lemma read_spec:
  assumes J: "json_ok J" and c: "cache w = Some data" "j_find J data u = Some en" and en: "entry_holds J en ms r tag d"
    and b: "in64 ms" "in64 r" "in64 (ms * 10 ^ 6)"
  shows "readFromCache J u w = (Inr (Some \<lparr> c_expires = ms * 10 ^ 6, c_refreshInterval = r, c_etag = tag, c_data = d \<rparr>), w)"
proof -
  have l: "j_long J (j_of_long J ms) = Some ms" "j_long J (j_of_long J r) = Some r" "j_str J (j_of_str J tag) = Some tag"
    using J b by (simp_all add: json_ok_def)
  show ?thesis using c en l b by (simp add: readFromCache_def value_or_def entry_holds_def thrown_def prog_defs)
qed

lemma trunc_millis:
  assumes "in64 t"
  shows "in64 (t sdiv 10 ^ 6)" "in64 (t sdiv 10 ^ 6 * 10 ^ 6)"
proof -
  have p: "0 \<le> a div 10 ^ 6 \<and> a div 10 ^ 6 * 10 ^ 6 \<le> a" if "0 \<le> a" for a :: int
    using that by (simp add: pos_imp_zdiv_nonneg_iff)
  have "in64 (t sdiv 10 ^ 6) \<and> in64 (t sdiv 10 ^ 6 * 10 ^ 6)"
    using assms p[of t] p[of "- t"] by (cases "0 \<le> t"; cases "t = 0") (auto simp: in64_def signed_divide_int_def sgn_if)
  then show "in64 (t sdiv 10 ^ 6)" "in64 (t sdiv 10 ^ 6 * 10 ^ 6)" by blast+
qed

section \<open>Limits of the queues\<close>

lemma setFileLimits_run: "setFileLimits n z (m, d) = (Inr (), m\<lparr>fileMaxSize := z, fileMaxEvents := n,
    oldestBatch := map_option (setLimit n z) (oldestBatch m), newestBatch := setLimit n z (newestBatch m)\<rparr>, d)"
  by (simp add: setFileLimits_def set_multi_def modp_def)

lemma setLimit_good [simp]: "file_good (setLimit n z b) c = file_good b c" "fb_path (setLimit n z b) = fb_path b"
  "finalized (setLimit n z b) = finalized b" "fb_maxCount (setLimit n z b) = n" "fb_maxSize (setLimit n z b) = z"
  by (simp_all add: setLimit_def file_good_def)

lemma getBatchFileName_update [simp]: "getBatchFileName (m\<lparr>fileMaxSize := z\<rparr>) i = getBatchFileName m i"
  "getBatchFileName (m\<lparr>fileMaxEvents := n\<rparr>) i = getBatchFileName m i" "getBatchFileName (m\<lparr>oldestBatch := b\<rparr>) i = getBatchFileName m i"
  "getBatchFileName (m\<lparr>newestBatch := b'\<rparr>) i = getBatchFileName m i"
  by (simp_all add: getBatchFileName_def)

lemma setFileLimits_spec:
  "\<exists>s'. setFileLimits n z s = (Inr (), s') \<and> (multi_inv s \<longrightarrow> multi_inv s') \<and> multi_queue s' = multi_queue s \<and>
    fileMaxSize (fst s') = z \<and> fileMaxEvents (fst s') = n \<and> (\<forall>e. multi_fits dump e s' \<longleftrightarrow> one_line dump e \<and> (z = 0 \<or> length (event_line dump e) \<le> z))"
proof -
  obtain m d where s: "s = (m, d)" by (cases s)
  let ?m = "m\<lparr>fileMaxSize := z, fileMaxEvents := n, oldestBatch := map_option (setLimit n z) (oldestBatch m), newestBatch := setLimit n z (newestBatch m)\<rparr>"
  have "newest_ok m d c \<Longrightarrow> newest_ok ?m d c" "old_ok ?m d i = old_ok m d i" "oldest_ok ?m d (setLimit n z b) c = oldest_ok m d b c" for c i b
    by (auto simp: newest_ok_def old_ok_def oldest_ok_def Let_def)
  then have "multi_inv (?m, d)" if "multi_inv s"
    using that by (cases "oldestBatch m") (auto simp: s multi_inv_def)
  moreover have "multi_queue (?m, d) = multi_queue s"
    by (simp add: s multi_queue_def oldest_lines_def split: option.split)
  ultimately show ?thesis by (intro exI[of _ "(?m, d)"]) (simp add: s setFileLimits_run multi_fits_def)
qed

text \<open>After the destructor everything that was queued or buffered is in the files.\<close>

lemma em_destroy_stores:
  assumes "buf_inv multi_inv (multi_fits dump) (normalStorageBatch m)" "buf_room multi_room 0 (normalStorageBatch m)"
  shows "\<exists>t. em_destroy dump m = (Inr (), t) \<and> multi_inv (wrapped (normalStorageBatch t)) \<and> items (mem (normalStorageBatch t)) = [] \<and>
    multi_queue (wrapped (normalStorageBatch t)) = buf_queue multi_queue dump (normalStorageBatch m)"
proof -
  from wp_returns[OF normal.flush_spec[OF assms]] obtain b where b: "flushInternal (multi_ops dump) (normalStorageBatch m) = (Inr (), b)"
      "buf_inv multi_inv (multi_fits dump) b" "buf_queue multi_queue dump b = buf_queue multi_queue dump (normalStorageBatch m)" "items (mem b) = []"
    by auto
  have "multi_queue (wrapped b) = buf_queue multi_queue dump (normalStorageBatch m)" using b(3,4) by (simp add: buf_queue_def mem_queue_def)
  then show ?thesis using b(1,2,4) by (auto simp: em_destroy_def task_def on_norm_def on_batch_def flush_def prog_defs buf_inv_def)
qed

section \<open>Properties\<close>

text \<open>
  C26: what is written to the configuration cache is read back, in the same run and after a restart
  that loads the cache file: the refresh interval, the tag and the settings as they were, the
  time of expiry cut to milliseconds. Entries of other addresses are not touched.
\<close>
theorem config_cache_roundtrip:
  assumes "json_ok J" "cache w = Some tbl" "j_is_object J tbl" "cache_opens w = [] \<or> hd (cache_opens w)"
    "\<forall>en. j_find J tbl u = Some en \<longrightarrow> j_is_object J en" "in64 (c_expires e)" "in64 (c_refreshInterval e)"
  shows "\<exists>w' tbl'. writeConfigToCache J u e w = (Inr (), w') \<and> cache w' = Some tbl' \<and> (\<forall>u'. u' \<noteq> u \<longrightarrow> j_find J tbl' u' = j_find J tbl u') \<and>
    readFromCache J u w' = (Inr (Some (e\<lparr>c_expires := c_expires e sdiv 10 ^ 6 * 10 ^ 6\<rparr>)), w') \<and>
    seqp (FileConfigurationCache J) (readFromCache J u) (w'\<lparr>cache := None\<rparr>) = (Inr (Some (e\<lparr>c_expires := c_expires e sdiv 10 ^ 6 * 10 ^ 6\<rparr>)), w')"
proof -
  from write_spec[where u = u and e = e, OF assms(1-5)] obtain tbl' en w' where
    w: "writeConfigToCache J u e w = (Inr (), w')" "cache w' = Some tbl'" "cache_file w' = Some (j_dump J tbl')" "j_find J tbl' u = Some en"
      "entry_holds J en (c_expires e sdiv 10 ^ 6) (c_refreshInterval e) (c_etag e) (c_data e)" "\<forall>u'. u' \<noteq> u \<longrightarrow> j_find J tbl' u' = j_find J tbl u'"
    by (elim exE conjE)
  have r: "readFromCache J u w' = (Inr (Some (e\<lparr>c_expires := c_expires e sdiv 10 ^ 6 * 10 ^ 6\<rparr>)), w')"
    using read_spec[OF assms(1) w(2,4,5) trunc_millis(1)[OF assms(6)] assms(7) trunc_millis(2)[OF assms(6)]] by (cases e) simp
  have "FileConfigurationCache J (w'\<lparr>cache := None\<rparr>) = (Inr (), w')"
    using assms(1) w(2,3) by (cases w') (simp add: FileConfigurationCache_def cache_load_def prog_defs json_ok_def)
  then have "seqp (FileConfigurationCache J) (readFromCache J u) (w'\<lparr>cache := None\<rparr>) = readFromCache J u w'" by (simp add: seqp_def andthen_def)
  then show ?thesis using w r by (intro exI[of _ w'] exI[of _ tbl']) simp
qed

text \<open>
  A failed download is not repeated at once. After the \<open>n\<close>-th failure in a row the next attempt
  is made \<open>2^(n+1)\<close> seconds after the start of the failed one at the earliest, never less than 4 and
  never more than 256 seconds, and attempts before that return without a request.
\<close>
theorem config_backoff:
  assumes "downloadMinRetryTime c \<le> clock_now w" "\<forall>tbl. cache w = Some tbl \<longrightarrow> j_find J tbl (config_url c) = None"
    "0 \<le> downloadAttempt c" "downloadAttempt c + 2 < 2 ^ 31" "in64 (clock_now w + 256 * 10 ^ 9)" "- (2 ^ 63) \<le> clock_now w"
    "answers w = (if threw then Threw st else Fetched st hs body) # rest" "st \<noteq> 200" "st \<noteq> 304"
  shows "\<exists>c' w'. download J (c, w) = (Inr False, c', w') \<and> requests w' = requests w @ [(config_url c, None)] \<and>
    downloadAttempt c' = downloadAttempt c + 1 \<and>
    downloadMinRetryTime c' = clock_now w + 2 ^ nat (min (downloadAttempt c' + 1) 8) * 10 ^ 9 \<and>
    clock_now w + 4 * 10 ^ 9 \<le> downloadMinRetryTime c' \<and> downloadMinRetryTime c' \<le> clock_now w + 256 * 10 ^ 9 \<and>
    (\<forall>v. clock_now v < downloadMinRetryTime c' \<longrightarrow> (\<exists>v'. download J (c', v) = (Inr False, c', v') \<and> requests v' = requests v))"
proof -
  let ?a = "downloadAttempt c" and ?t = "clock_now w"
  let ?p = "2 ^ nat (min (?a + 2) 8) :: int"
  have p: "4 \<le> ?p" "?p \<le> 256"
  proof -
    have n: "2 \<le> nat (min (?a + 2) 8)" "nat (min (?a + 2) 8) \<le> 8" using assms(3) by simp_all
    show "4 \<le> ?p" using power_increasing[OF n(1), of "2 :: int"] by simp
    show "?p \<le> 256" using power_increasing[OF n(2), of "2 :: int"] by simp
  qed
  have r: "in64 (?p * 10 ^ 9)" "in64 (?t + ?p * 10 ^ 9)" using p assms(5,6) by (auto simp: in64_def)
  let ?c = "c\<lparr>downloadAttempt := ?a + 1, downloadMinRetryTime := ?t + ?p * 10 ^ 9\<rparr>"
  let ?w = "w\<lparr>clock_now := ?t + (case clock_ticks w of [] \<Rightarrow> 0 | t # _ \<Rightarrow> t), clock_ticks := tl (clock_ticks w), answers := rest,
      requests := requests w @ [(config_url c, None)]\<rparr>"
  have f: "fetch J ?t None (c, w\<lparr>clock_now := ?t + (case clock_ticks w of [] \<Rightarrow> 0 | t # _ \<Rightarrow> t), clock_ticks := tl (clock_ticks w)\<rparr>) = (Inr False, ?c, ?w)"
    using assms(3,4,7-9) r
    by (cases threw) (simp_all add: fetch_def on_failure_def get_conf_def set_conf_def in_world_def send_request_def time_plus_def prog_defs)
  have run: "download J (c, w) = (Inr False, ?c, ?w)"
    using assms(1,2) f by (cases "cache w") (simp_all add: download_def readFromCache_def get_conf_def in_world_def system_now_def prog_defs)
  have "\<exists>v'. download J (?c, v) = (Inr False, ?c, v') \<and> requests v' = requests v" if "clock_now v < ?t + ?p * 10 ^ 9" for v
    using that by (simp add: download_def get_conf_def in_world_def system_now_def prog_defs)
  then show ?thesis using run p by (intro exI[of _ ?c] exI[of _ ?w]) (simp add: add.commute)
qed


text \<open>
  A configuration that is no valid JSON ends the program. The parser's error is caught and an
  empty object is used in its place, but the refresh interval is then read from it, and the error
  of that reading is not caught. The configuration stays as it was.
\<close>
theorem invalid_config_ends:
  assumes "json_ok J" "downloadMinRetryTime c \<le> clock_now w" "\<forall>tbl. cache w = Some tbl \<longrightarrow> j_find J tbl (config_url c) = None"
    "answers w = Fetched 200 hs body # rest" "j_parse J body = None"
  shows "\<exists>w'. download J (c, w) = (Inl JsonTypeError, c, w') \<and> cache w' = cache w \<and> cache_file w' = cache_file w"
proof -
  have a: "j_at J (j_object J) k = Some (j_null J)" for k using assms(1) by (simp add: json_ok_def)
  have n: "j_num J (j_null J) = None" "j_str J (j_null J) = None" using assms(1) by (simp_all add: json_ok_def)
  show ?thesis using assms(2-5) a n
    by (cases "cache w") (simp_all add: download_def readFromCache_def fetch_def on_ok_def asInt_def safeParseJson_def thrown_def
        get_conf_def in_world_def system_now_def send_request_def prog_defs)
qed

text \<open>
  When the settings change, the limits of both stored queues and of the uploader become the
  configured ones, and nothing that is stored or buffered is touched. The queues stay in order,
  provided that what is buffered in memory also fits into the files under the new limit.
\<close>
theorem config_limits_applied:
  assumes "n = size_t_of (getMaxEventsPerPost cs)" "z = size_t_of (getMaxEventSizeInBytes cs)"
    "multi_inv (criticalStorageBatch m)" "buf_inv multi_inv (multi_fits dump) (normalStorageBatch m)"
    "\<forall>e \<in> set (items (mem (normalStorageBatch m))). z = 0 \<or> length (event_line dump e) \<le> z"
  shows "\<exists>t. onConfigurationUpdated cs m = (Inr (), t) \<and>
    multi_inv (criticalStorageBatch t) \<and> buf_inv multi_inv (multi_fits dump) (normalStorageBatch t) \<and>
    multi_queue (criticalStorageBatch t) = multi_queue (criticalStorageBatch m) \<and>
    buf_queue multi_queue dump (normalStorageBatch t) = buf_queue multi_queue dump (normalStorageBatch m) \<and>
    fileMaxEvents (fst (criticalStorageBatch t)) = n \<and> fileMaxEvents (fst (wrapped (normalStorageBatch t))) = n \<and> uploaderMaxEvents t = n \<and>
    fileMaxSize (fst (criticalStorageBatch t)) = z \<and> fileMaxSize (fst (wrapped (normalStorageBatch t))) = z \<and> uploaderMaxSize t = z"
proof -
  from setFileLimits_spec[of n z "criticalStorageBatch m" dump] obtain c where
    c: "setFileLimits n z (criticalStorageBatch m) = (Inr (), c)" "multi_inv (criticalStorageBatch m) \<longrightarrow> multi_inv c"
      "multi_queue c = multi_queue (criticalStorageBatch m)" "fileMaxSize (fst c) = z" "fileMaxEvents (fst c) = n"
    by (elim exE conjE)
  let ?b = "normalStorageBatch m"
  from setFileLimits_spec[of n z "wrapped ?b" dump] obtain w where
    w: "setFileLimits n z (wrapped ?b) = (Inr (), w)" "multi_inv (wrapped ?b) \<longrightarrow> multi_inv w"
      "multi_queue w = multi_queue (wrapped ?b)" "fileMaxSize (fst w) = z" "fileMaxEvents (fst w) = n"
      "\<forall>e. multi_fits dump e w \<longleftrightarrow> one_line dump e \<and> (z = 0 \<or> length (event_line dump e) \<le> z)"
    by (elim exE conjE)
  let ?t = "m\<lparr>normalStorageBatch := ?b\<lparr>wrapped := w\<rparr>, criticalStorageBatch := c, uploaderMaxSize := z, uploaderMaxEvents := n\<rparr>"
  have run: "onConfigurationUpdated cs m = (Inr (), ?t)"
    unfolding onConfigurationUpdated_def assms(1,2)[symmetric] Let_def
    using c(1) w(1) by (cases m) (simp add: on_norm_def on_crit_def on_batch_def on_wrapped_def prog_defs)
  have "\<forall>e \<in> set (items (mem ?b)). one_line dump e" using assms(4) by (auto simp: buf_inv_def multi_fits_def)
  then have "buf_inv multi_inv (multi_fits dump) (?b\<lparr>wrapped := w\<rparr>)" using assms(4,5) w(2,6) by (simp add: buf_inv_def)
  then show ?thesis using run assms(3) c w(3-5) by (intro exI[of _ ?t]) (simp add: buf_queue_def)
qed


text \<open>A JSON library for the examples; texts are numbered values.\<close>

datatype sample_json = SNull | SLong int | SStr string | SObj "(string \<times> sample_json) list"

instance sample_json :: countable
  by countable_datatype

definition sample_lib :: "sample_json json_lib" where
  "sample_lib = \<lparr> j_null = SNull, j_object = SObj [], j_is_object = (\<lambda>j. case j of SObj _ \<Rightarrow> True | _ \<Rightarrow> False),
     j_find = (\<lambda>j k. case j of SObj kvs \<Rightarrow> map_of kvs k | _ \<Rightarrow> None),
     j_at = (\<lambda>j k. case j of SObj kvs \<Rightarrow> (case map_of kvs k of None \<Rightarrow> Some SNull | v \<Rightarrow> v) | SNull \<Rightarrow> Some SNull | _ \<Rightarrow> None),
     j_put = (\<lambda>j k v. case j of SObj kvs \<Rightarrow> Some (SObj ((k, v) # kvs)) | SNull \<Rightarrow> Some (SObj [(k, v)]) | _ \<Rightarrow> None),
     j_num = (\<lambda>j. case j of SLong n \<Rightarrow> Some n | _ \<Rightarrow> None), j_long = (\<lambda>j. case j of SLong n \<Rightarrow> Some n | _ \<Rightarrow> None),
     j_str = (\<lambda>j. case j of SStr s \<Rightarrow> Some s | _ \<Rightarrow> None), j_of_long = SLong, j_of_str = SStr, j_parse = (\<lambda>s. None),
     j_read = (\<lambda>s j. from_nat (length s)), j_dump = (\<lambda>j. replicate (to_nat j) CHR ''x'') \<rparr>"

lemma sample_lib_ok: "json_ok sample_lib"
proof -
  have "put_ok sample_lib SNull" by (simp add: put_ok_def sample_lib_def)
  moreover have "put_ok sample_lib (SObj kvs)" for kvs by (simp add: put_ok_def sample_lib_def)
  ultimately show ?thesis
    unfolding json_ok_def by (auto simp: sample_lib_def split: sample_json.splits option.splits)
qed

definition sample_world :: "sample_json config_world" where
  "sample_world = \<lparr> clock_now = 5 * 10 ^ 9, clock_ticks = [], answers = [Fetched 200 [] ''oops'', Fetched 500 [] []], requests = [],
     cache = Some (SObj [(''v'', SNull)]), cache_file = None, cache_opens = [True] \<rparr>"

definition sample_entry :: "sample_json cached_configuration" where
  "sample_entry = \<lparr> c_expires = 7000001, c_refreshInterval = 60, c_etag = ''e'', c_data = SNull \<rparr>"

theorem config_cache_roundtrip_witness:
  "\<exists>w' tbl'. writeConfigToCache sample_lib ''u'' sample_entry sample_world = (Inr (), w') \<and> cache w' = Some tbl' \<and>
    j_find sample_lib tbl' ''v'' = Some SNull \<and>
    readFromCache sample_lib ''u'' w' = (Inr (Some (sample_entry\<lparr>c_expires := 7000000\<rparr>)), w')"
proof -
  have "cache sample_world = Some (SObj [(''v'', SNull)])" "j_is_object sample_lib (SObj [(''v'', SNull)])"
    "cache_opens sample_world = [] \<or> hd (cache_opens sample_world)"
    "\<forall>en. j_find sample_lib (SObj [(''v'', SNull)]) ''u'' = Some en \<longrightarrow> j_is_object sample_lib en"
    "in64 (c_expires sample_entry)" "in64 (c_refreshInterval sample_entry)"
    by (simp_all add: sample_world_def sample_lib_def sample_entry_def in64_def)
  note r = config_cache_roundtrip[OF sample_lib_ok this]
  have "j_find sample_lib (SObj [(''v'', SNull)]) ''v'' = Some SNull" by (simp add: sample_lib_def)
  moreover have "c_expires sample_entry sdiv 10 ^ 6 * 10 ^ 6 = 7000000" by (simp add: sample_entry_def)
  moreover have "''v'' \<noteq> ''u''" by simp
  ultimately show ?thesis using r by metis
qed

theorem config_backoff_witness:
  "\<exists>c' w'. download sample_lib (new_configuration ''u'', sample_world\<lparr>answers := [Fetched 500 [] []]\<rparr>) = (Inr False, c', w') \<and>
    downloadAttempt c' = 1 \<and> downloadMinRetryTime c' = 9 * 10 ^ 9"
proof -
  let ?w = "sample_world\<lparr>answers := [Fetched 500 [] []]\<rparr>" and ?c = "new_configuration ''u''"
  have "downloadMinRetryTime ?c \<le> clock_now ?w" "\<forall>tbl. cache ?w = Some tbl \<longrightarrow> j_find sample_lib tbl (config_url ?c) = None"
    "0 \<le> downloadAttempt ?c" "downloadAttempt ?c + 2 < 2 ^ 31" "in64 (clock_now ?w + 256 * 10 ^ 9)" "- (2 ^ 63) \<le> clock_now ?w"
    "answers ?w = (if False then Threw 500 else Fetched 500 [] []) # []"
    by (simp_all add: sample_world_def new_configuration_def sample_lib_def in64_def)
  from config_backoff[OF this] obtain c' w' where "download sample_lib (?c, ?w) = (Inr False, c', w')"
      "downloadAttempt c' = downloadAttempt ?c + 1" "downloadMinRetryTime c' = clock_now ?w + 2 ^ nat (min (downloadAttempt c' + 1) 8) * 10 ^ 9"
    by auto
  then show ?thesis by (intro exI[of _ c'] exI[of _ w']) (simp add: new_configuration_def sample_world_def)
qed

theorem invalid_config_ends_witness:
  "\<exists>w'. download sample_lib (new_configuration ''u'', sample_world) = (Inl JsonTypeError, new_configuration ''u'', w')"
proof -
  have "downloadMinRetryTime (new_configuration ''u'') \<le> clock_now sample_world"
    "\<forall>tbl. cache sample_world = Some tbl \<longrightarrow> j_find sample_lib tbl (config_url (new_configuration ''u'')) = None"
    "answers sample_world = Fetched 200 [] ''oops'' # [Fetched 500 [] []]" "j_parse sample_lib ''oops'' = None"
    by (simp_all add: sample_world_def new_configuration_def sample_lib_def)
  from invalid_config_ends[OF sample_lib_ok this] show ?thesis by blast
qed

theorem config_limits_applied_witness:
  "\<exists>t. onConfigurationUpdated [] sample_manager = (Inr (), t) \<and> buf_inv multi_inv (multi_fits id) (normalStorageBatch t) \<and>
    uploaderMaxEvents t = 500 \<and> fileMaxSize (fst (criticalStorageBatch t)) = 6400"
proof -
  have ls: "\<forall>l \<in> set [[99, 13, 10]]. is_line (l :: bytes)" by (simp add: is_line_def)
  have "(0 :: nat) < 2" "\<forall>e \<in> set [[97], [98]]. 10 \<notin> set e \<and> length (e :: bytes) < 90" by simp_all
  note b = sample_buffered[OF this]
  have "500 = size_t_of (getMaxEventsPerPost [])" "6400 = size_t_of (getMaxEventSizeInBytes [])"
    by (simp_all add: getMaxEventsPerPost_def getMaxEventSizeInBytes_def size_t_of_def)
  moreover have "multi_inv (criticalStorageBatch sample_manager)" "buf_inv multi_inv (multi_fits id) (normalStorageBatch sample_manager)"
    using sample_multi(1)[OF ls] b(1) by (simp_all add: sample_manager_def)
  moreover have "\<forall>e \<in> set (items (mem (normalStorageBatch sample_manager))). (6400 :: nat) = 0 \<or> length (event_line id e) \<le> 6400"
    by (simp add: sample_manager_def sample_buffered_def event_line_def)
  ultimately show ?thesis using config_limits_applied[of 500 "[]" 6400 sample_manager id] by blast
qed

end
