(* ===== verification/Properties.thy ===== *)
theory Properties
  imports Decimal "HOL-Library.AList"
begin

text \<open>
  The property files of the launcher, \<^verbatim>\<open>properties-parser\<close>: typed values with their texts, the
  list of registered and unknown properties, and reading and writing the file. The list's
  hash tables are association lists without double keys, in an unspecified order. The text
  of a floating-point number, \<open>std::stof\<close> and \<open>std::to_string\<close>, is an argument.
\<close>

section \<open>Values\<close>

datatype 'f pvalue = PString string | PInt int | PFloat 'f | PBool bool

datatype property_error = BadNumber number_error | BadFloat | BadBoolean

record 'f float_text =
  stof :: "string \<Rightarrow> 'f option" \<comment> \<open>\<open>None\<close>: the call throws\<close>
  float_to_string :: "'f \<Rightarrow> string"

definition to_lower :: "char \<Rightarrow> char" where
  "to_lower c = (let n = of_char c :: nat in if 65 \<le> n \<and> n \<le> 90 then char_of (n + 32) else c)"

text \<open>\<open>c_str\<close>: a C function sees the text up to the first null character.\<close>

definition c_str :: "string \<Rightarrow> string" where
  "c_str s = takeWhile (\<lambda>c. c \<noteq> CHR 0x00) s"

definition same_nocase :: "string \<Rightarrow> string \<Rightarrow> bool" where
  "same_nocase a b \<longleftrightarrow> map to_lower a = map to_lower b"

definition parse_bool :: "string \<Rightarrow> bool option" where
  "parse_bool v = (
     if v = ''1'' \<or> same_nocase v ''true'' \<or> same_nocase v ''on'' \<or> same_nocase v ''yes'' then Some True
     else if v = ''0'' \<or> same_nocase v ''false'' \<or> same_nocase v ''off'' \<or> same_nocase v ''no'' then Some False
     else None)"

text \<open>The value a property takes from a text; its type is that of the value it has.\<close>

fun parse_value :: "'f float_text \<Rightarrow> 'f pvalue \<Rightarrow> string \<Rightarrow> property_error + 'f pvalue" where
  "parse_value F (PString _) s = Inr (PString s)"
| "parse_value F (PInt _) s = (case stoi s of Inl e \<Rightarrow> Inl (BadNumber e) | Inr n \<Rightarrow> Inr (PInt n))"
| "parse_value F (PFloat _) s = (case stof F s of None \<Rightarrow> Inl BadFloat | Some x \<Rightarrow> Inr (PFloat x))"
| "parse_value F (PBool _) s = (case parse_bool (c_str s) of None \<Rightarrow> Inl BadBoolean | Some b \<Rightarrow> Inr (PBool b))"

fun serialize_value :: "'f float_text \<Rightarrow> 'f pvalue \<Rightarrow> string" where
  "serialize_value F (PString s) = s"
| "serialize_value F (PInt n) = show_int n"
| "serialize_value F (PFloat x) = float_to_string F x"
| "serialize_value F (PBool b) = (if b then ''true'' else ''false'')"

section \<open>The list\<close>

record 'f property_list =
  known_props :: "(string \<times> 'f pvalue) list"
  unknown_props :: "(string \<times> string) list"
  sep :: char

definition new_property_list :: "char \<Rightarrow> 'f property_list" where
  "new_property_list c = \<lparr> known_props = [], unknown_props = [], sep = c \<rparr>"

text \<open>\<open>insert\<close> keeps what is registered under the name.\<close>

definition register_property :: "string \<Rightarrow> 'f pvalue \<Rightarrow> 'f property_list \<Rightarrow> 'f property_list" where
  "register_property name v p = (if map_of (known_props p) name \<noteq> None then p else p\<lparr>known_props := known_props p @ [(name, v)]\<rparr>)"

type_synonym ('f, 'a) props = "('f property_list, property_error, 'a) prog"

definition set_property :: "'f float_text \<Rightarrow> string \<Rightarrow> string \<Rightarrow> ('f, unit) props" where
  "set_property F name v = (\<lambda>p. case map_of (known_props p) name of
       None \<Rightarrow> (Inr (), p\<lparr>unknown_props := AList.update name v (unknown_props p)\<rparr>)
     | Some old \<Rightarrow> (case parse_value F old v of
         Inl e \<Rightarrow> (Inl e, p)
       | Inr new \<Rightarrow> (Inr (), p\<lparr>known_props := AList.update name new (known_props p)\<rparr>)))"

section \<open>The file\<close>

abbreviation newline :: char where "newline \<equiv> CHR 0x0A"
abbreviation carriage :: char where "carriage \<equiv> CHR 0x0D"

text \<open>The lines \<open>getline\<close> delivers: a line without a newline at the end counts if it is not empty.\<close>

fun getlines :: "string \<Rightarrow> string \<Rightarrow> string list" where
  "getlines line [] = (if line = [] then [] else [line])"
| "getlines line (c # s) = (if c = newline then line # getlines [] s else getlines (line @ [c]) s)"

definition load_line :: "'f float_text \<Rightarrow> string \<Rightarrow> ('f, unit) props" where
  "load_line F line = (let line = filter (\<lambda>c. c \<noteq> carriage) line in
     if line \<noteq> [] \<and> hd line = CHR ''#'' then ret () else
     andthen (getp sep) (\<lambda>sp. if sp \<notin> set line then ret () else
       set_property F (takeWhile (\<lambda>c. c \<noteq> sp) line) (tl (dropWhile (\<lambda>c. c \<noteq> sp) line))))"

definition load :: "'f float_text \<Rightarrow> string \<Rightarrow> ('f, unit) props" where
  "load F text = seqs (map (load_line F) (getlines [] text))"

definition save_line :: "char \<Rightarrow> string \<Rightarrow> string \<Rightarrow> string" where
  "save_line sp name v = name @ [sp] @ v @ [newline]"

definition save :: "'f float_text \<Rightarrow> 'f property_list \<Rightarrow> string" where
  "save F p = concat (map (\<lambda>(n, v). save_line (sep p) n (serialize_value F v)) (known_props p)) @
     concat (map (\<lambda>(n, v). save_line (sep p) n v) (unknown_props p))"

section \<open>What was written is read back\<close>

text \<open>Texts that survive: no line ends in them, and a name that can be told from the value and from a comment.\<close>

definition plain_text :: "string \<Rightarrow> bool" where
  "plain_text s \<longleftrightarrow> newline \<notin> set s \<and> carriage \<notin> set s"

definition plain_name :: "char \<Rightarrow> string \<Rightarrow> bool" where
  "plain_name sp s \<longleftrightarrow> plain_text s \<and> sp \<notin> set s \<and> (s = [] \<or> hd s \<noteq> CHR ''#'')"

fun plain_value :: "'f float_text \<Rightarrow> 'f pvalue \<Rightarrow> bool" where
  "plain_value F (PString s) = plain_text s"
| "plain_value F (PInt n) \<longleftrightarrow> - (2 ^ 31) \<le> n \<and> n < 2 ^ 31"
| "plain_value F (PFloat x) \<longleftrightarrow> stof F (float_to_string F x) \<noteq> None \<and> plain_text (float_to_string F x)"
| "plain_value F (PBool b) = True"

text \<open>
  What a value is when it comes back: \<open>std::to_string\<close> writes a floating-point number with six decimals, so it
  comes back as the number that text stands for; every other value is the same.
\<close>

fun reread :: "'f float_text \<Rightarrow> 'f pvalue \<Rightarrow> 'f pvalue" where
  "reread F (PFloat x) = PFloat (the (stof F (float_to_string F x)))"
| "reread F v = v"

fun same_type :: "'f pvalue \<Rightarrow> 'f pvalue \<Rightarrow> bool" where
  "same_type (PString _) (PString _) = True"
| "same_type (PInt _) (PInt _) = True"
| "same_type (PFloat _) (PFloat _) = True"
| "same_type (PBool _) (PBool _) = True"
| "same_type _ _ = False"

lemma parse_serialize:
  assumes "plain_value F v" "same_type v old"
  shows "parse_value F old (serialize_value F v) = Inr (reread F v)"
proof (cases v)
  case (PBool b)
  have "parse_bool (c_str ''true'') = Some True" "parse_bool (c_str ''false'') = Some False" by code_simp+
  with PBool assms show ?thesis by (cases old; cases b) simp_all
qed (use assms in \<open>cases old; auto simp: stoi_show\<close>)+

lemma serialize_plain:
  assumes "plain_value F v"
  shows "plain_text (serialize_value F v)"
proof (cases v)
  case (PInt n)
  then show ?thesis using show_int_chars[of newline n] show_int_chars[of carriage n] by (auto simp: plain_text_def is_digit_def)
qed (use assms in \<open>simp_all add: plain_text_def\<close>)

lemma getlines_line: "newline \<notin> set l \<Longrightarrow> getlines cur (l @ newline # s) = (cur @ l) # getlines [] s"
  by (induction l arbitrary: cur) auto

lemma getlines_saved:
  assumes "sp \<noteq> newline" "\<forall>(n, v) \<in> set kvs. plain_name sp n \<and> plain_text v"
  shows "getlines [] (concat (map (\<lambda>(n, v). save_line sp n v) kvs) @ s) = map (\<lambda>(n, v). n @ sp # v) kvs @ getlines [] s"
  using assms
proof (induction kvs)
  case (Cons kv kvs)
  obtain n v where kv: "kv = (n, v)" by (cases kv)
  then have "newline \<notin> set (n @ sp # v)" using Cons.prems by (auto simp: plain_name_def plain_text_def)
  from getlines_line[OF this, of "[]"] show ?case using Cons by (simp add: kv save_line_def)
qed simp

lemma name_part: "sp \<notin> set n \<Longrightarrow> takeWhile (\<lambda>c. c \<noteq> sp) (n @ sp # v) = n" "sp \<notin> set n \<Longrightarrow> tl (dropWhile (\<lambda>c. c \<noteq> sp) (n @ sp # v)) = v"
  by (induction n) auto

text \<open>A saved line is read as setting the property.\<close>

lemma load_saved:
  assumes "plain_name (sep p) n" "plain_text v" "sep p \<noteq> carriage" "sep p \<noteq> CHR ''#''"
  shows "load_line F (n @ sep p # v) p = set_property F n v p"
proof -
  have f: "filter (\<lambda>c. c \<noteq> carriage) (n @ sep p # v) = n @ sep p # v"
    using assms(1-3) by (intro filter_True) (auto simp: plain_name_def plain_text_def)
  have h: "hd (n @ sep p # v) \<noteq> CHR ''#''" using assms(1,4) by (cases n) (auto simp: plain_name_def)
  have s: "takeWhile (\<lambda>c. c \<noteq> sep p) (n @ sep p # v) = n" "tl (dropWhile (\<lambda>c. c \<noteq> sep p) (n @ sep p # v)) = v"
    using assms(1) by (simp_all add: plain_name_def name_part)
  have "\<not> (n @ sep p # v \<noteq> [] \<and> hd (n @ sep p # v) = CHR ''#'')" using h by simp
  then show ?thesis unfolding load_line_def f Let_def by (simp add: prog_defs s)
qed


lemma map_of_update: "map_of (AList.update n v al) = (map_of al)(n \<mapsto> v)"
  by (rule ext) (simp add: update_conv)

declare update_conv' [simp del]

lemma set_property_sep [simp]: "sep (snd (set_property F n v p)) = sep p"
  by (simp add: set_property_def split: option.split sum.split)

lemma load_saved_all:
  assumes "\<forall>(n, v) \<in> set kvs. plain_name (sep p) n \<and> plain_text v" "sep p \<noteq> carriage" "sep p \<noteq> CHR ''#''"
  shows "seqs (map (load_line F) (map (\<lambda>(n, v). n @ sep p # v) kvs)) p = seqs (map (\<lambda>(n, v). set_property F n v) kvs) p"
  using assms
proof (induction kvs arbitrary: p)
  case (Cons kv kvs)
  obtain n v where kv: "kv = (n, v)" by (cases kv)
  obtain r p' where r: "set_property F n v p = (r, p')" by (cases "set_property F n v p")
  then have sp: "sep p' = sep p" using set_property_sep[of F n v p] by simp
  have "load_line F (n @ sep p # v) p = (r, p')" using Cons.prems by (simp add: kv load_saved r)
  then show ?case using Cons.IH[of p'] Cons.prems r sp by (cases r) (simp_all add: kv seqp_def andthen_def)
qed simp

text \<open>Setting registered properties to texts of their types, and setting unknown ones.\<close>

lemma set_known:
  assumes "distinct (map fst kvs)" "\<forall>(n, v) \<in> set kvs. plain_value F v \<and> (\<exists>old. map_of (known_props p) n = Some old \<and> same_type v old)"
  shows "\<exists>p'. seqs (map (\<lambda>(n, v). set_property F n (serialize_value F v)) kvs) p = (Inr (), p') \<and> sep p' = sep p \<and>
    unknown_props p' = unknown_props p \<and>
    map_of (known_props p') = map_of (known_props p) ++ (\<lambda>n. map_option (reread F) (map_of kvs n))"
  using assms
proof (induction kvs arbitrary: p)
  case Nil
  then show ?case by (simp add: ret_def map_add_def)
next
  case (Cons kv kvs)
  obtain n v where kv: "kv = (n, v)" by (cases kv)
  obtain old where old: "map_of (known_props p) n = Some old" "same_type v old" "plain_value F v" using Cons.prems(2) by (auto simp: kv)
  let ?v = "reread F v" and ?m = "\<lambda>kvs n. map_option (reread F) (map_of kvs n)"
  let ?p = "p\<lparr>known_props := AList.update n ?v (known_props p)\<rparr>"
  have s: "set_property F n (serialize_value F v) p = (Inr (), ?p)" using old by (simp add: set_property_def parse_serialize)
  have d: "n \<notin> fst ` set kvs" "distinct (map fst kvs)" using Cons.prems(1) by (simp_all add: kv)
  have "\<forall>(n', v') \<in> set kvs. plain_value F v' \<and> (\<exists>old. map_of (known_props ?p) n' = Some old \<and> same_type v' old)"
  proof (rule ballI, rule case_prodI2)
    fix kv' n' v' assume kv': "kv' \<in> set kvs" "kv' = (n', v')"
    then have "n' \<noteq> n" using d(1) by force
    moreover have "plain_value F v' \<and> (\<exists>old. map_of (known_props p) n' = Some old \<and> same_type v' old)" using Cons.prems(2) kv' by auto
    ultimately show "plain_value F v' \<and> (\<exists>old. map_of (known_props ?p) n' = Some old \<and> same_type v' old)" by (simp add: map_of_update)
  qed
  from Cons.IH[OF d(2) this] obtain p' where p': "seqs (map (\<lambda>(n, v). set_property F n (serialize_value F v)) kvs) ?p = (Inr (), p')"
      "sep p' = sep ?p" "unknown_props p' = unknown_props ?p" "map_of (known_props p') = map_of (known_props ?p) ++ ?m kvs"
    by (elim exE conjE)
  have up: "map_of (known_props ?p) = (map_of (known_props p))(n \<mapsto> ?v)" by (simp add: map_of_update)
  have "(map_of (known_props p))(n \<mapsto> ?v) ++ ?m kvs = map_of (known_props p) ++ ?m (kv # kvs)"
    using d(1) map_of_eq_None_iff[of kvs n] by (simp add: kv map_add_def fun_eq_iff split: option.split)
  with p' have m: "map_of (known_props p') = map_of (known_props p) ++ ?m (kv # kvs)" by (simp only: up)
  have r: "seqs (map (\<lambda>(n, v). set_property F n (serialize_value F v)) (kv # kvs)) p = (Inr (), p')" using s p'(1) by (simp add: kv seqp_def andthen_def)
  show ?case using p'(2,3) by (intro exI[of _ p'] conjI r m) simp_all
qed

lemma set_unknown:
  assumes "distinct (map fst kvs)" "\<forall>(n, v) \<in> set kvs. map_of (known_props p) n = None"
  shows "\<exists>p'. seqs (map (\<lambda>(n, v). set_property F n v) kvs) p = (Inr (), p') \<and> known_props p' = known_props p \<and>
    map_of (unknown_props p') = map_of (unknown_props p) ++ map_of kvs"
  using assms
proof (induction kvs arbitrary: p)
  case Nil
  then show ?case by (simp add: ret_def)
next
  case (Cons kv kvs)
  obtain n v where kv: "kv = (n, v)" by (cases kv)
  let ?p = "p\<lparr>unknown_props := AList.update n v (unknown_props p)\<rparr>"
  have s: "set_property F n v p = (Inr (), ?p)" using Cons.prems(2) by (simp add: kv set_property_def)
  have d: "n \<notin> fst ` set kvs" "distinct (map fst kvs)" using Cons.prems(1) by (simp_all add: kv)
  have "\<forall>(n', v') \<in> set kvs. map_of (known_props ?p) n' = None" using Cons.prems(2) by simp
  from Cons.IH[OF d(2) this] obtain p' where p': "seqs (map (\<lambda>(n, v). set_property F n v) kvs) ?p = (Inr (), p')"
      "known_props p' = known_props ?p" "map_of (unknown_props p') = map_of (unknown_props ?p) ++ map_of kvs"
    by (elim exE conjE)
  have up: "map_of (unknown_props ?p) = (map_of (unknown_props p))(n \<mapsto> v)" by (simp add: map_of_update)
  have "(map_of (unknown_props p))(n \<mapsto> v) ++ map_of kvs = map_of (unknown_props p) ++ map_of (kv # kvs)"
    using d(1) by (simp add: kv map_add_upd_left dom_map_of_conv_image_fst)
  with p' have m: "map_of (unknown_props p') = map_of (unknown_props p) ++ map_of (kv # kvs)" by (simp only: up)
  have r: "seqs (map (\<lambda>(n, v). set_property F n v) (kv # kvs)) p = (Inr (), p')" using s p'(1) by (simp add: kv seqp_def andthen_def)
  show ?case using p'(2,3) by (intro exI[of _ p'] conjI r m) simp_all
qed


section \<open>Properties\<close>

text \<open>
  C27: a saved property file is read back. When the same properties are registered with the same
  types, whatever their values are before, reading the file gives every registered text, number
  and truth value the saved value, every floating-point one the number its saved text stands for
  (which need not be the number saved), and every unknown property the saved text, and
  leaves other entries alone; the order in which the hash tables were written does not matter. Texts
  must be free of line ends, names also of the separator and of a leading comment mark, and the
  written floating-point texts readable.
\<close>
theorem properties_roundtrip:
  assumes "distinct (map fst (known_props p))" "distinct (map fst (unknown_props p))"
    "\<forall>(n, v) \<in> set (known_props p). plain_name (sep p) n \<and> plain_value F v \<and> (\<exists>old. map_of (known_props q) n = Some old \<and> same_type v old)"
    "\<forall>(n, v) \<in> set (unknown_props p). plain_name (sep p) n \<and> plain_text v \<and> map_of (known_props q) n = None"
    "sep q = sep p" "sep p \<noteq> newline" "sep p \<noteq> carriage" "sep p \<noteq> CHR ''#''"
  shows "\<exists>q'. load F (save F p) q = (Inr (), q') \<and> map_of (known_props q') =
      map_of (known_props q) ++ (\<lambda>n. map_option (reread F) (map_of (known_props p) n)) \<and>
    map_of (unknown_props q') = map_of (unknown_props q) ++ map_of (unknown_props p)"
proof -
  let ?k = "map (\<lambda>(n, v). (n, serialize_value F v)) (known_props p)" and ?u = "unknown_props p"
  have k: "\<forall>(n, v) \<in> set ?k. plain_name (sep p) n \<and> plain_text v" using assms(3) by (auto simp: serialize_plain)
  have u: "\<forall>(n, v) \<in> set ?u. plain_name (sep p) n \<and> plain_text v" using assms(4) by auto
  have "save F p = concat (map (\<lambda>(n, v). save_line (sep p) n v) ?k) @ concat (map (\<lambda>(n, v). save_line (sep p) n v) ?u) @ []"
    by (simp add: save_def comp_def case_prod_unfold)
  then have lines: "getlines [] (save F p) = map (\<lambda>(n, v). n @ sep p # v) (?k @ ?u)"
    using getlines_saved[OF assms(6) k] getlines_saved[OF assms(6) u, of "[]"] by simp
  have "\<forall>(n, v) \<in> set (?k @ ?u). plain_name (sep q) n \<and> plain_text v" using k u assms(5) by auto
  from load_saved_all[OF this] have run: "load F (save F p) q = seqp (seqs (map (\<lambda>(n, v). set_property F n v) ?k)) (seqs (map (\<lambda>(n, v). set_property F n v) ?u)) q"
    using assms(5,7,8) by (simp add: load_def lines seqs_append)
  have ser: "map (\<lambda>(n, v). set_property F n v) ?k = map (\<lambda>(n, v). set_property F n (serialize_value F v)) (known_props p)"
    by (simp add: case_prod_unfold)
  have "\<forall>(n, v) \<in> set (known_props p). plain_value F v \<and> (\<exists>old. map_of (known_props q) n = Some old \<and> same_type v old)"
    using assms(3) by auto
  from set_known[OF assms(1) this] obtain q1 where q1: "seqs (map (\<lambda>(n, v). set_property F n v) ?k) q = (Inr (), q1)"
      "unknown_props q1 = unknown_props q" 
      "map_of (known_props q1) = map_of (known_props q) ++ (\<lambda>n. map_option (reread F) (map_of (known_props p) n))"
    unfolding ser by blast
  have "map_of (known_props p) n = None" if "map_of (known_props q) n = None" for n
  proof (rule ccontr)
    assume "map_of (known_props p) n \<noteq> None"
    then obtain v where "(n, v) \<in> set (known_props p)" by (auto dest: map_of_SomeD)
    from bspec[OF assms(3) this] show False using that by simp
  qed
  then have "\<forall>(n, v) \<in> set ?u. map_of (known_props q1) n = None" using assms(4) q1(3) by (auto simp: map_add_None)
  from set_unknown[OF assms(2) this] obtain q2 where q2: "seqs (map (\<lambda>(n, v). set_property F n v) ?u) q1 = (Inr (), q2)"
      "known_props q2 = known_props q1" "map_of (unknown_props q2) = map_of (unknown_props q1) ++ map_of ?u" by blast
  have "load F (save F p) q = (Inr (), q2)" using run q1(1) q2(1) by (simp add: seqp_def andthen_def)
  then show ?thesis using q1(2,3) q2(2,3) by metis
qed

definition sample_float :: "unit float_text" where
  "sample_float = \<lparr> stof = (\<lambda>s. if s = ''1.5'' then Some () else None), float_to_string = (\<lambda>_. ''1.5'') \<rparr>"

text \<open>Numbers of tenths whose text shows the whole part only.\<close>

definition tenths :: "int float_text" where
  "tenths = \<lparr> stof = (\<lambda>s. case stoi s of Inl e \<Rightarrow> None | Inr n \<Rightarrow> Some (10 * n)),
     float_to_string = (\<lambda>x. show_int (x div 10)) \<rparr>"

definition sample_saved :: "int property_list" where
  "sample_saved = \<lparr> known_props = [(''width'', PInt (-7)), (''name'', PString ''a=b''), (''ok'', PBool False), (''scale'', PFloat 15)],
     unknown_props = [(''old'', ''x'')], sep = CHR ''='' \<rparr>"

definition sample_registered :: "int property_list" where
  "sample_registered = register_property ''scale'' (PFloat 0) (register_property ''ok'' (PBool True)
     (register_property ''name'' (PString []) (register_property ''width'' (PInt 0) (new_property_list (CHR ''='')))))"

theorem properties_roundtrip_witness:
  "\<exists>q'. load tenths (save tenths sample_saved) sample_registered = (Inr (), q') \<and> map_of (known_props q') ''width'' = Some (PInt (-7)) \<and>
    map_of (known_props q') ''name'' = Some (PString ''a=b'') \<and> map_of (known_props q') ''scale'' = Some (PFloat 10) \<and>
    map_of (unknown_props q') ''old'' = Some ''x''"
proof -
  have r: "sample_registered = \<lparr> known_props = [(''width'', PInt 0), (''name'', PString []), (''ok'', PBool True), (''scale'', PFloat 0)],
      unknown_props = [], sep = CHR ''='' \<rparr>"
    by (simp add: sample_registered_def register_property_def new_property_list_def)
  have t: "float_to_string tenths 15 = ''1''" "stof tenths ''1'' = Some 10" by code_simp+
  have "distinct (map fst (known_props sample_saved))" "distinct (map fst (unknown_props sample_saved))"
    "\<forall>(n, v) \<in> set (known_props sample_saved). plain_name (sep sample_saved) n \<and> plain_value tenths v \<and>
       (\<exists>old. map_of (known_props sample_registered) n = Some old \<and> same_type v old)"
    "\<forall>(n, v) \<in> set (unknown_props sample_saved). plain_name (sep sample_saved) n \<and> plain_text v \<and> map_of (known_props sample_registered) n = None"
    "sep sample_registered = sep sample_saved" "sep sample_saved \<noteq> newline" "sep sample_saved \<noteq> carriage" "sep sample_saved \<noteq> CHR ''#''"
    by (simp_all add: r sample_saved_def plain_name_def plain_text_def t)
  from properties_roundtrip[OF this] obtain q' where q': "load tenths (save tenths sample_saved) sample_registered = (Inr (), q')"
      "map_of (known_props q') = map_of (known_props sample_registered) ++ (\<lambda>n. map_option (reread tenths) (map_of (known_props sample_saved) n))"
      "map_of (unknown_props q') = map_of (unknown_props sample_registered) ++ map_of (unknown_props sample_saved)" by blast
  have "map_of (known_props q') ''width'' = Some (PInt (-7)) \<and> map_of (known_props q') ''name'' = Some (PString ''a=b'') \<and>
      map_of (known_props q') ''scale'' = Some (PFloat 10) \<and> map_of (unknown_props q') ''old'' = Some ''x''"
    unfolding q'(2,3) by (simp add: sample_saved_def t)
  then show ?thesis using q'(1) by blast
qed

end
