(* ===== verification/Arg_Parser.thy ===== *)
theory Arg_Parser
  imports Properties
begin

text \<open>
  The command line of the launcher, \<^verbatim>\<open>arg-parser\<close>: the list of arguments still to be read, the
  handlers of the declared options, one for each type of value, and the loop over the
  command line. What the loop prints is recorded.
\<close>

section \<open>The argument list\<close>

type_synonym arg_list = "string list"

datatype arg_error = MissingArgument | BadValue property_error

type_synonym 'a args = "(arg_list, arg_error, 'a) prog"

definition peek :: "string option args" where
  "peek = getp (\<lambda>l. case l of [] \<Rightarrow> None | a # _ \<Rightarrow> Some a)"

definition next_or_null :: "string option args" where
  "next_or_null = (\<lambda>l. case l of [] \<Rightarrow> (Inr None, []) | a # l \<Rightarrow> (Inr (Some a), l))"

definition next_arg :: "string args" where
  "next_arg = andthen next_or_null (\<lambda>v. case v of None \<Rightarrow> stop MissingArgument | Some a \<Rightarrow> ret a)"

definition next_value_or_null :: "string option args" where
  "next_value_or_null = andthen peek (\<lambda>v. case v of None \<Rightarrow> ret None
     | Some a \<Rightarrow> if a \<noteq> [] \<and> hd a = CHR ''-'' then ret None else andthen next_arg (\<lambda>a. ret (Some a)))"

definition next_value :: "string args" where
  "next_value = andthen next_value_or_null (\<lambda>v. case v of None \<Rightarrow> stop MissingArgument | Some a \<Rightarrow> ret a)"

section \<open>Options\<close>

text \<open>An option holds one value, or, declared with a vector, one for each time it is given, each first set to the type's default.\<close>

datatype 'f arg_value = Single "'f pvalue" | Several "'f pvalue" "'f pvalue list"

definition lift_value :: "property_error + 'a \<Rightarrow> 'a args" where
  "lift_value r = (case r of Inl e \<Rightarrow> stop (BadValue e) | Inr v \<Rightarrow> ret v)"

fun handle_one :: "'f float_text \<Rightarrow> 'f pvalue \<Rightarrow> 'f pvalue args" where
  "handle_one F (PBool _) = andthen next_value_or_null (\<lambda>v. case v of None \<Rightarrow> ret (PBool True)
     | Some v \<Rightarrow> (case parse_bool v of None \<Rightarrow> stop (BadValue BadBoolean) | Some b \<Rightarrow> ret (PBool b)))"
| "handle_one F old = andthen next_arg (\<lambda>v. lift_value (parse_value F old v))"

fun handle_value :: "'f float_text \<Rightarrow> 'f arg_value \<Rightarrow> arg_list \<Rightarrow> (arg_error + unit) \<times> 'f arg_value \<times> arg_list" where
  "handle_value F (Single v) l = (case handle_one F v l of (Inl e, l) \<Rightarrow> (Inl e, Single v, l) | (Inr v, l) \<Rightarrow> (Inr (), Single v, l))"
| "handle_value F (Several d vs) l = (case handle_one F d l of
     (Inl e, l) \<Rightarrow> (Inl e, Several d (vs @ [d]), l) | (Inr v, l) \<Rightarrow> (Inr (), Several d (vs @ [v]), l))"

section \<open>The parser\<close>

datatype arg_message = ProgramHelp "(string \<times> string \<times> string) list" | UnknownArgument string | InvalidValue string arg_error

record 'f arg_parser =
  handlers :: "(string \<times> nat) list" \<comment> \<open>the number of the option\<close>
  help_entries :: "(string \<times> string \<times> string) list"
  arg_values :: "'f arg_value list"
  printed :: "arg_message list"

definition new_arg_parser :: "'f arg_parser" where
  "new_arg_parser = \<lparr> handlers = [], help_entries = [(''--help'', ''-h'', ''Show this help information'')], arg_values = [], printed = [] \<rparr>"

definition add_arg :: "string \<Rightarrow> string \<Rightarrow> string \<Rightarrow> 'f arg_value \<Rightarrow> 'f arg_parser \<Rightarrow> 'f arg_parser" where
  "add_arg name short desc def p = (let i = length (arg_values p) in p\<lparr>arg_values := arg_values p @ [def],
     handlers := AList.update name i (AList.update short i (handlers p)), help_entries := help_entries p @ [(name, short, desc)]\<rparr>)"

definition say :: "arg_message \<Rightarrow> 'f arg_parser \<Rightarrow> 'f arg_parser" where
  "say m p = p\<lparr>printed := printed p @ [m]\<rparr>"

definition print_help :: "'f arg_parser \<Rightarrow> 'f arg_parser" where
  "print_help p = say (ProgramHelp (help_entries p)) p"

text \<open>A handler only takes arguments away.\<close>

lemma handle_one_takes: "handle_one F v l = (r, l') \<Longrightarrow> length l' \<le> length l"
  by (cases v; cases l) (auto simp: next_arg_def next_or_null_def next_value_or_null_def peek_def lift_value_def prog_defs
      split: sum.splits option.splits if_splits prod.splits)

lemma handle_value_takes: "handle_value F v l = (r, v', l') \<Longrightarrow> length l' \<le> length l"
  by (cases v) (auto split: sum.splits prod.splits dest: handle_one_takes)

function parse_loop :: "'f float_text \<Rightarrow> arg_list \<Rightarrow> 'f arg_parser \<Rightarrow> bool \<times> 'f arg_parser" where
  "parse_loop F [] p = (True, p)"
| "parse_loop F (key # l) p = (case map_of (handlers p) key of
       None \<Rightarrow> (False, if key = ''-h'' \<or> key = ''--help'' then print_help p else say (UnknownArgument key) p)
     | Some i \<Rightarrow> (case handle_value F (arg_values p ! i) l of (r, v, l') \<Rightarrow>
         let p = p\<lparr>arg_values := (arg_values p)[i := v]\<rparr> in
         case r of Inl e \<Rightarrow> (False, say (InvalidValue key e) p) | Inr _ \<Rightarrow> parse_loop F l' p))"
  by pat_completeness auto

termination
  by (relation "measure (\<lambda>(F, l, p). length l)") (auto dest!: handle_value_takes[OF sym])

definition parse :: "'f float_text \<Rightarrow> arg_list \<Rightarrow> 'f arg_parser \<Rightarrow> bool \<times> 'f arg_parser" where
  "parse F argv p = (case argv of [] \<Rightarrow> (False, p) | _ # l \<Rightarrow> parse_loop F l p)"

declare parse_loop.simps [simp del]


section \<open>Properties\<close>

text \<open>Settings as they are given: an option with its value, or a flag alone.\<close>

datatype 'f setting = Given string "'f pvalue" | Flag string

fun render :: "'f float_text \<Rightarrow> 'f setting \<Rightarrow> arg_list" where
  "render F (Given k v) = [k, serialize_value F v]"
| "render F (Flag k) = [k]"

fun setting_key :: "'f setting \<Rightarrow> string" where
  "setting_key (Given k v) = k"
| "setting_key (Flag k) = k"

fun setting_value :: "'f setting \<Rightarrow> 'f pvalue" where
  "setting_value (Given k v) = v"
| "setting_value (Flag k) = PBool True"

fun element :: "'f arg_value \<Rightarrow> 'f pvalue" where
  "element (Single v) = v"
| "element (Several d vs) = d"

fun assign :: "'f pvalue \<Rightarrow> 'f arg_value \<Rightarrow> 'f arg_value" where
  "assign v (Single _) = Single v"
| "assign v (Several d vs) = Several d (vs @ [v])"

text \<open>The effect the settings are meant to have, and settings that fit the declared options.\<close>

fun apply_settings :: "(string \<Rightarrow> nat option) \<Rightarrow> 'f setting list \<Rightarrow> 'f arg_value list \<Rightarrow> 'f arg_value list" where
  "apply_settings H [] vs = vs"
| "apply_settings H (s # ss) vs = (case H (setting_key s) of None \<Rightarrow> vs
     | Some i \<Rightarrow> apply_settings H ss (vs[i := assign (setting_value s) (vs ! i)]))"

fun printable :: "'f float_text \<Rightarrow> 'f pvalue \<Rightarrow> bool" where
  "printable F (PInt n) \<longleftrightarrow> - (2 ^ 31) \<le> n \<and> n < 2 ^ 31"
| "printable F (PFloat x) \<longleftrightarrow> stof F (float_to_string F x) = Some x"
| "printable F _ = True"

definition setting_ok :: "'f float_text \<Rightarrow> (string \<Rightarrow> nat option) \<Rightarrow> 'f arg_value list \<Rightarrow> 'f setting \<Rightarrow> bool" where
  "setting_ok F H vs s \<longleftrightarrow> setting_key s \<noteq> [] \<and> hd (setting_key s) = CHR ''-'' \<and> printable F (setting_value s) \<and>
     (\<exists>i < length vs. H (setting_key s) = Some i \<and> same_type (setting_value s) (element (vs ! i)))"

text \<open>What may follow a flag: nothing or another option.\<close>

definition option_or_end :: "arg_list \<Rightarrow> bool" where
  "option_or_end l \<longleftrightarrow> (l = [] \<or> hd l \<noteq> [] \<and> hd (hd l) = CHR ''-'')"

lemma bool_words: "parse_bool ''true'' = Some True" "parse_bool ''false'' = Some False"
  by code_simp+

lemma handle_given:
  assumes "printable F v" "same_type v old"
  shows "handle_one F old (serialize_value F v # l) = (Inr v, l)"
  using assms by (cases v; cases old)
    (auto simp: next_arg_def next_or_null_def next_value_or_null_def peek_def lift_value_def prog_defs stoi_show bool_words)

lemma handle_flag: "option_or_end l \<Longrightarrow> handle_one F (PBool b) l = (Inr (PBool True), l)"
  by (cases l) (auto simp: option_or_end_def next_value_or_null_def peek_def prog_defs)

lemma handle_setting:
  assumes "setting_ok F H vs s" "H (setting_key s) = Some i" "option_or_end l"
  shows "handle_value F (vs ! i) (tl (render F s) @ l) = (Inr (), assign (setting_value s) (vs ! i), l)"
proof -
  have t: "same_type (setting_value s) (element (vs ! i))" "printable F (setting_value s)" using assms(1,2) by (auto simp: setting_ok_def)
  have "handle_one F (element (vs ! i)) (tl (render F s) @ l) = (Inr (setting_value s), l)"
  proof (cases s)
    case (Given k v)
    then show ?thesis using handle_given[OF t(2,1)] by simp
  next
    case (Flag k)
    then obtain b where "element (vs ! i) = PBool b" using t(1) by (cases "element (vs ! i)") auto
    then show ?thesis using handle_flag[OF assms(3)] Flag by simp
  qed
  then show ?thesis by (cases "vs ! i") simp_all
qed

lemma element_assign [simp]: "same_type v (element a) \<Longrightarrow> same_type w (element (assign v a)) = same_type w (element a)"
  by (cases a; cases v; cases w) (auto elim: same_type.elims)

lemma settings_follow: "\<forall>s \<in> set ss. setting_ok F H vs s \<Longrightarrow> option_or_end (concat (map (render F) ss))"
  by (cases ss; cases "hd ss") (auto simp: option_or_end_def setting_ok_def)

lemma parse_settings:
  assumes "\<forall>s \<in> set ss. setting_ok F (map_of (handlers p)) (arg_values p) s"
  shows "parse_loop F (concat (map (render F) ss)) p = (True, p\<lparr>arg_values := apply_settings (map_of (handlers p)) ss (arg_values p)\<rparr>)"
  using assms
proof (induction ss arbitrary: p)
  case Nil
  then show ?case by (simp add: parse_loop.simps)
next
  case (Cons s ss)
  let ?H = "map_of (handlers p)" and ?vs = "arg_values p" and ?l = "concat (map (render F) ss)"
  have s: "setting_ok F ?H ?vs s" using Cons.prems by simp
  obtain i where i: "?H (setting_key s) = Some i" "i < length ?vs" "same_type (setting_value s) (element (?vs ! i))"
    using s by (auto simp: setting_ok_def)
  let ?p = "p\<lparr>arg_values := ?vs[i := assign (setting_value s) (?vs ! i)]\<rparr>"
  have o: "option_or_end ?l" using Cons.prems by (intro settings_follow[of _ F ?H ?vs]) simp
  have r: "render F s = setting_key s # tl (render F s)" by (cases s) simp_all
  have "parse_loop F (setting_key s # (tl (render F s) @ ?l)) p = parse_loop F ?l ?p"
    using handle_setting[OF s i(1) o] i(1) by (simp add: parse_loop.simps Let_def)
  moreover have "\<forall>s \<in> set ss. setting_ok F (map_of (handlers ?p)) (arg_values ?p) s"
  proof
    fix s' assume "s' \<in> set ss"
    then have o': "setting_ok F ?H ?vs s'" using Cons.prems by simp
    then obtain j where "j < length ?vs" "?H (setting_key s') = Some j" "same_type (setting_value s') (element (?vs ! j))"
      by (auto simp: setting_ok_def)
    then have "\<exists>j < length (arg_values ?p). map_of (handlers ?p) (setting_key s') = Some j \<and> same_type (setting_value s') (element (arg_values ?p ! j))"
      using i by (cases "i = j") (auto intro!: exI[of _ j] simp: nth_list_update)
    then show "setting_ok F (map_of (handlers ?p)) (arg_values ?p) s'" using o' by (simp add: setting_ok_def)
  qed
  note Cons.IH[OF this]
  ultimately show ?case using i(1) r by (simp del: render.simps) (metis append_Cons)
qed

text \<open>
  C28: a command line made of declared options is understood. Each option, by its long or its short
  name, takes the value that follows it, a flag alone is set, an option of several values collects
  them in order, the last value of any other option counts, and nothing is printed. This
  holds for any texts as values, also those that start with a dash, and for numbers of 32 bits.
\<close>
theorem args_understood:
  assumes "\<forall>s \<in> set ss. setting_ok F (map_of (handlers p)) (arg_values p) s"
  shows "parse F (prog # concat (map (render F) ss)) p = (True, p\<lparr>arg_values := apply_settings (map_of (handlers p)) ss (arg_values p)\<rparr>)"
  using parse_settings[OF assms] by (simp add: parse_def)

definition sample_options :: "unit arg_parser" where
  "sample_options = add_arg ''--mods'' ''-m'' [] (Several (PString []) []) (add_arg ''--width'' ''-ww'' [] (Single (PInt 720))
     (add_arg ''--free'' ''-f'' [] (Single (PBool False)) new_arg_parser))"

theorem args_understood_witness:
  "case parse sample_float [''game'', ''-f'', ''--mods'', ''-a'', ''-ww'', ''-5'', ''-m'', ''b''] sample_options of
     (ok, p) \<Rightarrow> ok \<and> printed p = [] \<and> arg_values p = [Single (PBool True), Single (PInt (-5)), Several (PString []) [PString ''-a'', PString ''b'']]"
proof -
  let ?ss = "[Flag ''-f'', Given ''--mods'' (PString ''-a''), Given ''-ww'' (PInt (-5)), Given ''-m'' (PString ''b'')] :: unit setting list"
  have h: "handlers sample_options = [(''-f'', 0), (''--free'', 0), (''-ww'', 1), (''--width'', 1), (''-m'', 2), (''--mods'', 2)]"
    "arg_values sample_options = [Single (PBool False), Single (PInt 720), Several (PString []) []]" "printed sample_options = []"
    by (simp_all add: sample_options_def add_arg_def new_arg_parser_def Let_def)
  have ok: "\<forall>s \<in> set ?ss. setting_ok sample_float (map_of (handlers sample_options)) (arg_values sample_options) s"
    by (simp add: h setting_ok_def)
  have i: "show_int (- 5) = ''-5''" by code_simp
  have "concat (map (render sample_float) ?ss) = [''-f'', ''--mods'', ''-a'', ''-ww'', ''-5'', ''-m'', ''b'']" by (simp add: i)
  with args_understood[OF ok, of "''game''"] show ?thesis by (simp add: h eval_nat_numeral)
qed

end
