(* ===== verification/Shim_Host.thy ===== *)
theory Shim_Host
  imports Prelude
begin

text \<open>
  What the parts of the C library shim (\<open>src/libc-shim/src\<close>) share. The shim gives code built
  for Android's C library the C library of the host. The numbers the host uses for its error
  codes, address families, flags and so on come from the host's system headers, which are not
  part of the repository: they are the argument \<open>h\<close> of the model, a map from the name of a
  macro to its value. A macro that is not defined is \<open>None\<close>, so \<open>#ifdef\<close> is a test of that
  map.

  Three shapes recur in the shim: a \<open>switch\<close> over constants with a row per \<open>case\<close> (the
  first row that matches; \<open>map_of\<close>), two such switches that undo each other (the locale
  \<open>switch_pair\<close>), and a row of \<open>if (flags & a) ret |= b;\<close> (\<open>or_flags\<close>).
\<close>

section \<open>The host's headers\<close>

type_synonym header = "string \<Rightarrow> u32 option"

definition hval :: "header \<Rightarrow> string \<Rightarrow> u32" where
  "hval h n = (case h n of Some v \<Rightarrow> v | None \<Rightarrow> 0)"

definition ifdef :: "header \<Rightarrow> string \<Rightarrow> 'a list \<Rightarrow> 'a list" where
  "ifdef h n xs = (if h n = None then [] else xs)"

lemma map_ifdef [simp]: "map f (ifdef h n xs) = ifdef h n (map f xs)"
  by (simp add: ifdef_def)

lemma set_ifdef: "x \<in> set (ifdef h n xs) \<Longrightarrow> x \<in> set xs"
  by (simp add: ifdef_def split: if_splits)

section \<open>Failures\<close>

text \<open>
  \<open>handle_runtime_error\<close> formats its message and throws \<open>std::runtime_error\<close>: the thrown
  value is the format and the arguments.
\<close>

datatype shim_error = Runtime_error string "u32 list"

type_synonym 'a result = "shim_error + 'a"

definition handle_runtime_error :: "string \<Rightarrow> u32 list \<Rightarrow> 'a result" where
  "handle_runtime_error fmt args = Inl (Runtime_error fmt args)"

definition bindr :: "'a result \<Rightarrow> ('a \<Rightarrow> 'b result) \<Rightarrow> 'b result" where
  "bindr r f = (case r of Inl e \<Rightarrow> Inl e | Inr x \<Rightarrow> f x)"

lemma bindr_simps [simp]:
  "bindr (Inl e) f = Inl e" "bindr (Inr x) f = f x"
  by (simp_all add: bindr_def)

lemma bindr_Inr_iff: "bindr r f = Inr y \<longleftrightarrow> (\<exists>x. r = Inr x \<and> f x = Inr y)"
  by (cases r) simp_all

lemma bindr_Inl_iff: "bindr r f = Inl e \<longleftrightarrow> r = Inl e \<or> (\<exists>x. r = Inr x \<and> f x = Inl e)"
  by (cases r) simp_all

definition throws :: "'a result \<Rightarrow> bool" where
  "throws r = (case r of Inl e \<Rightarrow> True | Inr x \<Rightarrow> False)"

lemma throws_simps [simp]: "throws (Inl e)" "\<not> throws (Inr x)" "throws (handle_runtime_error f a)"
  by (simp_all add: throws_def handle_runtime_error_def)

lemma not_throws: "\<not> throws r \<longleftrightarrow> (\<exists>x. r = Inr x)"
  by (cases r) simp_all

lemma throws_bindr: "throws (bindr r f) \<longleftrightarrow> throws r \<or> (\<exists>x. r = Inr x \<and> throws (f x))"
  by (cases r) simp_all

lemma runtime_error_neq_Inr [simp]: "handle_runtime_error f a \<noteq> Inr x"
  by (simp add: handle_runtime_error_def)

text \<open>A \<open>switch\<close> with a \<open>default\<close> that throws.\<close>

definition switch_or_throw :: "('k \<times> 'v) list \<Rightarrow> 'k \<Rightarrow> shim_error \<Rightarrow> 'v result" where
  "switch_or_throw rows k e = (case map_of rows k of Some v \<Rightarrow> Inr v | None \<Rightarrow> Inl e)"

section \<open>Switches that undo each other\<close>

lemma map_of_distinct_snd:
  "distinct (map snd t) \<Longrightarrow> map_of t k = Some v \<Longrightarrow> map_of (map prod.swap t) v = Some k"
proof (induction t)
  case (Cons r t)
  obtain k' v' where r: "r = (k', v')" by (cases r)
  have "v = v' \<Longrightarrow> k = k'"
    using Cons.prems r map_of_SomeD[of t k v] by (force split: if_splits)
  then show ?case using Cons r by (auto split: if_splits)
qed simp

lemma map_of_swap_None: "map_of (map prod.swap t) v = None \<longleftrightarrow> v \<notin> set (map snd t)"
  by (simp add: map_of_eq_None_iff image_image)

text \<open>
  \<open>to_rows h\<close> are the cases of a switch from the guest's numbers to the host's, \<open>from_rows h\<close>
  those of the switch back. The second lists the same pairs the other way round; the labels
  of the first are literals of the source; those of the second are macros of the host, whose
  values differ under \<open>ok\<close> (two equal labels in one switch do not compile).
\<close>

locale switch_pair =
  fixes ok :: "header \<Rightarrow> bool"
    and to_rows :: "header \<Rightarrow> ('g \<times> 'v) list"
    and from_rows :: "header \<Rightarrow> ('v \<times> 'g) list"
  assumes mirror: "from_rows h = map prod.swap (to_rows h)"
    and to_labels: "distinct (map fst (to_rows h))"
    and to_values: "ok h \<Longrightarrow> distinct (map snd (to_rows h))"
begin

lemma from_to: "ok h \<Longrightarrow> map_of (to_rows h) g = Some v \<Longrightarrow> map_of (from_rows h) v = Some g"
  using map_of_distinct_snd[OF to_values] by (simp add: mirror)

lemma to_from:
  assumes "map_of (from_rows h) v = Some g"
  shows "map_of (to_rows h) g = Some v"
proof -
  have "(g, v) \<in> set (to_rows h)"
    using map_of_SomeD[OF assms] by (auto simp: mirror)
  with to_labels[of h] show ?thesis by simp
qed

lemma inverse: "ok h \<Longrightarrow> map_of (from_rows h) v = Some g \<longleftrightarrow> map_of (to_rows h) g = Some v"
  using from_to to_from by blast

lemma to_inj: "ok h \<Longrightarrow> map_of (to_rows h) g = Some v \<Longrightarrow> map_of (to_rows h) g' = Some v \<Longrightarrow> g = g'"
  by (metis from_to option.inject)

lemma not_from: "map_of (from_rows h) v = None \<longleftrightarrow> v \<notin> set (map snd (to_rows h))"
  unfolding mirror by (rule map_of_swap_None)

end

section \<open>Translated flags\<close>

fun or_flags :: "(u32 \<times> u32) list \<Rightarrow> u32 \<Rightarrow> u32" where
  "or_flags [] flags = 0"
| "or_flags ((a, b) # rows) flags =
     (if flags AND a \<noteq> 0 then b OR or_flags rows flags else or_flags rows flags)"

definition single_bit :: "u32 \<Rightarrow> bool" where
  "single_bit a \<longleftrightarrow> a \<noteq> 0 \<and> a AND (a - 1) = 0"

text \<open>No two of the flags share a bit, and none is zero.\<close>

fun disjoint_flags :: "u32 list \<Rightarrow> bool" where
  "disjoint_flags [] = True"
| "disjoint_flags (b # bs) = (b \<noteq> 0 \<and> list_all (\<lambda>c. b AND c = 0) bs \<and> disjoint_flags bs)"

lemma or_flags_append: "or_flags (r @ s) f = or_flags r f OR or_flags s f"
  by (induction r) (auto simp: or.assoc)

lemma or_flags_other:
  "list_all (\<lambda>c. b AND c = 0) (map snd rows) \<Longrightarrow> or_flags rows f AND b = 0"
proof (induction rows)
  case (Cons r rows)
  obtain a c where r: "r = (a, c)" by (cases r)
  from Cons r have "or_flags rows f AND b = 0" and "c AND b = 0"
    by (simp_all add: and.commute)
  then show ?case
    by (simp add: r bit.conj_disj_distrib2)
qed simp

lemma or_flags_test:
  assumes "disjoint_flags (map snd rows)" "(a, b) \<in> set rows" "distinct (map snd rows)"
  shows "or_flags rows f AND b \<noteq> 0 \<longleftrightarrow> f AND a \<noteq> 0"
  using assms
proof (induction rows)
  case (Cons r rows)
  obtain c d where r: "r = (c, d)" by (cases r)
  show ?case
  proof (cases "(a, b) = r")
    case True
    with Cons.prems r have "or_flags rows f AND b = 0" "b \<noteq> 0"
      by (simp_all add: or_flags_other)
    with True r show ?thesis by (simp add: bit.conj_disj_distrib2)
  next
    case False
    with Cons.prems r have ab: "(a, b) \<in> set rows" by auto
    with Cons.prems r have "d AND b = 0"
      by (force simp: list_all_iff)
    with Cons ab r show ?thesis by (simp add: bit.conj_disj_distrib2)
  qed
qed simp

lemma disjoint_flags_distinct: "disjoint_flags bs \<Longrightarrow> distinct bs"
  by (induction bs) (auto simp: list_all_iff)

text \<open>Translating there and back keeps exactly the flags that have a row.\<close>

lemma or_flags_back:
  assumes "disjoint_flags (map snd rows)" "set rs \<subseteq> set rows"
  shows "or_flags (map prod.swap rs) (or_flags rows f) = or_flags (map (\<lambda>(a, b). (a, a)) rs) f"
  using assms(2)
proof (induction rs)
  case (Cons r rs)
  obtain a b where r: "r = (a, b)" by (cases r)
  have "or_flags rows f AND b \<noteq> 0 \<longleftrightarrow> f AND a \<noteq> 0"
    using Cons.prems r
    by (intro or_flags_test assms(1) disjoint_flags_distinct) auto
  with Cons r show ?case by simp
qed simp

lemma or_flags_roundtrip:
  assumes "disjoint_flags (map snd rows)"
  shows "or_flags (map prod.swap rows) (or_flags rows f) = or_flags (map (\<lambda>(a, b). (a, a)) rows) f"
  using assms by (rule or_flags_back) simp

text \<open>Rows that map single bits to themselves select those bits.\<close>

lemma or_flags_same_bits:
  "bit (or_flags (map (\<lambda>n. (2 ^ n, 2 ^ n)) ns) f) i \<longleftrightarrow> i \<in> set ns \<and> bit f i"
  by (induction ns)
     (auto simp: and_exp_eq_0_iff_not_bit bit_simps dest: bit_imp_le_length)

lemma or_flags_zero [simp]: "or_flags rows 0 = 0"
  by (induction rows) auto

end
