(* ===== verification/Shim_Once.thy ===== *)
theory Shim_Once
  imports Shim_Host
begin

text \<open>
  Two parts of \<open>src/libc-shim/src/pthreads.cpp\<close> with a life of their own: \<open>pthread_once\<close>, which
  several threads call at once, and the cleanup handlers of a thread, a chain of records in
  the guest's memory.
\<close>

section \<open>pthread_once\<close>

text \<open>
  The control word is 0 before, 1 during and 2 after the routine. A thread is before its
  compare-and-exchange, about to call the routine, inside it, about to store 2, waiting for
  the word to leave 1, or has returned; a routine that throws leaves the function with the
  word at 1. \<open>started\<close> and \<open>finished\<close> count the calls of the routine and its returns.
\<close>

datatype once_pc = Calling | Chosen | Inside | Storing | Waiting | Returned | Thrown

record once_state =
  control :: u32
  opcs :: "nat \<Rightarrow> once_pc"
  started :: nat
  finished :: nat

definition once_at :: "nat \<Rightarrow> once_pc \<Rightarrow> once_state \<Rightarrow> once_state" where
  "once_at i c s = s\<lparr>opcs := (opcs s)(i := c)\<rparr>"

definition once_cas :: "nat \<Rightarrow> once_state \<Rightarrow> once_state" where
  "once_cas i s =
    (let c = control s
     in if c = 0 then once_at i Chosen (s\<lparr>control := 1\<rparr>)
        else if c = 2 then once_at i Returned s
        else once_at i Waiting s)"

definition once_routine :: "nat \<Rightarrow> once_state \<Rightarrow> once_state" where
  "once_routine i s = once_at i Inside (s\<lparr>started := Suc (started s)\<rparr>)"

definition once_routine_returns :: "nat \<Rightarrow> once_state \<Rightarrow> once_state" where
  "once_routine_returns i s = once_at i Storing (s\<lparr>finished := Suc (finished s)\<rparr>)"

definition once_store :: "nat \<Rightarrow> once_state \<Rightarrow> once_state" where
  "once_store i s = once_at i Returned (s\<lparr>control := 2\<rparr>)"

definition once_wait :: "nat \<Rightarrow> once_state \<Rightarrow> once_state" where
  "once_wait i s = (if control s = 1 then s else once_at i Returned s)"

inductive pthread_once_step :: "nat \<Rightarrow> once_state \<Rightarrow> once_state \<Rightarrow> bool" for i :: nat where
  cas: "opcs s i = Calling \<Longrightarrow> pthread_once_step i s (once_cas i s)"
| routine: "opcs s i = Chosen \<Longrightarrow> pthread_once_step i s (once_routine i s)"
| returns: "opcs s i = Inside \<Longrightarrow> pthread_once_step i s (once_routine_returns i s)"
| throws: "opcs s i = Inside \<Longrightarrow> pthread_once_step i s (once_at i Thrown s)"
| store: "opcs s i = Storing \<Longrightarrow> pthread_once_step i s (once_store i s)"
| wait: "opcs s i = Waiting \<Longrightarrow> pthread_once_step i s (once_wait i s)"

text \<open>Any thread moves; one that has returned may call again.\<close>

inductive once_sys :: "once_state \<Rightarrow> once_state \<Rightarrow> bool" where
  move: "pthread_once_step i s t \<Longrightarrow> once_sys s t"
| again: "opcs s i = Returned \<Longrightarrow> once_sys s (once_at i Calling s)"

definition once_start :: once_state where
  "once_start = \<lparr>control = 0, opcs = (\<lambda>_. Calling), started = 0, finished = 0\<rparr>"

subsection \<open>Invariant\<close>

text \<open>The thread that was chosen to run the routine, or has thrown from it.\<close>

fun chosen :: "once_pc \<Rightarrow> bool" where
  "chosen Chosen = True"
| "chosen Inside = True"
| "chosen Storing = True"
| "chosen Thrown = True"
| "chosen _ = False"

text \<open>The counts while a thread is at a position of the chosen one.\<close>

fun chosen_counts :: "once_pc \<Rightarrow> nat \<times> nat" where
  "chosen_counts Chosen = (0, 0)"
| "chosen_counts Inside = (1, 0)"
| "chosen_counts Thrown = (1, 0)"
| "chosen_counts _ = (1, 1)"

definition once_inv :: "once_state \<Rightarrow> bool" where
  "once_inv s \<longleftrightarrow>
    (control s = 0 \<and> (\<forall>i. opcs s i = Calling) \<and> started s = 0 \<and> finished s = 0 \<or>
     control s = 1 \<and> (\<exists>j. chosen (opcs s j) \<and> chosen_counts (opcs s j) = (started s, finished s) \<and>
        (\<forall>i. i \<noteq> j \<longrightarrow> opcs s i = Calling \<or> opcs s i = Waiting)) \<or>
     control s = 2 \<and> (\<forall>i. \<not> chosen (opcs s i)) \<and> started s = 1 \<and> finished s = 1)"

lemma chosen_counts_eq:
  "chosen_counts c = (a, b) \<Longrightarrow> chosen c \<Longrightarrow> (c = Chosen \<longrightarrow> a = 0 \<and> b = 0) \<and>
    (c = Inside \<longrightarrow> a = 1 \<and> b = 0) \<and> (c = Storing \<longrightarrow> a = 1 \<and> b = 1)"
  by (cases c) auto

lemma once_invE:
  assumes "once_inv s"
  obtains (before) "control s = 0" "\<forall>i. opcs s i = Calling" "started s = 0" "finished s = 0"
    | (during) j where "control s = 1" "chosen (opcs s j)" "chosen_counts (opcs s j) = (started s, finished s)"
        "\<forall>i. i \<noteq> j \<longrightarrow> opcs s i = Calling \<or> opcs s i = Waiting"
    | (after) "control s = 2" "\<forall>i. \<not> chosen (opcs s i)" "started s = 1" "finished s = 1"
  using assms unfolding once_inv_def by (elim disjE exE conjE) (simp_all del: not_all)

lemmas once_defs = once_cas_def once_at_def once_routine_def once_routine_returns_def once_store_def
  once_wait_def Let_def

lemma once_inv_during:
  assumes "control s = 1" "chosen (opcs s j)" "chosen_counts (opcs s j) = (started s, finished s)"
    and others: "\<forall>i. i \<noteq> j \<longrightarrow> opcs s i = Calling \<or> opcs s i = Waiting"
    and st: "pthread_once_step i s t"
  shows "once_inv t"
proof (cases "i = j")
  case False
  with others have "opcs s i = Calling \<or> opcs s i = Waiting" by blast
  with st assms(1) have "control t = 1 \<and> opcs t = (opcs s)(i := Waiting) \<and>
      started t = started s \<and> finished t = finished s"
    by (auto elim!: pthread_once_step.cases simp: once_defs)
  with False assms show ?thesis
    unfolding once_inv_def by (intro disjI2 disjI1) (auto intro!: exI[of _ j])
next
  case True
  from st show ?thesis
  proof (cases rule: pthread_once_step.cases)
    case store
    with True assms show ?thesis
      unfolding once_inv_def by (intro disjI2) (auto simp: once_defs)
  qed (use True assms in \<open>auto simp: once_inv_def once_defs intro!: exI[of _ j]\<close>)
qed

lemma once_inv_step:
  assumes inv: "once_inv s" and st: "pthread_once_step i s t"
  shows "once_inv t"
  using inv
proof (cases rule: once_invE)
  case before
  with st have "t = once_cas i s" by (auto elim: pthread_once_step.cases)
  with before show ?thesis
    by (auto simp: once_inv_def once_defs intro!: exI[of _ i])
next
  case (during j)
  then show ?thesis using st by (rule once_inv_during)
next
  case after
  from st show ?thesis
    by (cases rule: pthread_once_step.cases)
       (use after in \<open>auto simp: once_inv_def once_defs split: if_splits\<close>, (metis chosen.simps)+)
qed

lemma once_inv_sys: "once_inv s \<Longrightarrow> once_sys s t \<Longrightarrow> once_inv t"
proof (erule once_sys.cases, goal_cases)
  case (2 u i)
  then have "once_inv u" "opcs u i = Returned" by simp_all
  then have "once_inv (once_at i Calling u)"
    by (cases rule: once_invE) (auto simp: once_inv_def once_defs, (metis chosen.simps once_pc.distinct)+)
  with 2 show ?case by simp
qed (auto intro: once_inv_step)

interpretation once: transition_system "\<lambda>s. s = once_start" once_sys once_inv
  by unfold_locales (simp add: once_inv_def once_start_def, rule once_inv_sys)

subsection \<open>Progress\<close>

definition can_reach :: "once_state \<Rightarrow> (once_state \<Rightarrow> bool) \<Rightarrow> bool" where
  "can_reach s P \<longleftrightarrow> (\<exists>t. once_sys\<^sup>*\<^sup>* s t \<and> P t)"

lemma can_reach_now: "P s \<Longrightarrow> can_reach s P"
  unfolding can_reach_def by blast

lemma can_reach_step: "pthread_once_step i s t \<Longrightarrow> can_reach t P \<Longrightarrow> can_reach s P"
  unfolding can_reach_def by (meson converse_rtranclp_into_rtranclp once_sys.move)

lemma can_reach_trans: "can_reach s P \<Longrightarrow> (\<And>t. P t \<Longrightarrow> can_reach t Q) \<Longrightarrow> can_reach s Q"
  unfolding can_reach_def by (meson rtranclp_trans)

text \<open>The chosen thread runs on to the end; the others stay where they are.\<close>

lemma storing_returns:
  "opcs s j = Storing \<Longrightarrow> can_reach s (\<lambda>t. control t = 2 \<and> opcs t = (opcs s)(j := Returned))"
  by (rule can_reach_step[OF pthread_once_step.store], assumption, rule can_reach_now)
     (simp add: once_defs)

lemma inside_returns:
  "opcs s j = Inside \<Longrightarrow> can_reach s (\<lambda>t. control t = 2 \<and> opcs t = (opcs s)(j := Returned))"
  using storing_returns[of "once_routine_returns j s" j]
  by - (rule can_reach_step[OF pthread_once_step.returns], assumption, simp add: once_routine_returns_def once_at_def)

lemma chosen_returns:
  "opcs s j = Chosen \<Longrightarrow> can_reach s (\<lambda>t. control t = 2 \<and> opcs t = (opcs s)(j := Returned))"
  using inside_returns[of "once_routine j s" j]
  by - (rule can_reach_step[OF pthread_once_step.routine], assumption, simp add: once_routine_def once_at_def)

lemma after_returns:
  assumes "control s = 2" "\<not> chosen (opcs s i)"
  shows "can_reach s (\<lambda>t. opcs t i = Returned)"
proof (cases "opcs s i")
  case Calling
  with assms show ?thesis
    by - (rule can_reach_step[OF pthread_once_step.cas[of s i]], assumption, rule can_reach_now, simp add: once_defs)
next
  case Waiting
  with assms show ?thesis
    by - (rule can_reach_step[OF pthread_once_step.wait[of s i]], assumption, rule can_reach_now, simp add: once_defs)
qed (use assms in \<open>simp_all add: can_reach_now\<close>)

lemma chosen_cases: "chosen c \<Longrightarrow> c \<noteq> Thrown \<Longrightarrow> c = Chosen \<or> c = Inside \<or> c = Storing"
  by (cases c) simp_all

lemma once_can_return:
  assumes inv: "once_inv s" and no_throw: "\<And>j. opcs s j \<noteq> Thrown"
  shows "can_reach s (\<lambda>t. opcs t i = Returned)"
  using inv
proof (cases rule: once_invE)
  case before
  then have "opcs s i = Calling" "opcs (once_cas i s) i = Chosen" by (simp_all add: once_defs)
  then have "can_reach (once_cas i s) (\<lambda>t. opcs t i = Returned)"
    by - (rule can_reach_trans[OF chosen_returns[of _ i]], assumption, rule can_reach_now, simp)
  with \<open>opcs s i = Calling\<close> show ?thesis
    by (rule can_reach_step[OF pthread_once_step.cas])
next
  case (during j)
  with no_throw have "opcs s j = Chosen \<or> opcs s j = Inside \<or> opcs s j = Storing"
    by (blast dest: chosen_cases)
  then have "can_reach s (\<lambda>t. control t = 2 \<and> opcs t = (opcs s)(j := Returned))"
    using chosen_returns inside_returns storing_returns by blast
  then show ?thesis
  proof (rule can_reach_trans)
    fix t :: once_state assume t: "control t = 2 \<and> opcs t = (opcs s)(j := Returned)"
    moreover from this have "\<not> chosen (opcs t i)" using during(4) by (cases "i = j") auto
    ultimately show "can_reach t (\<lambda>t. opcs t i = Returned)" by (intro after_returns) simp_all
  qed
next
  case after
  then show ?thesis by (intro after_returns) auto
qed

text \<open>A routine that throws leaves the word at 1 for good.\<close>

lemma thrown_stays:
  assumes "once_inv s" "opcs s j = Thrown" "once_sys s t"
  shows "once_inv t \<and> opcs t j = Thrown"
  using assms(3)
proof (cases rule: once_sys.cases)
  case (move i)
  then have "opcs t j = Thrown"
    using assms(2) by (cases rule: pthread_once_step.cases) (auto simp: once_defs)
  with once_inv_sys assms show ?thesis by blast
next
  case (again i)
  then have "opcs t j = Thrown" using assms(2) by (auto simp: once_defs)
  with once_inv_sys assms show ?thesis by blast
qed

lemma thrown_no_return:
  assumes "once_inv s" "opcs s j = Thrown" "once_sys\<^sup>*\<^sup>* s t"
  shows "opcs t i \<noteq> Returned"
proof -
  have "once_inv t \<and> opcs t j = Thrown"
    using assms(3,1,2) by (induction rule: rtranclp_induct) (auto dest: thrown_stays)
  then have "once_inv t" and th: "opcs t j = Thrown" by simp_all
  then show ?thesis
  proof (cases rule: once_invE)
    case (during k)
    then show ?thesis by (cases "i = k") auto
  next
    case after
    then have "\<not> chosen (opcs t j)" by blast
    with th show ?thesis by simp
  qed simp
qed

subsection \<open>Properties\<close>

text \<open>
  C6: However many threads call \<open>pthread_once\<close> on one control word and however their steps
  interleave, the routine is started at most once, and when a call has returned the routine
  has run to its end. As long as the routine has not thrown, every call can still return;
  once it has thrown, no call returns any more.
\<close>

theorem once_exactly_once:
  assumes "once_sys\<^sup>*\<^sup>* once_start s"
  shows "started s \<le> 1 \<and>
    (\<forall>i. opcs s i = Returned \<longrightarrow> started s = 1 \<and> finished s = 1) \<and>
    ((\<forall>j. opcs s j \<noteq> Thrown) \<longrightarrow> (\<forall>i. \<exists>t. once_sys\<^sup>*\<^sup>* s t \<and> opcs t i = Returned)) \<and>
    ((\<exists>j. opcs s j = Thrown) \<longrightarrow> (\<forall>t i. once_sys\<^sup>*\<^sup>* s t \<longrightarrow> opcs t i \<noteq> Returned))"
proof -
  have inv: "once_inv s" using once.inv_reachable[OF refl assms] .
  then have "started s \<le> 1 \<and> (\<forall>i. opcs s i = Returned \<longrightarrow> started s = 1 \<and> finished s = 1)"
  proof (cases rule: once_invE)
    case (during j)
    moreover have "started s \<le> 1" using during(2,3) by (cases "opcs s j") auto
    moreover have "opcs s i \<noteq> Returned" for i using during(2,4) by (cases "i = j") auto
    ultimately show ?thesis by simp
  qed auto
  with inv show ?thesis using once_can_return[of s] thrown_no_return[of s]
    unfolding can_reach_def by blast
qed

theorem once_exactly_once_witness:
  "\<exists>s. once_sys\<^sup>*\<^sup>* once_start s \<and> opcs s 0 = Chosen \<and> opcs s 1 = Waiting \<and>
     (\<exists>t. once_sys\<^sup>*\<^sup>* s t \<and> opcs t 1 = Returned)"
proof -
  let ?s = "once_cas 1 (once_cas 0 once_start)"
  have "once_sys once_start (once_cas 0 once_start)" "once_sys (once_cas 0 once_start) ?s"
    by (intro once_sys.move[OF pthread_once_step.cas], simp add: once_defs once_start_def)+
  then have r: "once_sys\<^sup>*\<^sup>* once_start ?s" by simp
  have p: "opcs ?s 0 = Chosen" "opcs ?s 1 = Waiting" "\<forall>j. opcs ?s j \<noteq> Thrown"
    by (simp_all add: once_defs once_start_def)
  with once_exactly_once[OF r] have "\<exists>t. once_sys\<^sup>*\<^sup>* ?s t \<and> opcs t 1 = Returned" by blast
  with r p show ?thesis by blast
qed

section \<open>Cleanup handlers\<close>

text \<open>
  A handler is a record in the frame of the function that registers it; the records of a
  thread are chained from the newest to the oldest, and the thread-local \<open>cleanup\<close> points to
  the newest. \<open>ran\<close> lists the calls \<open>routine(arg)\<close> that have been made. A null pointer is 0.
\<close>

record pthread_cleanup_t =
  cl_prev :: u64
  cl_routine :: u64
  cl_arg :: u64

record cleanup_state =
  cl_mem :: "u64 \<Rightarrow> pthread_cleanup_t"
  cl_current :: u64
  ran :: "(u64 \<times> u64) list"

definition pthread_cleanup_push_impl :: "u64 \<Rightarrow> u64 \<Rightarrow> u64 \<Rightarrow> cleanup_state \<Rightarrow> cleanup_state" where
  "pthread_cleanup_push_impl c cb a s =
    s\<lparr>cl_mem := (cl_mem s)(c := \<lparr>cl_prev = cl_current s, cl_routine = cb, cl_arg = a\<rparr>), cl_current := c\<rparr>"

definition call_handler :: "u64 \<Rightarrow> cleanup_state \<Rightarrow> cleanup_state" where
  "call_handler c s = s\<lparr>ran := ran s @ [(cl_routine (cl_mem s c), cl_arg (cl_mem s c))]\<rparr>"

definition pthread_cleanup_pop_impl :: "u64 \<Rightarrow> u32 \<Rightarrow> cleanup_state \<Rightarrow> cleanup_state" where
  "pthread_cleanup_pop_impl c execute s =
    (let t = s\<lparr>cl_current := cl_prev (cl_mem s c)\<rparr>
     in if execute \<noteq> 0 then call_handler c t else t)"

text \<open>
  The destructor of the thread-local holder, which runs when the thread ends: the loop over
  the chain. It ends only if the chain does, so its result is optional.
\<close>

partial_function (option) holder_loop :: "u64 \<Rightarrow> cleanup_state \<Rightarrow> cleanup_state option" where
  "holder_loop p s =
    (if p = 0 then Some s
     else (let t = call_handler p s in holder_loop (cl_prev (cl_mem t p)) t))"

definition pthread_cleanup_holder_end :: "cleanup_state \<Rightarrow> cleanup_state option" where
  "pthread_cleanup_holder_end s = holder_loop (cl_current s) s"

definition cleanup_start :: "(u64 \<Rightarrow> pthread_cleanup_t) \<Rightarrow> cleanup_state" where
  "cleanup_start m = \<lparr>cl_mem = m, cl_current = 0, ran = []\<rparr>"

subsection \<open>The stack a chain stands for\<close>

fun cleanup_chain :: "(u64 \<Rightarrow> pthread_cleanup_t) \<Rightarrow> u64 \<Rightarrow> (u64 \<times> u64 \<times> u64) list \<Rightarrow> bool" where
  "cleanup_chain m p [] = (p = 0)"
| "cleanup_chain m p ((c, cb, a) # st) =
    (p = c \<and> c \<noteq> 0 \<and> cl_routine (m c) = cb \<and> cl_arg (m c) = a \<and> cleanup_chain m (cl_prev (m c)) st)"

lemma chain_other: "c \<notin> fst ` set st \<Longrightarrow> cleanup_chain (m(c := r)) p st = cleanup_chain m p st"
  by (induction st arbitrary: p) auto

lemma chain_push:
  "cleanup_chain (cl_mem s) (cl_current s) st \<Longrightarrow> c \<noteq> 0 \<Longrightarrow> c \<notin> fst ` set st \<Longrightarrow>
    cleanup_chain (cl_mem (pthread_cleanup_push_impl c cb a s)) c ((c, cb, a) # st)"
  by (simp add: pthread_cleanup_push_impl_def chain_other)

lemma holder_loop_chain:
  "cleanup_chain (cl_mem s) p st \<Longrightarrow> holder_loop p s = Some (s\<lparr>ran := ran s @ map snd st\<rparr>)"
proof (induction st arbitrary: p s)
  case Nil
  then show ?case by (simp add: holder_loop.simps)
next
  case (Cons e st)
  obtain c cb a where e: "e = (c, cb, a)" by (cases e)
  with Cons.prems have "cleanup_chain (cl_mem (call_handler c s)) (cl_prev (cl_mem (call_handler c s) c)) st"
    by (simp add: call_handler_def)
  from Cons.IH[OF this] Cons.prems e show ?case
    by (subst holder_loop.simps) (simp add: Let_def call_handler_def)
qed

text \<open>
  What registering and removing handlers promises: a stack. An operation removes the newest
  handler (the compiler's macros pair the two calls), and a record is not registered twice.
\<close>

datatype cleanup_op = Push u64 u64 u64 | Pop u64 u32

fun cleanup_run :: "cleanup_op list \<Rightarrow> cleanup_state \<Rightarrow> cleanup_state" where
  "cleanup_run [] s = s"
| "cleanup_run (Push c cb a # ops) s = cleanup_run ops (pthread_cleanup_push_impl c cb a s)"
| "cleanup_run (Pop c e # ops) s = cleanup_run ops (pthread_cleanup_pop_impl c e s)"

text \<open>The calls the stack makes, with those at the end of the thread; \<open>None\<close> for an unpaired use.\<close>

fun stack_run :: "cleanup_op list \<Rightarrow> (u64 \<times> u64 \<times> u64) list \<Rightarrow> (u64 \<times> u64) list option" where
  "stack_run [] st = Some (map snd st)"
| "stack_run (Push c cb a # ops) st =
    (if c = 0 \<or> c \<in> fst ` set st then None else stack_run ops ((c, cb, a) # st))"
| "stack_run (Pop c e # ops) [] = None"
| "stack_run (Pop c e # ops) ((d, cb, a) # st) =
    (if c \<noteq> d then None
     else map_option (\<lambda>l. if e \<noteq> 0 then (cb, a) # l else l) (stack_run ops st))"

lemma cleanup_run_stack:
  assumes "cleanup_chain (cl_mem s) (cl_current s) st" "stack_run ops st = Some l"
  shows "\<exists>t. pthread_cleanup_holder_end (cleanup_run ops s) = Some t \<and> ran t = ran s @ l"
  using assms
proof (induction ops st arbitrary: s l rule: stack_run.induct)
  case (1 st)
  then show ?case by (simp add: pthread_cleanup_holder_end_def holder_loop_chain)
next
  case (2 c cb a ops st)
  then have c: "c \<noteq> 0" "c \<notin> fst ` set st" and l: "stack_run ops ((c, cb, a) # st) = Some l"
    by (auto split: if_splits)
  let ?t = "pthread_cleanup_push_impl c cb a s"
  have "cl_current ?t = c" "ran ?t = ran s" by (simp_all add: pthread_cleanup_push_impl_def)
  moreover from this have "cleanup_chain (cl_mem ?t) (cl_current ?t) ((c, cb, a) # st)"
    using chain_push[OF 2(2) c] by simp
  ultimately show ?case using 2(1)[of ?t l] c l by simp
next
  case (4 c e ops d cb a st)
  then obtain l' where l': "stack_run ops st = Some l'" "c = d"
      "l = (if e \<noteq> 0 then (cb, a) # l' else l')"
    by (auto split: if_splits)
  let ?t = "pthread_cleanup_pop_impl c e s"
  have "cleanup_chain (cl_mem ?t) (cl_current ?t) st" "ran ?t = (if e \<noteq> 0 then ran s @ [(cb, a)] else ran s)"
    using 4(2) l' by (auto simp: pthread_cleanup_pop_impl_def call_handler_def Let_def)
  with 4(1)[OF _ this(1) l'(1)] l' show ?case by auto
qed simp

text \<open>
  C30: For every sequence of paired registrations and removals of cleanup handlers by a
  thread, from none registered and whatever the records' memory held before, the calls made
  are those of a stack: a removal with a non-zero \<open>execute\<close> calls the newest handler, and the
  end of the thread calls those left from the newest to the oldest. The loop of the
  destructor ends.
\<close>

theorem cleanup_handlers_stack:
  assumes "stack_run ops [] = Some l"
  shows "\<exists>t. pthread_cleanup_holder_end (cleanup_run ops (cleanup_start m)) = Some t \<and> ran t = l"
  using cleanup_run_stack[of "cleanup_start m" "[]" ops l] assms by (simp add: cleanup_start_def)

theorem cleanup_handlers_stack_witness:
  "\<exists>t. pthread_cleanup_holder_end (cleanup_run [Push 8 1 10, Push 16 2 20, Push 24 3 30, Pop 24 1]
      (cleanup_start (\<lambda>_. \<lparr>cl_prev = 7, cl_routine = 7, cl_arg = 7\<rparr>))) = Some t \<and>
     ran t = [(3, 30), (2, 20), (1, 10)]"
  by (rule cleanup_handlers_stack) simp

end
