(* ===== verification/Shim_Address.thy ===== *)
theory Shim_Address
  imports Shim_Host
begin

text \<open>
  Socket constants, flags and addresses: the first half of \<open>src/libc-shim/src/network.cpp\<close> with
  the types of \<open>network.h\<close>. The guest's numbers are literals of the enumerations in the
  header; the host's are macros. An enumeration value is a 32-bit word: the guest may pass any
  number.

  A socket address is a family and, read according to the family, the members of one of three
  structures. Host and guest addresses have the same members; only the numbers of the
  families differ. The members of the structures are kept apart, and a conversion writes the
  members of the family it finds and leaves the others of the target as they were.
\<close>

section \<open>Enumerations and flags\<close>

definition from_host_ai_rows :: "header \<Rightarrow> (u32 \<times> u32) list" where
  "from_host_ai_rows h =
    [(hval h ''AI_PASSIVE'', 1), (hval h ''AI_CANONNAME'', 2), (hval h ''AI_NUMERICHOST'', 4)]"

definition from_host_ai_flags :: "header \<Rightarrow> u32 \<Rightarrow> u32" where
  "from_host_ai_flags h flags = or_flags (from_host_ai_rows h) flags"

definition to_host_ai_rows :: "header \<Rightarrow> (u32 \<times> u32) list" where
  "to_host_ai_rows h =
    [(1, hval h ''AI_PASSIVE''), (2, hval h ''AI_CANONNAME''), (4, hval h ''AI_NUMERICHOST'')]"

definition to_host_ai_flags :: "header \<Rightarrow> u32 \<Rightarrow> u32" where
  "to_host_ai_flags h flags = or_flags (to_host_ai_rows h) flags"

definition from_host_af_rows :: "header \<Rightarrow> (u32 \<times> u32) list" where
  "from_host_af_rows h =
    [(hval h ''AF_UNSPEC'', 0), (hval h ''AF_UNIX'', 1), (hval h ''AF_INET'', 2), (hval h ''AF_INET6'', 10)] @
    ifdef h ''AF_NETLINK'' [(hval h ''AF_NETLINK'', 16)]"

definition from_host_af_family :: "header \<Rightarrow> u32 \<Rightarrow> u32" where
  "from_host_af_family h family =
    (case map_of (from_host_af_rows h) family of Some f \<Rightarrow> f | None \<Rightarrow> 0)"

definition to_host_af_rows :: "header \<Rightarrow> (u32 \<times> u32) list" where
  "to_host_af_rows h =
    [(0, hval h ''AF_UNSPEC''), (1, hval h ''AF_UNIX''), (2, hval h ''AF_INET''), (10, hval h ''AF_INET6'')] @
    ifdef h ''AF_NETLINK'' [(16, hval h ''AF_NETLINK'')]"

definition to_host_af_family :: "header \<Rightarrow> u32 \<Rightarrow> u32" where
  "to_host_af_family h family =
    (case map_of (to_host_af_rows h) family of Some f \<Rightarrow> f | None \<Rightarrow> hval h ''AF_UNSPEC'')"

definition from_host_socktype_rows :: "header \<Rightarrow> (u32 \<times> u32) list" where
  "from_host_socktype_rows h =
    [(hval h ''SOCK_STREAM'', 1), (hval h ''SOCK_DGRAM'', 2), (hval h ''SOCK_RAW'', 3)]"

definition from_host_socktype :: "header \<Rightarrow> u32 \<Rightarrow> u32 result" where
  "from_host_socktype h socktype =
    switch_or_throw (from_host_socktype_rows h) socktype (Runtime_error ''Unknown socktype %d'' [socktype])"

definition to_host_socktype_rows :: "header \<Rightarrow> (u32 \<times> u32) list" where
  "to_host_socktype_rows h =
    [(1, hval h ''SOCK_STREAM''), (2, hval h ''SOCK_DGRAM''), (3, hval h ''SOCK_RAW'')]"

text \<open>The guest's type is taken modulo four: its flag bits are dropped.\<close>

definition to_host_socktype :: "header \<Rightarrow> u32 \<Rightarrow> u32 result" where
  "to_host_socktype h socktype =
    switch_or_throw (to_host_socktype_rows h) (socktype AND 3) (Runtime_error ''Unknown socktype %d'' [socktype])"

definition from_host_ipproto_rows :: "header \<Rightarrow> (u32 \<times> u32) list" where
  "from_host_ipproto_rows h =
    [(hval h ''IPPROTO_IP'', 0), (hval h ''IPPROTO_TCP'', 6), (hval h ''IPPROTO_UDP'', 17), (hval h ''IPPROTO_IPV6'', 41)]"

definition from_host_ipproto :: "header \<Rightarrow> u32 \<Rightarrow> u32 result" where
  "from_host_ipproto h proto =
    switch_or_throw (from_host_ipproto_rows h) proto (Runtime_error ''Unknown ipproto %d'' [proto])"

definition to_host_ipproto_rows :: "header \<Rightarrow> (u32 \<times> u32) list" where
  "to_host_ipproto_rows h =
    [(0, hval h ''IPPROTO_IP''), (6, hval h ''IPPROTO_TCP''), (17, hval h ''IPPROTO_UDP''), (41, hval h ''IPPROTO_IPV6'')]"

definition to_host_ipproto :: "header \<Rightarrow> u32 \<Rightarrow> u32 result" where
  "to_host_ipproto h proto =
    switch_or_throw (to_host_ipproto_rows h) proto (Runtime_error ''Unknown ipproto %d'' [proto])"

definition to_host_nameinfo_flags :: "header \<Rightarrow> u32 \<Rightarrow> u32" where
  "to_host_nameinfo_flags h flags = or_flags
    [(1, hval h ''NI_NOFQDN''), (2, hval h ''NI_NUMERICHOST''), (4, hval h ''NI_NAMEREQD''),
     (8, hval h ''NI_NUMERICSERV''), (16, hval h ''NI_DGRAM'')] flags"

section \<open>Socket options\<close>

definition to_host_sockopt_so :: "header \<Rightarrow> u32 \<Rightarrow> u32 result" where
  "to_host_sockopt_so h opt = switch_or_throw
    ([(1, hval h ''SO_DEBUG''), (2, hval h ''SO_REUSEADDR''), (3, hval h ''SO_TYPE''), (4, hval h ''SO_ERROR''),
      (5, hval h ''SO_DONTROUTE''), (6, hval h ''SO_BROADCAST''), (7, hval h ''SO_SNDBUF''), (8, hval h ''SO_RCVBUF''),
      (9, hval h ''SO_KEEPALIVE''), (10, hval h ''SO_OOBINLINE''), (13, hval h ''SO_LINGER''), (15, hval h ''SO_REUSEPORT''),
      (29, if h ''SO_TIMESTAMP_OLD'' \<noteq> None then hval h ''SO_TIMESTAMP_OLD'' else hval h ''SO_TIMESTAMP'')] @
     ifdef h ''SO_TIMESTAMP_NEW'' [(63, hval h ''SO_TIMESTAMP_NEW'')])
    opt (Runtime_error ''Unknown SO sockopt %d'' [opt])"

definition to_host_sockopt_ip :: "header \<Rightarrow> u32 \<Rightarrow> u32 result" where
  "to_host_sockopt_ip h opt = switch_or_throw
    [(1, hval h ''IP_TOS''), (2, hval h ''IP_TTL''), (3, hval h ''IP_HDRINCL''), (4, hval h ''IP_OPTIONS''),
     (6, hval h ''IP_RECVOPTS''), (7, hval h ''IP_RETOPTS''), (16, hval h ''IP_IPSEC_POLICY''),
     (32, hval h ''IP_MULTICAST_IF''), (33, hval h ''IP_MULTICAST_TTL''), (34, hval h ''IP_MULTICAST_LOOP''),
     (35, hval h ''IP_ADD_MEMBERSHIP''), (36, hval h ''IP_DROP_MEMBERSHIP'')]
    opt (Runtime_error ''Unknown IP sockopt %d'' [opt])"

definition to_host_sockopt_ipv6 :: "header \<Rightarrow> u32 \<Rightarrow> u32 result" where
  "to_host_sockopt_ipv6 h opt = switch_or_throw
    [(2, hval h ''IPV6_2292PKTINFO''), (3, hval h ''IPV6_2292HOPOPTS''), (4, hval h ''IPV6_2292DSTOPTS''),
     (5, hval h ''IPV6_2292RTHDR''), (6, hval h ''IPV6_2292PKTOPTIONS''), (7, hval h ''IPV6_CHECKSUM''),
     (8, hval h ''IPV6_2292HOPLIMIT''), (16, hval h ''IPV6_UNICAST_HOPS''), (17, hval h ''IPV6_MULTICAST_IF''),
     (18, hval h ''IPV6_MULTICAST_HOPS''), (19, hval h ''IPV6_MULTICAST_LOOP''), (20, hval h ''IPV6_JOIN_GROUP''),
     (21, hval h ''IPV6_LEAVE_GROUP''), (26, hval h ''IPV6_V6ONLY''), (34, hval h ''IPV6_IPSEC_POLICY'')]
    opt (Runtime_error ''Unknown IPv6 sockopt %d'' [opt])"

definition to_host_sockopt_level :: "header \<Rightarrow> u32 \<Rightarrow> u32 result" where
  "to_host_sockopt_level h level = (if level = 1 then Inr (hval h ''SOL_SOCKET'') else to_host_ipproto h level)"

definition to_host_sockopt :: "header \<Rightarrow> u32 \<Rightarrow> u32 \<Rightarrow> u32 result" where
  "to_host_sockopt h level opt =
    bindr (to_host_sockopt_level h level) (\<lambda>level.
      if level = hval h ''SOL_SOCKET'' then to_host_sockopt_so h opt
      else if level = hval h ''IPPROTO_IP'' then to_host_sockopt_ip h opt
      else if level = hval h ''IPPROTO_IPV6'' then to_host_sockopt_ipv6 h opt
      else if level = hval h ''IPPROTO_TCP'' then Inr opt
      else handle_runtime_error ''Unknown sockopt level %d'' [level])"

section \<open>Addresses\<close>

record sockaddr =
  sa_family :: u16
  sun_path :: bytes
  sin_port :: u16
  sin_addr :: u32
  sin6_port :: u16
  sin6_flowinfo :: u32
  sin6_addr :: bytes
  sin6_scope_id :: u32

definition memcpy :: "nat \<Rightarrow> bytes \<Rightarrow> bytes \<Rightarrow> bytes" where
  "memcpy n src dst = take n src @ drop n dst"

definition from_host :: "header \<Rightarrow> sockaddr \<Rightarrow> sockaddr \<Rightarrow> sockaddr result" where
  "from_host h a out =
    (let f = ucast (sa_family a)
     in if f = hval h ''AF_UNSPEC'' then Inr (out\<lparr>sa_family := 0\<rparr>)
        else if f = hval h ''AF_UNIX'' then
          Inr (out\<lparr>sa_family := sa_family a, sun_path := memcpy 108 (sun_path a) (sun_path out)\<rparr>)
        else if f = hval h ''AF_INET'' then
          Inr (out\<lparr>sa_family := 2, sin_port := sin_port a, sin_addr := sin_addr a\<rparr>)
        else if f = hval h ''AF_INET6'' then
          Inr (out\<lparr>sa_family := 10, sin6_port := sin6_port a, sin6_flowinfo := sin6_flowinfo a,
                  sin6_addr := memcpy 16 (sin6_addr a) (sin6_addr out), sin6_scope_id := sin6_scope_id a\<rparr>)
        else handle_runtime_error ''Unknown socket family when converting sockaddr from host %d'' [f])"

definition to_host :: "header \<Rightarrow> sockaddr \<Rightarrow> sockaddr \<Rightarrow> sockaddr result" where
  "to_host h a out =
    (let f = ucast (sa_family a)
     in if f = 0 then Inr (out\<lparr>sa_family := ucast (hval h ''AF_UNSPEC'')\<rparr>)
        else if f = 1 then
          Inr (out\<lparr>sa_family := sa_family a, sun_path := memcpy 108 (sun_path a) (sun_path out)\<rparr>)
        else if f = 2 then
          Inr (out\<lparr>sa_family := ucast (hval h ''AF_INET''), sin_port := sin_port a, sin_addr := sin_addr a\<rparr>)
        else if f = 10 then
          Inr (out\<lparr>sa_family := ucast (hval h ''AF_INET6''), sin6_port := sin6_port a, sin6_flowinfo := sin6_flowinfo a,
                  sin6_addr := memcpy 16 (sin6_addr a) (sin6_addr out), sin6_scope_id := sin6_scope_id a\<rparr>)
        else handle_runtime_error ''Unknown socket family when converting sockaddr to host %d'' [f])"

text \<open>
  The sizes of the host's structures are part of its headers; those of the guest's are fixed
  by the declarations: 110, 16 and 28 bytes. A null pointer is \<open>None\<close>.
\<close>

definition get_host_len :: "header \<Rightarrow> sockaddr option \<Rightarrow> u32 result" where
  "get_host_len h p =
    (case p of None \<Rightarrow> Inr 0
     | Some a \<Rightarrow>
        let f = ucast (sa_family a)
        in if f = 1 then Inr (hval h ''sizeof(sockaddr_un)'')
           else if f = 2 then Inr (hval h ''sizeof(sockaddr_in)'')
           else if f = 10 then Inr (hval h ''sizeof(sockaddr_in6)'')
           else handle_runtime_error ''Unknown socket family when converting sockaddr to host %d'' [f])"

definition get_bionic_len :: "header \<Rightarrow> sockaddr option \<Rightarrow> u32 result" where
  "get_bionic_len h p =
    (case p of None \<Rightarrow> Inr 0
     | Some a \<Rightarrow>
        let f = ucast (sa_family a)
        in if f = hval h ''AF_UNIX'' then Inr 110
           else if f = hval h ''AF_INET'' then Inr 16
           else if f = hval h ''AF_INET6'' then Inr 28
           else handle_runtime_error ''Unknown socket family when converting sockaddr from host %d'' [f])"

section \<open>What a host's headers are assumed to be\<close>

text \<open>
  The constants of one switch differ, address families fit the 16 bits of \<open>sa_family\<close>, flags
  do not share bits, and local sockets have the family 1 that every system gives them (the
  conversion copies that number without translating it).
\<close>

definition net_header :: "header \<Rightarrow> bool" where
  "net_header h \<longleftrightarrow>
    distinct (map snd (to_host_af_rows h)) \<and>
    list_all (\<lambda>(g, v). v < 0x10000) (to_host_af_rows h) \<and>
    hval h ''AF_UNIX'' = 1 \<and>
    distinct (map snd (to_host_socktype_rows h)) \<and>
    distinct (map snd (to_host_ipproto_rows h)) \<and>
    disjoint_flags (map snd (to_host_ai_rows h))"

lemmas af_rows_defs = from_host_af_rows_def to_host_af_rows_def

interpretation af: switch_pair net_header to_host_af_rows from_host_af_rows
proof
  fix h
  show "from_host_af_rows h = map prod.swap (to_host_af_rows h)" by (simp add: af_rows_defs)
  show "distinct (map fst (to_host_af_rows h))" by (simp add: af_rows_defs ifdef_def)
qed (simp add: net_header_def)

interpretation socktype: switch_pair net_header to_host_socktype_rows from_host_socktype_rows
  by unfold_locales (simp_all add: to_host_socktype_rows_def from_host_socktype_rows_def net_header_def)

interpretation ipproto: switch_pair net_header to_host_ipproto_rows from_host_ipproto_rows
  by unfold_locales (simp_all add: to_host_ipproto_rows_def from_host_ipproto_rows_def net_header_def)

section \<open>The meaning of an address\<close>

datatype addr_view =
    No_Address
  | Local_Address bytes
  | Inet_Address u16 u32
  | Inet6_Address u16 u32 bytes u32

definition view_as :: "u32 \<Rightarrow> u32 \<Rightarrow> u32 \<Rightarrow> u32 \<Rightarrow> sockaddr \<Rightarrow> addr_view option" where
  "view_as unspec un inet inet6 a =
    (let f = ucast (sa_family a)
     in if f = unspec then Some No_Address
        else if f = un then Some (Local_Address (sun_path a))
        else if f = inet then Some (Inet_Address (sin_port a) (sin_addr a))
        else if f = inet6 then Some (Inet6_Address (sin6_port a) (sin6_flowinfo a) (sin6_addr a) (sin6_scope_id a))
        else None)"

definition guest_view :: "sockaddr \<Rightarrow> addr_view option" where
  "guest_view = view_as 0 1 2 10"

definition host_view :: "header \<Rightarrow> sockaddr \<Rightarrow> addr_view option" where
  "host_view h = view_as (hval h ''AF_UNSPEC'') (hval h ''AF_UNIX'') (hval h ''AF_INET'') (hval h ''AF_INET6'')"

text \<open>
  The arrays of the structures have their declared lengths, with paths of 108 bytes on both sides, as the
  guest and a Linux host have them. On macOS a path has 104 bytes while the code copies 108, which reads
  or writes four bytes behind the host's structure; that host is outside the model.
\<close>

definition sa_wf :: "sockaddr \<Rightarrow> bool" where
  "sa_wf a \<longleftrightarrow> length (sun_path a) = 108 \<and> length (sin6_addr a) = 16"

lemma memcpy_all: "length src = n \<Longrightarrow> length dst = n \<Longrightarrow> memcpy n src dst = src"
  by (simp add: memcpy_def)

lemma ucast_family:
  assumes "v < 0x10000"
  shows "ucast (ucast v :: u16) = (v :: u32)"
proof -
  have "uint v < 2 ^ 16" using assms by (simp add: word_less_def)
  then have "take_bit 16 (uint v) = uint v" by (simp add: take_bit_int_eq_self_iff)
  moreover have "uint (ucast (ucast v :: u16) :: u32) = take_bit 16 (uint v)"
    by transfer simp
  ultimately show ?thesis by (metis word_uint_eqI)
qed

text \<open>The four families of a host, as the proofs below use them.\<close>

lemma families:
  assumes "net_header h"
  shows "distinct [hval h ''AF_UNSPEC'', hval h ''AF_UNIX'', hval h ''AF_INET'', hval h ''AF_INET6'']"
    and "hval h ''AF_UNIX'' = 1"
    and "ucast (ucast (hval h ''AF_UNSPEC'') :: u16) = hval h ''AF_UNSPEC''"
    and "ucast (ucast (hval h ''AF_INET'') :: u16) = hval h ''AF_INET''"
    and "ucast (ucast (hval h ''AF_INET6'') :: u16) = hval h ''AF_INET6''"
  using assms unfolding net_header_def to_host_af_rows_def by (auto simp: ucast_family)

lemma ucast_families [simp]:
  "ucast (0 :: u16) = (0 :: u32)" "ucast (2 :: u16) = (2 :: u32)" "ucast (10 :: u16) = (10 :: u32)"
  by simp_all

lemma from_host_view:
  assumes h: "net_header h" and wf: "sa_wf a" "sa_wf out" and v: "host_view h a = Some v"
  shows "\<exists>b. from_host h a out = Inr b \<and> guest_view b = Some v \<and> sa_wf b"
  using families(1,2)[OF h] wf v
  by (auto simp: from_host_def host_view_def guest_view_def view_as_def sa_wf_def memcpy_all Let_def
      split: if_splits)

lemma to_host_view:
  assumes h: "net_header h" and wf: "sa_wf a" "sa_wf out" and v: "guest_view a = Some v"
  shows "\<exists>b. to_host h a out = Inr b \<and> host_view h b = Some v \<and> sa_wf b"
  using families[OF h] wf v
  by (auto simp: to_host_def host_view_def guest_view_def view_as_def sa_wf_def memcpy_all Let_def
      split: if_splits)

lemma from_host_throws: "throws (from_host h a out) \<longleftrightarrow> host_view h a = None"
  by (auto simp: from_host_def host_view_def view_as_def Let_def)

lemma to_host_throws: "throws (to_host h a out) \<longleftrightarrow> guest_view a = None"
  by (auto simp: to_host_def guest_view_def view_as_def Let_def)

text \<open>Where the guest's size is known, the conversion does not throw.\<close>

lemma bionic_len_converts:
  "get_bionic_len h (Some a) = Inr n \<Longrightarrow> \<exists>v. host_view h a = Some v"
  by (auto simp: get_bionic_len_def host_view_def view_as_def Let_def)

lemma bionic_len_le: "get_bionic_len h p = Inr n \<Longrightarrow> n \<in> {0, 16, 28, 110}"
  by (auto simp: get_bionic_len_def Let_def split: option.splits if_splits)

section \<open>Constants there and back\<close>

lemma switch_or_throw_Inr: "switch_or_throw rows k e = Inr v \<longleftrightarrow> map_of rows k = Some v"
  by (simp add: switch_or_throw_def split: option.split)

lemma socktype_there_and_back:
  assumes "net_header h"
  shows "to_host_socktype h g = Inr v \<longrightarrow> from_host_socktype h v = Inr (g AND 3)"
    and "from_host_socktype h v = Inr g \<longrightarrow> to_host_socktype h g = Inr v"
proof -
  have "g AND 3 = g" if "map_of (from_host_socktype_rows h) v = Some g"
    using that by (auto simp: from_host_socktype_rows_def split: if_splits)
  then show "from_host_socktype h v = Inr g \<longrightarrow> to_host_socktype h g = Inr v"
    using socktype.to_from[of h v g]
    by (auto simp: from_host_socktype_def to_host_socktype_def switch_or_throw_Inr)
qed (auto simp: from_host_socktype_def to_host_socktype_def switch_or_throw_Inr socktype.from_to[OF assms])

lemma ipproto_there_and_back:
  assumes "net_header h"
  shows "to_host_ipproto h g = Inr v \<longrightarrow> from_host_ipproto h v = Inr g"
    and "from_host_ipproto h v = Inr g \<longrightarrow> to_host_ipproto h g = Inr v"
  unfolding from_host_ipproto_def to_host_ipproto_def switch_or_throw_Inr
  using ipproto.from_to[OF assms] ipproto.to_from by blast+

lemma family_back:
  assumes "net_header h"
  shows "\<forall>g \<in> {0, 1, 2, 10}. from_host_af_family h (to_host_af_family h g) = g"
proof
  fix g :: u32 assume "g \<in> {0, 1, 2, 10}"
  then obtain v where v: "map_of (to_host_af_rows h) g = Some v"
    by (auto simp: to_host_af_rows_def)
  with af.from_to[OF assms v] show "from_host_af_family h (to_host_af_family h g) = g"
    by (simp add: from_host_af_family_def to_host_af_family_def)
qed

lemma three_flags: "or_flags [(1, 1), (2, 2), (4, 4)] f = f AND 7"
proof (rule word_eqI_bits)
  fix i :: nat
  have rows: "[(1, 1), (2, 2), (4, 4)] = map (\<lambda>n. (2 ^ n :: u32, 2 ^ n :: u32)) [0, 1, 2]" by simp
  have seven: "(7 :: u32) = mask 3" by (simp add: mask_eq_exp_minus_1)
  have "i \<in> set [0, 1, 2] \<longleftrightarrow> i < 3" by auto
  then show "bit (or_flags [(1, 1), (2, 2), (4, 4)] f) i \<longleftrightarrow> bit (f AND 7) i"
    unfolding rows seven or_flags_same_bits bit_and_iff bit_mask_iff
    by (auto dest: bit_imp_le_length)
qed

lemma ai_flags_back:
  assumes "net_header h"
  shows "from_host_ai_flags h (to_host_ai_flags h f) = f AND 7"
proof -
  have "from_host_ai_rows h = map prod.swap (to_host_ai_rows h)"
    by (simp add: from_host_ai_rows_def to_host_ai_rows_def)
  then have "from_host_ai_flags h (to_host_ai_flags h f) = or_flags (map (\<lambda>(a, b). (a, a)) (to_host_ai_rows h)) f"
    using or_flags_roundtrip[of "to_host_ai_rows h" f] assms
    by (simp add: from_host_ai_flags_def to_host_ai_flags_def net_header_def)
  also have "\<dots> = f AND 7" using three_flags[of f] by (simp add: to_host_ai_rows_def)
  finally show ?thesis .
qed

section \<open>A host to evaluate on\<close>

text \<open>A host with other numbers than the guest's for every constant but \<open>AF_UNIX\<close>.\<close>

definition sample_net :: header where
  "sample_net = map_of
    [(''AF_UNSPEC'', 0), (''AF_UNIX'', 1), (''AF_INET'', 5), (''AF_INET6'', 30),
     (''SOCK_STREAM'', 3), (''SOCK_DGRAM'', 1), (''SOCK_RAW'', 2),
     (''IPPROTO_IP'', 0), (''IPPROTO_TCP'', 16), (''IPPROTO_UDP'', 7), (''IPPROTO_IPV6'', 40),
     (''AI_PASSIVE'', 4), (''AI_CANONNAME'', 1), (''AI_NUMERICHOST'', 2),
     (''sizeof(sockaddr_un)'', 106), (''sizeof(sockaddr_in)'', 16), (''sizeof(sockaddr_in6)'', 28)]"

lemma sample_net_header: "net_header sample_net"
  by (simp add: net_header_def to_host_af_rows_def to_host_socktype_rows_def to_host_ipproto_rows_def
      to_host_ai_rows_def ifdef_def hval_def sample_net_def)

definition blank_sockaddr :: sockaddr where
  "blank_sockaddr = \<lparr>sa_family = 0, sun_path = replicate 108 0, sin_port = 0, sin_addr = 0, sin6_port = 0,
     sin6_flowinfo = 0, sin6_addr = replicate 16 0, sin6_scope_id = 0\<rparr>"

lemma blank_wf [simp]: "sa_wf blank_sockaddr"
  by (simp add: sa_wf_def blank_sockaddr_def)

section \<open>Properties\<close>

text \<open>
  C31: Converting a socket address keeps what it means: its family and, for a local, IPv4 or
  IPv6 address, every member of it, whatever the target held before; converting back gives an
  address with the same meaning. This holds from host to guest and from guest to host, on hosts whose local
  paths have 108 bytes, and exactly the addresses of other families make the conversion throw.
\<close>

theorem sockaddr_roundtrip:
  assumes "net_header h" "sa_wf a" "sa_wf out" "sa_wf out'"
  shows "(\<forall>v. host_view h a = Some v \<longrightarrow> (\<exists>b c. from_host h a out = Inr b \<and> guest_view b = Some v \<and>
        to_host h b out' = Inr c \<and> host_view h c = Some v)) \<and>
    (\<forall>v. guest_view a = Some v \<longrightarrow> (\<exists>b c. to_host h a out = Inr b \<and> host_view h b = Some v \<and>
        from_host h b out' = Inr c \<and> guest_view c = Some v)) \<and>
    (throws (from_host h a out) \<longleftrightarrow> host_view h a = None) \<and>
    (throws (to_host h a out) \<longleftrightarrow> guest_view a = None)"
  using from_host_view[OF assms(1)] to_host_view[OF assms(1)] assms(2-4)
  by (metis from_host_throws to_host_throws)

theorem sockaddr_roundtrip_witness:
  "\<exists>b c. from_host sample_net (blank_sockaddr\<lparr>sa_family := 5, sin_port := 80, sin_addr := 77\<rparr>) blank_sockaddr = Inr b \<and>
     guest_view b = Some (Inet_Address 80 77) \<and> to_host sample_net b blank_sockaddr = Inr c \<and>
     host_view sample_net c = Some (Inet_Address 80 77)"
proof -
  let ?a = "blank_sockaddr\<lparr>sa_family := 5, sin_port := 80, sin_addr := 77\<rparr>"
  have "sa_wf ?a" "host_view sample_net ?a = Some (Inet_Address 80 77)"
    by (simp_all add: sa_wf_def blank_sockaddr_def host_view_def view_as_def hval_def sample_net_def)
  with sockaddr_roundtrip[OF sample_net_header _ blank_wf blank_wf] show ?thesis by blast
qed

text \<open>
  The constants of sockets survive the way to the host and back: address families the
  shim knows, protocols, socket types up to the flag bits (which are dropped), and the three
  lookup flags; an unknown type or protocol throws and never becomes another one.
\<close>

theorem socket_constants_roundtrip:
  assumes "net_header h"
  shows "(\<forall>g \<in> {0, 1, 2, 10}. from_host_af_family h (to_host_af_family h g) = g) \<and>
    (\<forall>g v. to_host_socktype h g = Inr v \<longrightarrow> from_host_socktype h v = Inr (g AND 3)) \<and>
    (\<forall>g v. to_host_ipproto h g = Inr v \<longrightarrow> from_host_ipproto h v = Inr g) \<and>
    (\<forall>v g. from_host_socktype h v = Inr g \<longrightarrow> to_host_socktype h g = Inr v) \<and>
    (\<forall>v g. from_host_ipproto h v = Inr g \<longrightarrow> to_host_ipproto h g = Inr v) \<and>
    (\<forall>f. from_host_ai_flags h (to_host_ai_flags h f) = f AND 7)"
  apply (intro conjI allI)
       apply (rule family_back[OF assms])
      apply (rule socktype_there_and_back(1)[OF assms])
     apply (rule ipproto_there_and_back(1)[OF assms])
    apply (rule socktype_there_and_back(2)[OF assms])
   apply (rule ipproto_there_and_back(2)[OF assms])
  apply (rule ai_flags_back[OF assms])
  done

theorem socket_constants_roundtrip_witness:
  "to_host_ipproto sample_net 6 = Inr 16 \<and> from_host_ipproto sample_net 16 = Inr 6 \<and>
   from_host_ai_flags sample_net (to_host_ai_flags sample_net 9) = 1"
proof -
  have "to_host_ipproto sample_net 6 = Inr 16"
    by (simp add: to_host_ipproto_def to_host_ipproto_rows_def switch_or_throw_def hval_def sample_net_def)
  moreover have "from_host_ipproto sample_net 16 = Inr 6"
    using socket_constants_roundtrip[OF sample_net_header] calculation by blast
  moreover have "from_host_ai_flags sample_net (to_host_ai_flags sample_net 9) = 9 AND 7"
    using socket_constants_roundtrip[OF sample_net_header] by blast
  ultimately show ?thesis by simp
qed

end
