(* ===== verification/Shim_Network.thy ===== *)
theory Shim_Network
  imports Shim_Address "HOL-Library.Multiset"
begin

text \<open>
  Lists of addresses and the socket calls: the second half of \<open>src/libc-shim/src/network.cpp\<close>
  with the helper classes of \<open>network.h\<close>. A chain of records linked by \<open>ai_next\<close> or \<open>ifa_next\<close>
  is the list of its records. The memory the shim allocates is counted: a heap is the blocks
  in use, and releasing a block that is not in use marks the heap as corrupt. Calls into the
  host are arguments: functions that take what the host is given and return what it answers.
\<close>

section \<open>Memory\<close>

record heap =
  next_block :: nat
  blocks :: "nat list"
  corrupt :: bool

definition alloc :: "heap \<Rightarrow> nat \<times> heap" where
  "alloc m = (next_block m, m\<lparr>next_block := Suc (next_block m), blocks := next_block m # blocks m\<rparr>)"

definition release :: "nat \<Rightarrow> heap \<Rightarrow> heap" where
  "release p m = (if p \<in> set (blocks m) then m\<lparr>blocks := remove1 p (blocks m)\<rparr> else m\<lparr>corrupt := True\<rparr>)"

text \<open>\<open>free\<close> of a pointer that may be null.\<close>

definition release_opt :: "(nat \<times> 'a) option \<Rightarrow> heap \<Rightarrow> heap" where
  "release_opt p m = (case p of None \<Rightarrow> m | Some (b, x) \<Rightarrow> release b m)"

section \<open>Lists of resolved addresses\<close>

text \<open>The host's records, and the guest's with the blocks they and their parts occupy.\<close>

record host_addrinfo =
  h_flags :: u32
  h_family :: u32
  h_socktype :: u32
  h_protocol :: u32
  h_addr :: "sockaddr option"
  h_canonname :: "string option"

record addrinfo =
  ai_block :: nat
  ai_flags :: u32
  ai_family :: u32
  ai_socktype :: u32
  ai_protocol :: u32
  ai_addrlen :: u32
  ai_canonname :: "(nat \<times> string) option"
  ai_addr :: "(nat \<times> sockaddr) option"

text \<open>\<open>junk\<close> is what freshly allocated memory holds.\<close>

definition copy_addr ::
  "header \<Rightarrow> sockaddr \<Rightarrow> sockaddr option \<Rightarrow> u32 \<Rightarrow> heap \<Rightarrow> (nat \<times> sockaddr) option result \<times> heap" where
  "copy_addr h junk p len m =
    (case (if len \<noteq> 0 then p else None) of
       None \<Rightarrow> (Inr None, m)
     | Some a \<Rightarrow> (case alloc m of (b, m') \<Rightarrow> (bindr (from_host h a junk) (\<lambda>c. Inr (Some (b, c))), m')))"

definition copy_name :: "string option \<Rightarrow> heap \<Rightarrow> (nat \<times> string) option \<times> heap" where
  "copy_name p m =
    (case p of None \<Rightarrow> (None, m) | Some n \<Rightarrow> (case alloc m of (b, m') \<Rightarrow> (Some (b, n), m')))"

text \<open>
  The \<open>try\<close> block of \<open>from_host_alloc\<close> up to the recursive call: the fields that may throw, in
  order, then the copies.
\<close>

definition checked_fields :: "header \<Rightarrow> host_addrinfo \<Rightarrow> (u32 \<times> u32 \<times> u32) result" where
  "checked_fields h i =
    bindr (from_host_socktype h (h_socktype i)) (\<lambda>st.
    bindr (from_host_ipproto h (h_protocol i)) (\<lambda>pr.
    bindr (get_bionic_len h (h_addr i)) (\<lambda>len. Inr (st, pr, len))))"

definition fill_addrinfo ::
  "header \<Rightarrow> sockaddr \<Rightarrow> host_addrinfo \<Rightarrow> nat \<Rightarrow> heap \<Rightarrow> addrinfo result \<times> heap" where
  "fill_addrinfo h junk i out m =
    (case checked_fields h i of
       Inl e \<Rightarrow> (Inl e, m)
     | Inr (st, pr, len) \<Rightarrow>
         (case copy_addr h junk (h_addr i) len m of
            (Inl e, m) \<Rightarrow> (Inl e, m)
          | (Inr addr, m) \<Rightarrow>
             (case copy_name (h_canonname i) m of
                (name, m) \<Rightarrow>
                  (Inr \<lparr>ai_block = out, ai_flags = from_host_ai_flags h (h_flags i),
                        ai_family = from_host_af_family h (h_family i), ai_socktype = st, ai_protocol = pr,
                        ai_addrlen = len, ai_canonname = name, ai_addr = addr\<rparr>, m))))"

text \<open>A record that cannot be converted is deleted and left out, and the conversion goes on.\<close>

fun from_host_alloc :: "header \<Rightarrow> sockaddr \<Rightarrow> host_addrinfo list \<Rightarrow> heap \<Rightarrow> addrinfo list \<times> heap" where
  "from_host_alloc h junk [] m = ([], m)"
| "from_host_alloc h junk (i # ai_next) m =
    (case alloc m of (out, m) \<Rightarrow>
      (case fill_addrinfo h junk i out m of
         (Inr e, m) \<Rightarrow> (case from_host_alloc h junk ai_next m of (l, m) \<Rightarrow> (e # l, m))
       | (Inl err, m) \<Rightarrow> from_host_alloc h junk ai_next (release out m)))"

fun free_bionic_list :: "addrinfo list \<Rightarrow> heap \<Rightarrow> heap" where
  "free_bionic_list [] m = m"
| "free_bionic_list (e # ai_next) m =
    free_bionic_list ai_next (release (ai_block e) (release_opt (ai_canonname e) (release_opt (ai_addr e) m)))"

text \<open>
  The other direction, for the hints of a lookup. Nothing is caught: an exception leaves the
  records made so far allocated. The host's record shares the name with the guest's. The
  blocks are those of the record and of its address.
\<close>

type_synonym host_record = "nat \<times> nat option \<times> host_addrinfo"

definition host_fields :: "header \<Rightarrow> addrinfo \<Rightarrow> (u32 \<times> u32 \<times> u32) result" where
  "host_fields h e =
    bindr (if ai_socktype e \<noteq> 0 then to_host_socktype h (ai_socktype e) else Inr 0) (\<lambda>st.
    bindr (to_host_ipproto h (ai_protocol e)) (\<lambda>pr.
    bindr (get_host_len h (map_option snd (ai_addr e))) (\<lambda>len. Inr (st, pr, len))))"

definition fill_host_addrinfo ::
  "header \<Rightarrow> sockaddr \<Rightarrow> addrinfo \<Rightarrow> nat \<Rightarrow> heap \<Rightarrow> host_record result \<times> heap" where
  "fill_host_addrinfo h junk e out m =
    (case host_fields h e of
       Inl err \<Rightarrow> (Inl err, m)
     | Inr (st, pr, len) \<Rightarrow>
         (let record = \<lambda>a. \<lparr>h_flags = to_host_ai_flags h (ai_flags e), h_family = to_host_af_family h (ai_family e),
                h_socktype = st, h_protocol = pr, h_addr = a, h_canonname = map_option snd (ai_canonname e)\<rparr>
          in case (if len \<noteq> 0 then ai_addr e else None) of
               None \<Rightarrow> (Inr (out, None, record None), m)
             | Some (_, a) \<Rightarrow>
                (case alloc m of (b, m) \<Rightarrow>
                  (bindr (to_host h a junk) (\<lambda>c. Inr (out, Some b, record (Some c))), m))))"

fun to_host_alloc ::
  "header \<Rightarrow> sockaddr \<Rightarrow> addrinfo list \<Rightarrow> heap \<Rightarrow> host_record list result \<times> heap" where
  "to_host_alloc h junk [] m = (Inr [], m)"
| "to_host_alloc h junk (e # ai_next) m =
    (case alloc m of (out, m) \<Rightarrow>
      (case fill_host_addrinfo h junk e out m of
         (Inl err, m) \<Rightarrow> (Inl err, m)
       | (Inr r, m) \<Rightarrow> (case to_host_alloc h junk ai_next m of
            (Inl err, m) \<Rightarrow> (Inl err, m)
          | (Inr l, m) \<Rightarrow> (Inr (r # l), m))))"

fun free_host_list :: "host_record list \<Rightarrow> heap \<Rightarrow> heap" where
  "free_host_list [] m = m"
| "free_host_list ((out, addr, r) # ai_next) m =
    free_host_list ai_next (release out (case addr of None \<Rightarrow> m | Some b \<Rightarrow> release b m))"

text \<open>
  The lookup: \<open>resolve\<close> is the host's \<open>getaddrinfo\<close>, with its return code and list. The list the
  host allocated is the host's to free and not part of the heap here. \<open>None\<close> as the list means
  that \<open>*res\<close> is not written.
\<close>

definition getaddrinfo ::
  "(host_addrinfo list \<Rightarrow> u32 \<times> host_addrinfo list) \<Rightarrow> header \<Rightarrow> sockaddr \<Rightarrow> addrinfo list \<Rightarrow> heap \<Rightarrow>
    (u32 \<times> addrinfo list option) result \<times> heap" where
  "getaddrinfo resolve h junk hints m =
    (case to_host_alloc h junk hints m of
       (Inl e, m) \<Rightarrow> (Inl e, m)
     | (Inr hhints, m) \<Rightarrow>
        (case resolve (map (snd \<circ> snd) hhints) of (r, hres) \<Rightarrow>
          (let m = free_host_list hhints m
           in if r \<noteq> 0 then (Inr (r, None), m)
              else (case from_host_alloc h junk hres m of (res, m) \<Rightarrow> (Inr (0, Some res), m)))))"

definition freeaddrinfo :: "addrinfo list \<Rightarrow> heap \<Rightarrow> heap" where
  "freeaddrinfo ai m = free_bionic_list ai m"

section \<open>Network interfaces\<close>

record host_ifaddrs =
  hif_name :: "string option"
  hif_flags :: u32
  hif_addr :: "sockaddr option"
  hif_netmask :: "sockaddr option"

record ifaddrs =
  ifa_block :: nat
  ifa_name :: "(nat \<times> string) option"
  ifa_flags :: u32
  ifa_addr :: "(nat \<times> sockaddr) option"
  ifa_netmask :: "(nat \<times> sockaddr) option"

definition iff_rows :: "header \<Rightarrow> (u32 \<times> u32) list" where
  "iff_rows h =
    ifdef h ''IFF_UP'' [(hval h ''IFF_UP'', push_bit 0 1)] @
    ifdef h ''IFF_BROADCAST'' [(hval h ''IFF_BROADCAST'', push_bit 1 1)] @
    ifdef h ''IFF_DEBUG'' [(hval h ''IFF_DEBUG'', push_bit 2 1)] @
    ifdef h ''IFF_LOOPBACK'' [(hval h ''IFF_LOOPBACK'', push_bit 3 1)] @
    ifdef h ''IFF_POINTOPOINT'' [(hval h ''IFF_POINTOPOINT'', push_bit 4 1)] @
    ifdef h ''IFF_NOTRAILERS'' [(hval h ''IFF_NOTRAILERS'', push_bit 5 1)] @
    ifdef h ''IFF_RUNNING'' [(hval h ''IFF_RUNNING'', push_bit 6 1)] @
    ifdef h ''IFF_NOARP'' [(hval h ''IFF_NOARP'', push_bit 7 1)] @
    ifdef h ''IFF_PROMISC'' [(hval h ''IFF_PROMISC'', push_bit 8 1)] @
    ifdef h ''IFF_ALLMULTI'' [(hval h ''IFF_ALLMULTI'', push_bit 9 1)] @
    ifdef h ''IFF_MASTER'' [(hval h ''IFF_MASTER'', push_bit 10 1)] @
    ifdef h ''IFF_SLAVE'' [(hval h ''IFF_SLAVE'', push_bit 11 1)] @
    ifdef h ''IFF_MULTICAST'' [(hval h ''IFF_MULTICAST'', push_bit 12 1)] @
    ifdef h ''IFF_PORTSEL'' [(hval h ''IFF_PORTSEL'', push_bit 13 1)] @
    ifdef h ''IFF_AUTOMEDIA'' [(hval h ''IFF_AUTOMEDIA'', push_bit 14 1)] @
    ifdef h ''IFF_DYNAMIC'' [(hval h ''IFF_DYNAMIC'', push_bit 15 1)] @
    ifdef h ''IFF_LOWER_UP'' [(hval h ''IFF_LOWER_UP'', push_bit 16 1)] @
    ifdef h ''IFF_DORMANT'' [(hval h ''IFF_DORMANT'', push_bit 17 1)] @
    ifdef h ''IFF_ECHO'' [(hval h ''IFF_ECHO'', push_bit 18 1)]"

definition is_inet :: "header \<Rightarrow> sockaddr option \<Rightarrow> bool" where
  "is_inet h p =
    (case p of None \<Rightarrow> False
     | Some a \<Rightarrow> ucast (sa_family a) = hval h ''AF_INET'' \<or> ucast (sa_family a) = hval h ''AF_INET6'')"

definition copy_inet ::
  "header \<Rightarrow> sockaddr \<Rightarrow> sockaddr option \<Rightarrow> heap \<Rightarrow> (nat \<times> sockaddr) option result \<times> heap" where
  "copy_inet h junk p m =
    (case get_bionic_len h p of
       Inl e \<Rightarrow> (Inl e, m)
     | Inr len \<Rightarrow> copy_addr h junk p len m)"

text \<open>One round of the loop: an interface without an IPv4 or IPv6 address is left out.\<close>

definition one_ifaddr ::
  "header \<Rightarrow> sockaddr \<Rightarrow> host_ifaddrs \<Rightarrow> heap \<Rightarrow> ifaddrs result \<times> heap" where
  "one_ifaddr h junk c m =
    (case alloc m of (n, m) \<Rightarrow>
     (case copy_inet h junk (hif_addr c) m of
        (Inl e, m) \<Rightarrow> (Inl e, m)
      | (Inr addr, m) \<Rightarrow>
         (case (if is_inet h (hif_netmask c) then copy_inet h junk (hif_netmask c) m else (Inr None, m)) of
            (Inl e, m) \<Rightarrow> (Inl e, m)
          | (Inr netmask, m) \<Rightarrow>
             (case copy_name (hif_name c) m of (name, m) \<Rightarrow>
               (Inr \<lparr>ifa_block = n, ifa_name = name, ifa_flags = or_flags (iff_rows h) (hif_flags c),
                     ifa_addr = addr, ifa_netmask = netmask\<rparr>, m)))))"

fun getifaddrs_loop ::
  "header \<Rightarrow> sockaddr \<Rightarrow> host_ifaddrs list \<Rightarrow> heap \<Rightarrow> ifaddrs list result \<times> heap" where
  "getifaddrs_loop h junk [] m = (Inr [], m)"
| "getifaddrs_loop h junk (c # cs) m =
    (if is_inet h (hif_addr c) then
       (case one_ifaddr h junk c m of
          (Inl e, m) \<Rightarrow> (Inl e, m)
        | (Inr n, m) \<Rightarrow> (case getifaddrs_loop h junk cs m of
             (Inl e, m) \<Rightarrow> (Inl e, m)
           | (Inr l, m) \<Rightarrow> (Inr (n # l), m)))
     else getifaddrs_loop h junk cs m)"

text \<open>\<open>answer\<close> is the host's \<open>getifaddrs\<close>: a return code and the interfaces.\<close>

definition getifaddrs ::
  "u32 \<times> host_ifaddrs list \<Rightarrow> header \<Rightarrow> sockaddr \<Rightarrow> heap \<Rightarrow> (u32 \<times> ifaddrs list option) result \<times> heap" where
  "getifaddrs answer h junk m =
    (if fst answer \<noteq> 0 then (Inr (fst answer, None), m)
     else (case getifaddrs_loop h junk (snd answer) m of
       (Inl e, m) \<Rightarrow> (Inl e, m)
     | (Inr l, m) \<Rightarrow> (Inr (0, Some l), m)))"

fun freeifaddrs :: "ifaddrs list \<Rightarrow> heap \<Rightarrow> heap" where
  "freeifaddrs [] m = m"
| "freeifaddrs (c # cs) m =
    freeifaddrs cs (release (ifa_block c)
      (release_opt (ifa_name c) (release_opt (ifa_netmask c) (release_opt (ifa_addr c) m))))"

section \<open>Socket calls\<close>

text \<open>
  Each host function is an argument \<open>sys\<close> on a state \<open>'w\<close> of the outside world. A return
  value is the integer the function returns.
\<close>

definition with_host :: "'a result \<Rightarrow> ('a \<Rightarrow> 'w \<Rightarrow> 'b \<times> 'w) \<Rightarrow> 'w \<Rightarrow> 'b result \<times> 'w" where
  "with_host r call w = (case r of Inl e \<Rightarrow> (Inl e, w) | Inr x \<Rightarrow> (case call x w of (y, w) \<Rightarrow> (Inr y, w)))"

definition shim_socket ::
  "(u32 \<Rightarrow> u32 \<Rightarrow> u32 \<Rightarrow> 'w \<Rightarrow> int \<times> 'w) \<Rightarrow> header \<Rightarrow> u32 \<Rightarrow> u32 \<Rightarrow> u32 \<Rightarrow> 'w \<Rightarrow> int result \<times> 'w" where
  "shim_socket sys h domain type proto = with_host
    (bindr (to_host_socktype h type) (\<lambda>t. bindr (to_host_ipproto h proto) (\<lambda>p. Inr (t, p))))
    (\<lambda>(t, p). sys (to_host_af_family h domain) t p)"

text \<open>\<open>detail::sockaddr_in\<close>: an address given by the guest, in zeroed storage, and its length.\<close>

definition sockaddr_in :: "header \<Rightarrow> sockaddr option \<Rightarrow> (sockaddr option \<times> u32) result" where
  "sockaddr_in h addr =
    (case addr of
       None \<Rightarrow> Inr (None, 0)
     | Some a \<Rightarrow> bindr (to_host h a blank_sockaddr) (\<lambda>b. bindr (get_host_len h addr) (\<lambda>len.
         Inr (if len \<noteq> 0 then Some b else None, len))))"

definition shim_bind ::
  "(u32 \<Rightarrow> sockaddr option \<times> u32 \<Rightarrow> 'w \<Rightarrow> int \<times> 'w) \<Rightarrow> header \<Rightarrow> u32 \<Rightarrow> sockaddr option \<Rightarrow> 'w \<Rightarrow> int result \<times> 'w" where
  "shim_bind sys h sockfd addr = with_host (sockaddr_in h addr) (sys sockfd)"

definition shim_connect ::
  "(u32 \<Rightarrow> sockaddr option \<times> u32 \<Rightarrow> 'w \<Rightarrow> int \<times> 'w) \<Rightarrow> header \<Rightarrow> u32 \<Rightarrow> sockaddr option \<Rightarrow> 'w \<Rightarrow> int result \<times> 'w" where
  "shim_connect sys h sockfd addr = with_host (sockaddr_in h addr) (sys sockfd)"

text \<open>A name lookup catches what the conversion throws and returns 5.\<close>

definition shim_getnameinfo ::
  "(sockaddr option \<times> u32 \<Rightarrow> u32 \<Rightarrow> 'w \<Rightarrow> int \<times> 'w) \<Rightarrow> header \<Rightarrow> sockaddr option \<Rightarrow> u32 \<Rightarrow> 'w \<Rightarrow> int \<times> 'w" where
  "shim_getnameinfo sys h addr flags w =
    (case sockaddr_in h addr of
       Inl e \<Rightarrow> (5, w)
     | Inr haddr \<Rightarrow> sys haddr (to_host_nameinfo_flags h flags) w)"

text \<open>
  \<open>detail::sock_send_flags\<close> on hosts other than macOS, where the flag is an option of the socket
  instead: only the guest's \<open>MSG_NOSIGNAL\<close> (0x4000) is understood.
\<close>

definition sock_send_flags :: "header \<Rightarrow> u32 \<Rightarrow> u32 result" where
  "sock_send_flags h flags =
    (let hflags = if flags AND 0x4000 \<noteq> 0 then hval h ''MSG_NOSIGNAL'' else 0;
         rest = if flags AND 0x4000 \<noteq> 0 then flags AND NOT 0x4000 else flags
     in if rest \<noteq> 0 then handle_runtime_error ''Unexpected flags in a socket send operation %d'' [rest]
        else Inr hflags)"

definition shim_send ::
  "(u32 \<Rightarrow> 'd \<Rightarrow> u32 \<Rightarrow> 'w \<Rightarrow> int \<times> 'w) \<Rightarrow> header \<Rightarrow> u32 \<Rightarrow> 'd \<Rightarrow> u32 \<Rightarrow> 'w \<Rightarrow> int result \<times> 'w" where
  "shim_send sys h sockfd buf flags = with_host (sock_send_flags h flags) (sys sockfd buf)"

definition shim_sendmsg ::
  "(u32 \<Rightarrow> 'd \<Rightarrow> u32 \<Rightarrow> 'w \<Rightarrow> int \<times> 'w) \<Rightarrow> header \<Rightarrow> u32 \<Rightarrow> 'd \<Rightarrow> u32 \<Rightarrow> 'w \<Rightarrow> int result \<times> 'w" where
  "shim_sendmsg sys h sockfd data flags = with_host (sock_send_flags h flags) (sys sockfd data)"

definition shim_sendto ::
  "(u32 \<Rightarrow> 'd \<Rightarrow> u32 \<Rightarrow> sockaddr option \<times> u32 \<Rightarrow> 'w \<Rightarrow> int \<times> 'w) \<Rightarrow> header \<Rightarrow> u32 \<Rightarrow> 'd \<Rightarrow> u32 \<Rightarrow>
    sockaddr option \<Rightarrow> 'w \<Rightarrow> int result \<times> 'w" where
  "shim_sendto sys h sockfd buf flags addr = with_host
    (bindr (sockaddr_in h addr) (\<lambda>a. bindr (sock_send_flags h flags) (\<lambda>f. Inr (f, a))))
    (\<lambda>(f, a). sys sockfd buf f a)"

definition recv_flags :: "header \<Rightarrow> u32 \<Rightarrow> u32" where
  "recv_flags h flags = or_flags [(0x4000, hval h ''MSG_DONTWAIT''), (2, hval h ''MSG_PEEK'')] flags"

definition shim_recv ::
  "(u32 \<Rightarrow> u32 \<Rightarrow> 'w \<Rightarrow> int \<times> 'w) \<Rightarrow> header \<Rightarrow> u32 \<Rightarrow> u32 \<Rightarrow> 'w \<Rightarrow> int \<times> 'w" where
  "shim_recv sys h sockfd flags = sys sockfd (recv_flags h flags)"

text \<open>
  \<open>detail::sockaddr_out\<close>: storage in which the host leaves an address, and its copy to the
  buffer \<open>out\<close> of the guest of size \<open>addrlen\<close>, with the new value of the size.
\<close>

definition apply_out :: "header \<Rightarrow> sockaddr \<Rightarrow> sockaddr \<Rightarrow> u32 \<Rightarrow> (sockaddr \<times> u32) result" where
  "apply_out h haddr out addrlen =
    bindr (get_bionic_len h (Some haddr)) (\<lambda>len.
      if addrlen < len then handle_runtime_error ''buffer for sockaddr not big enough'' []
      else bindr (from_host h haddr out) (\<lambda>b. Inr (b, len)))"

text \<open>
  The calls that return an address. The host's function answers with its return value and the
  address it left; the guest's buffer is an address and its size.
\<close>

definition shim_getsockname ::
  "('w \<Rightarrow> (int \<times> sockaddr) \<times> 'w) \<Rightarrow> header \<Rightarrow> sockaddr \<times> u32 \<Rightarrow> 'w \<Rightarrow> (int \<times> sockaddr \<times> u32) result \<times> 'w" where
  "shim_getsockname sys h buf w =
    (case sys w of ((r, haddr), w) \<Rightarrow>
      (if r = 0 then bindr (apply_out h haddr (fst buf) (snd buf)) (\<lambda>b. Inr (r, b)) else Inr (r, buf), w))"

definition shim_getpeername ::
  "('w \<Rightarrow> (int \<times> sockaddr) \<times> 'w) \<Rightarrow> header \<Rightarrow> sockaddr \<times> u32 \<Rightarrow> 'w \<Rightarrow> (int \<times> sockaddr \<times> u32) result \<times> 'w" where
  "shim_getpeername sys h buf w =
    (case sys w of ((r, haddr), w) \<Rightarrow>
      (if r = 0 then bindr (apply_out h haddr (fst buf) (snd buf)) (\<lambda>b. Inr (r, b)) else Inr (r, buf), w))"

text \<open>The pointer to the size may be null; then nothing is copied.\<close>

definition shim_accept ::
  "('w \<Rightarrow> (int \<times> sockaddr) \<times> 'w) \<Rightarrow> header \<Rightarrow> (sockaddr \<times> u32) option \<Rightarrow> 'w \<Rightarrow>
    (int \<times> (sockaddr \<times> u32) option) result \<times> 'w" where
  "shim_accept sys h buf w =
    (case sys w of ((r, haddr), w) \<Rightarrow>
      (case buf of
         Some (out, len) \<Rightarrow>
           (if r \<ge> 0 then bindr (apply_out h haddr out len) (\<lambda>b. Inr (r, Some b)) else Inr (r, buf), w)
       | None \<Rightarrow> (Inr (r, None), w)))"

text \<open>\<open>accept4\<close> ignores its flags.\<close>

definition shim_accept4 ::
  "('w \<Rightarrow> (int \<times> sockaddr) \<times> 'w) \<Rightarrow> header \<Rightarrow> (sockaddr \<times> u32) option \<Rightarrow> u32 \<Rightarrow> 'w \<Rightarrow>
    (int \<times> (sockaddr \<times> u32) option) result \<times> 'w" where
  "shim_accept4 sys h buf flag w =
    (case sys w of ((r, haddr), w) \<Rightarrow>
      (case buf of
         Some (out, len) \<Rightarrow>
           (if r \<ge> 0 then bindr (apply_out h haddr out len) (\<lambda>b. Inr (r, Some b)) else Inr (r, buf), w)
       | None \<Rightarrow> (Inr (r, None), w)))"

definition shim_recvfrom ::
  "(u32 \<Rightarrow> bool \<Rightarrow> 'w \<Rightarrow> (int \<times> sockaddr) \<times> 'w) \<Rightarrow> header \<Rightarrow> u32 \<Rightarrow> (sockaddr \<times> u32) option \<Rightarrow> 'w \<Rightarrow>
    (int \<times> (sockaddr \<times> u32) option) result \<times> 'w" where
  "shim_recvfrom sys h flags buf w =
    (if flags \<noteq> 0 \<and> flags \<noteq> 0x4000 then (handle_runtime_error ''recvfrom with unsupported flags %d'' [flags], w)
     else (case sys flags (buf \<noteq> None) w of ((r, haddr), w) \<Rightarrow>
       (case buf of
          None \<Rightarrow> (Inr (r, None), w)
        | Some (out, len) \<Rightarrow>
            (if r \<ge> 0 then bindr (apply_out h haddr out len) (\<lambda>b. Inr (r, Some b)) else Inr (r, buf), w))))"

text \<open>
  The header of a message, as far as names go: where \<open>msg_name\<close> points to, the size, and the
  contents of the guest's own buffer. The host is given a local buffer of the shim, and
  answers with its return value, the address and the length it writes to \<open>msg_namelen\<close>.
\<close>

datatype name_pointer = Null_Name | Guest_Name | Shim_Name

record msghdr =
  msg_name :: name_pointer
  msg_namelen :: u32
  guest_name :: sockaddr

definition shim_recvmsg ::
  "(u32 \<Rightarrow> 'w \<Rightarrow> (int \<times> sockaddr \<times> u32) \<times> 'w) \<Rightarrow> header \<Rightarrow> msghdr \<Rightarrow> u32 \<Rightarrow> 'w \<Rightarrow> int result \<times> msghdr \<times> 'w" where
  "shim_recvmsg sys h d flags w =
    (if flags \<noteq> 0 then (handle_runtime_error ''recvmsg with unsupported flags %d'' [flags], d, w)
     else
       let named = msg_name d \<noteq> Null_Name;
           d' = (if named then d\<lparr>msg_name := Shim_Name, msg_namelen := hval h ''sizeof(sockaddr_storage)''\<rparr> else d)
       in (case sys (msg_namelen d') w of ((r, haddr, hlen), w) \<Rightarrow>
            let d' = (if named then d'\<lparr>msg_namelen := hlen\<rparr> else d')
            in if r > 0 \<and> named then
                 (case apply_out h haddr (guest_name d') (msg_namelen d') of
                    Inl e \<Rightarrow> (Inl e, d', w)
                  | Inr (b, len) \<Rightarrow> (Inr r, d'\<lparr>guest_name := b, msg_namelen := len\<rparr>, w))
               else (Inr r, d', w)))"

definition shim_getsockopt ::
  "(u32 \<Rightarrow> u32 \<Rightarrow> u32 \<Rightarrow> 'w \<Rightarrow> int \<times> 'w) \<Rightarrow> header \<Rightarrow> u32 \<Rightarrow> u32 \<Rightarrow> u32 \<Rightarrow> 'w \<Rightarrow> int result \<times> 'w" where
  "shim_getsockopt sys h sockfd level optname = with_host
    (bindr (to_host_sockopt_level h level) (\<lambda>l. bindr (to_host_sockopt h level optname) (\<lambda>n. Inr (l, n))))
    (\<lambda>(l, n). sys sockfd l n)"

definition shim_setsockopt ::
  "(u32 \<Rightarrow> u32 \<Rightarrow> u32 \<Rightarrow> 'd \<Rightarrow> 'w \<Rightarrow> int \<times> 'w) \<Rightarrow> header \<Rightarrow> u32 \<Rightarrow> u32 \<Rightarrow> u32 \<Rightarrow> 'd \<Rightarrow> 'w \<Rightarrow> int result \<times> 'w" where
  "shim_setsockopt sys h sockfd level optname optval = with_host
    (bindr (to_host_sockopt_level h level) (\<lambda>l. bindr (to_host_sockopt h level optname) (\<lambda>n. Inr (l, n))))
    (\<lambda>(l, n). sys sockfd l n optval)"

definition shim_shutdown ::
  "(u32 \<Rightarrow> u32 \<Rightarrow> 'w \<Rightarrow> int \<times> 'w) \<Rightarrow> header \<Rightarrow> u32 \<Rightarrow> u32 \<Rightarrow> 'w \<Rightarrow> int result \<times> 'w" where
  "shim_shutdown sys h sockfd how = with_host
    (switch_or_throw [(0, hval h ''SHUT_RD''), (1, hval h ''SHUT_WR''), (2, hval h ''SHUT_RDWR'')] how
      (Runtime_error ''Unexpected how parameter passed to shutdown %d'' [how]))
    (sys sockfd)"

definition shim_inet_pton :: "(u32 \<Rightarrow> string \<Rightarrow> 'a) \<Rightarrow> header \<Rightarrow> u32 \<Rightarrow> string \<Rightarrow> 'a" where
  "shim_inet_pton sys h af src = sys (to_host_af_family h af) src"

definition shim_inet_ntop :: "(u32 \<Rightarrow> bytes \<Rightarrow> u32 \<Rightarrow> 'a) \<Rightarrow> header \<Rightarrow> u32 \<Rightarrow> bytes \<Rightarrow> u32 \<Rightarrow> 'a" where
  "shim_inet_ntop sys h af src sz = sys (to_host_af_family h af) src sz"

section \<open>Accounting for memory\<close>

lemma alloc_blocks [simp]:
  "alloc m = (b, m') \<Longrightarrow> mset (blocks m') = add_mset b (mset (blocks m))"
  "alloc m = (b, m') \<Longrightarrow> corrupt m' = corrupt m"
  by (auto simp: alloc_def)

lemma release_blocks:
  assumes "b \<in># mset (blocks m)"
  shows "mset (blocks (release b m)) = mset (blocks m) - {#b#}" "corrupt (release b m) = corrupt m"
  using assms by (simp_all add: release_def)

lemma releases_blocks:
  "mset ps \<subseteq># mset (blocks m) \<Longrightarrow>
    mset (blocks (fold release ps m)) = mset (blocks m) - mset ps \<and> corrupt (fold release ps m) = corrupt m"
proof (induction ps arbitrary: m)
  case (Cons p ps)
  then have p: "p \<in># mset (blocks m)" and ps: "mset ps \<subseteq># mset (blocks m) - {#p#}"
    by (auto simp: insert_subset_eq_iff)
  then have "mset ps \<subseteq># mset (blocks (release p m))" by (simp only: release_blocks[OF p])
  from Cons.IH[OF this] show ?case by (simp add: release_blocks[OF p])
qed simp

definition opt_blocks :: "(nat \<times> 'a) option \<Rightarrow> nat list" where
  "opt_blocks p = (case p of None \<Rightarrow> [] | Some (b, x) \<Rightarrow> [b])"

lemma opt_blocks_simps [simp]: "opt_blocks None = []" "opt_blocks (Some (b, x)) = [b]"
  by (simp_all add: opt_blocks_def)

lemma release_opt_fold: "release_opt p m = fold release (opt_blocks p) m"
  by (simp add: release_opt_def opt_blocks_def split: option.split)

text \<open>The blocks of a record, in the order in which they are freed.\<close>

definition ai_blocks :: "addrinfo \<Rightarrow> nat list" where
  "ai_blocks e = opt_blocks (ai_addr e) @ opt_blocks (ai_canonname e) @ [ai_block e]"

definition ifa_blocks :: "ifaddrs \<Rightarrow> nat list" where
  "ifa_blocks c = opt_blocks (ifa_addr c) @ opt_blocks (ifa_netmask c) @ opt_blocks (ifa_name c) @ [ifa_block c]"

definition rec_blocks :: "host_record \<Rightarrow> nat list" where
  "rec_blocks r = (case r of (out, addr, i) \<Rightarrow> (case addr of None \<Rightarrow> [] | Some b \<Rightarrow> [b]) @ [out])"

lemma free_bionic_list_fold: "free_bionic_list l m = fold release (concat (map ai_blocks l)) m"
  by (induction l arbitrary: m) (simp_all add: ai_blocks_def release_opt_fold)

lemma freeifaddrs_fold: "freeifaddrs l m = fold release (concat (map ifa_blocks l)) m"
  by (induction l arbitrary: m) (simp_all add: ifa_blocks_def release_opt_fold)

lemma free_host_list_fold: "free_host_list l m = fold release (concat (map rec_blocks l)) m"
proof (induction l arbitrary: m)
  case (Cons r l)
  then show ?case by (cases r) (auto simp: rec_blocks_def split: option.split)
qed simp

text \<open>\<open>grows m ps m'\<close>: from \<open>m\<close> to \<open>m'\<close> exactly the blocks \<open>ps\<close> were allocated.\<close>

definition grows :: "heap \<Rightarrow> nat list \<Rightarrow> heap \<Rightarrow> bool" where
  "grows m ps m' \<longleftrightarrow> mset (blocks m') = mset (blocks m) + mset ps \<and> corrupt m' = corrupt m"

lemma grows_refl [simp]: "grows m [] m"
  by (simp add: grows_def)

lemma grows_trans: "grows m ps n \<Longrightarrow> grows n qs k \<Longrightarrow> grows m (ps @ qs) k"
  by (simp add: grows_def)

lemma grows_mset: "grows m ps n \<Longrightarrow> mset ps = mset qs \<Longrightarrow> grows m qs n"
  by (simp add: grows_def)

lemma grows_alloc: "alloc m = (b, m') \<Longrightarrow> grows m [b] m'"
  by (simp add: grows_def)

lemma grows_releases:
  assumes "grows m ps n" "mset qs = mset ps"
  shows "grows m [] (fold release qs n)"
  using assms releases_blocks[of qs n] by (simp add: grows_def)

lemma grows_release_alloc:
  assumes "alloc m = (b, m')"
  shows "grows m [] (release b m')"
  using grows_releases[OF grows_alloc[OF assms], of "[b]"] by simp

lemma copy_name_spec:
  "copy_name p m = (q, m') \<Longrightarrow> grows m (opt_blocks q) m' \<and> map_option snd q = p"
  by (auto simp: copy_name_def grows_alloc split: option.splits prod.splits)

lemma copy_addr_spec:
  assumes h: "net_header h" and wf: "sa_wf junk" "pred_option sa_wf p"
    and len: "get_bionic_len h p = Inr len"
  shows "\<exists>q m'. copy_addr h junk p len m = (Inr q, m') \<and> grows m (opt_blocks q) m' \<and>
    map_option (guest_view \<circ> snd) q = map_option (host_view h) p"
proof (cases p)
  case None
  then show ?thesis by (simp add: copy_addr_def)
next
  case (Some a)
  with len have l: "len \<noteq> 0" by (auto simp: get_bionic_len_def Let_def split: if_splits)
  obtain v where v: "host_view h a = Some v" using len Some bionic_len_converts by blast
  then obtain c where c: "from_host h a junk = Inr c" "guest_view c = Some v"
    using from_host_view[OF h _ wf(1) v] wf(2) Some by auto
  obtain b m' where "alloc m = (b, m')" by (cases "alloc m")
  then show ?thesis using Some l c v by (simp add: copy_addr_def grows_alloc)
qed

section \<open>The converted list\<close>

type_synonym ai_meaning =
  "u32 \<times> u32 \<times> u32 \<times> u32 \<times> u32 \<times> string option \<times> addr_view option option"

definition ai_view :: "addrinfo \<Rightarrow> ai_meaning" where
  "ai_view e = (ai_flags e, ai_family e, ai_socktype e, ai_protocol e, ai_addrlen e,
     map_option snd (ai_canonname e), map_option (guest_view \<circ> snd) (ai_addr e))"

text \<open>What the guest should see of a host record; nothing if a field of it has no counterpart.\<close>

definition ai_expected :: "header \<Rightarrow> host_addrinfo \<Rightarrow> ai_meaning option" where
  "ai_expected h i =
    (case checked_fields h i of
       Inl e \<Rightarrow> None
     | Inr (st, pr, len) \<Rightarrow>
         Some (from_host_ai_flags h (h_flags i), from_host_af_family h (h_family i), st, pr, len,
           h_canonname i, map_option (host_view h) (h_addr i)))"

lemma fill_addrinfo_spec:
  assumes h: "net_header h" and wf: "sa_wf junk" "pred_option sa_wf (h_addr i)"
  shows "case ai_expected h i of
      None \<Rightarrow> \<exists>e. fill_addrinfo h junk i out m = (Inl e, m)
    | Some v \<Rightarrow> \<exists>e m'. fill_addrinfo h junk i out m = (Inr e, m') \<and> ai_view e = v \<and>
        ai_block e = out \<and> grows m (opt_blocks (ai_addr e) @ opt_blocks (ai_canonname e)) m'"
proof (cases "checked_fields h i")
  case (Inl e)
  then show ?thesis by (simp add: ai_expected_def fill_addrinfo_def)
next
  case (Inr r)
  obtain st pr len where r: "r = (st, pr, len)" by (cases r)
  with Inr have len: "get_bionic_len h (h_addr i) = Inr len"
    by (auto simp: checked_fields_def bindr_Inr_iff)
  obtain q m1 where q: "copy_addr h junk (h_addr i) len m = (Inr q, m1)" "grows m (opt_blocks q) m1"
      "map_option (guest_view \<circ> snd) q = map_option (host_view h) (h_addr i)"
    using copy_addr_spec[OF h wf len] by blast
  obtain n m2 where n: "copy_name (h_canonname i) m1 = (n, m2)" by (cases "copy_name (h_canonname i) m1")
  with copy_name_spec[OF n] q(2) have "grows m (opt_blocks q @ opt_blocks n) m2" by (auto intro: grows_trans)
  with Inr r q n copy_name_spec[OF n] show ?thesis
    by (simp add: ai_expected_def fill_addrinfo_def ai_view_def)
qed

lemma from_host_alloc_spec:
  assumes h: "net_header h" and junk: "sa_wf junk" and wf: "list_all (\<lambda>i. pred_option sa_wf (h_addr i)) hs"
  shows "\<exists>l m'. from_host_alloc h junk hs m = (l, m') \<and> grows m (concat (map ai_blocks l)) m' \<and>
    map ai_view l = List.map_filter (ai_expected h) hs"
  using wf
proof (induction hs arbitrary: m)
  case (Cons i hs)
  obtain out m1 where a: "alloc m = (out, m1)" by (cases "alloc m")
  have i: "pred_option sa_wf (h_addr i)" and hs: "list_all (\<lambda>i. pred_option sa_wf (h_addr i)) hs"
    using Cons.prems by simp_all
  show ?case
  proof (cases "ai_expected h i")
    case None
    then obtain e where e: "fill_addrinfo h junk i out m1 = (Inl e, m1)"
      using fill_addrinfo_spec[OF h junk i, of out m1] by auto
    obtain l m' where l: "from_host_alloc h junk hs (release out m1) = (l, m')"
        "grows (release out m1) (concat (map ai_blocks l)) m'" "map ai_view l = List.map_filter (ai_expected h) hs"
      using Cons.IH[OF hs, of "release out m1"] by blast
    have "grows m (concat (map ai_blocks l)) m'"
      using grows_trans[OF grows_release_alloc[OF a] l(2)] by simp
    with l a e None show ?thesis by (simp add: List.map_filter_simps)
  next
    case (Some v)
    then obtain e m2 where e: "fill_addrinfo h junk i out m1 = (Inr e, m2)" "ai_view e = v" "ai_block e = out"
        "grows m1 (opt_blocks (ai_addr e) @ opt_blocks (ai_canonname e)) m2"
      using fill_addrinfo_spec[OF h junk i, of out m1] by auto
    obtain l m' where l: "from_host_alloc h junk hs m2 = (l, m')"
        "grows m2 (concat (map ai_blocks l)) m'" "map ai_view l = List.map_filter (ai_expected h) hs"
      using Cons.IH[OF hs, of m2] by blast
    have "grows m (concat (map ai_blocks (e # l))) m'"
      by (rule grows_mset[OF grows_trans[OF grows_trans[OF grows_alloc[OF a] e(4)] l(2)]])
         (simp add: ai_blocks_def e(3))
    with l a e Some show ?thesis by (simp add: List.map_filter_simps)
  qed
qed (simp add: List.map_filter_simps)

lemma fill_host_grows:
  assumes "fill_host_addrinfo h junk e out m = (Inr r, m')" and a: "grows k [out] m"
  shows "grows k (rec_blocks r) m'"
proof -
  obtain f where f: "host_fields h e = Inr f" using assms(1)
    by (auto simp: fill_host_addrinfo_def split: sum.splits)
  show ?thesis
  proof (cases "if snd (snd f) \<noteq> 0 then ai_addr e else None")
    case None
    with assms f show ?thesis
      by (auto simp: fill_host_addrinfo_def rec_blocks_def Let_def split: prod.splits option.splits)
  next
    case (Some p)
    obtain b m1 where b: "alloc m = (b, m1)" by (cases "alloc m")
    with assms f Some have "m' = m1" "\<exists>i. r = (out, Some b, i)"
      by (auto simp: fill_host_addrinfo_def Let_def bindr_Inr_iff split: prod.splits option.splits)
    with grows_trans[OF a grows_alloc[OF b]] show ?thesis
      by (auto simp: rec_blocks_def grows_def)
  qed
qed

lemma to_host_alloc_grows:
  "to_host_alloc h junk hints m = (Inr l, m') \<Longrightarrow> grows m (concat (map rec_blocks l)) m'"
proof (induction hints arbitrary: m l m')
  case (Cons e hints)
  obtain out m1 where a: "alloc m = (out, m1)" by (cases "alloc m")
  from Cons.prems a obtain r m2 l' where r: "fill_host_addrinfo h junk e out m1 = (Inr r, m2)"
      and l: "to_host_alloc h junk hints m2 = (Inr l', m')" "l = r # l'"
    by (auto split: prod.splits sum.splits)
  have "grows m (rec_blocks r) m2" using fill_host_grows[OF r grows_alloc[OF a]] .
  from grows_trans[OF this Cons.IH[OF l(1)]] l(2) show ?case by simp
qed simp

section \<open>The interfaces\<close>

type_synonym ifa_meaning = "string option \<times> u32 \<times> addr_view option option \<times> addr_view option option"

definition ifa_view :: "ifaddrs \<Rightarrow> ifa_meaning" where
  "ifa_view c = (map_option snd (ifa_name c), ifa_flags c,
     map_option (guest_view \<circ> snd) (ifa_addr c), map_option (guest_view \<circ> snd) (ifa_netmask c))"

text \<open>What the guest should see of an interface: netmasks of other families are left out.\<close>

definition ifa_expected :: "header \<Rightarrow> host_ifaddrs \<Rightarrow> ifa_meaning" where
  "ifa_expected h c = (hif_name c, or_flags (iff_rows h) (hif_flags c), map_option (host_view h) (hif_addr c),
     if is_inet h (hif_netmask c) then map_option (host_view h) (hif_netmask c) else None)"

definition ifa_wf :: "host_ifaddrs \<Rightarrow> bool" where
  "ifa_wf c \<longleftrightarrow> pred_option sa_wf (hif_addr c) \<and> pred_option sa_wf (hif_netmask c)"

lemma copy_inet_spec:
  assumes "net_header h" "sa_wf junk" "pred_option sa_wf p" "is_inet h p"
  shows "\<exists>q m'. copy_inet h junk p m = (Inr q, m') \<and> grows m (opt_blocks q) m' \<and>
    map_option (guest_view \<circ> snd) q = map_option (host_view h) p"
proof -
  have "\<exists>len. get_bionic_len h p = Inr len"
    using assms(4) by (auto simp: is_inet_def get_bionic_len_def Let_def split: option.splits)
  then obtain len where len: "get_bionic_len h p = Inr len" by blast
  with copy_addr_spec[OF assms(1-3) len, of m] show ?thesis by (simp add: copy_inet_def)
qed

lemma one_ifaddr_spec:
  assumes h: "net_header h" "sa_wf junk" and wf: "ifa_wf c" and inet: "is_inet h (hif_addr c)"
  shows "\<exists>n m'. one_ifaddr h junk c m = (Inr n, m') \<and> grows m (ifa_blocks n) m' \<and> ifa_view n = ifa_expected h c"
proof -
  obtain b m1 where b: "alloc m = (b, m1)" by (cases "alloc m")
  obtain q m2 where q: "copy_inet h junk (hif_addr c) m1 = (Inr q, m2)" "grows m1 (opt_blocks q) m2"
      "map_option (guest_view \<circ> snd) q = map_option (host_view h) (hif_addr c)"
    using copy_inet_spec[OF h _ inet, of m1] wf by (auto simp: ifa_wf_def)
  let ?mask = "if is_inet h (hif_netmask c) then copy_inet h junk (hif_netmask c) m2 else (Inr None, m2)"
  have "\<exists>k m3. ?mask = (Inr k, m3) \<and> grows m2 (opt_blocks k) m3 \<and> map_option (guest_view \<circ> snd) k =
      (if is_inet h (hif_netmask c) then map_option (host_view h) (hif_netmask c) else None)"
    using copy_inet_spec[OF h, of "hif_netmask c" m2] wf
    by (cases "is_inet h (hif_netmask c)") (simp_all add: ifa_wf_def)
  then obtain k m3 where k: "?mask = (Inr k, m3)" "grows m2 (opt_blocks k) m3"
      "map_option (guest_view \<circ> snd) k =
         (if is_inet h (hif_netmask c) then map_option (host_view h) (hif_netmask c) else None)"
    by blast
  obtain n m4 where n: "copy_name (hif_name c) m3 = (n, m4)" by (cases "copy_name (hif_name c) m3")
  have g: "grows m ((([b] @ opt_blocks q) @ opt_blocks k) @ opt_blocks n) m4"
    using b q k copy_name_spec[OF n] by (blast intro: grows_trans grows_alloc)
  let ?n = "\<lparr>ifa_block = b, ifa_name = n, ifa_flags = or_flags (iff_rows h) (hif_flags c),
    ifa_addr = q, ifa_netmask = k\<rparr>"
  have "one_ifaddr h junk c m = (Inr ?n, m4)"
    unfolding one_ifaddr_def b prod.case q sum.case k n by simp
  moreover have "grows m (ifa_blocks ?n) m4"
    by (rule grows_mset[OF g]) (simp add: ifa_blocks_def)
  ultimately show ?thesis
    using q k copy_name_spec[OF n] by (simp add: ifa_view_def ifa_expected_def)
qed

lemma getifaddrs_loop_spec:
  assumes h: "net_header h" "sa_wf junk" and wf: "list_all ifa_wf cs"
  shows "\<exists>l m'. getifaddrs_loop h junk cs m = (Inr l, m') \<and> grows m (concat (map ifa_blocks l)) m' \<and>
    map ifa_view l = map (ifa_expected h) (filter (\<lambda>c. is_inet h (hif_addr c)) cs)"
  using wf
proof (induction cs arbitrary: m)
  case (Cons c cs)
  then have wf: "ifa_wf c" "list_all ifa_wf cs" by simp_all
  show ?case
  proof (cases "is_inet h (hif_addr c)")
    case True
    obtain n m1 where n: "one_ifaddr h junk c m = (Inr n, m1)" "grows m (ifa_blocks n) m1"
        "ifa_view n = ifa_expected h c"
      using one_ifaddr_spec[OF h wf(1) True, of m] by blast
    obtain l m' where l: "getifaddrs_loop h junk cs m1 = (Inr l, m')" "grows m1 (concat (map ifa_blocks l)) m'"
        "map ifa_view l = map (ifa_expected h) (filter (\<lambda>c. is_inet h (hif_addr c)) cs)"
      using Cons.IH[OF wf(2), of m1] by blast
    from True n l grows_trans[OF n(2) l(2)] show ?thesis by simp
  next
    case False
    then show ?thesis using Cons.IH[OF wf(2), of m] by simp
  qed
qed simp

section \<open>Addresses in the guest's buffers\<close>

lemma apply_out_spec:
  assumes "net_header h" "sa_wf haddr" "sa_wf out" "apply_out h haddr out cap = Inr (b, len)"
  shows "len \<le> cap \<and> guest_view b = host_view h haddr \<and> get_bionic_len h (Some haddr) = Inr len"
proof -
  from assms(4) have len: "get_bionic_len h (Some haddr) = Inr len" "\<not> cap < len" "from_host h haddr out = Inr b"
    by (auto simp: apply_out_def bindr_Inr_iff split: if_splits)
  from bionic_len_converts[OF len(1)] obtain v where v: "host_view h haddr = Some v" by blast
  with from_host_view[OF assms(1-3) v] len show ?thesis by auto
qed

lemma apply_out_succeeds:
  assumes "net_header h" "sa_wf haddr" "sa_wf out" "get_bionic_len h (Some haddr) = Inr len" "len \<le> cap"
  shows "\<exists>b. apply_out h haddr out cap = Inr (b, len)"
proof -
  from bionic_len_converts[OF assms(4)] obtain v where v: "host_view h haddr = Some v" by blast
  with from_host_view[OF assms(1-3) v] assms(4,5) show ?thesis by (auto simp: apply_out_def)
qed

lemma apply_out_throws:
  assumes "net_header h" "sa_wf haddr" "sa_wf out"
  shows "throws (apply_out h haddr out cap) \<longleftrightarrow> (\<forall>len. get_bionic_len h (Some haddr) = Inr len \<longrightarrow> cap < len)"
proof (cases "get_bionic_len h (Some haddr)")
  case (Inl e)
  then show ?thesis by (simp add: apply_out_def)
next
  case (Inr len)
  show ?thesis
  proof (cases "cap < len")
    case False
    with apply_out_succeeds[OF assms Inr, of cap] Inr show ?thesis by (auto simp: not_less)
  qed (simp add: Inr apply_out_def)
qed

section \<open>Properties\<close>

text \<open>
  C8: A successful lookup. The guest gets, in the host's order, every record of the host's
  list whose socket type, protocol and address family have a counterpart, with its flags,
  family, type, protocol, name and address kept; the others are left out and nothing else is.
  The records made for the hints are gone, and when the guest gives the list back with
  \<open>freeaddrinfo\<close>, exactly the memory in use before the lookup is in use again, each block
  having been freed once.
\<close>

theorem getaddrinfo_result:
  assumes "net_header h" "sa_wf junk"
    and "to_host_alloc h junk hints m = (Inr hh, m1)"
    and "resolve (map (snd \<circ> snd) hh) = (0, hres)"
    and "list_all (\<lambda>i. pred_option sa_wf (h_addr i)) hres"
  shows "\<exists>res m'. getaddrinfo resolve h junk hints m = (Inr (0, Some res), m') \<and>
    map ai_view res = List.map_filter (ai_expected h) hres \<and>
    mset (blocks (freeaddrinfo res m')) = mset (blocks m) \<and> corrupt (freeaddrinfo res m') = corrupt m"
proof -
  have free: "grows m [] (free_host_list hh m1)"
    unfolding free_host_list_fold by (rule grows_releases[OF to_host_alloc_grows[OF assms(3)]]) simp
  obtain l m' where l: "from_host_alloc h junk hres (free_host_list hh m1) = (l, m')"
      "grows (free_host_list hh m1) (concat (map ai_blocks l)) m'" "map ai_view l = List.map_filter (ai_expected h) hres"
    using from_host_alloc_spec[OF assms(1,2,5)] by blast
  have "grows m [] (freeaddrinfo l m')"
    unfolding freeaddrinfo_def free_bionic_list_fold
    by (rule grows_releases[OF grows_trans[OF free l(2)]]) simp
  with l assms(3,4) show ?thesis
    by (simp add: getaddrinfo_def grows_def)
qed

definition sample_addrinfo :: "u32 \<Rightarrow> host_addrinfo" where
  "sample_addrinfo st = \<lparr>h_flags = 0, h_family = 5, h_socktype = st, h_protocol = 16,
     h_addr = Some (blank_sockaddr\<lparr>sa_family := 5, sin_port := 80\<rparr>), h_canonname = Some ''host''\<rparr>"

lemma sample_addrinfo_wf: "list_all (\<lambda>i. pred_option sa_wf (h_addr i)) [sample_addrinfo 9, sample_addrinfo 3]"
  by (simp add: sample_addrinfo_def sa_wf_def blank_sockaddr_def)

theorem getaddrinfo_result_witness:
  "\<exists>res m'. getaddrinfo (\<lambda>_. (0, [sample_addrinfo 9, sample_addrinfo 3])) sample_net blank_sockaddr []
      \<lparr>next_block = 0, blocks = [], corrupt = False\<rparr> = (Inr (0, Some res), m') \<and>
     map ai_view res = [(0, 2, 1, 6, 16, Some ''host'', Some (Some (Inet_Address 80 0)))] \<and>
     blocks (freeaddrinfo res m') = []"
proof -
  have "List.map_filter (ai_expected sample_net) [sample_addrinfo 9, sample_addrinfo 3] =
      [(0, 2, 1, 6, 16, Some ''host'', Some (Some (Inet_Address 80 0)))]"
    by (simp add: List.map_filter_simps ai_expected_def checked_fields_def from_host_socktype_def
        from_host_ipproto_def switch_or_throw_def get_bionic_len_def from_host_af_family_def
        from_host_af_rows_def from_host_ai_flags_def from_host_socktype_rows_def from_host_ipproto_rows_def
        ifdef_def hval_def sample_net_def sample_addrinfo_def blank_sockaddr_def host_view_def view_as_def)
  with getaddrinfo_result[OF sample_net_header blank_wf _ _ sample_addrinfo_wf,
      of "[]" "\<lparr>next_block = 0, blocks = [], corrupt = False\<rparr>" "[]" _ "\<lambda>_. (0, [sample_addrinfo 9, sample_addrinfo 3])"]
  show ?thesis by auto
qed

text \<open>
  The list of interfaces never throws when the host answers: it has, in the host's order,
  exactly the interfaces with an IPv4 or IPv6 address, each with its name, address, netmask (if
  that is of one of the two families) and translated flags; giving it back restores the
  memory in use.
\<close>

theorem getifaddrs_result:
  assumes "net_header h" "sa_wf junk" "list_all ifa_wf cs"
  shows "\<exists>l m'. getifaddrs (0, cs) h junk m = (Inr (0, Some l), m') \<and>
    map ifa_view l = map (ifa_expected h) (filter (\<lambda>c. is_inet h (hif_addr c)) cs) \<and>
    mset (blocks (freeifaddrs l m')) = mset (blocks m) \<and> corrupt (freeifaddrs l m') = corrupt m"
proof -
  obtain l m' where l: "getifaddrs_loop h junk cs m = (Inr l, m')" "grows m (concat (map ifa_blocks l)) m'"
      "map ifa_view l = map (ifa_expected h) (filter (\<lambda>c. is_inet h (hif_addr c)) cs)"
    using getifaddrs_loop_spec[OF assms] by blast
  have "grows m [] (freeifaddrs l m')"
    unfolding freeifaddrs_fold by (rule grows_releases[OF l(2)]) simp
  with l show ?thesis by (simp add: getifaddrs_def grows_def)
qed

theorem getifaddrs_result_witness:
  "\<exists>l m'. getifaddrs (0, [\<lparr>hif_name = Some ''lo'', hif_flags = 0, hif_addr = None, hif_netmask = None\<rparr>,
        \<lparr>hif_name = Some ''eth'', hif_flags = 0, hif_addr = Some (blank_sockaddr\<lparr>sa_family := 30\<rparr>), hif_netmask = None\<rparr>])
      sample_net blank_sockaddr \<lparr>next_block = 0, blocks = [], corrupt = False\<rparr> = (Inr (0, Some l), m') \<and>
     map ifa_view l = [(Some ''eth'', 0, Some (Some (Inet6_Address 0 0 (replicate 16 0) 0)), None)]"
  using getifaddrs_result[OF sample_net_header blank_wf, of
      "[\<lparr>hif_name = Some ''lo'', hif_flags = 0, hif_addr = None, hif_netmask = None\<rparr>,
        \<lparr>hif_name = Some ''eth'', hif_flags = 0, hif_addr = Some (blank_sockaddr\<lparr>sa_family := 30\<rparr>), hif_netmask = None\<rparr>]"
      "\<lparr>next_block = 0, blocks = [], corrupt = False\<rparr>"]
  by (auto simp: ifa_wf_def sa_wf_def is_inet_def ifa_expected_def host_view_def view_as_def hval_def
      sample_net_def blank_sockaddr_def)

text \<open>
  C34: What \<open>getsockname\<close>, \<open>getpeername\<close>, \<open>accept\<close>, \<open>accept4\<close> and \<open>recvfrom\<close> do with the address the host left.
  When the host's call succeeds, the address is of a known family and is no longer than the guest's
  buffer, all five return what the host returned, set the size to the length of the address, and the
  address in the buffer means what the host's means. When it is longer or of an unknown family,
  they all throw. When the host's call fails they return its result and leave buffer and size as they
  were.
\<close>

theorem address_results_bounded:
  fixes cap :: u32
  assumes "net_header h" "sa_wf haddr" "sa_wf out" and "flags = 0 \<or> flags = 0x4000" and "0 \<le> fd" and "r < 0"
  defines "fits \<equiv> \<exists>len. get_bionic_len h (Some haddr) = Inr len \<and> len \<le> cap"
    and "answer \<equiv> \<lambda>x w. ((x, haddr), w)"
  shows "(if fits
    then \<exists>b len. len \<le> cap \<and> get_bionic_len h (Some haddr) = Inr len \<and> guest_view b = host_view h haddr \<and>
      fst (shim_getsockname (answer 0) h (out, cap) w) = Inr (0, b, len) \<and>
      fst (shim_getpeername (answer 0) h (out, cap) w) = Inr (0, b, len) \<and>
      fst (shim_accept (answer fd) h (Some (out, cap)) w) = Inr (fd, Some (b, len)) \<and>
      fst (shim_accept4 (answer fd) h (Some (out, cap)) fl w) = Inr (fd, Some (b, len)) \<and>
      fst (shim_recvfrom (\<lambda>_ _. answer fd) h flags (Some (out, cap)) w) = Inr (fd, Some (b, len))
    else throws (fst (shim_getsockname (answer 0) h (out, cap) w)) \<and>
      throws (fst (shim_getpeername (answer 0) h (out, cap) w)) \<and>
      throws (fst (shim_accept (answer fd) h (Some (out, cap)) w)) \<and>
      throws (fst (shim_accept4 (answer fd) h (Some (out, cap)) fl w)) \<and>
      throws (fst (shim_recvfrom (\<lambda>_ _. answer fd) h flags (Some (out, cap)) w))) \<and>
    fst (shim_getsockname (answer r) h (out, cap) w) = Inr (r, out, cap) \<and>
    fst (shim_getpeername (answer r) h (out, cap) w) = Inr (r, out, cap) \<and>
    fst (shim_accept (answer r) h (Some (out, cap)) w) = Inr (r, Some (out, cap)) \<and>
    fst (shim_accept4 (answer r) h (Some (out, cap)) fl w) = Inr (r, Some (out, cap)) \<and>
    fst (shim_recvfrom (\<lambda>_ _. answer r) h flags (Some (out, cap)) w) = Inr (r, Some (out, cap))"
  (is "?answered \<and> ?failed")
proof (rule conjI)
  note calls = shim_getsockname_def shim_getpeername_def shim_accept_def shim_accept4_def shim_recvfrom_def answer_def
  have u: "\<not> (flags \<noteq> 0 \<and> flags \<noteq> 0x4000)" using assms(4) by blast
  show ?answered
  proof (cases fits)
    case True
    then obtain b len where b: "apply_out h haddr out cap = Inr (b, len)"
      using apply_out_succeeds[OF assms(1-3)] unfolding fits_def by blast
    show ?thesis using True u assms(5) b apply_out_spec[OF assms(1-3) b] by (simp add: calls)
  next
    case False
    then have "throws (apply_out h haddr out cap)"
      using apply_out_throws[OF assms(1-3), of cap] by (auto simp: fits_def not_le)
    then show ?thesis using False u assms(5) by (simp add: calls throws_bindr)
  qed
  show ?failed using assms(6) u by (simp add: calls)
qed

text \<open>An IPv4 address (family 5 on this host) for a buffer of exactly its length, and for one a byte shorter.\<close>

theorem address_results_bounded_witness:
  "(\<exists>b. fst (shim_accept (\<lambda>w. ((7, blank_sockaddr\<lparr>sa_family := 5\<rparr>), w)) sample_net (Some (blank_sockaddr, 16)) ()) =
     Inr (7, Some (b, 16)) \<and> guest_view b = host_view sample_net (blank_sockaddr\<lparr>sa_family := 5\<rparr>)) \<and>
   throws (fst (shim_recvfrom (\<lambda>_ _ w. ((7, blank_sockaddr\<lparr>sa_family := 5\<rparr>), w)) sample_net 0 (Some (blank_sockaddr, 15)) ())) \<and>
   fst (shim_getsockname (\<lambda>w. ((-1, blank_sockaddr\<lparr>sa_family := 5\<rparr>), w)) sample_net (blank_sockaddr, 15) ()) =
     Inr (-1, blank_sockaddr, 15)"
proof -
  let ?a = "blank_sockaddr\<lparr>sa_family := 5\<rparr>"
  have wf: "sa_wf ?a" by (simp add: sa_wf_def blank_sockaddr_def)
  have len: "get_bionic_len sample_net (Some ?a) = Inr 16"
    by (simp add: get_bionic_len_def hval_def sample_net_def blank_sockaddr_def)
  have f: "(0 :: u32) = 0 \<or> (0 :: u32) = 0x4000" "(0 :: int) \<le> 7" "(-1 :: int) < 0" by simp_all
  note at = address_results_bounded[OF sample_net_header wf blank_wf f, where w = "()" and fl = 0]
  have "\<exists>b. fst (shim_accept (\<lambda>w. ((7, ?a), w)) sample_net (Some (blank_sockaddr, 16)) ()) = Inr (7, Some (b, 16)) \<and>
      guest_view b = host_view sample_net ?a"
    using at[of 16] len by auto
  moreover have "throws (fst (shim_recvfrom (\<lambda>_ _ w. ((7, ?a), w)) sample_net 0 (Some (blank_sockaddr, 15)) ()))"
    and "fst (shim_getsockname (\<lambda>w. ((-1, ?a), w)) sample_net (blank_sockaddr, 15) ()) = Inr (-1, blank_sockaddr, 15)"
    using at[of 15] len by simp_all
  ultimately show ?thesis by blast
qed

text \<open>
  C36: \<open>recvmsg\<close> does not keep its promise. When it returns a sender's address, \<open>msg_name\<close> of the
  guest's header no longer points to the guest's buffer but to a local variable of the shim
  that is gone, and the address is written to the guest's buffer whatever size the guest had
  given for it: the check compares with the length the host wrote, here the true one.
\<close>

theorem recvmsg_ignores_buffer:
  assumes "net_header h" "sa_wf haddr" "sa_wf (guest_name d)" "msg_name d = Guest_Name"
    and "sys (hval h ''sizeof(sockaddr_storage)'') w = ((r, haddr, hlen), w')" "0 < r"
    and "get_bionic_len h (Some haddr) = Inr hlen"
  shows "\<exists>d'. shim_recvmsg sys h d 0 w = (Inr r, d', w') \<and> msg_name d' = Shim_Name \<and>
    msg_namelen d' = hlen \<and> guest_view (guest_name d') = host_view h haddr"
proof -
  obtain b where b: "apply_out h haddr (guest_name d) hlen = Inr (b, hlen)"
    using apply_out_succeeds[OF assms(1-3,7)] by blast
  with apply_out_spec[OF assms(1-3) b] assms(4-6) show ?thesis
    by (simp add: shim_recvmsg_def Let_def)
qed

theorem recvmsg_ignores_buffer_witness:
  "\<exists>d'. shim_recvmsg (\<lambda>_ w. ((1, blank_sockaddr\<lparr>sa_family := 30\<rparr>, 28), w)) sample_net
      \<lparr>msg_name = Guest_Name, msg_namelen = 2, guest_name = blank_sockaddr\<rparr> 0 () = (Inr 1, d', ()) \<and>
     msg_name d' = Shim_Name \<and> msg_namelen d' = 28"
proof -
  let ?a = "blank_sockaddr\<lparr>sa_family := 30\<rparr>"
  have wf: "sa_wf ?a" by (simp add: sa_wf_def blank_sockaddr_def)
  have len: "get_bionic_len sample_net (Some ?a) = Inr 28"
    by (simp add: get_bionic_len_def hval_def sample_net_def blank_sockaddr_def)
  show ?thesis
    using recvmsg_ignores_buffer[OF sample_net_header wf, of
        "\<lparr>msg_name = Guest_Name, msg_namelen = 2, guest_name = blank_sockaddr\<rparr>"
        "\<lambda>_ w. ((1, ?a, 28), w)" "()" 1 28 "()"] len by auto
qed

text \<open>
  \<open>recv\<close> reads the guest's flag word wrongly: the guest's \<open>MSG_DONTWAIT\<close> is 0x40 and its
  \<open>MSG_NOSIGNAL\<close> is 0x4000. A request not to block is dropped, and a request for no signal
  makes the call non-blocking.
\<close>

lemma recv_flags_confused:
  "recv_flags h 0x40 = 0 \<and> recv_flags h 0x4000 = hval h ''MSG_DONTWAIT''"
  by (simp add: recv_flags_def)

text \<open>A lookup whose hints cannot be converted throws, and the record made for them is not freed.\<close>

lemma bad_hints_leak:
  assumes "host_fields h e = Inl err"
  shows "\<exists>m'. getaddrinfo resolve h junk [e] m = (Inl err, m') \<and> grows m [next_block m] m'"
  by (simp add: getaddrinfo_def alloc_def fill_host_addrinfo_def assms) (simp add: grows_def)

text \<open>Socket types with flag bits are accepted and the flags are lost: a non-blocking socket blocks.\<close>

lemma socktype_flags_dropped:
  "to_host_socktype h (type OR 0x800) = Inr t \<longleftrightarrow> to_host_socktype h type = Inr t"
proof -
  have "(type OR 0x800) AND 3 = (type AND 3) OR (0x800 AND 3)" by (rule bit.conj_disj_distrib2)
  then have "(type OR 0x800) AND 3 = type AND 3" by simp
  then show ?thesis by (simp add: to_host_socktype_def switch_or_throw_Inr)
qed

end
