(* ===== verification/Shim_Errno.thy ===== *)
theory Shim_Errno
  imports Shim_Host
begin

text \<open>
  Error numbers: \<open>src/libc-shim/src/errno.cpp\<close> and \<open>errno.h\<close>. The guest's \<open>errno\<close> values are
  those of Android's kernel; the host's come from its headers. The two translations are
  switches of about 130 cases, written out row by row as they stand, with the rows under
  \<open>#ifdef __linux__\<close>. Where translation is needed (macOS), the guest has an \<open>errno\<close> of
  its own, and every call into the host is wrapped so that the two agree before and after.
\<close>

section \<open>The two switches\<close>

definition errno_from_host_rows :: "header \<Rightarrow> (string \<times> u32) list" where
  "errno_from_host_rows h =
    [(''EPERM'', 1), (''ENOENT'', 2), (''ESRCH'', 3), (''EINTR'', 4), (''EIO'', 5),
      (''ENXIO'', 6), (''E2BIG'', 7), (''ENOEXEC'', 8), (''EBADF'', 9), (''ECHILD'', 10),
      (''EAGAIN'', 11), (''ENOMEM'', 12), (''EACCES'', 13), (''EFAULT'', 14), (''ENOTBLK'', 15),
      (''EBUSY'', 16), (''EEXIST'', 17), (''EXDEV'', 18), (''ENODEV'', 19), (''ENOTDIR'', 20),
      (''EISDIR'', 21), (''EINVAL'', 22), (''ENFILE'', 23), (''EMFILE'', 24), (''ENOTTY'', 25),
      (''ETXTBSY'', 26), (''EFBIG'', 27), (''ENOSPC'', 28), (''ESPIPE'', 29), (''EROFS'', 30),
      (''EMLINK'', 31), (''EPIPE'', 32), (''EDOM'', 33), (''ERANGE'', 34), (''EDEADLK'', 35),
      (''ENAMETOOLONG'', 36), (''ENOLCK'', 37), (''ENOSYS'', 38), (''ENOTEMPTY'', 39),
      (''ELOOP'', 40), (''ENOMSG'', 42), (''EIDRM'', 43)] @
    ifdef h ''__linux__''
     [(''ECHRNG'', 44), (''EL2NSYNC'', 45), (''EL3HLT'', 46), (''EL3RST'', 47), (''ELNRNG'', 48),
      (''EUNATCH'', 49), (''ENOCSI'', 50), (''EL2HLT'', 51), (''EBADE'', 52), (''EBADR'', 53),
      (''EXFULL'', 54), (''ENOANO'', 55), (''EBADRQC'', 56), (''EBADSLT'', 57), (''EBFONT'', 59)] @
    [(''ENOSTR'', 60), (''ENODATA'', 61), (''ETIME'', 62), (''ENOSR'', 63)] @
    ifdef h ''__linux__''
     [(''ENONET'', 64), (''ENOPKG'', 65)] @
    [(''EREMOTE'', 66), (''ENOLINK'', 67)] @
    ifdef h ''__linux__''
     [(''EADV'', 68), (''ESRMNT'', 69), (''ECOMM'', 70)] @
    [(''EPROTO'', 71), (''EMULTIHOP'', 72)] @
    ifdef h ''__linux__''
     [(''EDOTDOT'', 73)] @
    [(''EBADMSG'', 74), (''EOVERFLOW'', 75)] @
    ifdef h ''__linux__''
     [(''ENOTUNIQ'', 76), (''EBADFD'', 77), (''EREMCHG'', 78), (''ELIBACC'', 79),
      (''ELIBBAD'', 80), (''ELIBSCN'', 81), (''ELIBMAX'', 82), (''ELIBEXEC'', 83)] @
    [(''EILSEQ'', 84)] @
    ifdef h ''__linux__''
     [(''ERESTART'', 85), (''ESTRPIPE'', 86)] @
    [(''EUSERS'', 87), (''ENOTSOCK'', 88), (''EDESTADDRREQ'', 89), (''EMSGSIZE'', 90),
      (''EPROTOTYPE'', 91), (''ENOPROTOOPT'', 92), (''EPROTONOSUPPORT'', 93),
      (''ESOCKTNOSUPPORT'', 94), (''EOPNOTSUPP'', 95), (''EPFNOSUPPORT'', 96),
      (''EAFNOSUPPORT'', 97), (''EADDRINUSE'', 98), (''EADDRNOTAVAIL'', 99), (''ENETDOWN'', 100),
      (''ENETUNREACH'', 101), (''ENETRESET'', 102), (''ECONNABORTED'', 103),
      (''ECONNRESET'', 104), (''ENOBUFS'', 105), (''EISCONN'', 106), (''ENOTCONN'', 107),
      (''ESHUTDOWN'', 108), (''ETOOMANYREFS'', 109), (''ETIMEDOUT'', 110),
      (''ECONNREFUSED'', 111), (''EHOSTDOWN'', 112), (''EHOSTUNREACH'', 113),
      (''EALREADY'', 114), (''EINPROGRESS'', 115), (''ESTALE'', 116)] @
    ifdef h ''__linux__''
     [(''EUCLEAN'', 117), (''ENOTNAM'', 118), (''ENAVAIL'', 119), (''EISNAM'', 120),
      (''EREMOTEIO'', 121)] @
    [(''EDQUOT'', 122)] @
    ifdef h ''__linux__''
     [(''ENOMEDIUM'', 123), (''EMEDIUMTYPE'', 124)] @
    [(''ECANCELED'', 125)] @
    ifdef h ''__linux__''
     [(''ENOKEY'', 126), (''EKEYEXPIRED'', 127), (''EKEYREVOKED'', 128), (''EKEYREJECTED'', 129)] @
    [(''EOWNERDEAD'', 130), (''ENOTRECOVERABLE'', 131)]"

definition errno_to_host_rows :: "header \<Rightarrow> (u32 \<times> string) list" where
  "errno_to_host_rows h =
    [(1, ''EPERM''), (2, ''ENOENT''), (3, ''ESRCH''), (4, ''EINTR''), (5, ''EIO''),
      (6, ''ENXIO''), (7, ''E2BIG''), (8, ''ENOEXEC''), (9, ''EBADF''), (10, ''ECHILD''),
      (11, ''EAGAIN''), (12, ''ENOMEM''), (13, ''EACCES''), (14, ''EFAULT''), (15, ''ENOTBLK''),
      (16, ''EBUSY''), (17, ''EEXIST''), (18, ''EXDEV''), (19, ''ENODEV''), (20, ''ENOTDIR''),
      (21, ''EISDIR''), (22, ''EINVAL''), (23, ''ENFILE''), (24, ''EMFILE''), (25, ''ENOTTY''),
      (26, ''ETXTBSY''), (27, ''EFBIG''), (28, ''ENOSPC''), (29, ''ESPIPE''), (30, ''EROFS''),
      (31, ''EMLINK''), (32, ''EPIPE''), (33, ''EDOM''), (34, ''ERANGE''), (35, ''EDEADLK''),
      (36, ''ENAMETOOLONG''), (37, ''ENOLCK''), (38, ''ENOSYS''), (39, ''ENOTEMPTY''),
      (40, ''ELOOP''), (42, ''ENOMSG''), (43, ''EIDRM'')] @
    ifdef h ''__linux__''
     [(44, ''ECHRNG''), (45, ''EL2NSYNC''), (46, ''EL3HLT''), (47, ''EL3RST''), (48, ''ELNRNG''),
      (49, ''EUNATCH''), (50, ''ENOCSI''), (51, ''EL2HLT''), (52, ''EBADE''), (53, ''EBADR''),
      (54, ''EXFULL''), (55, ''ENOANO''), (56, ''EBADRQC''), (57, ''EBADSLT''), (59, ''EBFONT'')] @
    [(60, ''ENOSTR''), (61, ''ENODATA''), (62, ''ETIME''), (63, ''ENOSR'')] @
    ifdef h ''__linux__''
     [(64, ''ENONET''), (65, ''ENOPKG'')] @
    [(66, ''EREMOTE''), (67, ''ENOLINK'')] @
    ifdef h ''__linux__''
     [(68, ''EADV''), (69, ''ESRMNT''), (70, ''ECOMM'')] @
    [(71, ''EPROTO''), (72, ''EMULTIHOP'')] @
    ifdef h ''__linux__''
     [(73, ''EDOTDOT'')] @
    [(74, ''EBADMSG''), (75, ''EOVERFLOW'')] @
    ifdef h ''__linux__''
     [(76, ''ENOTUNIQ''), (77, ''EBADFD''), (78, ''EREMCHG''), (79, ''ELIBACC''),
      (80, ''ELIBBAD''), (81, ''ELIBSCN''), (82, ''ELIBMAX''), (83, ''ELIBEXEC'')] @
    [(84, ''EILSEQ'')] @
    ifdef h ''__linux__''
     [(85, ''ERESTART''), (86, ''ESTRPIPE'')] @
    [(87, ''EUSERS''), (88, ''ENOTSOCK''), (89, ''EDESTADDRREQ''), (90, ''EMSGSIZE''),
      (91, ''EPROTOTYPE''), (92, ''ENOPROTOOPT''), (93, ''EPROTONOSUPPORT''),
      (94, ''ESOCKTNOSUPPORT''), (95, ''EOPNOTSUPP''), (96, ''EPFNOSUPPORT''),
      (97, ''EAFNOSUPPORT''), (98, ''EADDRINUSE''), (99, ''EADDRNOTAVAIL''), (100, ''ENETDOWN''),
      (101, ''ENETUNREACH''), (102, ''ENETRESET''), (103, ''ECONNABORTED''),
      (104, ''ECONNRESET''), (105, ''ENOBUFS''), (106, ''EISCONN''), (107, ''ENOTCONN''),
      (108, ''ESHUTDOWN''), (109, ''ETOOMANYREFS''), (110, ''ETIMEDOUT''),
      (111, ''ECONNREFUSED''), (112, ''EHOSTDOWN''), (113, ''EHOSTUNREACH''),
      (114, ''EALREADY''), (115, ''EINPROGRESS''), (116, ''ESTALE'')] @
    ifdef h ''__linux__''
     [(117, ''EUCLEAN''), (118, ''ENOTNAM''), (119, ''ENAVAIL''), (120, ''EISNAM''),
      (121, ''EREMOTEIO'')] @
    [(122, ''EDQUOT'')] @
    ifdef h ''__linux__''
     [(123, ''ENOMEDIUM''), (124, ''EMEDIUMTYPE'')] @
    [(125, ''ECANCELED'')] @
    ifdef h ''__linux__''
     [(126, ''ENOKEY''), (127, ''EKEYEXPIRED''), (128, ''EKEYREVOKED''), (129, ''EKEYREJECTED'')] @
    [(130, ''EOWNERDEAD''), (131, ''ENOTRECOVERABLE'')]"

definition translate_errno_from_host :: "header \<Rightarrow> u32 \<Rightarrow> u32" where
  "translate_errno_from_host h err =
    (case map_of (map (\<lambda>(n, v). (hval h n, v)) (errno_from_host_rows h)) err of
       Some v \<Rightarrow> v
     | None \<Rightarrow> err)"

definition translate_errno_to_host :: "header \<Rightarrow> u32 \<Rightarrow> u32" where
  "translate_errno_to_host h err =
    (case map_of (map (\<lambda>(v, n). (v, hval h n)) (errno_to_host_rows h)) err of
       Some e \<Rightarrow> e
     | None \<Rightarrow> err)"

section \<open>The error number of a thread\<close>

record errno_state =
  host_errno :: u32
  errno_value :: u32

definition update_errno :: "header \<Rightarrow> errno_state \<Rightarrow> errno_state" where
  "update_errno h s = s\<lparr>errno_value := translate_errno_from_host h (host_errno s)\<rparr>"

definition sync_errno :: "header \<Rightarrow> errno_state \<Rightarrow> errno_state" where
  "sync_errno h s = s\<lparr>host_errno := translate_errno_to_host h (errno_value s)\<rparr>"

definition set_guest_errno :: "header \<Rightarrow> u32 \<Rightarrow> errno_state \<Rightarrow> errno_state" where
  "set_guest_errno h err s = s\<lparr>errno_value := err, host_errno := translate_errno_to_host h err\<rparr>"

definition strerror :: "(u32 \<Rightarrow> string) \<Rightarrow> header \<Rightarrow> u32 \<Rightarrow> string" where
  "strerror host_strerror h err = host_strerror (translate_errno_to_host h err)"

text \<open>
  \<open>errno_update_helper::wrapper\<close>: the guest's number is copied to the host, the function
  runs, a thrown exception becomes \<open>EINVAL\<close> and the failure value of the return type (null
  for a pointer, \<open>-1\<close> otherwise), and on every path the host's number is copied back.
\<close>

definition errno_wrapper ::
  "header \<Rightarrow> 'r \<Rightarrow> (errno_state \<Rightarrow> 'r result \<times> errno_state) \<Rightarrow> errno_state \<Rightarrow> 'r \<times> errno_state" where
  "errno_wrapper h failure fn s =
    (case fn (sync_errno h s) of
       (Inr r, t) \<Rightarrow> (r, update_errno h t)
     | (Inl e, t) \<Rightarrow> (failure, update_errno h (t\<lparr>host_errno := hval h ''EINVAL''\<rparr>)))"

section \<open>The switches undo each other\<close>

definition errno_to_rows :: "header \<Rightarrow> (u32 \<times> u32) list" where
  "errno_to_rows h = map (\<lambda>(v, n). (v, hval h n)) (errno_to_host_rows h)"

definition errno_from_rows :: "header \<Rightarrow> (u32 \<times> u32) list" where
  "errno_from_rows h = map (\<lambda>(n, v). (hval h n, v)) (errno_from_host_rows h)"

text \<open>The host's error numbers are pairwise different.\<close>

definition errno_header :: "header \<Rightarrow> bool" where
  "errno_header h \<longleftrightarrow> distinct (map (hval h \<circ> fst) (errno_from_host_rows h))"

lemma errno_rows_mirror: "errno_from_host_rows h = map prod.swap (errno_to_host_rows h)"
  by (simp add: errno_from_host_rows_def errno_to_host_rows_def)

lemma errno_rows_mirror': "errno_to_host_rows h = map prod.swap (errno_from_host_rows h)"
  by (simp add: errno_rows_mirror o_def)

lemma errno_labels_distinct: "distinct (map fst (errno_to_host_rows h))"
proof -
  have "successively (<) (map fst (errno_to_host_rows h))"
    by (cases "h ''__linux__''") (simp_all add: errno_to_host_rows_def ifdef_def)
  then have "sorted_wrt (<) (map fst (errno_to_host_rows h))"
    by (simp add: successively_conv_sorted_wrt)
  then show ?thesis by (simp add: strict_sorted_iff)
qed

interpretation errno: switch_pair errno_header errno_to_rows errno_from_rows
proof
  fix h
  show "errno_from_rows h = map prod.swap (errno_to_rows h)"
    by (simp add: errno_from_rows_def errno_to_rows_def errno_rows_mirror o_def split_def prod.swap_def)
  show "distinct (map fst (errno_to_rows h))"
    using errno_labels_distinct[of h] by (simp add: errno_to_rows_def o_def split_def)
  assume "errno_header h"
  then show "distinct (map snd (errno_to_rows h))"
    by (simp add: errno_header_def errno_to_rows_def errno_rows_mirror' o_def split_def)
qed

lemma translate_from_rows:
  "translate_errno_from_host h e = (case map_of (errno_from_rows h) e of Some v \<Rightarrow> v | None \<Rightarrow> e)"
  by (simp add: translate_errno_from_host_def errno_from_rows_def)

lemma translate_to_rows:
  "translate_errno_to_host h e = (case map_of (errno_to_rows h) e of Some v \<Rightarrow> v | None \<Rightarrow> e)"
  by (simp add: translate_errno_to_host_def errno_to_rows_def)

text \<open>The guest's numbers that have a case, and the host's.\<close>

definition guest_errnos :: "header \<Rightarrow> u32 set" where
  "guest_errnos h = set (map fst (errno_to_host_rows h))"

definition host_errnos :: "header \<Rightarrow> u32 set" where
  "host_errnos h = set (map (hval h \<circ> fst) (errno_from_host_rows h))"

lemma guest_errnos_dom: "g \<in> guest_errnos h \<longleftrightarrow> (\<exists>v. map_of (errno_to_rows h) g = Some v)"
proof -
  have "guest_errnos h = fst ` set (errno_to_rows h)"
    by (auto simp: guest_errnos_def errno_to_rows_def image_image split_def)
  then show ?thesis
    by (metis map_of_eq_None_iff not_Some_eq)
qed

lemma host_errnos_dom: "e \<in> host_errnos h \<longleftrightarrow> (\<exists>v. map_of (errno_from_rows h) e = Some v)"
proof -
  have "host_errnos h = fst ` set (errno_from_rows h)"
    by (auto simp: host_errnos_def errno_from_rows_def image_image split_def)
  then show ?thesis
    by (metis map_of_eq_None_iff not_Some_eq)
qed

lemma errno_from_to:
  "errno_header h \<Longrightarrow> g \<in> guest_errnos h \<Longrightarrow>
    translate_errno_from_host h (translate_errno_to_host h g) = g"
  by (auto simp: guest_errnos_dom translate_from_rows translate_to_rows dest: errno.from_to)

lemma errno_to_from:
  "e \<in> host_errnos h \<Longrightarrow> translate_errno_to_host h (translate_errno_from_host h e) = e"
proof -
  assume "e \<in> host_errnos h"
  then obtain g where g: "map_of (errno_from_rows h) e = Some g" by (auto simp: host_errnos_dom)
  moreover have "map_of (errno_to_rows h) g = Some e" using g by (rule errno.to_from)
  ultimately show ?thesis by (simp add: translate_from_rows translate_to_rows)
qed

lemma errno_default:
  "e \<notin> host_errnos h \<Longrightarrow> translate_errno_from_host h e = e"
  "e \<notin> guest_errnos h \<Longrightarrow> translate_errno_to_host h e = e"
  by (auto simp: host_errnos_dom guest_errnos_dom translate_from_rows translate_to_rows)

text \<open>
  A host error without a case is passed on unchanged, so where its number is one the guest
  uses for something else, the guest sees that other error.
\<close>

lemma errno_unlisted_aliases:
  "errno_header h \<Longrightarrow> e \<notin> host_errnos h \<Longrightarrow> e \<in> guest_errnos h \<Longrightarrow>
    translate_errno_from_host h e = translate_errno_from_host h (translate_errno_to_host h e)"
  by (simp add: errno_default errno_from_to)

section \<open>A host to evaluate on\<close>

text \<open>
  A host that is not Linux and where two pairs of numbers are exchanged, as on BSD systems:
  \<open>EAGAIN\<close> with \<open>EDEADLK\<close>, and \<open>ENOTSOCK\<close> with \<open>EALREADY\<close>.
\<close>

definition exchange :: "u32 \<Rightarrow> u32" where
  "exchange v = (if v = 11 then 35 else if v = 35 then 11 else
                 if v = 88 then 114 else if v = 114 then 88 else v)"

definition sample_errnos :: header where
  "sample_errnos n = map_option exchange (map_of (errno_from_host_rows (\<lambda>_. None)) n)"

lemma sample_not_linux: "sample_errnos ''__linux__'' = None"
  by code_simp

lemma sample_rows: "errno_from_host_rows sample_errnos = errno_from_host_rows (\<lambda>_. None)"
  by (simp add: errno_from_host_rows_def ifdef_def sample_not_linux)

lemma sample_names_distinct: "distinct (map fst (errno_from_host_rows (\<lambda>_. None)))"
  by code_simp

lemma sample_hval: "(n, v) \<in> set (errno_from_host_rows (\<lambda>_. None)) \<Longrightarrow> hval sample_errnos n = exchange v"
  by (simp add: hval_def sample_errnos_def map_of_is_SomeI[OF sample_names_distinct])

lemma exchange_inj: "inj exchange"
  by (rule injI) (simp add: exchange_def split: if_splits)

lemma sample_errno_header: "errno_header sample_errnos"
proof -
  let ?rows = "errno_from_host_rows (\<lambda>_. None)"
  have "map (hval sample_errnos \<circ> fst) ?rows = map (exchange \<circ> snd) ?rows"
    by (rule map_cong) (auto simp: sample_hval)
  moreover have "distinct (map snd ?rows)"
    using errno_labels_distinct[of "\<lambda>_. None"] by (simp add: errno_rows_mirror' o_def)
  then have "distinct (map (exchange \<circ> snd) ?rows)"
    using exchange_inj by (auto simp: distinct_map inj_on_def inj_def)
  ultimately show ?thesis
    unfolding errno_header_def sample_rows by metis
qed

lemma sample_zero: "0 \<notin> host_errnos sample_errnos"
proof
  assume "0 \<in> host_errnos sample_errnos"
  then obtain n v where nv: "(n, v) \<in> set (errno_from_host_rows (\<lambda>_. None))" and "hval sample_errnos n = 0"
    by (auto simp: host_errnos_def sample_rows)
  then have "exchange v = 0" by (simp add: sample_hval)
  moreover have "\<forall>r \<in> set (errno_from_host_rows (\<lambda>_. None)). snd r \<noteq> 0"
    by (simp add: errno_from_host_rows_def ifdef_def)
  ultimately show False using nv by (force simp: exchange_def split: if_splits)
qed

lemma sample_einval: "hval sample_errnos ''EINVAL'' = 22"
  by (subst sample_hval[of _ 22]) (simp_all add: errno_from_host_rows_def exchange_def)

lemma sample_again: "translate_errno_to_host sample_errnos 11 = 35"
proof -
  have "hval sample_errnos ''EAGAIN'' = 35"
    by (subst sample_hval[of _ 11]) (simp_all add: errno_from_host_rows_def exchange_def)
  then show ?thesis
    by (simp add: translate_errno_to_host_def errno_to_host_rows_def)
qed

section \<open>Properties\<close>

text \<open>
  C29: On a host whose error numbers are pairwise different, every error number the guest's
  table lists survives the translation to the host and back, every host number that has a
  case survives the translation to the guest and back, and a number without a case is
  passed on unchanged in both directions.
\<close>

theorem errno_roundtrip:
  assumes "errno_header h"
  shows "(\<forall>g \<in> guest_errnos h. translate_errno_from_host h (translate_errno_to_host h g) = g) \<and>
    (\<forall>e \<in> host_errnos h. translate_errno_to_host h (translate_errno_from_host h e) = e) \<and>
    (\<forall>e. e \<notin> host_errnos h \<longrightarrow> translate_errno_from_host h e = e) \<and>
    (\<forall>g. g \<notin> guest_errnos h \<longrightarrow> translate_errno_to_host h g = g)"
  using assms by (simp add: errno_from_to errno_to_from errno_default)

theorem errno_roundtrip_witness:
  "errno_header sample_errnos \<and>
   translate_errno_from_host sample_errnos (translate_errno_to_host sample_errnos 11) = 11 \<and>
   translate_errno_to_host sample_errnos 11 = 35"
proof -
  have m: "11 \<in> guest_errnos sample_errnos"
    by (simp add: guest_errnos_def errno_to_host_rows_def)
  with errno_roundtrip[OF sample_errno_header] sample_errno_header sample_again show ?thesis by blast
qed

text \<open>
  C32: A wrapped call. If the host function returns, the guest gets its result and its error
  number is the translation of the host's; a call that does not touch the error number
  leaves the guest's as it was, if that is one of the listed numbers. If the host function
  throws, the guest gets the failure value and \<open>EINVAL\<close> (22), whatever the function had
  done to the error number before.
\<close>

theorem wrapped_call_errno:
  assumes "errno_header h"
  shows "(\<forall>r t. fn (sync_errno h s) = (Inr r, t) \<longrightarrow>
      errno_wrapper h failure fn s = (r, t\<lparr>errno_value := translate_errno_from_host h (host_errno t)\<rparr>) \<and>
      (t = sync_errno h s \<and> errno_value s \<in> guest_errnos h \<longrightarrow>
        errno_value (snd (errno_wrapper h failure fn s)) = errno_value s)) \<and>
    (\<forall>e t. fn (sync_errno h s) = (Inl e, t) \<longrightarrow>
      fst (errno_wrapper h failure fn s) = failure \<and>
      errno_value (snd (errno_wrapper h failure fn s)) = 22)"
proof -
  have "22 \<in> guest_errnos h" and "translate_errno_to_host h 22 = hval h ''EINVAL''"
    by (simp_all add: guest_errnos_def errno_to_host_rows_def translate_errno_to_host_def)
  with errno_from_to[OF assms, of 22]
  have "translate_errno_from_host h (hval h ''EINVAL'') = 22" by simp
  then show ?thesis
    using errno_from_to[OF assms]
    by (auto simp: errno_wrapper_def update_errno_def sync_errno_def)
qed

theorem wrapped_call_errno_witness:
  "fst (errno_wrapper sample_errnos (-1) (\<lambda>s. (Inl (Runtime_error ''bad'' []), s\<lparr>host_errno := 35\<rparr>))
      \<lparr>host_errno = 0, errno_value = 11\<rparr>) = (-1 :: u32) \<and>
   errno_value (snd (errno_wrapper sample_errnos (-1 :: u32)
      (\<lambda>s. (Inl (Runtime_error ''bad'' []), s\<lparr>host_errno := 35\<rparr>)) \<lparr>host_errno = 0, errno_value = 11\<rparr>)) = 22"
  using wrapped_call_errno[OF sample_errno_header,
      of "\<lambda>s. (Inl (Runtime_error ''bad'' []), s\<lparr>host_errno := 35\<rparr>)"
         "\<lparr>host_errno = 0, errno_value = 11\<rparr>" "-1 :: u32"]
  by simp

end
