(* ===== verification/Shim_Lazy.thy ===== *)
theory Shim_Lazy
  imports Shim_Host
begin

text \<open>
  The guest's mutexes, condition variables and read-write locks: \<open>src/libc-shim/src/pthreads.h\<close>
  and the three \<open>*_static_initializer\<close> functions of \<open>pthreads.cpp\<close>. A guest object is a small
  array of which one aligned word, the payload, holds the pointer to a host object that is
  made on first use. Several threads may use the same object for the first time at once:
  each makes a host object and tries to publish it with one compare-and-exchange; those that
  lose free theirs and take the winner's.

  Every access to the payload is one step of the model, so the steps of the threads
  interleave in any order. The memory is sequentially consistent: the orderings of the atomic
  operations (\<open>relaxed\<close>, \<open>acquire\<close>, \<open>release\<close>) are not distinguished.
\<close>

section \<open>Where the payload is\<close>

text \<open>
  On 64-bit systems the first four bytes keep the guest's static initialiser, and the payload
  is the first aligned word after them; the alignment of the word is eight.
\<close>

definition get_payload_pointer :: "u64 \<Rightarrow> u64" where
  "get_payload_pointer p =
    (let header_size = 4;
         pointer_alignment = 8;
         max_header_size = header_size + pointer_alignment - 1;
         v = p + max_header_size
     in v AND (- pointer_alignment))"

definition sizeof_pthread_mutex :: nat where "sizeof_pthread_mutex = 10 * 4"
definition sizeof_pthread_cond :: nat where "sizeof_pthread_cond = 12 * 4"
definition sizeof_pthread_rwlock :: nat where "sizeof_pthread_rwlock = 14 * 4"

section \<open>What a payload says\<close>

definition is_mutex_initialized :: "u64 \<Rightarrow> bool" where
  "is_mutex_initialized v = (v \<noteq> 0)"

text \<open>On 32-bit systems the payload is the static initialiser itself until it is replaced.\<close>

definition is_mutex_initialized_32 :: "u32 \<Rightarrow> bool" where
  "is_mutex_initialized_32 v = (v AND (NOT (push_bit 14 3)) \<noteq> 0)"

definition is_cond_initialized :: "u64 \<Rightarrow> bool" where
  "is_cond_initialized v = (v \<noteq> 0)"

definition is_rwlock_initialized :: "u64 \<Rightarrow> bool" where
  "is_rwlock_initialized v = (v \<noteq> 0)"

text \<open>The kinds of host mutex, and the kind a static initialiser asks for.\<close>

datatype mutex_kind = PTHREAD_MUTEX_DEFAULT | PTHREAD_MUTEX_NORMAL | PTHREAD_MUTEX_RECURSIVE | PTHREAD_MUTEX_ERRORCHECK

definition static_mutex_kind :: "u32 \<Rightarrow> mutex_kind" where
  "static_mutex_kind init_value =
    (if init_value = 0x4000 then PTHREAD_MUTEX_RECURSIVE
     else if init_value = 0x8000 then PTHREAD_MUTEX_ERRORCHECK
     else PTHREAD_MUTEX_DEFAULT)"

section \<open>One first use, step by step\<close>

definition init_failed :: "string \<Rightarrow> string" where
  "init_failed name = ''Failed to init '' @ name"

definition init_failed_by_other :: "string \<Rightarrow> string" where
  "init_failed_by_other name = ''Failed to init '' @ name @ '' by other thread''"

text \<open>
  A thread is outside the conversion, has read the payload, has made its host object, has
  lost the exchange (keeping its own object and the payload it saw instead), has the host
  object to use, or has thrown. A live host object is plain memory until it is initialised.
\<close>

datatype 'p lazy_pc = Idle | Loaded 'p | Made 'p 'p | Lost 'p 'p | Got 'p | Threw string

datatype 'k host_object = Raw | Ready 'k

text \<open>\<open>aligned\<close> says whether the address of the payload is a multiple of the size of a pointer.\<close>

record ('p, 'k) lazy_state =
  payload :: 'p
  objects :: "'p \<Rightarrow> 'k host_object option"
  pcs :: "nat \<Rightarrow> 'p lazy_pc"
  aligned :: bool

text \<open>\<open>to_host\<close>: the payload is read; a pointer is used, anything else starts the initialiser.\<close>

definition lazy_load :: "('p \<Rightarrow> bool) \<Rightarrow> nat \<Rightarrow> ('p, 'k) lazy_state \<Rightarrow> ('p, 'k) lazy_state" where
  "lazy_load inited i s =
    (let v = payload s
     in if inited v then s\<lparr>pcs := (pcs s)(i := Got v)\<rparr> else s\<lparr>pcs := (pcs s)(i := Loaded v)\<rparr>)"

text \<open>
  The initialiser checks the address, allocates \<open>p\<close> and initialises it; \<open>ok\<close> says whether the host's
  initialisation succeeds. On failure it throws and the memory stays allocated. The code hands the
  result of \<open>malloc\<close> to the host's initialiser without looking at it; that a null pointer is among the
  arguments the host may refuse or crash on is outside the model: \<open>p\<close> is memory that was given.
\<close>

definition lazy_make ::
  "string \<Rightarrow> 'k \<Rightarrow> 'p \<Rightarrow> bool \<Rightarrow> nat \<Rightarrow> ('p, 'k) lazy_state \<Rightarrow> ('p, 'k) lazy_state" where
  "lazy_make name kind p ok i s =
    (case pcs s i of
       Loaded v \<Rightarrow>
         if \<not> aligned s then s\<lparr>pcs := (pcs s)(i := Threw (''unaligned '' @ name))\<rparr>
         else if ok then s\<lparr>objects := (objects s)(p \<mapsto> Ready kind), pcs := (pcs s)(i := Made v p)\<rparr>
         else s\<lparr>objects := (objects s)(p \<mapsto> Raw), pcs := (pcs s)(i := Threw (init_failed name))\<rparr>
     | _ \<Rightarrow> s)"

text \<open>The compare-and-exchange; on failure the payload that was found is kept.\<close>

definition lazy_cas :: "nat \<Rightarrow> ('p, 'k) lazy_state \<Rightarrow> ('p, 'k) lazy_state" where
  "lazy_cas i s =
    (case pcs s i of
       Made v p \<Rightarrow>
         if payload s = v then s\<lparr>payload := p, pcs := (pcs s)(i := Got p)\<rparr>
         else s\<lparr>pcs := (pcs s)(i := Lost p (payload s))\<rparr>
     | _ \<Rightarrow> s)"

text \<open>The loser frees its object, and takes the one it found if that is one.\<close>

definition lazy_lose ::
  "string \<Rightarrow> ('p \<Rightarrow> bool) \<Rightarrow> nat \<Rightarrow> ('p, 'k) lazy_state \<Rightarrow> ('p, 'k) lazy_state" where
  "lazy_lose name inited i s =
    (case pcs s i of
       Lost p v \<Rightarrow>
         s\<lparr>objects := (objects s)(p := None),
           pcs := (pcs s)(i := if inited v then Got v
                               else Threw (init_failed_by_other name))\<rparr>
     | _ \<Rightarrow> s)"

text \<open>
  A step of thread \<open>i\<close>. The allocator gives memory that is not in use, at an address that
  counts as a pointer.
\<close>

inductive lazy_step ::
  "string \<Rightarrow> ('p \<Rightarrow> bool) \<Rightarrow> 'k \<Rightarrow> nat \<Rightarrow> ('p, 'k) lazy_state \<Rightarrow> ('p, 'k) lazy_state \<Rightarrow> bool"
  for name :: string and inited :: "'p \<Rightarrow> bool" and kind :: 'k and i :: nat
where
  load: "pcs s i = Idle \<Longrightarrow> lazy_step name inited kind i s (lazy_load inited i s)"
| make: "pcs s i = Loaded v \<Longrightarrow> objects s p = None \<Longrightarrow> inited p \<Longrightarrow>
    lazy_step name inited kind i s (lazy_make name kind p ok i s)"
| cas: "pcs s i = Made v p \<Longrightarrow> lazy_step name inited kind i s (lazy_cas i s)"
| lose: "pcs s i = Lost p v \<Longrightarrow> lazy_step name inited kind i s (lazy_lose name inited i s)"

text \<open>A thread that has the object uses it and may come back with another call.\<close>

inductive lazy_sys ::
  "string \<Rightarrow> ('p \<Rightarrow> bool) \<Rightarrow> 'k \<Rightarrow> ('p, 'k) lazy_state \<Rightarrow> ('p, 'k) lazy_state \<Rightarrow> bool"
  for name :: string and inited :: "'p \<Rightarrow> bool" and kind :: 'k
where
  step: "lazy_step name inited kind i s t \<Longrightarrow> lazy_sys name inited kind s t"
| again: "pcs s i = Got p \<Longrightarrow> lazy_sys name inited kind s (s\<lparr>pcs := (pcs s)(i := Idle)\<rparr>)"

inductive_cases lazy_sysE: "lazy_sys name inited kind s t"

definition lazy_start :: "bool \<Rightarrow> 'p \<Rightarrow> ('p, 'k) lazy_state" where
  "lazy_start al w = \<lparr>payload = w, objects = (\<lambda>_. None), pcs = (\<lambda>_. Idle), aligned = al\<rparr>"

text \<open>The check of the initialisers, for the guest object at address \<open>p\<close> of a 64-bit system.\<close>

definition payload_aligned :: "u64 \<Rightarrow> bool" where
  "payload_aligned p = (unat (get_payload_pointer p) mod 8 = 0)"

text \<open>
  The three objects of the shim, on 64-bit systems, and the mutex on 32-bit systems. What a
  host object is made as: the kind of a mutex, the clock of a condition variable if one is set.
\<close>

definition mutex_sys :: "u32 \<Rightarrow> (u64, mutex_kind) lazy_state \<Rightarrow> (u64, mutex_kind) lazy_state \<Rightarrow> bool" where
  "mutex_sys init_value = lazy_sys ''mutex'' is_mutex_initialized (static_mutex_kind init_value)"

definition mutex_sys_32 :: "u32 \<Rightarrow> (u32, mutex_kind) lazy_state \<Rightarrow> (u32, mutex_kind) lazy_state \<Rightarrow> bool" where
  "mutex_sys_32 init_value = lazy_sys ''mutex'' is_mutex_initialized_32 (static_mutex_kind init_value)"

definition cond_sys :: "(u64, u32 option) lazy_state \<Rightarrow> (u64, u32 option) lazy_state \<Rightarrow> bool" where
  "cond_sys = lazy_sys ''cond'' is_cond_initialized None"

definition rwlock_sys :: "(u64, unit) lazy_state \<Rightarrow> (u64, unit) lazy_state \<Rightarrow> bool" where
  "rwlock_sys = lazy_sys ''rwlock'' is_rwlock_initialized ()"

section \<open>The payload stays inside the object\<close>

lemma unat_clear_low:
  fixes w :: u64
  shows "unat (w AND - 8) = unat w div 8 * 8"
proof -
  have "(- 8 :: u64) = NOT (mask 3)"
    using minus_exp_eq_not_mask[of 3, where 'a = u64] by simp
  then have "w AND - 8 = push_bit 3 (drop_bit 3 w)"
    by (auto simp: bit_eq_iff bit_simps)
  moreover have "unat w div 8 * 8 < 2 ^ 64"
    using unsigned_less[of w, where 'a = nat] div_mult_mod_eq[of "unat w" 8] by simp
  ultimately show ?thesis
    by (simp add: drop_bit_eq_div push_bit_eq_mult unat_word_ariths unat_div)
qed

lemma payload_offset:
  assumes "unat p + 11 < 2 ^ 64"
  shows "8 dvd unat (get_payload_pointer p) \<and>
    unat p + 4 \<le> unat (get_payload_pointer p) \<and> unat (get_payload_pointer p) \<le> unat p + 11"
proof -
  have "unat (p + 11) = unat p + 11"
    using assms by (simp add: unat_word_ariths)
  then have "unat (get_payload_pointer p) = (unat p + 11) div 8 * 8"
    by (simp add: get_payload_pointer_def unat_clear_low)
  then show ?thesis by presburger
qed

lemma payload_always_aligned: "payload_aligned p"
  by (simp add: payload_aligned_def get_payload_pointer_def unat_clear_low)

section \<open>Invariant of concurrent first uses\<close>

text \<open>The object a thread has made and not yet published or freed.\<close>

fun own_object :: "'p lazy_pc \<Rightarrow> 'p option" where
  "own_object (Made v p) = Some p"
| "own_object (Lost p v) = Some p"
| "own_object _ = None"

text \<open>
  \<open>w\<close> is the payload before any use. What a thread knows of the payload, by position:
\<close>

fun pc_knows :: "('p \<Rightarrow> bool) \<Rightarrow> 'p \<Rightarrow> 'p \<Rightarrow> 'p lazy_pc \<Rightarrow> bool" where
  "pc_knows inited w now Idle = True"
| "pc_knows inited w now (Loaded v) = (v = w)"
| "pc_knows inited w now (Made v p) = (v = w)"
| "pc_knows inited w now (Lost p v) = (v = now \<and> inited v)"
| "pc_knows inited w now (Got p) = (p = now \<and> inited p)"
| "pc_knows inited w now (Threw m) = True"

definition lazy_inv :: "string \<Rightarrow> ('p \<Rightarrow> bool) \<Rightarrow> 'k \<Rightarrow> 'p \<Rightarrow> ('p, 'k) lazy_state \<Rightarrow> bool" where
  "lazy_inv name inited kind w s \<longleftrightarrow> aligned s \<and>
    (payload s = w \<or> inited (payload s) \<and> objects s (payload s) = Some (Ready kind)) \<and>
    (\<forall>i. pc_knows inited w (payload s) (pcs s i)) \<and>
    (\<forall>i p. own_object (pcs s i) = Some p \<longrightarrow>
       inited p \<and> objects s p = Some (Ready kind) \<and> p \<noteq> payload s) \<and>
    (\<forall>i j p. own_object (pcs s i) = Some p \<and> own_object (pcs s j) = Some p \<longrightarrow> i = j) \<and>
    (\<forall>p. objects s p = None \<or> inited p) \<and>
    (\<forall>p. objects s p = None \<or> objects s p = Some Raw \<or> p = payload s \<or>
       (\<exists>i. own_object (pcs s i) = Some p)) \<and>
    (\<forall>i m. pcs s i = Threw m \<longrightarrow> m = init_failed name)"

lemma lazy_invI:
  assumes "aligned s" and "payload s = w \<or> inited (payload s) \<and> objects s (payload s) = Some (Ready kind)"
    and "\<And>i. pc_knows inited w (payload s) (pcs s i)"
    and "\<And>i p. own_object (pcs s i) = Some p \<Longrightarrow>
       inited p \<and> objects s p = Some (Ready kind) \<and> p \<noteq> payload s"
    and "\<And>i j p. own_object (pcs s i) = Some p \<Longrightarrow> own_object (pcs s j) = Some p \<Longrightarrow> i = j"
    and "\<And>p. objects s p = None \<or> inited p"
    and "\<And>p. objects s p = None \<or> objects s p = Some Raw \<or> p = payload s \<or>
       (\<exists>i. own_object (pcs s i) = Some p)"
    and "\<And>i m. pcs s i = Threw m \<Longrightarrow> m = init_failed name"
  shows "lazy_inv name inited kind w s"
  using assms unfolding lazy_inv_def by blast

lemma lazy_invD:
  assumes "lazy_inv name inited kind w s"
  shows lazy_aligned: "aligned s"
    and lazy_payload: "payload s = w \<or> inited (payload s) \<and> objects s (payload s) = Some (Ready kind)"
    and lazy_knows: "pc_knows inited w (payload s) (pcs s i)"
    and lazy_own: "own_object (pcs s i) = Some p \<Longrightarrow>
       inited p \<and> objects s p = Some (Ready kind) \<and> p \<noteq> payload s"
    and lazy_unique: "own_object (pcs s i) = Some p \<Longrightarrow> own_object (pcs s j) = Some p \<Longrightarrow> i = j"
    and lazy_inited: "objects s p = None \<or> inited p"
    and lazy_covered: "objects s p = None \<or> objects s p = Some Raw \<or> p = payload s \<or>
       (\<exists>i. own_object (pcs s i) = Some p)"
    and lazy_threw: "pcs s i = Threw m \<Longrightarrow> m = init_failed name"
  using assms unfolding lazy_inv_def by blast+

text \<open>A thread that moves to a position without an object of its own, all else unchanged.\<close>

lemma lazy_inv_move:
  assumes inv: "lazy_inv name inited kind w s" and "own_object (pcs s i) = None"
    and "own_object c = None" "pc_knows inited w (payload s) c" "\<And>m. c = Threw m \<Longrightarrow> m = init_failed name"
  shows "lazy_inv name inited kind w (s\<lparr>pcs := (pcs s)(i := c)\<rparr>)"
proof (rule lazy_invI)
  fix p
  show "objects (s\<lparr>pcs := (pcs s)(i := c)\<rparr>) p = None \<or> objects (s\<lparr>pcs := (pcs s)(i := c)\<rparr>) p = Some Raw \<or>
    p = payload (s\<lparr>pcs := (pcs s)(i := c)\<rparr>) \<or>
    (\<exists>ia. own_object (pcs (s\<lparr>pcs := (pcs s)(i := c)\<rparr>) ia) = Some p)"
    using lazy_covered[OF inv, of p] assms(2,3) by (auto; metis option.distinct(1))
qed (use assms lazy_aligned[OF inv] lazy_payload[OF inv] lazy_knows[OF inv] lazy_own[OF inv] lazy_unique[OF inv] lazy_inited[OF inv] lazy_threw[OF inv]
     in \<open>auto split: if_splits\<close>)

text \<open>
  The contract of a lazily made object: the payload before the first use is not a pointer.
  Under it, all that follows holds for any number of threads and any interleaving.
\<close>

locale lazy_object =
  fixes name :: string and inited :: "'p \<Rightarrow> bool" and kind :: 'k and w :: 'p
  assumes fresh_payload: "\<not> inited w"
begin

lemma inv_lazy_start: "lazy_inv name inited kind w (lazy_start True w)"
  by (simp add: lazy_inv_def lazy_start_def)

lemma inv_load:
  assumes inv: "lazy_inv name inited kind w s" and "pcs s i = Idle"
  shows "lazy_inv name inited kind w (lazy_load inited i s)"
  using assms lazy_payload[OF inv] fresh_payload
  by (auto simp: lazy_load_def Let_def intro!: lazy_inv_move)

lemma inv_make:
  assumes inv: "lazy_inv name inited kind w s"
    and pc: "pcs s i = Loaded v" and p: "objects s p = None" "inited p"
  shows "lazy_inv name inited kind w (lazy_make name kind p ok i s)"
proof -
  have v: "v = w" using lazy_knows[OF inv, of i] pc by simp
  have other: "own_object (pcs s j) \<noteq> Some p" for j
    using lazy_own[OF inv, of j p] p by auto
  have np: "p \<noteq> payload s" using lazy_payload[OF inv] p fresh_payload by auto
  have covered: "objects s q = None \<or> objects s q = Some Raw \<or> q = payload s \<or>
      (\<exists>j. j \<noteq> i \<and> own_object (pcs s j) = Some q)" for q
    using lazy_covered[OF inv, of q] pc by (metis own_object.simps(4) option.distinct(1))
  show ?thesis
    unfolding lazy_make_def pc lazy_pc.case
    using v other np lazy_aligned[OF inv] lazy_payload[OF inv] lazy_knows[OF inv] lazy_own[OF inv] lazy_unique[OF inv]
      lazy_inited[OF inv] lazy_threw[OF inv] p pc
    by (intro lazy_invI) (auto split: if_splits, (insert covered, metis option.distinct(1) option.inject)+)
qed

lemma inv_cas:
  assumes inv: "lazy_inv name inited kind w s" and pc: "pcs s i = Made v p"
  shows "lazy_inv name inited kind w (lazy_cas i s)"
proof -
  have v: "v = w" and p: "inited p" "objects s p = Some (Ready kind)" "p \<noteq> payload s"
    using lazy_knows[OF inv, of i] lazy_own[OF inv, of i p] pc by simp_all
  have covered: "objects s q = None \<or> objects s q = Some Raw \<or> q = payload s \<or> q = p \<or>
      (\<exists>j. j \<noteq> i \<and> own_object (pcs s j) = Some q)" for q
    using lazy_covered[OF inv, of q] pc by (metis own_object.simps(1) option.inject)
  have unique: "own_object (pcs s j) = Some p \<Longrightarrow> j = i" for j
    using lazy_unique[OF inv, of j p i] pc by simp
  show ?thesis
  proof (cases "payload s = v")
    case True
    have "pc_knows inited w p (pcs s j)" for j
      using lazy_knows[OF inv, of j] True v fresh_payload by (cases "pcs s j") auto
    note known = this
    have coveredT: "objects s q = None \<or> objects s q = Some Raw \<or> q = p \<or>
        (\<exists>j. j \<noteq> i \<and> own_object (pcs s j) = Some q)" for q
      using covered[of q] lazy_inited[OF inv, of q] True v fresh_payload by auto
    have c: "lazy_cas i s = s\<lparr>payload := p, pcs := (pcs s)(i := Got p)\<rparr>"
      by (simp add: lazy_cas_def pc True)
    show ?thesis
      unfolding c
    proof (rule lazy_invI, goal_cases)
      case (4 j q) then show ?case using lazy_own[OF inv, of j q] unique[of j] by (auto split: if_splits)
    next
      case (5 j k q) then show ?case using lazy_unique[OF inv, of j q k] by (auto split: if_splits)
    next
      case (7 q) then show ?case using coveredT[of q] by auto
    qed (use known p lazy_aligned[OF inv] lazy_inited[OF inv] lazy_threw[OF inv] in \<open>auto split: if_splits\<close>)
  next
    case False
    have "inited (payload s)" using lazy_payload[OF inv] False v by auto
    then show ?thesis
      unfolding lazy_cas_def pc lazy_pc.case
      using False p v unique lazy_own[OF inv] lazy_unique[OF inv] lazy_inited[OF inv] lazy_threw[OF inv] lazy_aligned[OF inv] lazy_aligned[OF inv] lazy_payload[OF inv] lazy_knows[OF inv]
      by (intro lazy_invI) (auto split: if_splits, (insert covered, metis option.distinct(1) option.inject)+)
  qed
qed

lemma inv_lose:
  assumes inv: "lazy_inv name inited kind w s" and pc: "pcs s i = Lost p v"
  shows "lazy_inv name inited kind w (lazy_lose name inited i s)"
proof -
  have v: "v = payload s" "inited v" and p: "p \<noteq> payload s"
    using lazy_knows[OF inv, of i] lazy_own[OF inv, of i p] pc by auto
  have covered: "objects s q = None \<or> objects s q = Some Raw \<or> q = payload s \<or> q = p \<or>
      (\<exists>j. j \<noteq> i \<and> own_object (pcs s j) = Some q)" for q
    using lazy_covered[OF inv, of q] pc by (metis own_object.simps(2) option.inject)
  have unique: "own_object (pcs s j) = Some p \<Longrightarrow> j = i" for j
    using lazy_unique[OF inv, of j p i] pc by simp
  show ?thesis
    unfolding lazy_lose_def pc lazy_pc.case
    using p v unique lazy_own[OF inv] lazy_unique[OF inv] lazy_inited[OF inv] lazy_threw[OF inv] lazy_aligned[OF inv] lazy_payload[OF inv] lazy_knows[OF inv]
    by (intro lazy_invI) (auto split: if_splits, (insert covered, metis option.distinct(1) option.inject)+)
qed

lemma inv_sys:
  assumes "lazy_inv name inited kind w s" "lazy_sys name inited kind s t"
  shows "lazy_inv name inited kind w t"
  using assms(2)
proof (cases rule: lazy_sys.cases)
  case (step i)
  from step(1) show ?thesis
    by (cases rule: lazy_step.cases) (simp_all add: inv_load inv_make inv_cas inv_lose assms(1))
next
  case (again i p)
  with assms(1) show ?thesis by (auto intro: lazy_inv_move)
qed

end

sublocale lazy_object \<subseteq> transition_system
  "\<lambda>s. s = lazy_start True w" "lazy_sys name inited kind" "lazy_inv name inited kind w"
  by unfold_locales (auto intro: inv_lazy_start inv_sys)

context lazy_object
begin

lemma lazy_reachable: "(lazy_sys name inited kind)\<^sup>*\<^sup>* (lazy_start True w) s \<Longrightarrow> lazy_inv name inited kind w s"
  by (rule inv_reachable) simp_all

text \<open>Every thread that has an object has the same one, and it is live, of the right kind and published.\<close>

lemma got_agree:
  assumes r: "(lazy_sys name inited kind)\<^sup>*\<^sup>* (lazy_start True w) s" and "pcs s i = Got p"
  shows "payload s = p \<and> inited p \<and> objects s p = Some (Ready kind)"
proof -
  note inv = lazy_reachable[OF r]
  from lazy_knows[OF inv, of i] assms(2) have "p = payload s" "inited p" by auto
  with lazy_payload[OF inv] fresh_payload show ?thesis by auto
qed

lemma only_init_failure:
  assumes r: "(lazy_sys name inited kind)\<^sup>*\<^sup>* (lazy_start True w) s" and "pcs s i = Threw m"
  shows "m = init_failed name"
  using lazy_threw[OF lazy_reachable[OF r]] assms(2) .

text \<open>When no thread is under way, the published object is the only one alive.\<close>

lemma no_leak:
  assumes r: "(lazy_sys name inited kind)\<^sup>*\<^sup>* (lazy_start True w) s"
    and quiet: "\<And>i. own_object (pcs s i) = None" and "objects s p = Some (Ready k)"
  shows "p = payload s"
  using lazy_covered[OF lazy_reachable[OF r], of p] quiet assms(3) by auto

end

section \<open>The objects of the shim\<close>

interpretation mutex: lazy_object "''mutex''" is_mutex_initialized "static_mutex_kind v" 0 for v :: u32
  by unfold_locales (simp add: is_mutex_initialized_def)

interpretation cond: lazy_object "''cond''" is_cond_initialized "None :: u32 option" 0
  by unfold_locales (simp add: is_cond_initialized_def)

interpretation rwlock: lazy_object "''rwlock''" is_rwlock_initialized "()" 0
  by unfold_locales (simp add: is_rwlock_initialized_def)

text \<open>On 32-bit systems the static initialisers are words with no bit but 14 and 15.\<close>

interpretation mutex_32: lazy_object "''mutex''" is_mutex_initialized_32
  "static_mutex_kind (v AND push_bit 14 3)" "v AND push_bit 14 3" for v :: u32
proof
  show "\<not> is_mutex_initialized_32 (v AND push_bit 14 3)"
    unfolding is_mutex_initialized_32_def by (simp only: and.assoc bit.conj_cancel_right and_zero_eq not_not simp_thms)
qed

section \<open>Properties\<close>

text \<open>
  C3: Whatever the number of threads that use a statically initialised mutex for the first
  time at once, wherever it is (its address is \<open>a\<close>), and however their steps interleave: all threads that have gone through the
  conversion hold the same host mutex; it is the published one, it has not been freed, and it
  is of the kind the static initialiser asks for. No thread ever throws
  \<open>unaligned mutex\<close> or \<open>Failed to init mutex by other thread\<close>. Once no thread is under way, no host mutex but the
  published one is alive.
\<close>

theorem mutex_first_use:
  assumes "(mutex_sys v)\<^sup>*\<^sup>* (lazy_start (payload_aligned a) 0) s"
  shows "(\<forall>i p. pcs s i = Got p \<longrightarrow>
      payload s = p \<and> p \<noteq> 0 \<and> objects s p = Some (Ready (static_mutex_kind v))) \<and>
    (\<forall>i m. pcs s i = Threw m \<longrightarrow> m = init_failed ''mutex'') \<and>
    ((\<forall>i. own_object (pcs s i) = None) \<longrightarrow>
      (\<forall>p k. objects s p = Some (Ready k) \<longrightarrow> p = payload s))"
  using assms unfolding mutex_sys_def
  by (auto simp: payload_always_aligned is_mutex_initialized_def dest: mutex.got_agree mutex.no_leak mutex.only_init_failure)

definition sample_race :: "(u64, mutex_kind) lazy_state" where
  "sample_race =
    (let k = static_mutex_kind 0x4000; ld = lazy_load is_mutex_initialized
     in lazy_lose ''mutex'' is_mutex_initialized 1 (lazy_cas 1 (lazy_cas 0
         (lazy_make ''mutex'' k 32 True 1 (lazy_make ''mutex'' k 16 True 0 (ld 1 (ld 0 (lazy_start True 0))))))))"

lemma lazy_moves:
  assumes "(lazy_sys name inited kind)\<^sup>*\<^sup>* s t"
  shows "pcs t i = Idle \<Longrightarrow> (lazy_sys name inited kind)\<^sup>*\<^sup>* s (lazy_load inited i t)"
    and "pcs t i = Loaded v \<Longrightarrow> objects t p = None \<Longrightarrow> inited p \<Longrightarrow>
      (lazy_sys name inited kind)\<^sup>*\<^sup>* s (lazy_make name kind p ok i t)"
    and "pcs t i = Made v p \<Longrightarrow> (lazy_sys name inited kind)\<^sup>*\<^sup>* s (lazy_cas i t)"
    and "pcs t i = Lost p v \<Longrightarrow> (lazy_sys name inited kind)\<^sup>*\<^sup>* s (lazy_lose name inited i t)"
  by (meson assms rtranclp.rtrancl_into_rtrancl lazy_sys.step lazy_step.intros)+

lemmas lazy_eval =
  lazy_start_def lazy_load_def lazy_make_def lazy_cas_def lazy_lose_def is_mutex_initialized_def Let_def

lemma sample_race_run: "(mutex_sys 0x4000)\<^sup>*\<^sup>* (lazy_start True 0) sample_race"
  unfolding mutex_sys_def sample_race_def Let_def
  apply (rule lazy_moves(4), rule lazy_moves(3), rule lazy_moves(3), rule lazy_moves(2), rule lazy_moves(2),
      rule lazy_moves(1), rule lazy_moves(1), rule rtranclp.rtrancl_refl)
  apply (simp_all add: lazy_eval)
  done

theorem mutex_first_use_witness:
  "(mutex_sys 0x4000)\<^sup>*\<^sup>* (lazy_start True 0) sample_race \<and> pcs sample_race 0 = Got 16 \<and>
   pcs sample_race 1 = Got 16 \<and> objects sample_race 32 = None \<and>
   payload sample_race = 16 \<and> objects sample_race 16 = Some (Ready PTHREAD_MUTEX_RECURSIVE)"
proof -
  have "pcs sample_race 0 = Got 16" "pcs sample_race 1 = Got 16" "objects sample_race 32 = None"
    by (simp_all add: sample_race_def lazy_eval)
  with mutex_first_use[of "0x4000" 4 sample_race] sample_race_run show ?thesis
    by (simp add: static_mutex_kind_def payload_always_aligned)
qed

text \<open>
  C35: The payload word of an object that lies in the address space is aligned, lies behind
  the four bytes of the static initialiser and inside the object, for mutexes, condition
  variables and read-write locks, wherever the object is placed.
\<close>

theorem payload_in_object:
  assumes "unat p + sizeof_pthread_mutex \<le> 2 ^ 64"
  shows "8 dvd unat (get_payload_pointer p) \<and> unat p + 4 \<le> unat (get_payload_pointer p) \<and>
    unat (get_payload_pointer p) + 8 \<le> unat p + sizeof_pthread_mutex \<and>
    sizeof_pthread_mutex \<le> sizeof_pthread_cond \<and> sizeof_pthread_cond \<le> sizeof_pthread_rwlock"
  using payload_offset[of p] assms
  by (simp add: sizeof_pthread_mutex_def sizeof_pthread_cond_def sizeof_pthread_rwlock_def)

theorem payload_in_object_witness:
  "unat (4 :: u64) + sizeof_pthread_mutex \<le> 2 ^ 64 \<and>
   unat (get_payload_pointer 4) + 8 \<le> unat (4 :: u64) + sizeof_pthread_mutex"
  using payload_in_object[of 4] by (simp add: sizeof_pthread_mutex_def)

end
