(* ===== verification/Shim_Pthread.thy ===== *)
theory Shim_Pthread
  imports Shim_Errno Shim_Lazy
begin

text \<open>
  The rest of \<open>src/libc-shim/src/pthreads.cpp\<close> that keeps state: attributes of threads, mutexes
  and condition variables, and making and destroying the host objects behind the guest's; with
  the waiting time of \<open>sem_timedwait\<close> from \<open>semaphore.cpp\<close> and the clocks of \<open>common.cpp\<close>. The
  guest's object is the \<open>lazy_state\<close> of Shim\_Lazy: its payload word and the live host objects.
  What the host's functions return is an argument.
\<close>

section \<open>Thread attributes\<close>

record pthread_attr =
  detached :: bool
  user_stack :: bool
  stack_base :: u64
  stack_size :: u64
  guard_size :: u64
  sched_policy :: u32
  sched_priority :: u32

definition pthread_attr_init :: pthread_attr where
  "pthread_attr_init = \<lparr>detached = False, user_stack = False, stack_base = 0, stack_size = 0, guard_size = 0,
     sched_policy = 0, sched_priority = 0\<rparr>"

definition pthread_attr_setdetachstate :: "header \<Rightarrow> u32 \<Rightarrow> pthread_attr \<Rightarrow> u32 \<times> pthread_attr" where
  "pthread_attr_setdetachstate h value attr =
    (if value \<noteq> 0 \<and> value \<noteq> 1 then (hval h ''EINVAL'', attr) else (0, attr\<lparr>detached := (value = 1)\<rparr>))"

definition pthread_attr_getdetachstate :: "pthread_attr \<Rightarrow> u32" where
  "pthread_attr_getdetachstate attr = (if detached attr then 1 else 0)"

definition pthread_attr_setschedparam :: "u32 \<Rightarrow> pthread_attr \<Rightarrow> u32 \<times> pthread_attr" where
  "pthread_attr_setschedparam value attr = (0, attr\<lparr>sched_priority := value\<rparr>)"

definition pthread_attr_getschedparam :: "pthread_attr \<Rightarrow> u32" where
  "pthread_attr_getschedparam attr = sched_priority attr"

text \<open>A size below the host's minimum is ignored and 0 is returned.\<close>

definition pthread_attr_setstacksize :: "u64 \<Rightarrow> u64 \<Rightarrow> pthread_attr \<Rightarrow> u32 \<times> pthread_attr" where
  "pthread_attr_setstacksize stack_min value attr =
    (if value < stack_min then (0, attr) else (0, attr\<lparr>stack_size := value\<rparr>))"

definition pthread_attr_getstack :: "pthread_attr \<Rightarrow> u64 \<times> u64" where
  "pthread_attr_getstack attr = (stack_base attr, stack_size attr)"

definition pthread_attr_getstacksize :: "pthread_attr \<Rightarrow> u64" where
  "pthread_attr_getstacksize attr = stack_size attr"

text \<open>
  \<open>host_pthread_attr\<close>: the host's attributes made for a thread: whether it is detached, and the
  stack size and priority if they were set (otherwise the host's defaults stay).
\<close>

record host_attr =
  ha_detach :: u32
  ha_stack :: "u64 option"
  ha_priority :: "u32 option"

definition host_pthread_attr :: "header \<Rightarrow> pthread_attr option \<Rightarrow> host_attr option" where
  "host_pthread_attr h p =
    map_option (\<lambda>attr.
      \<lparr>ha_detach = (if detached attr then hval h ''PTHREAD_CREATE_DETACHED'' else hval h ''PTHREAD_CREATE_JOINABLE''),
       ha_stack = (if stack_size attr \<noteq> 0 then Some (stack_size attr) else None),
       ha_priority = (if sched_priority attr \<noteq> 0 then Some (sched_priority attr) else None)\<rparr>) p"

text \<open>
  \<open>pthread_getattr_np\<close> on Linux and FreeBSD, from what the host says of the thread: return code,
  detach state, priority, and the address and size of the stack.
\<close>

definition pthread_getattr_np ::
  "header \<Rightarrow> u32 \<times> u32 \<times> u32 \<times> u64 \<times> u64 \<Rightarrow> pthread_attr \<Rightarrow> u32 \<times> pthread_attr" where
  "pthread_getattr_np h answer attr =
    (case answer of (r, detach, priority, base, sz) \<Rightarrow>
      if r \<noteq> 0 then (translate_errno_from_host h r, attr)
      else (0, (snd (pthread_attr_setdetachstate h detach pthread_attr_init))
                 \<lparr>sched_priority := priority, stack_base := base, stack_size := sz\<rparr>))"

section \<open>Scheduling\<close>

definition to_host_sched_policy :: "header \<Rightarrow> u32 \<Rightarrow> u32 result" where
  "to_host_sched_policy h type =
    switch_or_throw [(0, hval h ''SCHED_OTHER'')] type (Runtime_error ''Invalid sched policy'' [])"

definition from_host_sched_policy :: "header \<Rightarrow> u32 \<Rightarrow> u32" where
  "from_host_sched_policy h type = (if type = hval h ''SCHED_OTHER'' then 0 else -1)"

text \<open>
  The host answers with a return code, policy and priority; the second function is its
  \<open>pthread_setschedparam\<close>.
\<close>

definition pthread_getschedparam :: "header \<Rightarrow> u32 \<times> u32 \<times> u32 \<Rightarrow> u32 \<times> (u32 \<times> u32) option" where
  "pthread_getschedparam h answer =
    (case answer of (r, policy, priority) \<Rightarrow>
      if r \<noteq> 0 then (translate_errno_from_host h r, None)
      else (0, Some (from_host_sched_policy h policy, priority)))"

definition pthread_setschedparam ::
  "header \<Rightarrow> u32 \<times> u32 \<times> u32 \<Rightarrow> (u32 \<Rightarrow> u32 \<Rightarrow> u32) \<Rightarrow> u32 \<Rightarrow> u32 \<Rightarrow> u32 result" where
  "pthread_setschedparam h answer host_set policy priority =
    (case answer of (r, hpolicy, hpriority) \<Rightarrow>
      if r \<noteq> 0 then Inr (translate_errno_from_host h r)
      else bindr (if policy \<noteq> -1 then to_host_sched_policy h policy else Inr hpolicy) (\<lambda>hpolicy.
        Inr (translate_errno_from_host h (host_set hpolicy priority))))"

section \<open>Clocks and attributes of mutexes and condition variables\<close>

definition to_host_clock_type :: "header \<Rightarrow> u32 \<Rightarrow> u32 result" where
  "to_host_clock_type h type = switch_or_throw
    [(0, hval h ''CLOCK_REALTIME''), (1, hval h ''CLOCK_MONOTONIC''),
     (7, if h ''__APPLE__'' \<noteq> None then hval h ''CLOCK_MONOTONIC'' else hval h ''CLOCK_BOOTTIME'')]
    type (Runtime_error ''Unexpected clock type %d'' [type])"

text \<open>A mutex attribute is the type, kept in four bits.\<close>

definition pthread_mutexattr_init :: u32 where
  "pthread_mutexattr_init = 0"

definition pthread_mutexattr_settype :: "header \<Rightarrow> u32 \<Rightarrow> u32 \<Rightarrow> u32 \<times> u32" where
  "pthread_mutexattr_settype h type attr =
    (if sint type < 0 \<or> sint type > 2 then (hval h ''EINVAL'', attr) else (0, type AND 0xf))"

definition pthread_mutexattr_gettype :: "u32 \<Rightarrow> u32" where
  "pthread_mutexattr_gettype attr = attr"

definition to_host_mutex_type :: "u32 \<Rightarrow> mutex_kind result" where
  "to_host_mutex_type type = switch_or_throw
    [(0, PTHREAD_MUTEX_NORMAL), (1, PTHREAD_MUTEX_RECURSIVE), (2, PTHREAD_MUTEX_ERRORCHECK)]
    type (Runtime_error ''Invalid mutex type'' [])"

definition host_mutexattr :: "u32 option \<Rightarrow> mutex_kind result" where
  "host_mutexattr p = (case p of None \<Rightarrow> Inr PTHREAD_MUTEX_DEFAULT | Some t \<Rightarrow> to_host_mutex_type t)"

text \<open>The attribute of a condition variable is the clock; the default is the monotonic one.\<close>

definition pthread_condattr_init :: u32 where
  "pthread_condattr_init = 1"

definition pthread_condattr_setclock :: "header \<Rightarrow> u32 \<Rightarrow> u32 \<Rightarrow> u32 \<times> u32" where
  "pthread_condattr_setclock h clock attr =
    (if clock \<noteq> 1 \<and> clock \<noteq> 0 then (translate_errno_from_host h (hval h ''EINVAL''), attr) else (0, clock))"

definition pthread_condattr_getclock :: "u32 \<Rightarrow> u32" where
  "pthread_condattr_getclock attr = attr"

definition host_condattr :: "header \<Rightarrow> u32 option \<Rightarrow> u32 option result" where
  "host_condattr h p =
    (case p of None \<Rightarrow> Inr None
     | Some clock \<Rightarrow> if h ''__APPLE__'' \<noteq> None then Inr None else bindr (to_host_clock_type h clock) (\<lambda>c. Inr (Some c)))"

section \<open>Making and destroying host objects\<close>

text \<open>
  \<open>p\<close> is the memory the allocator gives, \<open>r\<close> the return code of the host's function. A failed
  initialisation frees the memory. Destroying resets the payload and frees the host object
  whatever the host's function returns.
\<close>

definition object_init ::
  "header \<Rightarrow> 'p \<Rightarrow> u32 \<Rightarrow> 'k \<Rightarrow> ('p, 'k) lazy_state \<Rightarrow> u32 \<times> ('p, 'k) lazy_state" where
  "object_init h p r kind s =
    (if r \<noteq> 0 then (translate_errno_from_host h r, s)
     else (translate_errno_from_host h 0, s\<lparr>objects := (objects s)(p \<mapsto> Ready kind), payload := p\<rparr>))"

definition object_destroy ::
  "('p :: zero \<Rightarrow> bool) \<Rightarrow> header \<Rightarrow> u32 \<Rightarrow> ('p, 'k) lazy_state \<Rightarrow> u32 \<times> ('p, 'k) lazy_state" where
  "object_destroy inited h r s =
    (let v = payload s
     in if \<not> inited v then (0, s)
        else (translate_errno_from_host h r, s\<lparr>payload := 0, objects := (objects s)(v := None)\<rparr>))"

type_synonym mutex_object = "(u64, mutex_kind) lazy_state"

definition pthread_mutex_init ::
  "header \<Rightarrow> u64 \<Rightarrow> u32 \<Rightarrow> u32 option \<Rightarrow> mutex_object \<Rightarrow> (u32 \<times> mutex_object) result" where
  "pthread_mutex_init h p r attr s = bindr (host_mutexattr attr) (\<lambda>kind. Inr (object_init h p r kind s))"

definition pthread_mutex_destroy :: "header \<Rightarrow> u32 \<Rightarrow> mutex_object \<Rightarrow> u32 \<times> mutex_object" where
  "pthread_mutex_destroy h r s = object_destroy is_mutex_initialized h r s"

text \<open>
  The host object to use, when no other thread converts at the same time: the steps of the
  conversion in a row. \<open>p\<close> is the memory a first use gets, \<open>ok\<close> whether its initialisation succeeds.
\<close>

definition to_host_object ::
  "string \<Rightarrow> ('p \<Rightarrow> bool) \<Rightarrow> 'k \<Rightarrow> 'p \<Rightarrow> bool \<Rightarrow> nat \<Rightarrow> ('p, 'k) lazy_state \<Rightarrow> ('p, 'k) lazy_state" where
  "to_host_object name inited kind p ok i s =
    lazy_lose name inited i (lazy_cas i (lazy_make name kind p ok i (lazy_load inited i s)))"

fun converted :: "'p lazy_pc \<Rightarrow> 'p result" where
  "converted (Got q) = Inr q"
| "converted (Threw m) = handle_runtime_error m []"
| "converted _ = handle_runtime_error ''conversion under way'' []"

definition mutex_call ::
  "header \<Rightarrow> (u64 \<Rightarrow> u32) \<Rightarrow> u32 \<Rightarrow> u64 \<Rightarrow> bool \<Rightarrow> nat \<Rightarrow> mutex_object \<Rightarrow> u32 result \<times> mutex_object" where
  "mutex_call h host_fn init_value p ok i s =
    (let t = to_host_object ''mutex'' is_mutex_initialized (static_mutex_kind init_value) p ok i s
     in (bindr (converted (pcs t i)) (\<lambda>q. Inr (translate_errno_from_host h (host_fn q))), t))"

definition pthread_mutex_lock ::
  "header \<Rightarrow> (u64 \<Rightarrow> u32) \<Rightarrow> u32 \<Rightarrow> u64 \<Rightarrow> bool \<Rightarrow> nat \<Rightarrow> mutex_object \<Rightarrow> u32 result \<times> mutex_object" where
  "pthread_mutex_lock h host_lock = mutex_call h host_lock"

definition pthread_mutex_unlock ::
  "header \<Rightarrow> (u64 \<Rightarrow> u32) \<Rightarrow> u32 \<Rightarrow> u64 \<Rightarrow> bool \<Rightarrow> nat \<Rightarrow> mutex_object \<Rightarrow> u32 result \<times> mutex_object" where
  "pthread_mutex_unlock h host_unlock = mutex_call h host_unlock"

definition pthread_mutex_trylock ::
  "header \<Rightarrow> (u64 \<Rightarrow> u32) \<Rightarrow> u32 \<Rightarrow> u64 \<Rightarrow> bool \<Rightarrow> nat \<Rightarrow> mutex_object \<Rightarrow> u32 result \<times> mutex_object" where
  "pthread_mutex_trylock h host_trylock = mutex_call h host_trylock"

definition pthread_cond_init ::
  "header \<Rightarrow> u64 \<Rightarrow> u32 \<Rightarrow> u32 option \<Rightarrow> (u64, u32 option) lazy_state \<Rightarrow> (u32 \<times> (u64, u32 option) lazy_state) result" where
  "pthread_cond_init h p r attr s = bindr (host_condattr h attr) (\<lambda>clock. Inr (object_init h p r clock s))"

definition pthread_cond_destroy ::
  "header \<Rightarrow> u32 \<Rightarrow> (u64, u32 option) lazy_state \<Rightarrow> u32 \<times> (u64, u32 option) lazy_state" where
  "pthread_cond_destroy h r s = object_destroy is_cond_initialized h r s"

definition pthread_rwlock_init ::
  "header \<Rightarrow> u64 \<Rightarrow> u32 \<Rightarrow> bool \<Rightarrow> (u64, unit) lazy_state \<Rightarrow> (u32 \<times> (u64, unit) lazy_state) result" where
  "pthread_rwlock_init h p r has_attr s =
    (if has_attr then handle_runtime_error ''non-NULL rwlock attr is currently not supported'' []
     else Inr (object_init h p r () s))"

definition pthread_rwlock_destroy ::
  "header \<Rightarrow> u32 \<Rightarrow> (u64, unit) lazy_state \<Rightarrow> u32 \<times> (u64, unit) lazy_state" where
  "pthread_rwlock_destroy h r s = object_destroy is_rwlock_initialized h r s"

section \<open>Waiting, signalling, threads and keys\<close>

type_synonym cond_object = "(u64, u32 option) lazy_state"

definition cond_call ::
  "header \<Rightarrow> (u64 \<Rightarrow> u32) \<Rightarrow> u64 \<Rightarrow> bool \<Rightarrow> nat \<Rightarrow> cond_object \<Rightarrow> u32 result \<times> cond_object" where
  "cond_call h host_fn p ok i s =
    (let t = to_host_object ''cond'' is_cond_initialized None p ok i s
     in (bindr (converted (pcs t i)) (\<lambda>q. Inr (translate_errno_from_host h (host_fn q))), t))"

definition pthread_cond_broadcast ::
  "header \<Rightarrow> (u64 \<Rightarrow> u32) \<Rightarrow> u64 \<Rightarrow> bool \<Rightarrow> nat \<Rightarrow> cond_object \<Rightarrow> u32 result \<times> cond_object" where
  "pthread_cond_broadcast h host_broadcast = cond_call h host_broadcast"

definition pthread_cond_signal ::
  "header \<Rightarrow> (u64 \<Rightarrow> u32) \<Rightarrow> u64 \<Rightarrow> bool \<Rightarrow> nat \<Rightarrow> cond_object \<Rightarrow> u32 result \<times> cond_object" where
  "pthread_cond_signal h host_signal = cond_call h host_signal"

text \<open>
  Waiting converts both objects. The timed wait gives the host the same deadline, on whatever
  clock the host's object uses.
\<close>

definition pthread_cond_wait ::
  "header \<Rightarrow> (u64 \<Rightarrow> u64 \<Rightarrow> u32) \<Rightarrow> u32 \<Rightarrow> u64 \<times> bool \<Rightarrow> u64 \<times> bool \<Rightarrow> nat \<Rightarrow> cond_object \<Rightarrow> mutex_object \<Rightarrow>
    u32 result \<times> cond_object \<times> mutex_object" where
  "pthread_cond_wait h host_wait init_value new_cond new_mutex i c m =
    (let c = to_host_object ''cond'' is_cond_initialized None (fst new_cond) (snd new_cond) i c;
         m = to_host_object ''mutex'' is_mutex_initialized (static_mutex_kind init_value) (fst new_mutex) (snd new_mutex) i m
     in (bindr (converted (pcs c i)) (\<lambda>q. bindr (converted (pcs m i)) (\<lambda>p.
           Inr (translate_errno_from_host h (host_wait q p)))), c, m))"

definition pthread_cond_timedwait ::
  "header \<Rightarrow> (u64 \<Rightarrow> u64 \<Rightarrow> int \<times> int \<Rightarrow> u32) \<Rightarrow> u32 \<Rightarrow> u64 \<times> bool \<Rightarrow> u64 \<times> bool \<Rightarrow> nat \<Rightarrow> int \<times> int \<Rightarrow>
    cond_object \<Rightarrow> mutex_object \<Rightarrow> u32 result \<times> cond_object \<times> mutex_object" where
  "pthread_cond_timedwait h host_wait init_value new_cond new_mutex i ts =
    pthread_cond_wait h (\<lambda>q p. host_wait q p ts) init_value new_cond new_mutex i"

definition pthread_create :: "header \<Rightarrow> (host_attr option \<Rightarrow> u32) \<Rightarrow> pthread_attr option \<Rightarrow> u32" where
  "pthread_create h host_create attr = translate_errno_from_host h (host_create (host_pthread_attr h attr))"

text \<open>
  The host answers with a return code and a key; on failure the key is whatever the variable
  held. Keys above the largest \<open>int\<close> throw.
\<close>

definition pthread_key_create :: "header \<Rightarrow> u32 \<times> u32 \<Rightarrow> (u32 \<times> u32) result" where
  "pthread_key_create h answer =
    (if snd answer > 0x7fffffff then handle_runtime_error ''Unsupported host pthread key implementation'' []
     else Inr (translate_errno_from_host h (fst answer), snd answer))"

section \<open>Waiting for a semaphore until a time\<close>

text \<open>
  \<open>sem_timedwait\<close> on macOS: the time left, as seconds and nanoseconds, from the deadline and the
  current time.
\<close>

definition sem_timeout :: "int \<times> int \<Rightarrow> int \<times> int \<Rightarrow> u32 \<times> int" where
  "sem_timeout abs_timeout now =
    (if fst abs_timeout > fst now \<or> (fst abs_timeout = fst now \<and> snd abs_timeout > snd now)
     then (word_of_int (fst abs_timeout - fst now), snd abs_timeout - snd now)
     else (0, 0))"

text \<open>The nanoseconds are negative whenever the deadline's are below the current ones.\<close>

lemma sem_timeout_negative:
  "fst now < fst abs_timeout \<Longrightarrow> snd (sem_timeout abs_timeout now) < 0 \<longleftrightarrow> snd abs_timeout < snd now"
  by (simp add: sem_timeout_def)

section \<open>Properties\<close>

lemma settype_accepts:
  assumes "pthread_mutexattr_settype h type attr = (0, t)" "hval h ''EINVAL'' \<noteq> 0"
  shows "type \<in> {0, 1, 2} \<and> t = type"
proof -
  from assms have r: "0 \<le> sint type" "sint type \<le> 2"
    by (auto simp: pthread_mutexattr_settype_def split: if_splits)
  then have "sint type = 0 \<or> sint type = 1 \<or> sint type = 2" by arith
  moreover have "type = of_int (sint type)" by simp
  ultimately have "type \<in> {0, 1, 2}" by (elim disjE) (metis insertCI of_int_0 of_int_1 of_int_numeral)+
  moreover have "t = type AND 0xf" using assms r by (auto simp: pthread_mutexattr_settype_def split: if_splits)
  ultimately show ?thesis by auto
qed

text \<open>
  C33: The life of a mutex. Every type that \<open>pthread_mutexattr_settype\<close> accepts can be used: the
  initialisation does not throw, and when the host succeeds the guest's object refers to a new
  host mutex of that type, which \<open>lock\<close>, \<open>unlock\<close> and \<open>trylock\<close> then act on without making
  another; when the host fails nothing changes and the translated error is returned. Destroying
  the mutex frees it, leaves the other objects alone, and makes the guest's object as good as
  new.
\<close>

theorem mutex_life:
  assumes "errno_header h" "0 \<notin> host_errnos h" "hval h ''EINVAL'' \<noteq> 0"
    and "pthread_mutexattr_settype h type attr = (0, t)" and "p \<noteq> 0" "objects s p = None"
  shows "\<exists>kind. to_host_mutex_type t = Inr kind \<and>
    (\<exists>s'. pthread_mutex_init h p 0 (Some t) s = Inr (0, s') \<and> payload s' = p \<and> objects s' p = Some (Ready kind) \<and>
      (\<forall>fn v q ok i. fst (mutex_call h fn v q ok i s') = Inr (translate_errno_from_host h (fn p)) \<and>
         objects (snd (mutex_call h fn v q ok i s')) = objects s') \<and>
      (\<forall>r. snd (pthread_mutex_destroy h r s') = s'\<lparr>payload := 0, objects := objects s\<rparr>)) \<and>
    (\<forall>r. r \<noteq> 0 \<longrightarrow> pthread_mutex_init h p r (Some t) s = Inr (translate_errno_from_host h r, s))"
proof -
  have "t \<in> {0, 1, 2}" using settype_accepts[OF assms(4,3)] by auto
  then obtain kind where k: "to_host_mutex_type t = Inr kind"
    by (auto simp: to_host_mutex_type_def switch_or_throw_def)
  let ?s = "s\<lparr>objects := (objects s)(p \<mapsto> Ready kind), payload := p\<rparr>"
  have "pthread_mutex_init h p 0 (Some t) s = Inr (0, ?s)"
    using k assms(2) by (simp add: pthread_mutex_init_def host_mutexattr_def object_init_def errno_default)
  moreover have "fst (mutex_call h fn v q ok i ?s) = Inr (translate_errno_from_host h (fn p)) \<and>
      objects (snd (mutex_call h fn v q ok i ?s)) = objects ?s" for fn v q ok i
    using assms(5) by (simp add: mutex_call_def to_host_object_def lazy_load_def lazy_make_def lazy_cas_def
        lazy_lose_def is_mutex_initialized_def Let_def)
  moreover have "snd (pthread_mutex_destroy h r ?s) = ?s\<lparr>payload := 0, objects := objects s\<rparr>" for r
    using assms(5,6) by (auto simp: pthread_mutex_destroy_def object_destroy_def is_mutex_initialized_def Let_def
        fun_eq_iff intro!: lazy_state.equality)
  moreover have "pthread_mutex_init h p r (Some t) s = Inr (translate_errno_from_host h r, s)" if "r \<noteq> 0" for r
    using k that by (simp add: pthread_mutex_init_def host_mutexattr_def object_init_def)
  ultimately show ?thesis using k by (intro exI[of _ kind] conjI exI[of _ ?s]) (simp_all del: fun_upd_apply add: fun_upd_same)
qed

theorem mutex_life_witness:
  "pthread_mutexattr_settype sample_errnos 1 0 = (0, 1) \<and>
   (\<exists>s'. pthread_mutex_init sample_errnos 64 0 (Some 1) (lazy_start True 0) = Inr (0, s') \<and>
     payload s' = 64 \<and> objects s' 64 = Some (Ready PTHREAD_MUTEX_RECURSIVE))"
proof -
  have st: "pthread_mutexattr_settype sample_errnos 1 0 = (0, 1)"
    by (simp add: pthread_mutexattr_settype_def)
  moreover have k: "to_host_mutex_type 1 = Inr PTHREAD_MUTEX_RECURSIVE"
    by (simp add: to_host_mutex_type_def switch_or_throw_def)
  moreover have "\<exists>kind. to_host_mutex_type 1 = Inr kind \<and>
      (\<exists>s'. pthread_mutex_init sample_errnos 64 0 (Some 1) (lazy_start True 0) = Inr (0, s') \<and>
        payload s' = 64 \<and> objects s' 64 = Some (Ready kind))"
    using mutex_life[OF sample_errno_header sample_zero _ st, of 64 "lazy_start True 0"] sample_einval
    by (auto simp: lazy_start_def)
  ultimately show ?thesis by auto
qed

text \<open>
  Destroying a mutex that is in use. When the host refuses, the shim returns the error but
  has freed the host mutex all the same, and the next use of the guest's object makes a new
  one: a thread that takes the lock then no longer excludes the one that holds the old lock.
\<close>

theorem busy_destroy_frees:
  assumes "payload s = p" "p \<noteq> 0" "objects s p = Some (Ready kind)" "aligned s"
    and "q \<noteq> 0" "q \<noteq> p" "objects s q = None"
  shows "\<exists>s'. pthread_mutex_destroy h r s = (translate_errno_from_host h r, s') \<and> objects s' p = None \<and>
    fst (pthread_mutex_lock h fn v q True i s') = Inr (translate_errno_from_host h (fn q))"
  using assms
  by (auto simp: pthread_mutex_destroy_def object_destroy_def is_mutex_initialized_def Let_def
      pthread_mutex_lock_def mutex_call_def to_host_object_def lazy_load_def lazy_make_def lazy_cas_def lazy_lose_def)

theorem busy_destroy_frees_witness:
  "\<exists>s'. pthread_mutex_destroy sample_errnos 16
      \<lparr>payload = 64, objects = [64 \<mapsto> Ready PTHREAD_MUTEX_NORMAL], pcs = (\<lambda>_. Idle), aligned = True\<rparr> =
      (translate_errno_from_host sample_errnos 16, s') \<and> objects s' 64 = None \<and>
     fst (pthread_mutex_lock sample_errnos (\<lambda>_. 0) 0 96 True 1 s') = Inr (translate_errno_from_host sample_errnos 0)"
  using busy_destroy_frees[of "\<lparr>payload = 64, objects = [64 \<mapsto> Ready PTHREAD_MUTEX_NORMAL],
      pcs = (\<lambda>_. Idle), aligned = True\<rparr>" 64 PTHREAD_MUTEX_NORMAL 96 sample_errnos 16 "\<lambda>_. 0" 0 1]
  by simp

end
