(* ===== verification/Shim_File.thy ===== *)
theory Shim_File
  imports Shim_Host "HOL-Library.Sublist"
begin

text \<open>
  Files: \<open>src/libc-shim/src/iorewrite.h\<close> (paths of the guest that are redirected), the flags,
  \<open>open\<close>, \<open>fcntl\<close> and \<open>poll\<close> of \<open>file_misc.cpp\<close>, the mapping flags and \<open>sendfile\<close> of \<open>common.cpp\<close>,
  and \<open>strlcpy\<close> of \<open>bionic/strlcpy.cpp\<close>. Host functions are arguments.
\<close>

section \<open>Redirected paths\<close>

text \<open>
  \<open>rules\<close> is \<open>rewrite_filesystem_access\<close>, pairs of a prefix and its replacement. A rule whose
  replacement itself begins with the prefix is skipped. The rule \<open>"."\<close> is for relative paths.
\<close>

fun rewrite_path :: "(string \<times> string) list \<Rightarrow> string \<Rightarrow> string" where
  "rewrite_path [] path = path"
| "rewrite_path ((a, b) # rules) path =
    (if hd path \<noteq> CHR ''/'' \<and> a = ''.'' then b @ path
     else if prefix a path \<and> \<not> prefix a b then b @ drop (length a) path
     else rewrite_path rules path)"

definition iorewrite0 :: "(string \<times> string) list \<Rightarrow> string option \<Rightarrow> string" where
  "iorewrite0 rules p =
    (case p of None \<Rightarrow> [] | Some path \<Rightarrow> if path \<noteq> [] then rewrite_path rules path else [])"

section \<open>File flags\<close>

definition KNOWN_FLAGS :: u32 where
  "KNOWN_FLAGS = 0 OR 1 OR 2 OR 0x40 OR 0x80 OR 0x100 OR 0x200 OR 0x400 OR 0x800 OR 0x80000"

definition file_flag_rows :: "header \<Rightarrow> (u32 \<times> u32) list" where
  "file_flag_rows h =
    [(0, hval h ''O_RDONLY''), (1, hval h ''O_WRONLY''), (2, hval h ''O_RDWR''), (0x40, hval h ''O_CREAT''),
     (0x80, hval h ''O_EXCL''), (0x100, hval h ''O_NOCTTY''), (0x200, hval h ''O_TRUNC''), (0x400, hval h ''O_APPEND''),
     (0x800, hval h ''O_NONBLOCK''), (0x80000, hval h ''O_CLOEXEC'')]"

definition to_host_file_status_flags :: "header \<Rightarrow> u32 \<Rightarrow> u32" where
  "to_host_file_status_flags h flags = or_flags (file_flag_rows h) flags"

definition file_flag_rows_back :: "header \<Rightarrow> (u32 \<times> u32) list" where
  "file_flag_rows_back h =
    [(hval h ''O_RDONLY'', 0), (hval h ''O_WRONLY'', 1), (hval h ''O_RDWR'', 2), (hval h ''O_CREAT'', 0x40),
     (hval h ''O_EXCL'', 0x80), (hval h ''O_NOCTTY'', 0x100), (hval h ''O_TRUNC'', 0x200), (hval h ''O_APPEND'', 0x400),
     (hval h ''O_NONBLOCK'', 0x800), (hval h ''O_CLOEXEC'', 0x80000)]"

definition from_host_file_status_flags :: "header \<Rightarrow> u32 \<Rightarrow> u32 result" where
  "from_host_file_status_flags h flags =
    (if flags AND NOT KNOWN_FLAGS \<noteq> 0 then handle_runtime_error ''Unsupported fd flag used %d'' [flags]
     else Inr (or_flags (file_flag_rows_back h) flags))"

section \<open>Opening\<close>

text \<open>\<open>sys path flags mode\<close> is the host's \<open>open\<close>; \<open>mode\<close> is the optional third argument.\<close>

definition shim_open ::
  "(string \<Rightarrow> u32 \<Rightarrow> u32 \<Rightarrow> 'w \<Rightarrow> int \<times> 'w) \<Rightarrow> header \<Rightarrow> (string \<times> string) list \<Rightarrow> string option \<Rightarrow> u32 \<Rightarrow> u32 \<Rightarrow> 'w \<Rightarrow> int \<times> 'w" where
  "shim_open sys h rules pathname flags mode =
    (let hflags = to_host_file_status_flags h flags;
         mode = if hflags AND hval h ''O_CREAT'' \<noteq> 0 then mode else 0
     in sys (iorewrite0 rules pathname) hflags mode)"

definition shim_openat ::
  "(u32 \<Rightarrow> string \<Rightarrow> u32 \<Rightarrow> u32 \<Rightarrow> 'w \<Rightarrow> int \<times> 'w) \<Rightarrow> header \<Rightarrow> (string \<times> string) list \<Rightarrow> u32 \<Rightarrow> string option \<Rightarrow> u32 \<Rightarrow> u32 \<Rightarrow> 'w \<Rightarrow> int \<times> 'w" where
  "shim_openat sys h rules dirfd pathname flags mode =
    (let hflags = to_host_file_status_flags h flags;
         mode = if hflags AND hval h ''O_CREAT'' \<noteq> 0 then mode else 0
     in sys dirfd (iorewrite0 rules pathname) hflags mode)"

text \<open>The checked variant, which the symbol table wraps in a rewriting of its path.\<close>

definition open_2 ::
  "(string \<Rightarrow> u32 \<Rightarrow> u32 \<Rightarrow> 'w \<Rightarrow> int \<times> 'w) \<Rightarrow> header \<Rightarrow> string \<Rightarrow> u32 \<Rightarrow> 'w \<Rightarrow> int \<times> 'w" where
  "open_2 sys h pathname flags = sys pathname (to_host_file_status_flags h flags) 0"

text \<open>The variant for other calling conventions rewrites its path, and is wrapped as well.\<close>

definition open_3 ::
  "(string \<Rightarrow> u32 \<Rightarrow> u32 \<Rightarrow> 'w \<Rightarrow> int \<times> 'w) \<Rightarrow> header \<Rightarrow> (string \<times> string) list \<Rightarrow> string \<Rightarrow> u32 \<Rightarrow> u32 \<Rightarrow> 'w \<Rightarrow> int \<times> 'w" where
  "open_3 sys h rules pathname flags mode =
    sys (iorewrite0 rules (Some pathname)) (to_host_file_status_flags h flags) mode"

definition iorewrite1 :: "(string \<times> string) list \<Rightarrow> (string \<Rightarrow> 'a) \<Rightarrow> string option \<Rightarrow> 'a" where
  "iorewrite1 rules fn path1 = fn (iorewrite0 rules path1)"

definition libc_shim_open_3 ::
  "(string \<Rightarrow> u32 \<Rightarrow> u32 \<Rightarrow> 'w \<Rightarrow> int \<times> 'w) \<Rightarrow> header \<Rightarrow> (string \<times> string) list \<Rightarrow> string option \<Rightarrow> u32 \<Rightarrow> u32 \<Rightarrow> 'w \<Rightarrow> int \<times> 'w" where
  "libc_shim_open_3 sys h rules = iorewrite1 rules (open_3 sys h rules)"

section \<open>File control\<close>

text \<open>The host's \<open>fcntl\<close> takes a command and an argument; a lock request is passed as it is.\<close>

datatype fcntl_arg = No_Arg | Int_Arg u32 | Lock_Arg "u16 \<times> u16 \<times> u64 \<times> u64 \<times> u32"

definition shim_fcntl ::
  "(u32 \<Rightarrow> u32 \<Rightarrow> fcntl_arg \<Rightarrow> 'w \<Rightarrow> u32 \<times> 'w) \<Rightarrow> header \<Rightarrow> u32 \<Rightarrow> u32 \<Rightarrow> u32 \<Rightarrow>
    u16 \<times> u16 \<times> u64 \<times> u64 \<times> u32 \<Rightarrow> 'w \<Rightarrow> u32 result \<times> 'w" where
  "shim_fcntl sys h fd cmd arg lock w =
    (if cmd = 2 then (case sys fd (hval h ''F_SETFD'') (Int_Arg arg) w of (r, w) \<Rightarrow> (Inr r, w))
     else if cmd = 3 then
       (case sys fd (hval h ''F_GETFL'') No_Arg w of (r, w) \<Rightarrow> (from_host_file_status_flags h r, w))
     else if cmd = 4 then
       (case sys fd (hval h ''F_SETFL'') (Int_Arg (to_host_file_status_flags h arg)) w of (r, w) \<Rightarrow> (Inr r, w))
     else if cmd = 6 then (case sys fd (hval h ''F_SETLK'') (Lock_Arg lock) w of (r, w) \<Rightarrow> (Inr r, w))
     else (handle_runtime_error ''Unsupported fcntl %d'' [cmd], w))"

section \<open>Polling by select\<close>

record pollfd =
  pfd :: int
  events :: u32
  revents :: u32

text \<open>
  Only on macOS. A descriptor set is an array of bits: a descriptor outside it is an access
  out of bounds. \<open>sel n (r, w, e) (sec, usec)\<close> is the host's \<open>select\<close>, with its return value and
  the sets as it leaves them.
\<close>

type_synonym fd_sets = "int set \<times> int set \<times> int set"

fun poll_sets :: "header \<Rightarrow> pollfd list \<Rightarrow> fd_sets" where
  "poll_sets h [] = ({}, {}, {})"
| "poll_sets h (p # fds) =
    (case poll_sets h fds of (r, w, e) \<Rightarrow>
      (if events p AND hval h ''POLLIN'' \<noteq> 0 \<or> events p AND hval h ''POLLPRI'' \<noteq> 0 then insert (pfd p) r else r,
       if events p AND hval h ''POLLOUT'' \<noteq> 0 then insert (pfd p) w else w,
       insert (pfd p) e))"

definition poll_report :: "header \<Rightarrow> fd_sets \<Rightarrow> pollfd \<Rightarrow> pollfd" where
  "poll_report h sets p =
    (case sets of (r, w, e) \<Rightarrow>
      p\<lparr>revents := (if pfd p \<in> r then hval h ''POLLIN'' else 0) OR (if pfd p \<in> w then hval h ''POLLOUT'' else 0) OR
                    (if pfd p \<in> e then hval h ''POLLERR'' else 0)\<rparr>)"

definition poll_via_select ::
  "(int \<Rightarrow> fd_sets \<Rightarrow> int \<times> int \<Rightarrow> int \<times> fd_sets) \<Rightarrow> header \<Rightarrow> pollfd list \<Rightarrow> int \<Rightarrow> (int \<times> pollfd list) result" where
  "poll_via_select sel h fds timeout =
    (let t = (timeout sdiv 1000, (timeout smod 1000) * 1000);
         maxfd = fold max (map pfd fds) 0
     in if list_ex (\<lambda>p. pfd p < 0 \<or> pfd p \<ge> uint (hval h ''FD_SETSIZE'')) fds
        then handle_runtime_error ''descriptor outside fd_set'' []
        else (case sel (maxfd + 1) (poll_sets h fds) t of
          (r, sets) \<Rightarrow> Inr (r, map (poll_report h sets) fds)))"

section \<open>Mapping flags, sendfile\<close>

definition to_host_mmap_flags :: "header \<Rightarrow> u32 \<Rightarrow> u32 result" where
  "to_host_mmap_flags h flags =
    (if flags AND NOT (0x10 OR 0x20 OR 0x4000 OR 2 OR 1 OR 0x20000 OR 0x100) \<noteq> 0
     then handle_runtime_error ''Used unsupported mmap flags %d'' [flags]
     else Inr (or_flags
       ([(2, hval h ''MAP_PRIVATE''), (0x10, hval h ''MAP_FILE''), (0x20, hval h ''MAP_ANONYMOUS''), (1, hval h ''MAP_SHARED'')] @
        ifdef h ''MAP_NORESERVE'' [(0x4000, hval h ''MAP_NORESERVE'')] @
        ifdef h ''MAP_GROWSDOWN'' [(0x100, hval h ''MAP_GROWSDOWN'')] @
        ifdef h ''MAP_STACK'' [(0x20000, hval h ''MAP_STACK'')]) flags))"

text \<open>
  On Linux. \<open>offset\<close> is a pointer (its address; null is 0) to a place in the guest's memory; the
  host's function gets and returns a file position.
\<close>

definition shim_sendfile ::
  "(u64 option \<Rightarrow> int \<times> u64) \<Rightarrow> u64 \<Rightarrow> (u64 \<Rightarrow> u64) \<Rightarrow> int \<times> (u64 \<Rightarrow> u64)" where
  "shim_sendfile sys offset mem =
    (let c = if offset \<noteq> 0 then offset else 0
     in case sys (if offset \<noteq> 0 then Some c else None) of
          (r, c) \<Rightarrow> (r, if offset \<noteq> 0 then mem(offset := c) else mem))"

section \<open>Copying strings\<close>

text \<open>
  \<open>strlcpy\<close>. The first loop keeps the count left, the rest of the source and what has been
  written; the source ends with a zero byte, reading past its end gives \<open>None\<close>.
\<close>

fun strlcpy_loop :: "nat \<Rightarrow> bytes \<Rightarrow> bytes \<Rightarrow> (nat \<times> bytes \<times> bytes) option" where
  "strlcpy_loop n s d =
    (let n = n - 1
     in if n = 0 then Some (0, s, d)
        else (case s of
            [] \<Rightarrow> None
          | c # s \<Rightarrow> if c = 0 then Some (n, s, d @ [c]) else strlcpy_loop n s (d @ [c])))"

declare strlcpy_loop.simps [simp del]

fun skip_loop :: "bytes \<Rightarrow> bytes option" where
  "skip_loop [] = None"
| "skip_loop (c # s) = (if c \<noteq> 0 then skip_loop s else Some s)"

definition strlcpy :: "bytes \<Rightarrow> nat \<Rightarrow> (bytes \<times> nat) option" where
  "strlcpy src siz =
    (case (if siz \<noteq> 0 then strlcpy_loop siz src [] else Some (0, src, [])) of
       None \<Rightarrow> None
     | Some (n, s, d) \<Rightarrow>
        if n = 0 then
          map_option (\<lambda>s. (if siz \<noteq> 0 then d @ [0] else d, length src - length s - 1)) (skip_loop s)
        else Some (d, length src - length s - 1))"

section \<open>Redirection\<close>

text \<open>A rule applies to a path.\<close>

definition rule_matches :: "string \<Rightarrow> string \<times> string \<Rightarrow> bool" where
  "rule_matches path r = (case r of (a, b) \<Rightarrow>
     hd path \<noteq> CHR ''/'' \<and> a = ''.'' \<or> prefix a path \<and> \<not> prefix a b)"

lemma rewrite_unmatched: "list_all (\<lambda>r. \<not> rule_matches path r) rules \<Longrightarrow> rewrite_path rules path = path"
  by (induction rules path rule: rewrite_path.induct) (auto simp: rule_matches_def)

lemma rewrite_matched:
  "list_ex (rule_matches path) rules \<Longrightarrow> \<exists>a b rest. (a, b) \<in> set rules \<and> rewrite_path rules path = b @ rest"
proof (induction rules path rule: rewrite_path.induct)
  case (2 a b rules path)
  show ?case
  proof (cases "rule_matches path (a, b)")
    case False
    with 2 show ?thesis by (auto simp: rule_matches_def)
  qed (auto simp: rule_matches_def)
qed simp

text \<open>The replacements are absolute, and no prefix and replacement begin with each other.\<close>

definition rules_separate :: "(string \<times> string) list \<Rightarrow> bool" where
  "rules_separate rules \<longleftrightarrow>
    list_all (\<lambda>(a, b). b \<noteq> [] \<and> hd b = CHR ''/'' \<and> list_all (\<lambda>(c, d). \<not> prefix c b \<and> \<not> prefix b c) rules) rules"

lemma separate_unmatched:
  assumes "rules_separate rules" "(a, b) \<in> set rules"
  shows "list_all (\<lambda>r. \<not> rule_matches (b @ rest) r) rules"
proof -
  have b: "b \<noteq> []" "hd b = CHR ''/''" and sep: "\<And>c d. (c, d) \<in> set rules \<Longrightarrow> \<not> prefix c b \<and> \<not> prefix b c"
    using assms unfolding rules_separate_def list_all_iff by fastforce+
  have "\<not> prefix c (b @ rest)" if "(c, d) \<in> set rules" for c d
    using sep[OF that] prefix_append[of c b rest] by (auto simp: prefix_def)
  with b show ?thesis by (auto simp: list_all_iff rule_matches_def)
qed

lemma rewrite_idem:
  assumes "rules_separate rules"
  shows "rewrite_path rules (rewrite_path rules path) = rewrite_path rules path"
proof (cases "list_ex (rule_matches path) rules")
  case True
  then obtain a b rest where "(a, b) \<in> set rules" "rewrite_path rules path = b @ rest"
    using rewrite_matched by blast
  with separate_unmatched[OF assms] show ?thesis by (simp add: rewrite_unmatched)
next
  case False
  then have "list_all (\<lambda>r. \<not> rule_matches path r) rules" by (simp add: list_all_iff list_ex_iff)
  then show ?thesis by (simp add: rewrite_unmatched)
qed

lemma rewrite_nonempty: "rules_separate rules \<Longrightarrow> path \<noteq> [] \<Longrightarrow> rewrite_path rules path \<noteq> []"
proof (cases "list_ex (rule_matches path) rules")
  case True
  assume s: "rules_separate rules"
  from True obtain a b rest where ab: "(a, b) \<in> set rules" "rewrite_path rules path = b @ rest"
    using rewrite_matched by blast
  with s have "b \<noteq> []" unfolding rules_separate_def list_all_iff by fastforce
  with ab show ?thesis by simp
next
  case False
  assume "path \<noteq> []"
  with False show ?thesis by (simp add: rewrite_unmatched list_all_iff list_ex_iff)
qed

section \<open>String copies\<close>

lemma strlcpy_loop_Cons:
  "strlcpy_loop (Suc (Suc n)) (c # s) d = (if c = 0 then Some (Suc n, s, d @ [c]) else strlcpy_loop (Suc n) s (d @ [c]))"
  by (subst strlcpy_loop.simps) (simp add: Let_def)

lemma strlcpy_loop_spec:
  assumes "terminated s"
  shows "strlcpy_loop (Suc n) s d =
    (if length (cstr s) < n then Some (n - length (cstr s), drop (length (cstr s) + 1) s, d @ cstr s @ [0])
     else Some (0, drop n s, d @ take n (cstr s)))"
  using assms
proof (induction s arbitrary: n d)
  case (Cons c s)
  show ?case
  proof (cases n)
    case (Suc k)
    show ?thesis
    proof (cases "c = 0")
      case False
      with Cons have "terminated s" by (auto simp: terminated_def)
      from Cons.IH[OF this, of k "d @ [c]"] Suc False show ?thesis
        by (simp add: strlcpy_loop_Cons cstr_Cons)
    qed (simp add: Suc strlcpy_loop_Cons cstr_Cons)
  qed (simp add: strlcpy_loop.simps)
qed (simp add: terminated_def)

lemma skip_loop_spec: "terminated s \<Longrightarrow> skip_loop s = Some (drop (length (cstr s) + 1) s)"
  by (induction s) (auto simp: terminated_def cstr_Cons)

section \<open>File flags there and back\<close>

definition known_bits :: "nat list" where
  "known_bits = [0, 1, 6, 7, 8, 9, 10, 11, 19]"

text \<open>Reading is the absence of the other access flags, and no two flags share a bit.\<close>

definition file_header :: "header \<Rightarrow> bool" where
  "file_header h \<longleftrightarrow> hval h ''O_RDONLY'' = 0 \<and> disjoint_flags (map snd (tl (file_flag_rows h)))"

lemma known_flags_bits: "f AND KNOWN_FLAGS = or_flags (map (\<lambda>n. (2 ^ n, 2 ^ n)) known_bits) f"
proof (rule word_eqI_bits)
  fix i
  have "KNOWN_FLAGS = or_flags (map (\<lambda>n. (2 ^ n, 2 ^ n)) known_bits) (-1)"
    by (simp add: KNOWN_FLAGS_def known_bits_def)
  then have "bit KNOWN_FLAGS i \<longleftrightarrow> i \<in> set known_bits \<and> bit (-1 :: u32) i"
    using or_flags_same_bits[of known_bits "-1" i] by (rule ssubst)
  then show "bit (f AND KNOWN_FLAGS) i \<longleftrightarrow> bit (or_flags (map (\<lambda>n. (2 ^ n, 2 ^ n)) known_bits) f) i"
    unfolding or_flags_same_bits bit_and_iff by (auto dest: bit_imp_le_length)
qed

lemma file_flags_back:
  assumes "file_header h"
  shows "or_flags (file_flag_rows_back h) (to_host_file_status_flags h f) = f AND KNOWN_FLAGS"
proof -
  let ?rows = "tl (file_flag_rows h)"
  have to: "to_host_file_status_flags h f = or_flags ?rows f"
    by (simp add: to_host_file_status_flags_def file_flag_rows_def)
  have "or_flags (file_flag_rows_back h) g = or_flags (map prod.swap ?rows) g" for g
    using assms by (simp add: file_flag_rows_back_def file_flag_rows_def file_header_def)
  then have "or_flags (file_flag_rows_back h) (to_host_file_status_flags h f) =
      or_flags (map (\<lambda>(a, b). (a, a)) ?rows) f"
    using assms unfolding to by (simp only: or_flags_roundtrip file_header_def)
  also have "map (\<lambda>(a, b). (a, a)) ?rows = map (\<lambda>n. (2 ^ n, 2 ^ n)) known_bits"
    by (simp add: file_flag_rows_def known_bits_def)
  finally show ?thesis by (simp only: known_flags_bits)
qed

definition sample_flags :: header where
  "sample_flags = map_of
    [(''O_RDONLY'', 0), (''O_WRONLY'', 1), (''O_RDWR'', 2), (''O_CREAT'', 0x200), (''O_EXCL'', 0x800), (''O_NOCTTY'', 0x20000),
     (''O_TRUNC'', 0x400), (''O_APPEND'', 8), (''O_NONBLOCK'', 4), (''O_CLOEXEC'', 0x1000000)]"

lemma sample_file_header: "file_header sample_flags"
  by (simp add: file_header_def file_flag_rows_def hval_def sample_flags_def)

section \<open>Properties\<close>

text \<open>
  \<open>strlcpy\<close> never writes past the buffer: for a terminated source and a buffer of any size,
  it writes at most that many bytes, namely the source cut to the size less one and a zero
  byte (nothing for size 0), does not read past the source, and returns the length of the
  source.
\<close>

theorem strlcpy_bounded:
  assumes "terminated src"
  shows "strlcpy src siz = Some (if siz = 0 then [] else take (siz - 1) (cstr src) @ [0], length (cstr src))"
proof -
  obtain t where t: "src = cstr src @ 0 # t" using terminated_split[OF assms] by blast
  have len: "length src = length (cstr src) + 1 + length t" by (subst t) simp
  have skip: "skip_loop (drop k src) = Some t" if "k \<le> length (cstr src)" for k
  proof -
    have "drop k src = drop k (cstr src) @ 0 # t" using that by (subst t) simp
    moreover have nul: "0 \<notin> set (drop k (cstr src))" using cstr_no_nul in_set_dropD by metis
    ultimately have "terminated (drop k src)" "cstr (drop k src) = drop k (cstr src)"
      by (simp_all add: terminated_def)
    with skip_loop_spec[of "drop k src"] show ?thesis
      using \<open>drop k src = _\<close> by simp
  qed
  show ?thesis
  proof (cases siz)
    case 0
    with skip[of 0] len show ?thesis by (simp add: strlcpy_def)
  next
    case (Suc n)
    show ?thesis
    proof (cases "length (cstr src) < n")
      case True
      moreover have "drop (length (cstr src) + 1) src = t" by (subst t) simp
      ultimately show ?thesis
        using strlcpy_loop_spec[OF assms, of n "[]"] Suc len by (simp add: strlcpy_def)
    next
      case False
      then show ?thesis
        using strlcpy_loop_spec[OF assms, of n "[]"] Suc skip[of n] len by (simp add: strlcpy_def)
    qed
  qed
qed

theorem strlcpy_bounded_witness:
  "terminated [104, 105, 33, 0] \<and> strlcpy [104, 105, 33, 0] 3 = Some ([104, 105, 0], 3)"
  using strlcpy_bounded[of "[104, 105, 33, 0]" 3] by (simp add: terminated_def cstr_def)

text \<open>
  With redirections that are kept apart from their targets, rewriting a path twice is
  rewriting it once, so that the variant of \<open>open\<close> that is wrapped in a second rewriting opens
  the same file, with the same flags, as the plain one.
\<close>

theorem open_rewrites_once:
  assumes "rules_separate rules" "to_host_file_status_flags h flags AND hval h ''O_CREAT'' \<noteq> 0"
  shows "libc_shim_open_3 sys h rules (Some path) flags mode = shim_open sys h rules (Some path) flags mode"
proof (cases "path = []")
  case False
  with rewrite_nonempty[OF assms(1)] rewrite_idem[OF assms(1)] assms(2) show ?thesis
    by (simp add: libc_shim_open_3_def iorewrite1_def open_3_def shim_open_def iorewrite0_def Let_def)
qed (use assms(2) in \<open>simp add: libc_shim_open_3_def iorewrite1_def open_3_def shim_open_def iorewrite0_def Let_def\<close>)

text \<open>A prefix is compared as text, so a rule also catches names that only begin like it.\<close>

lemma rewrite_ignores_boundaries:
  "iorewrite0 [(''/data/data'', ''/home/u/'')] (Some ''/data/database'') = ''/home/u/base''"
  by (simp add: iorewrite0_def)

theorem open_rewrites_once_witness:
  "libc_shim_open_3 (\<lambda>path f m w. (3, path # w)) sample_flags [(''/data'', ''/home/'')] (Some ''/data/x'') 0x41 7 [] =
   shim_open (\<lambda>path f m w. (3, path # w)) sample_flags [(''/data'', ''/home/'')] (Some ''/data/x'') 0x41 7 []"
  by (rule open_rewrites_once[THEN fun_cong])
     (simp_all add: rules_separate_def to_host_file_status_flags_def file_flag_rows_def hval_def sample_flags_def)

text \<open>
  File flags read back with \<open>F_GETFL\<close>. The flags a guest sets with \<open>F_SETFL\<close> come back as
  they were, up to bits the shim does not know, if the host happens to give them numbers that
  are also flags of the guest; if one of them has a number outside the guest's mask, reading
  them back throws, although every one of them has a counterpart.
\<close>

theorem file_flags_readback:
  assumes "file_header h"
  shows "from_host_file_status_flags h (to_host_file_status_flags h f) =
    (if to_host_file_status_flags h f AND NOT KNOWN_FLAGS = 0 then Inr (f AND KNOWN_FLAGS)
     else handle_runtime_error ''Unsupported fd flag used %d'' [to_host_file_status_flags h f])"
  using file_flags_back[OF assms, of f] by (simp add: from_host_file_status_flags_def)

theorem file_flags_readback_witness:
  "throws (from_host_file_status_flags sample_flags (to_host_file_status_flags sample_flags 0x800)) \<and>
   from_host_file_status_flags sample_flags (to_host_file_status_flags sample_flags 0x242) = Inr 0x242"
proof -
  have a: "to_host_file_status_flags sample_flags 0x800 = 4"
    and b: "to_host_file_status_flags sample_flags 0x242 = 0x602"
    by (simp_all add: to_host_file_status_flags_def file_flag_rows_def hval_def sample_flags_def)
  show ?thesis
    using file_flags_readback[OF sample_file_header, of "0x800"] file_flags_readback[OF sample_file_header, of "0x242"]
    unfolding a b by (simp add: KNOWN_FLAGS_def)
qed

text \<open>A fixed mapping is requested as a mapping of a file: the host may place it elsewhere.\<close>

lemma mmap_fixed_lost: "to_host_mmap_flags h 0x12 = Inr (hval h ''MAP_PRIVATE'' OR hval h ''MAP_FILE'')"
  by (simp add: to_host_mmap_flags_def or_flags_append ifdef_def)

text \<open>The position given to the host is the address of the guest's variable, not its value.\<close>

lemma sendfile_uses_address:
  "offset \<noteq> 0 \<Longrightarrow> shim_sendfile sys offset mem = (case sys (Some offset) of (r, c) \<Rightarrow> (r, mem(offset := c)))"
  by (simp add: shim_sendfile_def Let_def)

text \<open>
  A failed \<open>select\<close> leaves the sets as they were, and then every requested event is reported as
  having happened, and an error on every descriptor.
\<close>

lemma poll_sets_error: "p \<in> set fds \<Longrightarrow> pfd p \<in> snd (snd (poll_sets h fds))"
  by (induction fds) (auto split: prod.splits)

lemma poll_failure_reports:
  assumes "poll_via_select (\<lambda>n sets t. (-1, sets)) h fds timeout = Inr (r, out)" "p \<in> set out"
  shows "r = -1 \<and> revents p AND hval h ''POLLERR'' = hval h ''POLLERR''"
proof -
  from assms obtain q where q: "q \<in> set fds" "p = poll_report h (poll_sets h fds) q" and r: "r = -1"
    by (auto simp: poll_via_select_def Let_def split: if_splits)
  from poll_sets_error[OF q(1)] have "pfd q \<in> snd (snd (poll_sets h fds))" .
  then have "revents p = (if pfd q \<in> fst (poll_sets h fds) then hval h ''POLLIN'' else 0) OR
      (if pfd q \<in> fst (snd (poll_sets h fds)) then hval h ''POLLOUT'' else 0) OR hval h ''POLLERR''"
    by (simp add: q(2) poll_report_def split_def)
  moreover have "(a OR b OR hval h ''POLLERR'') AND hval h ''POLLERR'' = hval h ''POLLERR''" for a b :: u32
    by (auto simp: bit_eq_iff bit_simps)
  ultimately show ?thesis using r by simp
qed

text \<open>A waiting time of -1, which means to wait for ever, becomes a negative time.\<close>

lemma poll_negative_timeout: "((-1 :: int) sdiv 1000, ((-1 :: int) smod 1000) * 1000) = (0, -1000)"
  by (simp add: signed_divide_int_def signed_modulo_int_def)

end
