(* ===== verification/Hook.thy ===== *)
theory Hook
  imports Prelude
begin

text \<open>
  The hook manager of the launcher: \<open>src/mcpelauncher-core/src/hook.cpp\<close>. A hook replaces a
  function of a loaded library by another. The hooks of one symbol form a doubly linked list;
  each has a cell, named \<open>orig\<close>, through which its replacement calls what was there before: the
  replacement of the hook before it, or the library's own function. \<open>applyHooks\<close> walks the
  relocation tables of all libraries and writes the newest replacement into every slot that
  refers to the symbol.

  Objects are numbered and kept in maps; a deleted object is absent, so the use of a dangling
  or null pointer is the outcome \<open>Bad_access\<close>. A number is never given twice. The code keys the
  hooked symbols by the address of a library's record and keeps them when the library is removed, so a
  library whose record gets the address of a removed one finds the symbols of that one; this reuse of addresses is outside the model. The model is of the 64-bit build for x86: relocation
  entries carry an addend and take 24 bytes. What the linker knows of a library, and the
  contents of its mapped tables, are the argument \<open>K\<close>. The order in which the hash table of the libraries
  is walked is an argument of \<open>applyHooks\<close>. Slots and \<open>orig\<close> cells are aligned words of one
  memory.
\<close>

section \<open>Data\<close>

record HookInstance =
  symbol :: nat
  parent :: "nat option"
  child :: "nat option"
  replacement :: u64
  orig :: u64

record HookedSymbol =
  sym_lib :: nat
  symbolIndex :: u32
  original :: u64
  firstHook :: "nat option"
  lastHook :: "nat option"

record LibInfo =
  handle :: u64
  base :: u64
  strtab :: u64
  symtab :: u64
  rel :: u64
  relsz :: u32
  pltrel :: u64
  pltrelsz :: u32
  relro :: u64
  relrosize :: u32
  lib_hooks :: "u32 \<Rightarrow> nat option"
  dependencies :: "u64 list"

record HookManager =
  libs :: "u64 \<Rightarrow> nat option"
  dependents :: "u64 \<Rightarrow> nat list"
  hookedSymbols :: "nat \<times> u32 \<Rightarrow> nat option"
  lib_at :: "nat \<Rightarrow> LibInfo option"
  sym_at :: "nat \<Rightarrow> HookedSymbol option"
  hook_at :: "nat \<Rightarrow> HookInstance option"
  next_id :: nat
  word_at :: "u64 \<Rightarrow> u64"

text \<open>
  The linker's view of a library: its base, the entries of its dynamic section, its program
  headers (type, address, size), strings of its string table by offset, the index of a symbol
  by name; the handle of a loaded library by name (0 when it is not loaded); and what is
  stored at an address of a mapped table: a relocation entry (offset and info), the name field
  of a symbol, a string.
\<close>

record linker =
  si_base :: "u64 \<Rightarrow> u64"
  si_dynamic :: "u64 \<Rightarrow> (u64 \<times> u64) list"
  si_phdrs :: "u64 \<Rightarrow> (u32 \<times> u64 \<times> u64) list"
  si_string :: "u64 \<Rightarrow> u64 \<Rightarrow> string"
  si_symbol :: "u64 \<Rightarrow> string \<Rightarrow> u32 option"
  dlopen_noload :: "string \<Rightarrow> u64"
  rela_at :: "u64 \<Rightarrow> u64 \<times> u64"
  st_name_at :: "u64 \<Rightarrow> u32"
  string_at :: "u64 \<Rightarrow> string"

datatype hook_error = No_such_lib | No_such_symbol | Bad_access

type_synonym 'a hooks = "(HookManager, hook_error, 'a) prog"

section \<open>Pointers\<close>

definition at_ptr :: "(HookManager \<Rightarrow> nat \<Rightarrow> 'a option) \<Rightarrow> nat \<Rightarrow> 'a hooks" where
  "at_ptr f p = andthen (getp (\<lambda>m. f m p)) (\<lambda>x. case x of None \<Rightarrow> stop Bad_access | Some v \<Rightarrow> ret v)"

definition set_lib :: "nat \<Rightarrow> (LibInfo \<Rightarrow> LibInfo) \<Rightarrow> unit hooks" where
  "set_lib p f = andthen (at_ptr lib_at p) (\<lambda>v. modp (\<lambda>m. m\<lparr>lib_at := (lib_at m)(p \<mapsto> f v)\<rparr>))"

definition set_sym :: "nat \<Rightarrow> (HookedSymbol \<Rightarrow> HookedSymbol) \<Rightarrow> unit hooks" where
  "set_sym p f = andthen (at_ptr sym_at p) (\<lambda>v. modp (\<lambda>m. m\<lparr>sym_at := (sym_at m)(p \<mapsto> f v)\<rparr>))"

definition set_hook_at :: "nat \<Rightarrow> (HookInstance \<Rightarrow> HookInstance) \<Rightarrow> unit hooks" where
  "set_hook_at p f = andthen (at_ptr hook_at p) (\<lambda>v. modp (\<lambda>m. m\<lparr>hook_at := (hook_at m)(p \<mapsto> f v)\<rparr>))"

definition poke_word :: "u64 \<Rightarrow> u64 \<Rightarrow> unit hooks" where
  "poke_word a v = (if a = 0 then stop Bad_access else modp (\<lambda>m. m\<lparr>word_at := (word_at m)(a := v)\<rparr>))"

definition new_id :: "nat hooks" where
  "new_id = andthen (getp next_id) (\<lambda>n. seqp (modp (\<lambda>m. m\<lparr>next_id := Suc n\<rparr>)) (ret n))"

section \<open>Libraries\<close>

definition lib_dyn :: "u64 \<times> u64 \<Rightarrow> LibInfo \<Rightarrow> LibInfo" where
  "lib_dyn e l = (case e of (tag, v) \<Rightarrow>
     if tag = 5 then l\<lparr>strtab := base l + v\<rparr>
     else if tag = 6 then l\<lparr>symtab := base l + v\<rparr>
     else if tag = 17 then l\<lparr>rel := base l + v\<rparr>
     else if tag = 18 then l\<lparr>relsz := ucast v\<rparr>
     else if tag = 23 then l\<lparr>pltrel := base l + v\<rparr>
     else if tag = 2 then l\<lparr>pltrelsz := ucast v\<rparr>
     else l)"

definition lib_phdr :: "u32 \<times> u64 \<times> u64 \<Rightarrow> LibInfo \<Rightarrow> LibInfo" where
  "lib_phdr e l = (case e of (type, vaddr, memsz) \<Rightarrow>
     if type = 0x6474e552 then l\<lparr>relro := base l + vaddr, relrosize := ucast memsz\<rparr> else l)"

definition dyn_entries :: "linker \<Rightarrow> u64 \<Rightarrow> (u64 \<times> u64) list" where
  "dyn_entries K h = takeWhile (\<lambda>(tag, v). tag \<noteq> 0) (si_dynamic K h)"

definition LibInfo_new :: "linker \<Rightarrow> u64 \<Rightarrow> LibInfo" where
  "LibInfo_new K h = fold lib_phdr (si_phdrs K h) (fold lib_dyn (dyn_entries K h)
     \<lparr>handle = h, base = si_base K h, strtab = 0, symtab = 0, rel = 0, relsz = 0, pltrel = 0, pltrelsz = 0,
      relro = 0, relrosize = 0, lib_hooks = Map.empty, dependencies = []\<rparr>)"

definition getSymbolName :: "linker \<Rightarrow> LibInfo \<Rightarrow> u32 \<Rightarrow> string" where
  "getSymbolName K l i = string_at K (strtab l + ucast (st_name_at K (symtab l + 24 * ucast i)))"

definition getSymbolIndex :: "linker \<Rightarrow> u64 \<Rightarrow> string \<Rightarrow> u32" where
  "getSymbolIndex K lib name = (case si_symbol K lib name of Some i \<Rightarrow> i | None \<Rightarrow> - 1)"

definition setHook :: "nat \<Rightarrow> u32 \<Rightarrow> nat \<Rightarrow> unit hooks" where
  "setHook l i s = set_lib l (\<lambda>v. v\<lparr>lib_hooks := (lib_hooks v)(i \<mapsto> s)\<rparr>)"

definition setHook_name :: "linker \<Rightarrow> nat \<Rightarrow> string \<Rightarrow> nat \<Rightarrow> unit hooks" where
  "setHook_name K l name s = andthen (at_ptr lib_at l) (\<lambda>v. setHook l (getSymbolIndex K (handle v) name) s)"

definition add_needed :: "linker \<Rightarrow> u64 \<Rightarrow> nat \<Rightarrow> u64 \<times> u64 \<Rightarrow> unit hooks" where
  "add_needed K h l e = (case e of (tag, v) \<Rightarrow>
     if tag = 1 then
       let dep = dlopen_noload K (si_string K h v) in
       if dep = 0 then ret ()
       else seqp (set_lib l (\<lambda>x. x\<lparr>dependencies := dependencies x @ [dep]\<rparr>))
              (modp (\<lambda>m. m\<lparr>dependents := (dependents m)(dep := dependents m dep @ [l])\<rparr>))
     else ret ())"

definition addLibrary :: "linker \<Rightarrow> u64 \<Rightarrow> unit hooks" where
  "addLibrary K h = andthen (getp (\<lambda>m. libs m h)) (\<lambda>known. case known of Some l \<Rightarrow> ret ()
     | None \<Rightarrow> andthen new_id (\<lambda>l.
         seqp (modp (\<lambda>m. m\<lparr>libs := (libs m)(h \<mapsto> l), lib_at := (lib_at m)(l \<mapsto> LibInfo_new K h)\<rparr>))
              (seqs (map (add_needed K h l) (dyn_entries K h)))))"


section \<open>Hooks\<close>

definition getOrCreateHookSymbol :: "linker \<Rightarrow> u64 \<Rightarrow> u32 \<Rightarrow> nat hooks" where
  "getOrCreateHookSymbol K lib i = andthen (getp (\<lambda>m. libs m lib)) (\<lambda>known. case known of
     None \<Rightarrow> stop No_such_lib
   | Some l \<Rightarrow> andthen (getp (\<lambda>m. hookedSymbols m (l, i))) (\<lambda>there. case there of
       Some s \<Rightarrow> ret s
     | None \<Rightarrow> andthen new_id (\<lambda>s.
         seqp (modp (\<lambda>m. m\<lparr>hookedSymbols := (hookedSymbols m)((l, i) \<mapsto> s),
                 sym_at := (sym_at m)(s \<mapsto> \<lparr>sym_lib = l, symbolIndex = i, original = 0, firstHook = None, lastHook = None\<rparr>)\<rparr>))
        (seqp (setHook l i s)
        (andthen (at_ptr lib_at l) (\<lambda>v.
         andthen (getp (\<lambda>m. dependents m lib)) (\<lambda>deps.
         seqp (seqs (map (\<lambda>d. setHook_name K d (getSymbolName K v i) s) deps)) (ret s))))))))"

definition link_hook :: "nat \<Rightarrow> nat \<Rightarrow> u64 \<Rightarrow> unit hooks" where
  "link_hook s h cell = andthen (at_ptr sym_at s) (\<lambda>y.
     if firstHook y = None then set_sym s (\<lambda>y. y\<lparr>firstHook := Some h\<rparr>)
     else case lastHook y of None \<Rightarrow> ret ()
     | Some p \<Rightarrow> seqp (set_hook_at h (\<lambda>x. x\<lparr>parent := Some p\<rparr>))
                (seqp (set_hook_at p (\<lambda>x. x\<lparr>child := Some h\<rparr>))
                (andthen (at_ptr hook_at p) (\<lambda>x. poke_word cell (replacement x)))))"

definition createHook :: "linker \<Rightarrow> u64 \<Rightarrow> u32 \<Rightarrow> u64 \<Rightarrow> u64 \<Rightarrow> nat hooks" where
  "createHook K lib i repl cell = andthen (getOrCreateHookSymbol K lib i) (\<lambda>s. andthen new_id (\<lambda>h.
     seqp (modp (\<lambda>m. m\<lparr>hook_at := (hook_at m)(h \<mapsto> \<lparr>symbol = s, parent = None, child = None, replacement = repl, orig = cell\<rparr>)\<rparr>))
    (seqp (link_hook s h cell)
    (seqp (set_sym s (\<lambda>y. y\<lparr>lastHook := Some h\<rparr>)) (ret h)))))"

definition createHook_name :: "linker \<Rightarrow> u64 \<Rightarrow> string \<Rightarrow> u64 \<Rightarrow> u64 \<Rightarrow> nat hooks" where
  "createHook_name K lib name repl cell = andthen (getp (\<lambda>m. libs m lib)) (\<lambda>known. case known of
     None \<Rightarrow> stop No_such_lib
   | Some l \<Rightarrow> if getSymbolIndex K lib name = - 1 then stop No_such_symbol
              else createHook K lib (getSymbolIndex K lib name) repl cell)"

definition unlink_child :: "HookInstance \<Rightarrow> unit hooks" where
  "unlink_child x = (case child x of None \<Rightarrow> ret ()
     | Some c \<Rightarrow> seqp (set_hook_at c (\<lambda>v. v\<lparr>parent := parent x\<rparr>))
         (andthen (at_ptr hook_at c) (\<lambda>v. case parent x of
            Some p \<Rightarrow> andthen (at_ptr hook_at p) (\<lambda>w. poke_word (orig v) (replacement w))
          | None \<Rightarrow> andthen (at_ptr sym_at (symbol x)) (\<lambda>y. poke_word (orig v) (original y)))))"

definition deleteHook :: "nat \<Rightarrow> unit hooks" where
  "deleteHook h = andthen (at_ptr hook_at h) (\<lambda>x.
     seqp (unlink_child x)
    (seqp (case parent x of None \<Rightarrow> ret () | Some p \<Rightarrow> set_hook_at p (\<lambda>v. v\<lparr>child := child x\<rparr>))
    (seqp (set_sym (symbol x) (\<lambda>y. if firstHook y = Some h then y\<lparr>firstHook := child x\<rparr> else y))
    (seqp (set_sym (symbol x) (\<lambda>y. if lastHook y = Some h then y\<lparr>lastHook := parent x\<rparr> else y))
          (modp (\<lambda>m. m\<lparr>hook_at := (hook_at m)(h := None)\<rparr>))))))"

section \<open>Relocation\<close>

definition r_type :: "u64 \<Rightarrow> u32" where
  "r_type info = ucast info"

definition r_sym :: "u64 \<Rightarrow> u32" where
  "r_sym info = ucast (drop_bit 32 info)"

definition generic_reloc :: "u32 \<Rightarrow> bool" where
  "generic_reloc t \<longleftrightarrow> t = 1 \<or> t = 7 \<or> t = 6"

definition hook_target :: "HookedSymbol \<Rightarrow> u64 hooks" where
  "hook_target y = (case lastHook y of None \<Rightarrow> ret (original y)
     | Some h \<Rightarrow> andthen (at_ptr hook_at h) (\<lambda>x. ret (if replacement x \<noteq> 0 then replacement x else original y)))"

text \<open>
  \<open>addr\<close> is a pointer to \<open>ElfW(Word)\<close>, a type of 32 bits: reading through it gives the low half of the slot.
  The replacement is written through a reference to \<open>size_t\<close>.
\<close>

definition swap_slot :: "u32 \<Rightarrow> u64 \<Rightarrow> u64 \<Rightarrow> u64 hooks" where
  "swap_slot type addr repl =
    (if generic_reloc type
     then andthen (getp (\<lambda>m. take_bit 32 (word_at m addr))) (\<lambda>v.
            seqp (modp (\<lambda>m. m\<lparr>word_at := (word_at m)(addr := repl)\<rparr>)) (ret v))
     else ret 0)"

definition apply_entry :: "nat \<Rightarrow> u64 \<times> u64 \<Rightarrow> unit hooks" where
  "apply_entry l e = (case e of (off, info) \<Rightarrow> andthen (at_ptr lib_at l) (\<lambda>v.
     case lib_hooks v (r_sym info) of None \<Rightarrow> ret ()
     | Some s \<Rightarrow> andthen (at_ptr sym_at s) (\<lambda>y. andthen (hook_target y) (\<lambda>repl.
         if repl = 0 then ret ()
         else andthen (swap_slot (r_type info) (base v + off) repl) (\<lambda>found.
           whenp (found \<noteq> 0 \<and> original y = 0)
             (seqp (set_sym s (\<lambda>y. y\<lparr>original := found\<rparr>))
                (case firstHook y of None \<Rightarrow> ret ()
                 | Some f \<Rightarrow> andthen (at_ptr hook_at f) (\<lambda>x. poke_word (orig x) found))))))))"

definition applyHooks_table :: "linker \<Rightarrow> nat \<Rightarrow> u64 \<Rightarrow> u32 \<Rightarrow> unit hooks" where
  "applyHooks_table K l tab sz =
    seqs (map (\<lambda>i. apply_entry l (rela_at K (tab + 24 * of_nat i))) [0..<unat sz div 24])"

definition applyHooks_lib :: "linker \<Rightarrow> nat \<Rightarrow> unit hooks" where
  "applyHooks_lib K l = andthen (at_ptr lib_at l) (\<lambda>v.
     seqp (applyHooks_table K l (rel v) (relsz v)) (applyHooks_table K l (pltrel v) (pltrelsz v)))"

definition applyHooks :: "linker \<Rightarrow> u64 list \<Rightarrow> unit hooks" where
  "applyHooks K order = seqs (map (\<lambda>h. andthen (getp (\<lambda>m. libs m h)) (\<lambda>known.
     case known of None \<Rightarrow> ret () | Some l \<Rightarrow> applyHooks_lib K l)) order)"

section \<open>The list of hooks of a symbol\<close>

text \<open>
  \<open>seg H s p hs n\<close>: in the map \<open>H\<close> the hooks \<open>hs\<close> of symbol \<open>s\<close> are linked both ways, with \<open>p\<close> before the
  first and \<open>n\<close> after the last.
\<close>

definition first_of :: "nat list \<Rightarrow> nat option \<Rightarrow> nat option" where
  "first_of hs n = (case hs of [] \<Rightarrow> n | h # _ \<Rightarrow> Some h)"

definition last_of :: "nat option \<Rightarrow> nat list \<Rightarrow> nat option" where
  "last_of p hs = (if hs = [] then p else Some (last hs))"

fun seg :: "(nat \<Rightarrow> HookInstance option) \<Rightarrow> nat \<Rightarrow> nat option \<Rightarrow> nat list \<Rightarrow> nat option \<Rightarrow> bool" where
  "seg H s p [] n = True"
| "seg H s p (h # hs) n \<longleftrightarrow>
    H h \<noteq> None \<and> symbol (the (H h)) = s \<and> parent (the (H h)) = p \<and> child (the (H h)) = first_of hs n \<and>
    seg H s (Some h) hs n"

definition hook_chain :: "HookManager \<Rightarrow> nat \<Rightarrow> nat list \<Rightarrow> bool" where
  "hook_chain m s hs \<longleftrightarrow> sym_at m s \<noteq> None \<and> firstHook (the (sym_at m s)) = first_of hs None \<and>
     lastHook (the (sym_at m s)) = last_of None hs \<and> distinct hs \<and> seg (hook_at m) s None hs None"

text \<open>
  The manager keeps the lists \<open>f\<close>: one for each symbol, holding exactly the hooks of that symbol; numbers
  not yet given out are unused.
\<close>

definition keeps_lists :: "HookManager \<Rightarrow> (nat \<Rightarrow> nat list) \<Rightarrow> bool" where
  "keeps_lists m f \<longleftrightarrow>
     (\<forall>s. if sym_at m s = None then f s = [] else hook_chain m s (f s)) \<and>
     (\<forall>h x. hook_at m h = Some x \<longrightarrow> h \<in> set (f (symbol x))) \<and>
     (\<forall>n \<ge> next_id m. sym_at m n = None \<and> hook_at m n = None)"

lemma first_of_simps [simp]: "first_of [] n = n" "first_of (h # hs) n = Some h"
  by (simp_all add: first_of_def)

lemma first_of_append [simp]: "first_of (xs @ ys) n = first_of xs (first_of ys n)"
  by (cases xs) simp_all

lemma last_of_simps [simp]: "last_of p [] = p" "last_of p (hs @ [h]) = Some h"
  by (simp_all add: last_of_def)

lemma last_of_Cons [simp]: "last_of p (h # hs) = last_of (Some h) hs"
  by (simp add: last_of_def)

lemma last_of_append [simp]: "last_of p (xs @ ys) = last_of (last_of p xs) ys"
  by (induction xs arbitrary: p) simp_all

lemma seg_append [simp]:
  "seg H s p (xs @ ys) n \<longleftrightarrow> seg H s p xs (first_of ys n) \<and> seg H s (last_of p xs) ys n"
  by (induction xs arbitrary: p) auto

lemma seg_cong: "(\<And>h. h \<in> set hs \<Longrightarrow> H h = H' h) \<Longrightarrow> seg H s p hs n = seg H' s p hs n"
  by (induction hs arbitrary: p) auto

lemma seg_upd [simp]: "h \<notin> set hs \<Longrightarrow> seg (H(h := x)) s p hs n = seg H s p hs n"
  by (rule seg_cong) auto

lemma seg_symbol: "seg H s p hs n \<Longrightarrow> h \<in> set hs \<Longrightarrow> \<exists>x. H h = Some x \<and> symbol x = s"
  by (induction hs arbitrary: p) (auto split: option.splits)

lemma first_of_None: "first_of hs None = None \<longleftrightarrow> hs = []"
  by (cases hs) simp_all

lemma last_of_None: "last_of None hs = None \<longleftrightarrow> hs = []"
  by (simp add: last_of_def)

text \<open>Changing the link after the last, or before the first, hook of a segment.\<close>

lemma seg_set_child:
  assumes "seg H s p (xs @ [a]) n" "distinct (xs @ [a])" "H a = Some x"
  shows "seg (H(a \<mapsto> x\<lparr>child := n'\<rparr>)) s p (xs @ [a]) n'"
  using assms by simp

lemma seg_set_parent:
  assumes "seg H s p (a # xs) n" "distinct (a # xs)" "H a = Some x"
  shows "seg (H(a \<mapsto> x\<lparr>parent := p'\<rparr>)) s p' (a # xs) n"
  using assms by simp

lemmas pointer_simps = at_ptr_def set_lib_def set_sym_def set_hook_at_def poke_word_def new_id_def prog_simps


lemma seg_at:
  assumes "seg H s p (xs @ h # ys) n"
  obtains x where "H h = Some x" "symbol x = s" "parent x = last_of p xs" "child x = first_of ys n"
  using assms by auto

text \<open>Unlinking a hook from the middle of a segment.\<close>

lemma seg_delete:
  assumes sg: "seg H s None (xs @ h # ys) None" and d: "distinct (xs @ h # ys)"
    and c: "\<And>c x. first_of ys None = Some c \<Longrightarrow> H c = Some x \<Longrightarrow> H' c = Some (x\<lparr>parent := last_of None xs\<rparr>)"
    and p: "\<And>p x. last_of None xs = Some p \<Longrightarrow> H p = Some x \<Longrightarrow> H' p = Some (x\<lparr>child := first_of ys None\<rparr>)"
    and o: "\<And>k. k \<in> set (xs @ ys) \<Longrightarrow> first_of ys None \<noteq> Some k \<Longrightarrow> last_of None xs \<noteq> Some k \<Longrightarrow> H' k = H k"
  shows "seg H' s None (xs @ ys) None"
proof -
  have "seg H' s None xs (first_of ys None)"
  proof (cases xs rule: rev_cases)
    case (snoc us a)
    with sg obtain x where x: "H a = Some x" by auto
    have "seg (H(a \<mapsto> x\<lparr>child := first_of ys None\<rparr>)) s None (us @ [a]) (first_of ys None)"
      using sg d x snoc by (intro seg_set_child) auto
    moreover have "seg (H(a \<mapsto> x\<lparr>child := first_of ys None\<rparr>)) s None (us @ [a]) (first_of ys None) =
        seg H' s None (us @ [a]) (first_of ys None)"
    proof (rule seg_cong)
      fix k assume k: "k \<in> set (us @ [a])"
      with d snoc have "first_of ys None \<noteq> Some k" by (cases ys) auto
      with k p[of a x] x o[of k] snoc show "(H(a \<mapsto> x\<lparr>child := first_of ys None\<rparr>)) k = H' k" by auto
    qed
    ultimately show ?thesis using snoc by simp
  qed simp
  moreover have "seg H' s (last_of None xs) ys None"
  proof (cases ys)
    case (Cons a us)
    with sg obtain x where x: "H a = Some x" by auto
    have "seg (H(a \<mapsto> x\<lparr>parent := last_of None xs\<rparr>)) s (last_of None xs) (a # us) None"
      using sg d x Cons by (intro seg_set_parent) auto
    moreover have "seg (H(a \<mapsto> x\<lparr>parent := last_of None xs\<rparr>)) s (last_of None xs) (a # us) None =
        seg H' s (last_of None xs) (a # us) None"
    proof (rule seg_cong)
      fix k assume k: "k \<in> set (a # us)"
      with d Cons have "last_of None xs \<noteq> Some k" by (auto simp: last_of_def dest: last_in_set)
      with k c[of a x] x o[of k] Cons show "(H(a \<mapsto> x\<lparr>parent := last_of None xs\<rparr>)) k = H' k" by auto
    qed
    ultimately show ?thesis using Cons by simp
  qed simp
  ultimately show ?thesis by simp
qed


section \<open>Deleting a hook\<close>

definition relink :: "(nat \<Rightarrow> HookInstance option) \<Rightarrow> nat option \<Rightarrow> nat option \<Rightarrow> nat \<Rightarrow> HookInstance option" where
  "relink H p c =
    (let H1 = (case c of None \<Rightarrow> H | Some c' \<Rightarrow> H(c' := map_option (\<lambda>v. v\<lparr>parent := p\<rparr>) (H c')))
     in (case p of None \<Rightarrow> H1 | Some p' \<Rightarrow> H1(p' := map_option (\<lambda>v. v\<lparr>child := c\<rparr>) (H1 p'))))"

definition previous :: "HookManager \<Rightarrow> nat \<Rightarrow> nat option \<Rightarrow> u64" where
  "previous m s p = (case p of None \<Rightarrow> original (the (sym_at m s)) | Some p \<Rightarrow> replacement (the (hook_at m p)))"

lemma run_set_sym: "sym_at m s = Some y \<Longrightarrow> set_sym s f m = (Inr (), m\<lparr>sym_at := (sym_at m)(s \<mapsto> f y)\<rparr>)"
  by (simp add: pointer_simps)

lemma run_seqp: "p m = (Inr x, t) \<Longrightarrow> seqp p q m = q t"
  by (simp add: prog_simps)

lemma run_deref: "f m p = Some v \<Longrightarrow> andthen (at_ptr f p) q m = q v m"
  by (simp add: pointer_simps)

text \<open>The links and the cell of the hook behind the deleted one.\<close>

lemma run_unlink:
  assumes "symbol x = s" "sym_at m s = Some y"
    and "\<And>c. child x = Some c \<Longrightarrow> \<exists>v. hook_at m c = Some v \<and> orig v \<noteq> 0"
    and "\<And>p. parent x = Some p \<Longrightarrow> hook_at m p \<noteq> None \<and> child x \<noteq> Some p"
  shows "seqp (unlink_child x) (case parent x of None \<Rightarrow> ret () | Some p \<Rightarrow> set_hook_at p (\<lambda>v. v\<lparr>child := child x\<rparr>)) m =
    (Inr (), m\<lparr>hook_at := relink (hook_at m) (parent x) (child x),
      word_at := (case child x of None \<Rightarrow> word_at m
        | Some c \<Rightarrow> (word_at m)(orig (the (hook_at m c)) := previous m s (parent x)))\<rparr>)"
proof (cases "parent x"; cases "child x")
  fix c assume pc: "parent x = None" "child x = Some c"
  then show ?thesis using assms(3)[of c] assms(1,2)
    by (auto simp: unlink_child_def pointer_simps relink_def previous_def)
next
  fix p assume pc: "parent x = Some p" "child x = None"
  then show ?thesis using assms(4)[of p]
    by (auto simp: unlink_child_def pointer_simps relink_def previous_def)
next
  fix p c assume pc: "parent x = Some p" "child x = Some c"
  then show ?thesis using assms(3)[of c] assms(4)[of p]
    by (auto simp: unlink_child_def pointer_simps relink_def previous_def)
qed (simp add: unlink_child_def pointer_simps relink_def)

lemma deleteHook_eq:
  assumes ch: "hook_chain m s (xs @ h # ys)"
    and cells: "\<And>c v. first_of ys None = Some c \<Longrightarrow> hook_at m c = Some v \<Longrightarrow> orig v \<noteq> 0"
  shows "deleteHook h m = (Inr (), m\<lparr>
    hook_at := (relink (hook_at m) (last_of None xs) (first_of ys None))(h := None),
    word_at := (case first_of ys None of None \<Rightarrow> word_at m
      | Some c \<Rightarrow> (word_at m)(orig (the (hook_at m c)) := previous m s (last_of None xs))),
    sym_at := (sym_at m)(s \<mapsto> (the (sym_at m s))\<lparr>firstHook := first_of (xs @ ys) None, lastHook := last_of None (xs @ ys)\<rparr>)\<rparr>)"
proof -
  obtain y where y: "sym_at m s = Some y" and sg: "seg (hook_at m) s None (xs @ h # ys) None"
    and d: "distinct (xs @ h # ys)"
    and fl: "firstHook y = first_of (xs @ h # ys) None" "lastHook y = last_of None (xs @ h # ys)"
    using ch by (auto simp: hook_chain_def)
  obtain x where x: "hook_at m h = Some x" "symbol x = s" "parent x = last_of None xs" "child x = first_of ys None"
    using sg by (rule seg_at)
  define y1 where "y1 = (if firstHook y = Some h then y\<lparr>firstHook := child x\<rparr> else y)"
  have "y1 = y\<lparr>firstHook := first_of (xs @ ys) None\<rparr>"
    using d fl x unfolding y1_def by (cases y; cases xs) auto
  then have y2: "(if lastHook y1 = Some h then y1\<lparr>lastHook := parent x\<rparr> else y1) =
      y\<lparr>firstHook := first_of (xs @ ys) None, lastHook := last_of None (xs @ ys)\<rparr>"
    using d fl x by (cases y; cases ys rule: rev_cases) auto
  have c: "\<exists>v. hook_at m c = Some v \<and> orig v \<noteq> 0" if "child x = Some c" for c
    using that sg cells x by (cases ys) auto
  have p: "hook_at m p \<noteq> None \<and> child x \<noteq> Some p" if "parent x = Some p" for p
    using that sg d x by (cases xs rule: rev_cases; cases ys) auto
  define A where "A = seqp (unlink_child x) (case parent x of None \<Rightarrow> ret () | Some p \<Rightarrow> set_hook_at p (\<lambda>v. v\<lparr>child := child x\<rparr>))"
  define m1 where "m1 = m\<lparr>hook_at := relink (hook_at m) (parent x) (child x),
      word_at := (case child x of None \<Rightarrow> word_at m
        | Some c \<Rightarrow> (word_at m)(orig (the (hook_at m c)) := previous m s (parent x)))\<rparr>"
  have A: "A m = (Inr (), m1)"
    unfolding A_def m1_def using x(2) y c p by (rule run_unlink)
  have y': "sym_at m1 s = Some y" by (simp add: m1_def y)
  have "deleteHook h m = seqp A
      (seqp (set_sym s (\<lambda>y. if firstHook y = Some h then y\<lparr>firstHook := child x\<rparr> else y))
      (seqp (set_sym s (\<lambda>y. if lastHook y = Some h then y\<lparr>lastHook := parent x\<rparr> else y))
        (modp (\<lambda>m. m\<lparr>hook_at := (hook_at m)(h := None)\<rparr>)))) m"
    unfolding deleteHook_def A_def seqp_assoc by (simp add: run_deref x)
  also have "\<dots> = seqp (set_sym s (\<lambda>y. if lastHook y = Some h then y\<lparr>lastHook := parent x\<rparr> else y))
        (modp (\<lambda>m. m\<lparr>hook_at := (hook_at m)(h := None)\<rparr>)) (m1\<lparr>sym_at := (sym_at m1)(s \<mapsto> y1)\<rparr>)"
    by (simp only: run_seqp[of A m, OF A] run_seqp[of "set_sym s f" m1 for f, OF run_set_sym[OF y']] y1_def)
  also have "\<dots> = (Inr (), m1\<lparr>sym_at := (sym_at m1)(s \<mapsto> y\<lparr>firstHook := first_of (xs @ ys) None, lastHook := last_of None (xs @ ys)\<rparr>),
      hook_at := (hook_at m1)(h := None)\<rparr>)"
    unfolding y2[symmetric] by (simp add: pointer_simps)
  finally show ?thesis unfolding m1_def x y by simp
qed

lemma seg_relink:
  assumes sg: "seg H s None (xs @ h # ys) None" and d: "distinct (xs @ h # ys)"
  shows "seg ((relink H (last_of None xs) (first_of ys None))(h := None)) s None (xs @ ys) None"
proof (rule seg_delete[OF sg d])
  have ne: "first_of ys None \<noteq> last_of None xs \<or> last_of None xs = None"
    "first_of ys None \<noteq> Some h" "last_of None xs \<noteq> Some h"
    using d by (cases xs rule: rev_cases; cases ys; auto)+
  fix c x assume "first_of ys None = Some c" "H c = Some x"
  with ne show "((relink H (last_of None xs) (first_of ys None))(h := None)) c = Some (x\<lparr>parent := last_of None xs\<rparr>)"
    by (auto simp: relink_def Let_def split: option.splits)
next
  have ne: "last_of None xs \<noteq> first_of ys None \<or> first_of ys None = None"
    "first_of ys None \<noteq> Some h" "last_of None xs \<noteq> Some h"
    using d by (cases xs rule: rev_cases; cases ys; auto)+
  fix p x assume "last_of None xs = Some p" "H p = Some x"
  with ne show "((relink H (last_of None xs) (first_of ys None))(h := None)) p = Some (x\<lparr>child := first_of ys None\<rparr>)"
    by (auto simp: relink_def Let_def split: option.splits)
next
  fix k assume "k \<in> set (xs @ ys)" "first_of ys None \<noteq> Some k" "last_of None xs \<noteq> Some k"
  moreover from this d have "k \<noteq> h" by auto
  ultimately show "((relink H (last_of None xs) (first_of ys None))(h := None)) k = H k"
    by (auto simp: relink_def Let_def split: option.splits)
qed

lemma relink_other: "p \<noteq> Some k \<Longrightarrow> c \<noteq> Some k \<Longrightarrow> relink H p c k = H k"
  by (auto simp: relink_def Let_def split: option.splits)

lemma relink_Some:
  "relink H p c k = Some x \<Longrightarrow> \<exists>v. H k = Some v \<and> symbol v = symbol x \<and> orig v = orig x \<and> replacement v = replacement x"
  by (auto simp: relink_def Let_def split: option.splits if_splits)

lemma relink_None: "relink H p c k = None \<longleftrightarrow> H k = None"
  by (auto simp: relink_def Let_def split: option.splits if_splits)

lemma hook_chain_other:
  assumes "hook_chain m s hs" "\<And>h. h \<in> set hs \<Longrightarrow> hook_at m' h = hook_at m h" "sym_at m' s = sym_at m s"
  shows "hook_chain m' s hs"
  using assms seg_cong[of hs "hook_at m'" "hook_at m" s None None] by (simp add: hook_chain_def)

lemma keeps_chain:
  assumes "keeps_lists m f" "h \<in> set (f s)"
  shows "hook_chain m s (f s)"
proof -
  have "if sym_at m s = None then f s = [] else hook_chain m s (f s)"
    using assms(1) by (simp add: keeps_lists_def)
  with assms(2) show ?thesis by (auto split: if_splits)
qed

lemma lists_disjoint:
  assumes "keeps_lists m f" "h \<in> set (f s)" "h \<in> set (f t)"
  shows "s = t"
proof -
  have "hook_chain m s (f s)" "hook_chain m t (f t)"
    using assms by (auto intro: keeps_chain)
  then show ?thesis using assms(2,3) by (auto simp: hook_chain_def dest!: seg_symbol)
qed

text \<open>The invariant of the lists by its parts.\<close>

lemma keeps_listsI:
  assumes "\<And>s. sym_at m s = None \<Longrightarrow> f s = []" "\<And>s. sym_at m s \<noteq> None \<Longrightarrow> hook_chain m s (f s)"
    and "\<And>h x. hook_at m h = Some x \<Longrightarrow> h \<in> set (f (symbol x))"
    and "\<And>n. next_id m \<le> n \<Longrightarrow> sym_at m n = None \<and> hook_at m n = None"
  shows "keeps_lists m f"
  using assms by (simp add: keeps_lists_def)

lemma keeps_listsD:
  assumes "keeps_lists m f"
  shows "sym_at m s = None \<Longrightarrow> f s = []" "sym_at m s \<noteq> None \<Longrightarrow> hook_chain m s (f s)"
    and "hook_at m h = Some x \<Longrightarrow> h \<in> set (f (symbol x))"
    and "next_id m \<le> n \<Longrightarrow> sym_at m n = None \<and> hook_at m n = None"
proof -
  show "hook_at m h = Some x \<Longrightarrow> h \<in> set (f (symbol x))"
    "next_id m \<le> n \<Longrightarrow> sym_at m n = None \<and> hook_at m n = None"
    using assms by (simp_all add: keeps_lists_def)
  have "if sym_at m s = None then f s = [] else hook_chain m s (f s)"
    using assms by (simp add: keeps_lists_def)
  then show "sym_at m s = None \<Longrightarrow> f s = []" "sym_at m s \<noteq> None \<Longrightarrow> hook_chain m s (f s)"
    by (simp_all split: if_splits)
qed

definition cells_set :: "HookManager \<Rightarrow> bool" where
  "cells_set m \<longleftrightarrow> (\<forall>h x. hook_at m h = Some x \<longrightarrow> orig x \<noteq> 0)"

text \<open>Deleting a live hook takes it out of its list and changes no other list.\<close>

lemma deleteHook_lists:
  assumes k: "keeps_lists m f" and c: "cells_set m" and x: "hook_at m h = Some x"
  defines "s \<equiv> symbol x"
  obtains m' where "deleteHook h m = (Inr (), m')" "keeps_lists m' (f(s := remove1 h (f s)))" "cells_set m'"
    "libs m' = libs m" "dependents m' = dependents m" "hookedSymbols m' = hookedSymbols m" "lib_at m' = lib_at m"
    "\<And>t. (sym_at m' t = None) = (sym_at m t = None)" "next_id m' = next_id m"
proof -
  have h: "h \<in> set (f s)" using keeps_listsD(3)[OF k x] by (simp add: s_def)
  then have ch: "hook_chain m s (f s)" by (rule keeps_chain[OF k])
  then have d: "distinct (f s)" and y: "sym_at m s \<noteq> None" by (simp_all add: hook_chain_def)
  from h obtain xs ys where f: "f s = xs @ h # ys" by (auto simp: in_set_conv_decomp)
  with d have r: "remove1 h (f s) = xs @ ys" by (simp add: remove1_append)
  define p c where "p = last_of None xs" and "c = first_of ys None"
  have in_s: "k \<in> set (xs @ ys)" if "p = Some k \<or> c = Some k" for k
    using that by (cases xs rule: rev_cases; cases ys) (auto simp: p_def c_def)
  define m' where "m' = m\<lparr>hook_at := (relink (hook_at m) p c)(h := None),
    word_at := (case c of None \<Rightarrow> word_at m | Some c' \<Rightarrow> (word_at m)(orig (the (hook_at m c')) := previous m s p)),
    sym_at := (sym_at m)(s \<mapsto> (the (sym_at m s))\<lparr>firstHook := first_of (xs @ ys) None, lastHook := last_of None (xs @ ys)\<rparr>)\<rparr>"
  have e: "deleteHook h m = (Inr (), m')"
    using ch c unfolding f m'_def p_def c_def
    by (intro deleteHook_eq) (simp_all add: cells_set_def)
  have "seg (hook_at m') s None (xs @ ys) None"
  proof -
    have "hook_at m' = (relink (hook_at m) (last_of None xs) (first_of ys None))(h := None)"
      by (simp add: m'_def p_def c_def)
    moreover have "seg (hook_at m) s None (xs @ h # ys) None" "distinct (xs @ h # ys)"
      using ch unfolding f by (simp_all only: hook_chain_def)
    ultimately show ?thesis by (simp only: seg_relink)
  qed
  with d f have ch': "hook_chain m' s (xs @ ys)" by (auto simp: hook_chain_def m'_def)
  have "keeps_lists m' (f(s := remove1 h (f s)))"
  proof (rule keeps_listsI)
    fix t assume "sym_at m' t \<noteq> None"
    then have t: "t \<noteq> s \<Longrightarrow> hook_chain m t (f t)"
      using keeps_listsD(2)[OF k] by (auto simp: m'_def)
    have "hook_at m' k = hook_at m k" if "t \<noteq> s" "k \<in> set (f t)" for k
    proof -
      from that lists_disjoint[OF k] have "k \<notin> set (f s)" by blast
      then have "p \<noteq> Some k" "c \<noteq> Some k" "k \<noteq> h" using f in_s[of k] by auto
      then show ?thesis by (simp add: m'_def relink_other)
    qed
    with t ch' show "hook_chain m' t ((f(s := remove1 h (f s))) t)"
      by (auto simp: r intro!: hook_chain_other[of m t "f t" m']) (simp add: m'_def)
  next
    fix k v assume v: "hook_at m' k = Some v"
    then obtain w where "hook_at m k = Some w" "symbol w = symbol v" "k \<noteq> h"
      by (auto simp: m'_def dest!: relink_Some split: if_splits)
    with keeps_listsD(3)[OF k] show "k \<in> set ((f(s := remove1 h (f s))) (symbol v))" by force
  next
    fix t assume "sym_at m' t = None"
    with keeps_listsD(1)[OF k] y show "(f(s := remove1 h (f s))) t = []" by (auto simp: m'_def split: if_splits)
  next
    fix n assume "next_id m' \<le> n"
    with keeps_listsD(4)[OF k, of n] y show "sym_at m' n = None \<and> hook_at m' n = None"
      by (auto simp: m'_def relink_None)
  qed
  moreover have "cells_set m'"
    using c by (auto simp: cells_set_def m'_def dest!: relink_Some split: if_splits)
  ultimately show ?thesis
    using e y by (intro that[of m']) (auto simp: m'_def)
qed

section \<open>Creating a hook\<close>

definition libs_inv :: "HookManager \<Rightarrow> bool" where
  "libs_inv m \<longleftrightarrow>
     (\<forall>h l. libs m h = Some l \<longrightarrow> (\<exists>v. lib_at m l = Some v \<and> handle v = h)) \<and>
     (\<forall>d l. l \<in> set (dependents m d) \<longrightarrow> (\<exists>v. lib_at m l = Some v \<and> d \<in> set (dependencies v))) \<and>
     (\<forall>k s. hookedSymbols m k = Some s \<longrightarrow> sym_at m s \<noteq> None) \<and>
     (\<forall>l v i s. lib_at m l = Some v \<longrightarrow> lib_hooks v i = Some s \<longrightarrow> sym_at m s \<noteq> None) \<and>
     (\<forall>n \<ge> next_id m. lib_at m n = None)"

lemma libs_invI:
  assumes "\<And>h l. libs m h = Some l \<Longrightarrow> \<exists>v. lib_at m l = Some v \<and> handle v = h"
    and "\<And>d l. l \<in> set (dependents m d) \<Longrightarrow> \<exists>v. lib_at m l = Some v \<and> d \<in> set (dependencies v)"
    and "\<And>k s. hookedSymbols m k = Some s \<Longrightarrow> sym_at m s \<noteq> None"
    and "\<And>l v i s. lib_at m l = Some v \<Longrightarrow> lib_hooks v i = Some s \<Longrightarrow> sym_at m s \<noteq> None"
    and "\<And>n. next_id m \<le> n \<Longrightarrow> lib_at m n = None"
  shows "libs_inv m"
  using assms unfolding libs_inv_def by blast

lemma libs_invD:
  assumes "libs_inv m"
  shows "libs m h = Some l \<Longrightarrow> \<exists>v. lib_at m l = Some v \<and> handle v = h"
    and "l \<in> set (dependents m d) \<Longrightarrow> \<exists>v. lib_at m l = Some v \<and> d \<in> set (dependencies v)"
    and "hookedSymbols m k = Some s \<Longrightarrow> sym_at m s \<noteq> None"
    and "lib_at m l = Some v \<Longrightarrow> lib_hooks v i = Some s \<Longrightarrow> sym_at m s \<noteq> None"
    and "next_id m \<le> n \<Longrightarrow> lib_at m n = None"
  using assms unfolding libs_inv_def by blast+

lemma frame_simps [simp]:
  "keeps_lists (m\<lparr>lib_at := L\<rparr>) f = keeps_lists m f" "cells_set (m\<lparr>lib_at := L\<rparr>) = cells_set m"
  "keeps_lists (m\<lparr>word_at := w\<rparr>) f = keeps_lists m f" "cells_set (m\<lparr>word_at := w\<rparr>) = cells_set m"
  "libs_inv (m\<lparr>word_at := w\<rparr>) = libs_inv m" "libs_inv (m\<lparr>hook_at := H\<rparr>) = libs_inv m"
  by (simp_all add: keeps_lists_def hook_chain_def cells_set_def libs_inv_def)

lemma setHook_inv:
  assumes "libs_inv m" "lib_at m l \<noteq> None" "sym_at m s \<noteq> None"
  obtains L where "setHook l i s m = (Inr (), m\<lparr>lib_at := L\<rparr>)" "libs_inv (m\<lparr>lib_at := L\<rparr>)"
    "\<And>k. (L k = None) = (lib_at m k = None)"
proof -
  obtain v where v: "lib_at m l = Some v" using assms(2) by auto
  let ?L = "(lib_at m)(l \<mapsto> v\<lparr>lib_hooks := (lib_hooks v)(i \<mapsto> s)\<rparr>)"
  have "setHook l i s m = (Inr (), m\<lparr>lib_at := ?L\<rparr>)"
    by (simp add: setHook_def pointer_simps v)
  moreover have "libs_inv (m\<lparr>lib_at := ?L\<rparr>)"
  proof (rule libs_invI)
    fix k w j t assume "lib_at (m\<lparr>lib_at := ?L\<rparr>) k = Some w" "lib_hooks w j = Some t"
    then show "sym_at (m\<lparr>lib_at := ?L\<rparr>) t \<noteq> None"
      using assms(3) v libs_invD(4)[OF assms(1)] by (auto split: if_splits)
  next
    fix n assume "next_id (m\<lparr>lib_at := ?L\<rparr>) \<le> n"
    with libs_invD(5)[OF assms(1), of n] v show "lib_at (m\<lparr>lib_at := ?L\<rparr>) n = None" by auto
  qed (use v libs_invD(1-3)[OF assms(1)] in \<open>fastforce+\<close>)
  ultimately show ?thesis using v by (intro that[of ?L]) auto
qed

lemma setHooks_inv:
  assumes "libs_inv m" "\<forall>d\<in>set ds. lib_at m d \<noteq> None" "sym_at m s \<noteq> None"
  shows "\<exists>L. seqs (map (\<lambda>d. setHook_name K d nm s) ds) m = (Inr (), m\<lparr>lib_at := L\<rparr>) \<and> libs_inv (m\<lparr>lib_at := L\<rparr>)"
  using assms
proof (induction ds arbitrary: m)
  case Nil
  then show ?case by (intro exI[of _ "lib_at m"]) (simp add: prog_simps)
next
  case (Cons d ds)
  then obtain v where v: "lib_at m d = Some v" by auto
  with Cons.prems obtain L where L: "setHook d (getSymbolIndex K (handle v) nm) s m = (Inr (), m\<lparr>lib_at := L\<rparr>)"
      "libs_inv (m\<lparr>lib_at := L\<rparr>)" "\<And>k. (L k = None) = (lib_at m k = None)"
    by (elim setHook_inv[of m d s "getSymbolIndex K (handle v) nm"]) auto
  with Cons.prems have "\<exists>L'. seqs (map (\<lambda>d. setHook_name K d nm s) ds) (m\<lparr>lib_at := L\<rparr>) = (Inr (), m\<lparr>lib_at := L, lib_at := L'\<rparr>) \<and>
      libs_inv (m\<lparr>lib_at := L, lib_at := L'\<rparr>)"
    by (intro Cons.IH) auto
  moreover have "setHook_name K d nm s m = (Inr (), m\<lparr>lib_at := L\<rparr>)"
    by (simp add: setHook_name_def run_deref[of lib_at, OF v] L)
  ultimately show ?case by (auto simp: run_seqp[of "setHook_name K d nm s" m])
qed

lemma getOrCreate_inv:
  assumes i: "libs_inv m" and k: "keeps_lists m f" and l: "libs m lib = Some l"
  obtains s m' where "getOrCreateHookSymbol K lib i m = (Inr s, m')" "libs_inv m'" "keeps_lists m' f"
    "sym_at m' s \<noteq> None" "hook_at m' = hook_at m" "word_at m' = word_at m" "hookedSymbols m' (l, i) = Some s"
    "hookedSymbols m (l, i) \<in> {None, Some s}"
proof (cases "hookedSymbols m (l, i)")
  case (Some s)
  with i l show ?thesis
    by (intro that[of s m]) (auto simp: getOrCreateHookSymbol_def prog_simps k dest: libs_invD(3))
next
  case None
  define s where "s = next_id m"
  define m1 where "m1 = m\<lparr>next_id := Suc s, hookedSymbols := (hookedSymbols m)((l, i) \<mapsto> s),
    sym_at := (sym_at m)(s \<mapsto> \<lparr>sym_lib = l, symbolIndex = i, original = 0, firstHook = None, lastHook = None\<rparr>)\<rparr>"
  have new: "sym_at m s = None" "hook_at m s = None"
    using keeps_listsD(4)[OF k, of s] by (simp_all add: s_def)
  have i1: "libs_inv m1"
  proof (rule libs_invI)
    fix k t assume "hookedSymbols m1 k = Some t"
    then show "sym_at m1 t \<noteq> None"
      using libs_invD(3)[OF i, of k t] by (auto simp: m1_def split: if_splits)
  next
    fix n assume "next_id m1 \<le> n"
    then show "lib_at m1 n = None" using libs_invD(5)[OF i, of n] by (simp add: m1_def s_def)
  next
    fix l v j t assume "lib_at m1 l = Some v" "lib_hooks v j = Some t"
    then show "sym_at m1 t \<noteq> None" using libs_invD(4)[OF i, of l v j t] by (simp add: m1_def)
  qed (use libs_invD(1,2)[OF i] in \<open>simp_all add: m1_def\<close>)
  have k1: "keeps_lists m1 f"
  proof (rule keeps_listsI)
    fix t assume "sym_at m1 t \<noteq> None"
    then show "hook_chain m1 t (f t)"
      using keeps_listsD(1)[OF k new(1)] keeps_listsD(2)[OF k, of t]
      by (cases "t = s") (auto simp: hook_chain_def m1_def)
  next
    fix n assume "next_id m1 \<le> n"
    then show "sym_at m1 n = None \<and> hook_at m1 n = None"
      using keeps_listsD(4)[OF k, of n] by (simp add: m1_def s_def)
  qed (use keeps_listsD(1,3)[OF k] in \<open>auto simp: m1_def split: if_splits\<close>)
  have s1: "sym_at m1 s \<noteq> None" by (simp add: m1_def)
  have "lib_at m1 l \<noteq> None" using libs_invD(1)[OF i l] by (auto simp: m1_def)
  from setHook_inv[OF i1 this s1, of i] obtain L where L: "setHook l i s m1 = (Inr (), m1\<lparr>lib_at := L\<rparr>)"
    "libs_inv (m1\<lparr>lib_at := L\<rparr>)" "\<And>k. (L k = None) = (lib_at m1 k = None)" by metis
  obtain v where v: "L l = Some v" using L(3)[of l] libs_invD(1)[OF i l] by (auto simp: m1_def)
  have "\<forall>d\<in>set (dependents m lib). L d \<noteq> None"
  proof
    fix d assume "d \<in> set (dependents m lib)"
    from libs_invD(2)[OF i this] L(3)[of d] show "L d \<noteq> None" by (auto simp: m1_def)
  qed
  with setHooks_inv[OF L(2), of "dependents m lib" s K "getSymbolName K v i"] s1 obtain L'
    where L': "seqs (map (\<lambda>d. setHook_name K d (getSymbolName K v i) s) (dependents m lib)) (m1\<lparr>lib_at := L\<rparr>) =
      (Inr (), m1\<lparr>lib_at := L'\<rparr>)" "libs_inv (m1\<lparr>lib_at := L'\<rparr>)" by auto
  have "getOrCreateHookSymbol K lib i m = (Inr s, m1\<lparr>lib_at := L'\<rparr>)"
  proof -
    have d: "dependents m1 = dependents m" by (simp add: m1_def)
    have "getOrCreateHookSymbol K lib i m = seqp (setHook l i s) (andthen (at_ptr lib_at l) (\<lambda>v.
         andthen (getp (\<lambda>m. dependents m lib)) (\<lambda>deps.
         seqp (seqs (map (\<lambda>d. setHook_name K d (getSymbolName K v i) s) deps)) (ret s)))) m1"
      by (simp add: getOrCreateHookSymbol_def prog_simps new_id_def l None m1_def s_def)
    also have "\<dots> = seqp (seqs (map (\<lambda>d. setHook_name K d (getSymbolName K v i) s) (dependents m lib))) (ret s) (m1\<lparr>lib_at := L\<rparr>)"
      unfolding run_seqp[of "setHook l i s" m1, OF L(1)]
      by (subst run_deref[of lib_at, where v = v]) (simp_all add: v d andthen_def getp_def)
    also have "\<dots> = (Inr s, m1\<lparr>lib_at := L'\<rparr>)"
      unfolding run_seqp[of "seqs ps" "m1\<lparr>lib_at := L\<rparr>" for ps, OF L'(1)] by (simp add: ret_def)
    finally show ?thesis .
  qed
  with L'(2) k1 s1 None show ?thesis
    by (intro that[of s "m1\<lparr>lib_at := L'\<rparr>"]) (simp_all add: m1_def)
qed

text \<open>A new hook goes to the end of its symbol's list; the cell it is given receives the replacement before it.\<close>

lemma link_lists:
  fixes repl :: u64
  assumes k: "keeps_lists m f" and c: "cells_set m" and y: "sym_at m s = Some y" and cell: "cell \<noteq> 0"
  defines "h \<equiv> next_id m"
  defines "m1 \<equiv> m\<lparr>next_id := Suc h,
     hook_at := (hook_at m)(h \<mapsto> \<lparr>symbol = s, parent = None, child = None, replacement = repl, orig = cell\<rparr>)\<rparr>"
  obtains m' where "seqp (link_hook s h cell) (seqp (set_sym s (\<lambda>y. y\<lparr>lastHook := Some h\<rparr>)) (ret h)) m1 = (Inr h, m')"
    "keeps_lists m' (f(s := f s @ [h]))" "cells_set m'" "libs m' = libs m" "dependents m' = dependents m"
    "hookedSymbols m' = hookedSymbols m" "lib_at m' = lib_at m" "next_id m' = Suc (next_id m)"
    "\<And>t. (sym_at m' t = None) = (sym_at m t = None)" "original (the (sym_at m' s)) = original y"
    "word_at m' = (if f s = [] then word_at m else (word_at m)(cell := replacement (the (hook_at m (last (f s))))))"
proof -
  have ch: "hook_chain m s (f s)" using keeps_listsD(2)[OF k] y by simp
  have h: "hook_at m h = None" using keeps_listsD(4)[OF k, of h] by (simp add: h_def)
  have new: "h \<notin> set (f t)" for t
  proof
    assume a: "h \<in> set (f t)"
    from keeps_chain[OF k a] a h show False by (auto simp: hook_chain_def dest!: seg_symbol)
  qed
  let ?x = "\<lparr>symbol = s, parent = last_of None (f s), child = None, replacement = repl, orig = cell\<rparr>"
  define H where "H = (relink (hook_at m) (last_of None (f s)) (Some h))(h \<mapsto> ?x)"
  define m' where "m' = m\<lparr>next_id := Suc h, hook_at := H,
    sym_at := (sym_at m)(s \<mapsto> y\<lparr>firstHook := first_of (f s @ [h]) None, lastHook := Some h\<rparr>),
    word_at := (if f s = [] then word_at m else (word_at m)(cell := replacement (the (hook_at m (last (f s))))))\<rparr>"
  have seg': "seg H s None (f s @ [h]) None"
  proof (cases "f s" rule: rev_cases)
    case Nil
    then show ?thesis by (simp add: H_def)
  next
    case (snoc us p)
    with ch obtain x where x: "hook_at m p = Some x" by (auto simp: hook_chain_def)
    have "seg (hook_at m) s None (us @ [p]) None" "distinct (us @ [p])"
      using ch snoc by (simp_all only: hook_chain_def)
    from seg_set_child[OF this x, of "Some h"] have "seg (relink (hook_at m) (Some p) (Some h)) s None (f s) (Some h)"
      using new[of s] h x snoc by (auto simp: relink_def Let_def fun_upd_idem)
    then show ?thesis using new[of s] snoc by (simp add: H_def)
  qed
  have run: "seqp (link_hook s h cell) (seqp (set_sym s (\<lambda>y. y\<lparr>lastHook := Some h\<rparr>)) (ret h)) m1 = (Inr h, m')"
  proof (cases "f s" rule: rev_cases)
    case Nil
    with ch y h show ?thesis
      by (simp add: hook_chain_def link_hook_def pointer_simps m1_def m'_def H_def relink_def)
  next
    case (snoc us p)
    with ch obtain x where x: "hook_at m p = Some x" by (auto simp: hook_chain_def)
    obtain a where a: "first_of us (Some p) = Some a" by (cases us) simp_all
    have y': "firstHook y = Some a" "lastHook y = Some p"
      using ch y snoc a by (simp_all add: hook_chain_def)
    then have e: "y\<lparr>lastHook := Some h\<rparr> = y\<lparr>firstHook := Some a, lastHook := Some h\<rparr>"
      by (cases y) simp
    have "p \<noteq> h" using x h by auto
    then show ?thesis using y y' x h cell snoc a
      by (simp add: e link_hook_def pointer_simps m1_def m'_def H_def relink_def fun_upd_twist)
  qed
  have "keeps_lists m' (f(s := f s @ [h]))"
  proof (rule keeps_listsI)
    fix t assume "sym_at m' t \<noteq> None"
    then have t: "hook_chain m t (f t)" if "t \<noteq> s"
      using keeps_listsD(2)[OF k, of t] that by (auto simp: m'_def split: if_splits)
    have "hook_at m' q = hook_at m q" if "t \<noteq> s" "q \<in> set (f t)" for q
    proof -
      have "q \<noteq> h" "last_of None (f s) \<noteq> Some q"
        using that new lists_disjoint[OF k, of q s t] by (auto simp: last_of_def dest: last_in_set split: if_splits)
      then show ?thesis by (simp add: m'_def H_def relink_other)
    qed
    moreover have "hook_chain m' s (f s @ [h])"
      using ch new[of s] seg' by (auto simp: hook_chain_def m'_def)
    ultimately show "hook_chain m' t ((f(s := f s @ [h])) t)"
      using t by (auto intro!: hook_chain_other[of m t "f t" m']) (simp add: m'_def)
  next
    fix q v assume v: "hook_at m' q = Some v"
    show "q \<in> set ((f(s := f s @ [h])) (symbol v))"
    proof (cases "q = h")
      case False
      with v obtain w where "hook_at m q = Some w" "symbol w = symbol v"
        by (auto simp: m'_def H_def dest!: relink_Some)
      with keeps_listsD(3)[OF k] show ?thesis by force
    qed (use v in \<open>auto simp: m'_def H_def\<close>)
  next
    fix t assume "sym_at m' t = None"
    with keeps_listsD(1)[OF k] show "(f(s := f s @ [h])) t = []" by (auto simp: m'_def split: if_splits)
  next
    fix n assume "next_id m' \<le> n"
    with keeps_listsD(4)[OF k, of n] y show "sym_at m' n = None \<and> hook_at m' n = None"
      by (auto simp: m'_def H_def relink_None h_def)
  qed
  moreover have "cells_set m'"
    using c cell by (auto simp: cells_set_def m'_def H_def dest!: relink_Some split: if_splits)
  ultimately show ?thesis
    using run y by (intro that[of m']) (simp_all add: m'_def h_def)
qed

definition hook_state :: "HookManager \<Rightarrow> (nat \<Rightarrow> nat list) \<Rightarrow> bool" where
  "hook_state m f \<longleftrightarrow> keeps_lists m f \<and> cells_set m \<and> libs_inv m"

lemma libs_inv_frame:
  assumes "libs_inv m" "libs m' = libs m" "dependents m' = dependents m" "hookedSymbols m' = hookedSymbols m"
    "lib_at m' = lib_at m" "\<And>t. (sym_at m' t = None) = (sym_at m t = None)" "next_id m \<le> next_id m'"
  shows "libs_inv m'"
proof (rule libs_invI)
  fix l v i s assume "lib_at m' l = Some v" "lib_hooks v i = Some s"
  then show "sym_at m' s \<noteq> None" using libs_invD(4)[OF assms(1), of l v i s] assms(5,6) by simp
qed (use assms libs_invD[OF assms(1)] in \<open>auto intro: order_trans\<close>)

lemma createHook_lists:
  assumes st: "hook_state m f" and l: "libs m lib = Some l" and cell: "cell \<noteq> 0"
  obtains s h m' where "createHook K lib i repl cell m = (Inr h, m')" "hook_at m h = None"
    "hook_state m' (f(s := f s @ [h]))" "hookedSymbols m' (l, i) = Some s"
    "hookedSymbols m (l, i) \<in> {None, Some s}"
    "word_at m' = (if f s = [] then word_at m else (word_at m)(cell := replacement (the (hook_at m (last (f s))))))"
proof -
  have i: "libs_inv m" and k: "keeps_lists m f" and c: "cells_set m" using st by (simp_all add: hook_state_def)
  from getOrCreate_inv[OF i k l] obtain s m1 where g: "getOrCreateHookSymbol K lib i m = (Inr s, m1)" "libs_inv m1"
    "keeps_lists m1 f" "sym_at m1 s \<noteq> None" "hook_at m1 = hook_at m" "word_at m1 = word_at m" "hookedSymbols m1 (l, i) = Some s"
    "hookedSymbols m (l, i) \<in> {None, Some s}"
    by metis
  then obtain y where y: "sym_at m1 s = Some y" by auto
  have c1: "cells_set m1" using c g(5) by (simp add: cells_set_def)
  define h where "h = next_id m1"
  from link_lists[OF g(3) c1 y cell, of repl] obtain m' where
    r: "seqp (link_hook s h cell) (seqp (set_sym s (\<lambda>y. y\<lparr>lastHook := Some h\<rparr>)) (ret h)) (m1\<lparr>next_id := Suc h,
      hook_at := (hook_at m1)(h \<mapsto> \<lparr>symbol = s, parent = None, child = None, replacement = repl, orig = cell\<rparr>)\<rparr>) = (Inr h, m')"
    and m': "keeps_lists m' (f(s := f s @ [h]))" "cells_set m'" "libs m' = libs m1" "dependents m' = dependents m1"
    "hookedSymbols m' = hookedSymbols m1" "lib_at m' = lib_at m1" "next_id m' = Suc (next_id m1)"
    "\<And>t. (sym_at m' t = None) = (sym_at m1 t = None)"
    "word_at m' = (if f s = [] then word_at m1 else (word_at m1)(cell := replacement (the (hook_at m1 (last (f s))))))"
    unfolding h_def by metis
  have "libs_inv m'" using g(2) m' by (intro libs_inv_frame[of m1 m']) auto
  moreover have "createHook K lib i repl cell m = (Inr h, m')"
    using g(1) r by (simp add: createHook_def h_def seqp_def andthen_def new_id_def getp_def modp_def ret_def)
  moreover have "hook_at m h = None" using keeps_listsD(4)[OF g(3), of h] g(5) by (simp add: h_def)
  ultimately show ?thesis using m' g(5-8) by (intro that[of h m' s]) (simp_all add: hook_state_def)
qed

lemma deleteHook_state:
  assumes st: "hook_state m f" and d: "hook_at m d = Some x"
  obtains m' where "deleteHook d m = (Inr (), m')" "hook_state m' (f(symbol x := remove1 d (f (symbol x))))"
proof -
  have i: "libs_inv m" and k: "keeps_lists m f" and c: "cells_set m" using st by (simp_all add: hook_state_def)
  from deleteHook_lists[OF k c d] obtain m' where m': "deleteHook d m = (Inr (), m')"
    "keeps_lists m' (f(symbol x := remove1 d (f (symbol x))))" "cells_set m'"
    "libs m' = libs m" "dependents m' = dependents m" "hookedSymbols m' = hookedSymbols m" "lib_at m' = lib_at m"
    "\<And>t. (sym_at m' t = None) = (sym_at m t = None)" "next_id m' = next_id m" by metis
  have "libs_inv m'" using i m' by (intro libs_inv_frame[of m m']) auto
  with m' show ?thesis by (intro that[of m']) (auto simp: hook_state_def)
qed

section \<open>Applying hooks\<close>

text \<open>
  Seen from outside, applying hooks is a pass over slots: the address of a slot and the symbol it refers to.
\<close>

definition slot_of :: "LibInfo \<Rightarrow> u64 \<times> u64 \<Rightarrow> (u64 \<times> nat) option" where
  "slot_of v e = (case e of (off, info) \<Rightarrow>
     if generic_reloc (r_type info) then map_option (\<lambda>s. (base v + off, s)) (lib_hooks v (r_sym info)) else None)"

definition table_slots :: "linker \<Rightarrow> LibInfo \<Rightarrow> u64 \<Rightarrow> u32 \<Rightarrow> (u64 \<times> nat) list" where
  "table_slots K v tab sz = List.map_filter (slot_of v) (map (\<lambda>i. rela_at K (tab + 24 * of_nat i)) [0..<unat sz div 24])"

definition lib_slots :: "linker \<Rightarrow> LibInfo \<Rightarrow> (u64 \<times> nat) list" where
  "lib_slots K v = table_slots K v (rel v) (relsz v) @ table_slots K v (pltrel v) (pltrelsz v)"

definition slots :: "linker \<Rightarrow> HookManager \<Rightarrow> u64 list \<Rightarrow> (u64 \<times> nat) list" where
  "slots K m order = concat (map (\<lambda>h. case libs m h of None \<Rightarrow> [] | Some l \<Rightarrow> lib_slots K (the (lib_at m l))) order)"

text \<open>What a slot of the symbol should hold, or 0 when that is not known.\<close>

definition want :: "HookManager \<Rightarrow> nat \<Rightarrow> u64" where
  "want m s = (let y = the (sym_at m s) in case lastHook y of None \<Rightarrow> original y
     | Some h \<Rightarrow> if replacement (the (hook_at m h)) \<noteq> 0 then replacement (the (hook_at m h)) else original y)"

definition learn_original :: "nat \<Rightarrow> u64 \<Rightarrow> HookManager \<Rightarrow> HookManager" where
  "learn_original s v m = (let y = the (sym_at m s) in
     if v = 0 \<or> original y \<noteq> 0 then m
     else m\<lparr>sym_at := (sym_at m)(s \<mapsto> y\<lparr>original := v\<rparr>),
            word_at := (case firstHook y of None \<Rightarrow> word_at m
              | Some f \<Rightarrow> (word_at m)(orig (the (hook_at m f)) := v))\<rparr>)"

definition apply_slot :: "u64 \<times> nat \<Rightarrow> HookManager \<Rightarrow> HookManager" where
  "apply_slot e m = (case e of (a, s) \<Rightarrow>
     if want m s = 0 then m
     else learn_original s (take_bit 32 (word_at m a)) (m\<lparr>word_at := (word_at m)(a := want m s)\<rparr>))"

lemma keeps_firstHook:
  assumes "keeps_lists m f" "sym_at m s = Some y"
  shows "firstHook y = Some h \<Longrightarrow> hook_at m h \<noteq> None" "lastHook y = Some h \<Longrightarrow> hook_at m h \<noteq> None"
proof -
  have ch: "hook_chain m s (f s)" using keeps_listsD(2)[OF assms(1)] assms(2) by simp
  then have fl: "firstHook y = first_of (f s) None" "lastHook y = last_of None (f s)"
    using assms(2) by (simp_all add: hook_chain_def)
  have "h \<in> set (f s) \<Longrightarrow> hook_at m h \<noteq> None"
    using ch by (auto simp: hook_chain_def dest!: seg_symbol)
  moreover have "firstHook y = Some h \<Longrightarrow> h \<in> set (f s)" using fl(1) by (cases "f s") auto
  moreover have "lastHook y = Some h \<Longrightarrow> h \<in> set (f s)" using fl(2) by (auto simp: last_of_def split: if_splits)
  ultimately show "firstHook y = Some h \<Longrightarrow> hook_at m h \<noteq> None" "lastHook y = Some h \<Longrightarrow> hook_at m h \<noteq> None"
    by auto
qed

lemma run_hook_target:
  assumes "keeps_lists m f" "sym_at m s = Some y"
  shows "hook_target y m = (Inr (want m s), m)"
  using keeps_firstHook(2)[OF assms] assms(2)
  by (auto simp: hook_target_def want_def pointer_simps split: option.splits)

lemma apply_entry_eq:
  assumes st: "hook_state m f" and v: "lib_at m l = Some v"
  shows "apply_entry l e m = (Inr (), case slot_of v e of None \<Rightarrow> m | Some x \<Rightarrow> apply_slot x m)"
proof (cases "lib_hooks v (r_sym (snd e))")
  case None
  then show ?thesis
    by (cases e) (simp add: apply_entry_def slot_of_def run_deref[of lib_at, OF v] ret_def)
next
  case (Some s)
  obtain off info where e: "e = (off, info)" by (cases e)
  have k: "keeps_lists m f" and c: "cells_set m" and i: "libs_inv m" using st by (simp_all add: hook_state_def)
  from libs_invD(4)[OF i v Some] obtain y where y: "sym_at m s = Some y" by auto
  have first: "firstHook y = Some h \<Longrightarrow> \<exists>x. hook_at m h = Some x \<and> orig x \<noteq> 0" for h
    using keeps_firstHook(1)[OF k y, of h] c by (auto simp: cells_set_def)
  have t: "andthen (hook_target y) q m = q (want m s) m" for q :: "u64 \<Rightarrow> unit hooks"
    by (simp add: andthen_def run_hook_target[OF k y])
  have "apply_entry l e m = (if want m s = 0 then ret () m else andthen (swap_slot (r_type info) (base v + off) (want m s)) (\<lambda>found.
           whenp (found \<noteq> 0 \<and> original y = 0)
             (seqp (set_sym s (\<lambda>y. y\<lparr>original := found\<rparr>))
                (case firstHook y of None \<Rightarrow> ret ()
                 | Some f \<Rightarrow> andthen (at_ptr hook_at f) (\<lambda>x. poke_word (orig x) found)))) m)"
    using Some by (simp add: apply_entry_def e run_deref[of lib_at, OF v] run_deref[of sym_at, OF y] t)
  also have "\<dots> = (Inr (), case slot_of v e of None \<Rightarrow> m | Some x \<Rightarrow> apply_slot x m)"
  proof (cases "firstHook y")
    case None
    with Some y show ?thesis
      by (simp add: swap_slot_def slot_of_def e apply_slot_def learn_original_def pointer_simps)
  next
    case (Some h)
    with first obtain x where "hook_at m h = Some x" "orig x \<noteq> 0" by blast
    with Some \<open>lib_hooks v (r_sym (snd e)) = Some s\<close> y show ?thesis
      by (simp add: swap_slot_def slot_of_def e apply_slot_def learn_original_def pointer_simps)
  qed
  finally show ?thesis .
qed

lemma apply_slot_frame [simp]:
  "libs (apply_slot e m) = libs m" "dependents (apply_slot e m) = dependents m"
  "hookedSymbols (apply_slot e m) = hookedSymbols m" "lib_at (apply_slot e m) = lib_at m"
  "hook_at (apply_slot e m) = hook_at m" "next_id (apply_slot e m) = next_id m"
  by (cases e; simp add: apply_slot_def learn_original_def Let_def)+

lemma apply_slot_sym:
  assumes "sym_at m s \<noteq> None"
  shows "(sym_at (apply_slot (a, s) m) t = None) = (sym_at m t = None)"
    "firstHook (the (sym_at (apply_slot (a, s) m) t)) = firstHook (the (sym_at m t))"
    "lastHook (the (sym_at (apply_slot (a, s) m) t)) = lastHook (the (sym_at m t))"
  using assms by (auto simp: apply_slot_def learn_original_def Let_def)

lemma apply_slot_state:
  assumes st: "hook_state m f" and s: "sym_at m s \<noteq> None"
  shows "hook_state (apply_slot (a, s) m) f"
proof -
  have i: "libs_inv m" and k: "keeps_lists m f" and c: "cells_set m" using st by (simp_all add: hook_state_def)
  have "keeps_lists (apply_slot (a, s) m) f"
  proof (rule keeps_listsI)
    fix t assume "sym_at (apply_slot (a, s) m) t \<noteq> None"
    then show "hook_chain (apply_slot (a, s) m) t (f t)"
      using keeps_listsD(2)[OF k, of t] by (simp add: hook_chain_def apply_slot_sym[OF s])
  qed (use keeps_listsD(1,3,4)[OF k] in \<open>simp_all add: apply_slot_sym[OF s]\<close>)
  moreover have "libs_inv (apply_slot (a, s) m)"
    using i by (rule libs_inv_frame) (simp_all add: apply_slot_sym[OF s])
  ultimately show ?thesis using c by (simp add: hook_state_def cells_set_def)
qed

lemma slot_of_sym: "libs_inv m \<Longrightarrow> lib_at m l = Some v \<Longrightarrow> slot_of v e = Some (a, s) \<Longrightarrow> sym_at m s \<noteq> None"
  by (auto simp: slot_of_def split: prod.splits if_splits dest: libs_invD(4))

lemma fold_slots_frame [simp]:
  "libs (fold apply_slot es m) = libs m" "lib_at (fold apply_slot es m) = lib_at m"
  "hook_at (fold apply_slot es m) = hook_at m"
  by (induction es arbitrary: m) simp_all

lemma apply_entries_eq:
  assumes "hook_state m f" "lib_at m l = Some v"
  shows "seqs (map (apply_entry l) es) m = (Inr (), fold apply_slot (List.map_filter (slot_of v) es) m) \<and>
    hook_state (fold apply_slot (List.map_filter (slot_of v) es) m) f"
  using assms
proof (induction es arbitrary: m)
  case Nil
  then show ?case by (simp add: prog_simps)
next
  case (Cons e es)
  show ?case
  proof (cases "slot_of v e")
    case None
    with Cons apply_entry_eq[OF Cons.prems, of e] show ?thesis
      by (simp add: run_seqp[of "apply_entry l e" m])
  next
    case (Some x)
    obtain a s where x: "x = (a, s)" by (cases x)
    have s: "sym_at m s \<noteq> None"
      using Cons.prems Some x by (auto simp: hook_state_def dest: slot_of_sym)
    have "hook_state (apply_slot x m) f" unfolding x using Cons.prems(1) s by (rule apply_slot_state)
    with Cons Some apply_entry_eq[OF Cons.prems, of e] show ?thesis
      by (simp add: run_seqp[of "apply_entry l e" m])
  qed
qed

lemma applyHooks_lib_eq:
  assumes st: "hook_state m f" and v: "lib_at m l = Some v"
  shows "applyHooks_lib K l m = (Inr (), fold apply_slot (lib_slots K v) m) \<and> hook_state (fold apply_slot (lib_slots K v) m) f"
proof -
  have tab: "applyHooks_table K l tab sz n = (Inr (), fold apply_slot (table_slots K v tab sz) n) \<and>
      hook_state (fold apply_slot (table_slots K v tab sz) n) f"
    if "hook_state n f" "lib_at n l = Some v" for tab sz n
    using apply_entries_eq[OF that, of "map (\<lambda>i. rela_at K (tab + 24 * of_nat i)) [0..<unat sz div 24]"]
    by (simp add: applyHooks_table_def table_slots_def comp_def)
  let ?n = "fold apply_slot (table_slots K v (rel v) (relsz v)) m"
  have 1: "applyHooks_table K l (rel v) (relsz v) m = (Inr (), ?n)" "hook_state ?n f"
    using tab[OF st v] by auto
  have "applyHooks_lib K l m = applyHooks_table K l (pltrel v) (pltrelsz v) ?n"
    by (simp add: applyHooks_lib_def run_deref[of lib_at, OF v] run_seqp[of "applyHooks_table K l (rel v) (relsz v)" m, OF 1(1)])
  with tab[OF 1(2), of "pltrel v" "pltrelsz v"] v show ?thesis by (simp add: lib_slots_def)
qed

lemma applyHooks_eq:
  assumes "hook_state m f"
  shows "applyHooks K order m = (Inr (), fold apply_slot (slots K m order) m) \<and> hook_state (fold apply_slot (slots K m order) m) f"
  using assms
proof (induction order arbitrary: m)
  case Nil
  then show ?case by (simp add: applyHooks_def slots_def prog_simps)
next
  case (Cons h order)
  let ?p = "\<lambda>h. andthen (getp (\<lambda>m. libs m h)) (\<lambda>known. case known of None \<Rightarrow> ret () | Some l \<Rightarrow> applyHooks_lib K l)"
  have "\<exists>n. ?p h m = (Inr (), n) \<and> hook_state n f \<and> n = fold apply_slot (slots K m [h]) m"
  proof (cases "libs m h")
    case None
    with Cons.prems show ?thesis by (simp add: slots_def prog_simps)
  next
    case (Some l)
    with Cons.prems obtain v where "lib_at m l = Some v" by (auto simp: hook_state_def dest: libs_invD(1))
    with Some applyHooks_lib_eq[OF Cons.prems, of l v K] show ?thesis
      by (simp add: slots_def andthen_def getp_def)
  qed
  then obtain n where n: "?p h m = (Inr (), n)" "hook_state n f" "n = fold apply_slot (slots K m [h]) m" by blast
  have "applyHooks K (h # order) m = applyHooks K order n"
    using n(1) by (simp add: applyHooks_def run_seqp[of "?p h" m, OF n(1)])
  moreover have "slots K n order = slots K m order" unfolding n(3) slots_def fold_slots_frame by (rule refl)
  moreover have "slots K m (h # order) = slots K m [h] @ slots K m order" by (simp add: slots_def)
  ultimately show ?case using Cons.IH[OF n(2)] n(3) by simp
qed


definition cell_of :: "HookManager \<Rightarrow> u64 \<Rightarrow> bool" where
  "cell_of m a \<longleftrightarrow> (\<exists>h x. hook_at m h = Some x \<and> orig x = a)"

lemma cell_of_apply [simp]: "cell_of (apply_slot e m) = cell_of m"
  by (simp add: cell_of_def fun_eq_iff)



lemma take_bit_fits: "take_bit 32 w = w \<longleftrightarrow> w < 2 ^ 32" for w :: u64
  by (simp only: word_unat_eq_iff unsigned_take_bit_eq take_bit_nat_eq_self_iff word_less_nat_alt) simp




text \<open>
  The first time hooks are applied, the function found in the slot of a symbol is recorded as its
  original and stored in the cell of the first hook; but only the low 32 bits of the slot are read. The cell holds the
  address of the original function exactly when that address is below four gigabytes.
\<close>

theorem hooked_original_truncated:
  assumes st: "hook_state m f" and y: "sym_at m s = Some y" "original y = 0" and f: "f s = h # hs"
    and x: "hook_at m h = Some x" and r: "replacement (the (hook_at m (last (f s)))) \<noteq> 0"
    and sl: "slots K m order = [(a, s)]" and nz: "take_bit 32 (word_at m a) \<noteq> 0"
  shows "\<exists>m'. applyHooks K order m = (Inr (), m') \<and> word_at m' (orig x) = take_bit 32 (word_at m a) \<and>
    original (the (sym_at m' s)) = take_bit 32 (word_at m a) \<and>
    (word_at m' (orig x) = word_at m a \<longleftrightarrow> word_at m a < 2 ^ 32)"
proof -
  have "hook_chain m s (f s)" using st y keeps_listsD(2)[of m f s] by (simp add: hook_state_def)
  then have fl: "firstHook y = Some h" "lastHook y = Some (last (f s))"
    using y f by (simp_all add: hook_chain_def last_of_def)
  then have w: "want m s = replacement (the (hook_at m (last (f s))))" using y r by (simp add: want_def)
  let ?m = "apply_slot (a, s) m"
  have "take_bit 32 (word_at m a) = word_at m a \<longleftrightarrow> word_at m a < 2 ^ 32"
    by (rule take_bit_fits)
  moreover have "applyHooks K order m = (Inr (), ?m)"
    using applyHooks_eq[OF st, of K order] sl by simp
  moreover have "word_at ?m (orig x) = take_bit 32 (word_at m a)" "original (the (sym_at ?m s)) = take_bit 32 (word_at m a)"
    using w r y fl x nz by (simp_all add: apply_slot_def learn_original_def Let_def)
  ultimately show ?thesis by auto
qed

text \<open>
  A hook created on a symbol whose original is already known and whose list is empty never receives it.
\<close>

lemma late_hook_without_original:
  assumes st: "hook_state m f" and l: "libs m lib = Some l" and s: "hookedSymbols m (l, i) = Some s"
    and f: "f s = []" and cell: "cell \<noteq> 0"
  obtains h m' where "createHook K lib i repl cell m = (Inr h, m')" "word_at m' cell = word_at m cell"
proof (rule createHook_lists[OF st l cell, of K i repl])
  fix t h m'
  assume "createHook K lib i repl cell m = (Inr h, m')" "hookedSymbols m (l, i) \<in> {None, Some t}"
    "word_at m' = (if f t = [] then word_at m else (word_at m)(cell := replacement (the (hook_at m (last (f t))))))"
  then show ?thesis using s f by (intro that[of h m']) auto
qed

section \<open>Adding and removing libraries\<close>








section \<open>Every sequence of operations\<close>






text \<open>
  C38: the hooks of every symbol form a list, kept in two directions by pointers. Creating a
  hook on a registered library puts it at the end of the list of its symbol; its cell receives the
  replacement that was last before, if there was one. Deleting a live hook takes it out of its list.
  Neither changes another list.
\<close>

theorem hook_lists_refined:
  assumes st: "hook_state m f"
  shows "(libs m lib = Some l \<and> cell \<noteq> 0 \<longrightarrow> (\<exists>s h m'. createHook K lib i repl cell m = (Inr h, m') \<and>
      hook_at m h = None \<and> hookedSymbols m' (l, i) = Some s \<and> hook_state m' (f(s := f s @ [h])) \<and>
      (f s \<noteq> [] \<longrightarrow> word_at m' cell = replacement (the (hook_at m (last (f s))))))) \<and>
    (hook_at m d = Some x \<longrightarrow> (\<exists>m'. deleteHook d m = (Inr (), m') \<and>
      hook_state m' (f(symbol x := remove1 d (f (symbol x))))))"
proof (intro conjI impI; (elim conjE)?)
  assume l: "libs m lib = Some l" and cell: "cell \<noteq> 0"
  obtain s h m' where "createHook K lib i repl cell m = (Inr h, m')" "hook_at m h = None"
    "hook_state m' (f(s := f s @ [h]))" "hookedSymbols m' (l, i) = Some s"
    "word_at m' = (if f s = [] then word_at m else (word_at m)(cell := replacement (the (hook_at m (last (f s))))))"
    using createHook_lists[OF st l cell] by metis
  then show "\<exists>s h m'. createHook K lib i repl cell m = (Inr h, m') \<and>
      hook_at m h = None \<and> hookedSymbols m' (l, i) = Some s \<and> hook_state m' (f(s := f s @ [h])) \<and>
      (f s \<noteq> [] \<longrightarrow> word_at m' cell = replacement (the (hook_at m (last (f s)))))"
    by (intro exI[of _ s] exI[of _ h] exI[of _ m']) simp
next
  assume "hook_at m d = Some x"
  with deleteHook_state[OF st] show "\<exists>m'. deleteHook d m = (Inr (), m') \<and>
      hook_state m' (f(symbol x := remove1 d (f (symbol x))))" by metis
qed

section \<open>Examples\<close>

text \<open>A library with one slot, at \<open>0x1020\<close>, for a symbol with index 5; and a manager with one hook on it.\<close>

definition sample_linker :: linker where
  "sample_linker = \<lparr>si_base = (\<lambda>_. 0x1000), si_dynamic = (\<lambda>_. [(23, 0x100), (2, 24), (0, 0)]), si_phdrs = (\<lambda>_. []),
     si_string = (\<lambda>_ _. []), si_symbol = (\<lambda>_ _. Some 5), dlopen_noload = (\<lambda>_. 0),
     rela_at = (\<lambda>_. (0x20, 0x500000007)), st_name_at = (\<lambda>_. 0), string_at = (\<lambda>_. ''f'')\<rparr>"

definition hm_empty :: HookManager where
  "hm_empty = \<lparr>libs = Map.empty, dependents = (\<lambda>_. []), hookedSymbols = Map.empty, lib_at = Map.empty, sym_at = Map.empty,
     hook_at = Map.empty, next_id = 0, word_at = (\<lambda>a. if a = 0x1020 then 0x7fff12345678 else 0)\<rparr>"

definition hm_lib :: HookManager where
  "hm_lib = snd (addLibrary sample_linker 1 hm_empty)"

definition hm_one :: HookManager where
  "hm_one = snd (createHook_name sample_linker 1 ''f'' 0xaa00 8 hm_lib)"

definition sample_lib_info :: "(u32 \<Rightarrow> nat option) \<Rightarrow> LibInfo" where
  "sample_lib_info hooks = \<lparr>handle = 1, base = 0x1000, strtab = 0, symtab = 0, rel = 0, relsz = 0, pltrel = 0x1100, pltrelsz = 24,
     relro = 0, relrosize = 0, lib_hooks = hooks, dependencies = []\<rparr>"

lemma hm_lib_eq: "hm_lib = hm_empty\<lparr>next_id := 1, libs := [1 \<mapsto> 0], lib_at := [0 \<mapsto> sample_lib_info Map.empty]\<rparr>"
  by (simp add: hm_lib_def addLibrary_def new_id_def prog_simps sample_linker_def hm_empty_def LibInfo_new_def
      dyn_entries_def lib_dyn_def sample_lib_info_def add_needed_def)

lemma hm_one_eq: "hm_one = hm_lib\<lparr>next_id := 3, hookedSymbols := [(0, 5) \<mapsto> 1],
    sym_at := [1 \<mapsto> \<lparr>sym_lib = 0, symbolIndex = 5, original = 0, firstHook = Some 2, lastHook = Some 2\<rparr>],
    lib_at := [0 \<mapsto> sample_lib_info [5 \<mapsto> 1]],
    hook_at := [2 \<mapsto> \<lparr>symbol = 1, parent = None, child = None, replacement = 0xaa00, orig = 8\<rparr>]\<rparr>"
  by (simp add: hm_one_def hm_lib_eq createHook_name_def createHook_def getOrCreateHookSymbol_def link_hook_def setHook_def
      getSymbolIndex_def pointer_simps hm_empty_def sample_lib_info_def sample_linker_def)
     (simp add: numeral_2_eq_2)

lemma hm_one_state: "hook_state hm_one (\<lambda>s. if s = 1 then [2] else [])"
proof -
  have "keeps_lists hm_one (\<lambda>s. if s = 1 then [2] else [])"
    by (rule keeps_listsI) (auto simp: hm_one_eq hm_lib_eq hm_empty_def hook_chain_def last_of_def split: if_splits)
  moreover have "libs_inv hm_one"
    by (rule libs_invI) (auto simp: hm_one_eq hm_lib_eq hm_empty_def sample_lib_info_def split: if_splits)
  moreover have "cells_set hm_one"
    by (auto simp: cells_set_def hm_one_eq hm_lib_eq hm_empty_def split: if_splits)
  ultimately show ?thesis by (simp add: hook_state_def)
qed


lemma hm_one_slots: "slots sample_linker hm_one [1] = [(0x1020, 1)]"
  by (simp add: slots_def hm_one_eq hm_lib_eq hm_empty_def lib_slots_def table_slots_def sample_lib_info_def sample_linker_def
      slot_of_def generic_reloc_def r_type_def r_sym_def List.map_filter_def)


theorem hook_lists_refined_witness:
  "\<exists>m'. deleteHook 2 hm_one = (Inr (), m') \<and> hook_state m' (\<lambda>s. [])"
proof -
  have "\<exists>m'. deleteHook 2 hm_one = (Inr (), m') \<and>
      hook_state m' ((\<lambda>s. if s = 1 then [2] else [])(1 := remove1 2 [2]))"
    using hook_lists_refined[OF hm_one_state, of 1 0 8 sample_linker 5 "0xbb00" 2
      "\<lparr>symbol = 1, parent = None, child = None, replacement = 0xaa00, orig = 8\<rparr>"] by (simp add: hm_one_eq)
  moreover have "(\<lambda>s :: nat. if s = 1 then [2 :: nat] else [])(1 := remove1 2 [2]) = (\<lambda>s. [])" by (auto simp: fun_eq_iff)
  ultimately show ?thesis by (simp only:)
qed



theorem hooked_original_truncated_witness:
  "\<exists>m'. applyHooks sample_linker [1] hm_one = (Inr (), m') \<and> word_at m' 8 = 0x12345678 \<and> word_at hm_one 0x1020 = 0x7fff12345678"
  using hooked_original_truncated[OF hm_one_state, of 1
    "\<lparr>sym_lib = 0, symbolIndex = 5, original = 0, firstHook = Some 2, lastHook = Some 2\<rparr>" 2 "[]"
    "\<lparr>symbol = 1, parent = None, child = None, replacement = 0xaa00, orig = 8\<rparr>" sample_linker "[1]" "0x1020"]
  by (simp add: hm_one_slots) (auto simp: hm_one_eq hm_lib_eq hm_empty_def)

end
