(* ===== verification/Mod_Loader.thy ===== *)
theory Mod_Loader
  imports Prelude "HOL-Library.List_Lexorder" "HOL-Library.Char_ord" "HOL-Library.Multiset"
begin

text \<open>
  Loading mods: \<open>src/mcpelauncher-core/src/mod_loader.cpp\<close> without the reading of dependencies from an ELF
  file, whose result is an argument. A mod is a shared library in a directory; its dependencies are
  loaded before it. Mods are loaded twice: before the game is loaded (\<open>preinit\<close>), leaving out those
  that need the game, and after.

  What the loader does to the rest of the system is a list of events. The answers of the linker are
  arguments: the handle a path gets (0 for a failure) and whether a library has a function. The set of
  file names still to be loaded is kept as the library keeps it, in lexicographic order. \<open>deps\<close> gives the
  names a file needs. Recursion has fuel; one unit more than there are files is shown to be enough.
\<close>

section \<open>One mod\<close>

datatype mod_event = Open string | Opened u64 | Close_handle u64 | Attach string | Add_library u64 | Call_init u64 bool | Apply_hooks

record ModMetaData =
  preinit :: bool
  init :: bool

record mod_loader =
  mods :: "u64 \<Rightarrow> ModMetaData option"
  events :: "mod_event list"

record mod_linker =
  dlopen_ext :: "string \<Rightarrow> u64"
  has_function :: "u64 \<Rightarrow> string \<Rightarrow> bool"

definition emit :: "mod_event \<Rightarrow> mod_loader \<Rightarrow> mod_loader" where
  "emit e s = s\<lparr>events := events s @ [e]\<rparr>"

definition mod_meta :: "mod_loader \<Rightarrow> u64 \<Rightarrow> ModMetaData" where
  "mod_meta s h = (case mods s h of None \<Rightarrow> \<lparr>preinit = False, init = False\<rparr> | Some d \<Rightarrow> d)"

definition start_mod :: "mod_linker \<Rightarrow> string \<Rightarrow> bool \<Rightarrow> u64 \<Rightarrow> mod_loader \<Rightarrow> mod_loader" where
  "start_mod K path pre h s =
    (let s = (if pre \<or> \<not> preinit (mod_meta s h) then emit (Attach path) s else s);
         d = mod_meta s h;
         s = s\<lparr>mods := (mods s)(h \<mapsto> \<lparr>preinit = preinit d \<or> pre, init = init d \<or> \<not> pre\<rparr>)\<rparr>;
         s = emit (Add_library h) s
     in if has_function K h (if pre then ''mod_preinit'' else ''mod_init'') then emit (Call_init h pre) s else s)"

definition loadMod :: "mod_linker \<Rightarrow> string \<Rightarrow> bool \<Rightarrow> mod_loader \<Rightarrow> u64 \<times> mod_loader" where
  "loadMod K path pre s =
    (let h = dlopen_ext K path; s = emit (Open path) s in
     if h = 0 then (0, s)
     else let s = emit (Opened h) s in
       (case mods s h of
          None \<Rightarrow> (h, start_mod K path pre h s)
        | Some d \<Rightarrow> let s = emit (Close_handle h) s in
            if (if pre then preinit d else init d) then (h, s) else (h, start_mod K path pre h s)))"

section \<open>A directory\<close>

fun starts_with :: "string \<Rightarrow> string \<Rightarrow> bool" where
  "starts_with [] s = True"
| "starts_with (c # p) [] = False"
| "starts_with (c # p) (d # s) = (c = d \<and> starts_with p s)"

fun find_in :: "string \<Rightarrow> string \<Rightarrow> bool" where
  "find_in p [] = starts_with p []"
| "find_in p (c # s) = (starts_with p (c # s) \<or> find_in p s)"

definition needs_game :: "string list \<Rightarrow> bool" where
  "needs_game ds = list_ex (find_in ''libminecraftpe.so'') ds"

text \<open>
  The loop over the dependencies: one that is still to be loaded is taken out of the set and loaded by \<open>load\<close>; a
  failure ends the loop.
\<close>

fun load_deps :: "(string \<Rightarrow> string list \<Rightarrow> mod_loader \<Rightarrow> (bool \<times> string list \<times> mod_loader) option) \<Rightarrow>
    string list \<Rightarrow> string list \<Rightarrow> mod_loader \<Rightarrow> (bool \<times> string list \<times> mod_loader) option" where
  "load_deps load [] others s = Some (True, others, s)"
| "load_deps load (d # ds) others s =
    (if d \<in> set others
     then (case load d (remove1 d others) s of
             None \<Rightarrow> None
           | Some (ok, others, s) \<Rightarrow> if ok then load_deps load ds (remove1 d others) s else Some (False, others, s))
     else load_deps load ds others s)"

fun loadModMulti :: "nat \<Rightarrow> mod_linker \<Rightarrow> (string \<Rightarrow> string list) \<Rightarrow> string \<Rightarrow> bool \<Rightarrow> string \<Rightarrow> string list \<Rightarrow> mod_loader \<Rightarrow>
    (bool \<times> string list \<times> mod_loader) option" where
  "loadModMulti 0 K deps path pre file others s = None"
| "loadModMulti (Suc n) K deps path pre file others s =
    (if pre \<and> needs_game (deps file) then Some (False, others, s)
     else (case load_deps (loadModMulti n K deps path pre) (deps file) others s of
             None \<Rightarrow> None
           | Some (ok, others, s) \<Rightarrow>
               if ok then Some (True, others, snd (loadMod K (path @ file) pre s)) else Some (False, others, s)))"

definition mod_file :: "string \<Rightarrow> bool" where
  "mod_file name \<longleftrightarrow> \<not> starts_with ''.'' name \<and> 4 \<le> length name \<and> drop (length name - 3) name = ''.so''"

definition mods_to_load :: "string list \<Rightarrow> string list" where
  "mods_to_load names = sort (remdups (filter mod_file names))"

fun load_all :: "nat \<Rightarrow> mod_linker \<Rightarrow> (string \<Rightarrow> string list) \<Rightarrow> string \<Rightarrow> bool \<Rightarrow> string list \<Rightarrow> mod_loader \<Rightarrow> mod_loader option" where
  "load_all 0 K deps path pre todo s = None"
| "load_all (Suc n) K deps path pre todo s =
    (case todo of [] \<Rightarrow> Some s
     | file # todo \<Rightarrow> (case loadModMulti (Suc (length todo)) K deps path pre file todo s of
         None \<Rightarrow> None | Some (ok, todo, s) \<Rightarrow> load_all n K deps path pre todo s))"

definition loadModsFromDirectory :: "mod_linker \<Rightarrow> (string \<Rightarrow> string list) \<Rightarrow> string \<Rightarrow> bool \<Rightarrow> string list option \<Rightarrow> mod_loader \<Rightarrow>
    mod_loader option" where
  "loadModsFromDirectory K deps path pre dir s =
    (case dir of None \<Rightarrow> Some s
     | Some names \<Rightarrow> map_option (emit Apply_hooks)
         (load_all (Suc (length (mods_to_load names))) K deps path pre (mods_to_load names) s))"

section \<open>Each function of a mod is called once\<close>

definition balance :: "u64 \<Rightarrow> mod_event list \<Rightarrow> int" where
  "balance h es = int (count (mset es) (Opened h)) - int (count (mset es) (Close_handle h))"

text \<open>
  The invariant of the records: what is recorded was called at most once, what is not recorded was
  not called; a known library is open once, an unknown one not at all.
\<close>

definition mods_ok :: "mod_loader \<Rightarrow> bool" where
  "mods_ok s \<longleftrightarrow> (\<forall>h.
     count (mset (events s)) (Call_init h True) \<le> (if preinit (mod_meta s h) then 1 else 0) \<and>
     count (mset (events s)) (Call_init h False) \<le> (if init (mod_meta s h) then 1 else 0) \<and>
     balance h (events s) = (if mods s h = None then 0 else 1) \<and>
     (mods s h \<noteq> None \<longrightarrow> h \<noteq> 0))"

lemma emit_simps [simp]: "mods (emit e s) = mods s" "events (emit e s) = events s @ [e]" "mod_meta (emit e s) = mod_meta s"
  by (simp_all add: emit_def mod_meta_def fun_eq_iff)

lemma balance_simps [simp]:
  "balance h [] = 0" "balance h (es @ fs) = balance h es + balance h fs"
  "balance h (e # es) = (if e = Opened h then 1 else 0) - (if e = Close_handle h then 1 else 0) + balance h es"
  by (simp_all add: balance_def)

abbreviation init_calls :: "u64 \<Rightarrow> bool \<Rightarrow> mod_loader \<Rightarrow> nat" where
  "init_calls h b s \<equiv> count (mset (events s)) (Call_init h b)"

lemma mod_meta_upd [simp]: "mod_meta (s\<lparr>mods := (mods s)(g \<mapsto> d)\<rparr>) h = (if h = g then d else mod_meta s h)"
  by (simp add: mod_meta_def)

lemma start_mod_effect:
  "init_calls h b (start_mod K path pre g s) \<le> init_calls h b s + (if h = g \<and> b = pre then 1 else 0)"
  "balance h (events (start_mod K path pre g s)) = balance h (events s)"
  "mods (start_mod K path pre g s) = (mods s)(g \<mapsto> \<lparr>preinit = preinit (mod_meta s g) \<or> pre, init = init (mod_meta s g) \<or> \<not> pre\<rparr>)"
  by (auto simp: start_mod_def Let_def)

lemma start_mod_meta:
  "mod_meta (start_mod K path pre g s) h =
    (if h = g then \<lparr>preinit = preinit (mod_meta s g) \<or> pre, init = init (mod_meta s g) \<or> \<not> pre\<rparr> else mod_meta s h)"
  by (simp add: mod_meta_def start_mod_effect)

lemma mods_okI:
  assumes "\<And>h. init_calls h True s \<le> (if preinit (mod_meta s h) then 1 else 0)"
    "\<And>h. init_calls h False s \<le> (if init (mod_meta s h) then 1 else 0)"
    "\<And>h. balance h (events s) = (if mods s h = None then 0 else 1)" "\<And>h. mods s h \<noteq> None \<Longrightarrow> h \<noteq> 0"
  shows "mods_ok s"
  using assms by (simp add: mods_ok_def)

lemma mods_okD:
  assumes "mods_ok s"
  shows "init_calls h True s \<le> (if preinit (mod_meta s h) then 1 else 0)"
    "init_calls h False s \<le> (if init (mod_meta s h) then 1 else 0)"
    "balance h (events s) = (if mods s h = None then 0 else 1)" "mods s h \<noteq> None \<Longrightarrow> h \<noteq> 0"
  using assms unfolding mods_ok_def by blast+

text \<open>
  Starting a mod whose function was not called yet, once its library has been opened_files or, when it was
  known, opened_files and closed again.
\<close>

lemma start_mod_ok:
  assumes ok: "mods_ok s" and g: "g \<noteq> 0" and new: "\<not> (if pre then preinit (mod_meta s g) else init (mod_meta s g))"
    and t: "mods t = mods s" "\<And>h b. init_calls h b t = init_calls h b s"
      "\<And>h. balance h (events t) = balance h (events s) + (if h = g \<and> mods s g = None then 1 else 0)"
  shows "mods_ok (start_mod K path pre g t)"
proof -
  have meta: "mod_meta t = mod_meta s" by (simp add: mod_meta_def t(1) fun_eq_iff)
  have zero: "init_calls g pre s = 0"
    using mods_okD(1,2)[OF ok, of g] new by (cases pre) simp_all
  have one: "init_calls g pre (start_mod K path pre g t) \<le> 1"
    using start_mod_effect(1)[where h = g and b = pre and K = K and path = path and pre = pre and g = g and s = t]
    unfolding t(2) zero by simp
  show ?thesis
  proof (rule mods_okI)
    fix h
    show "init_calls h True (start_mod K path pre g t) \<le> (if preinit (mod_meta (start_mod K path pre g t) h) then 1 else 0)"
      using start_mod_effect(1)[where h = h and b = True and K = K and path = path and pre = pre and g = g and s = t] mods_okD(1)[OF ok, of h] one
      by (cases "h = g"; cases pre) (auto simp: start_mod_meta meta t(2) split: if_splits)
    show "init_calls h False (start_mod K path pre g t) \<le> (if init (mod_meta (start_mod K path pre g t) h) then 1 else 0)"
      using start_mod_effect(1)[where h = h and b = False and K = K and path = path and pre = pre and g = g and s = t] mods_okD(2)[OF ok, of h] one
      by (cases "h = g"; cases pre) (auto simp: start_mod_meta meta t(2) split: if_splits)
    show "balance h (events (start_mod K path pre g t)) = (if mods (start_mod K path pre g t) h = None then 0 else 1)"
      using mods_okD(3)[OF ok, of h] by (simp add: start_mod_effect t)
    show "mods (start_mod K path pre g t) h \<noteq> None \<Longrightarrow> h \<noteq> 0"
      using mods_okD(4)[OF ok, of h] g by (cases "h = g") (simp_all add: start_mod_effect t)
  qed
qed

lemma loadMod_ok:
  assumes ok: "mods_ok s"
  shows "mods_ok (snd (loadMod K path pre s))"
proof (cases "dlopen_ext K path = 0")
  case True
  with ok show ?thesis by (simp add: loadMod_def Let_def mods_ok_def)
next
  case False
  let ?g = "dlopen_ext K path"
  let ?o = "emit (Opened ?g) (emit (Open path) s)"
  show ?thesis
  proof (cases "mods s ?g")
    case None
    then have "snd (loadMod K path pre s) = start_mod K path pre ?g ?o"
      using False by (simp add: loadMod_def Let_def)
    moreover have "mods_ok (start_mod K path pre ?g ?o)"
      using ok False None by (intro start_mod_ok[of s]) (auto simp: mod_meta_def)
    ultimately show ?thesis by simp
  next
    case (Some d)
    let ?c = "emit (Close_handle ?g) ?o"
    have "snd (loadMod K path pre s) = (if (if pre then preinit d else init d) then ?c else start_mod K path pre ?g ?c)"
      using False Some by (simp add: loadMod_def Let_def)
    moreover have "mods_ok ?c" using ok by (simp add: mods_ok_def)
    moreover have "mods_ok (start_mod K path pre ?g ?c)" if "\<not> (if pre then preinit d else init d)"
      using ok False Some that by (intro start_mod_ok[of s]) (auto simp: mod_meta_def)
    ultimately show ?thesis by simp
  qed
qed

section \<open>Dependencies first\<close>

text \<open>The paths opened, in order.\<close>

definition opened_files :: "mod_loader \<Rightarrow> string list" where
  "opened_files s = List.map_filter (\<lambda>e. case e of Open p \<Rightarrow> Some p | _ \<Rightarrow> None) (events s)"

lemma opened_emit [simp]: "opened_files (emit e s) = opened_files s @ (case e of Open p \<Rightarrow> [p] | _ \<Rightarrow> [])"
  by (cases e) (simp_all add: opened_files_def List.map_filter_def)

lemma opened_mods [simp]: "opened_files (s\<lparr>mods := m\<rparr>) = opened_files s"
  by (simp add: opened_files_def)

lemma opened_start_mod [simp]: "opened_files (start_mod K path pre g s) = opened_files s"
  by (simp add: start_mod_def Let_def)

lemma opened_loadMod [simp]: "opened_files (snd (loadMod K path pre s)) = opened_files s @ [path]"
  by (simp add: loadMod_def Let_def split: option.split)

text \<open>Every mod in the list comes after those of its dependencies that are in \<open>M\<close>.\<close>

definition deps_first :: "(string \<Rightarrow> string list) \<Rightarrow> string set \<Rightarrow> string list \<Rightarrow> bool" where
  "deps_first deps M xs \<longleftrightarrow> (\<forall>ys f zs. xs = ys @ f # zs \<longrightarrow> set (deps f) \<inter> M \<subseteq> set ys)"

lemma deps_first_Nil [simp]: "deps_first deps M []"
  by (simp add: deps_first_def)

lemma deps_first_snoc: "deps_first deps M (xs @ [f]) \<longleftrightarrow> deps_first deps M xs \<and> set (deps f) \<inter> M \<subseteq> set xs"
proof
  assume a: "deps_first deps M (xs @ [f])"
  have "deps_first deps M xs"
    unfolding deps_first_def
  proof (intro allI impI)
    fix ys g zs assume "xs = ys @ g # zs"
    then have "xs @ [f] = ys @ g # (zs @ [f])" by simp
    with a show "set (deps g) \<inter> M \<subseteq> set ys" unfolding deps_first_def by blast
  qed
  with a show "deps_first deps M xs \<and> set (deps f) \<inter> M \<subseteq> set xs" unfolding deps_first_def by blast
next
  assume a: "deps_first deps M xs \<and> set (deps f) \<inter> M \<subseteq> set xs"
  show "deps_first deps M (xs @ [f])"
    unfolding deps_first_def
  proof (intro allI impI)
    fix ys g zs assume e: "xs @ [f] = ys @ g # zs"
    show "set (deps g) \<inter> M \<subseteq> set ys"
    proof (cases zs rule: rev_cases)
      case Nil
      with e a show ?thesis by auto
    next
      case (snoc ws w)
      with e have "xs = ys @ g # ws" by simp
      with a show ?thesis unfolding deps_first_def by blast
    qed
  qed
qed

text \<open>
  What loading comes to: from the files \<open>avail\<close>, some (\<open>new\<close>) are opened_files, some (\<open>others\<close>) are left and some may be lost. Without \<open>preinit\<close>
  it succeeds and no file is lost, and the order respects the dependencies among the mods \<open>M\<close>.
\<close>

definition load_result :: "bool \<Rightarrow> string \<Rightarrow> (string \<Rightarrow> string list) \<Rightarrow> string set \<Rightarrow> bool \<Rightarrow> string list \<Rightarrow> string list \<Rightarrow> mod_loader \<Rightarrow>
    (bool \<times> string list \<times> mod_loader) option \<Rightarrow> string list \<Rightarrow> bool" where
  "load_result pre path deps M acyc before avail s r new \<longleftrightarrow>
     (\<exists>ok others s' lost. r = Some (ok, others, s') \<and> opened_files s' = opened_files s @ map ((@) path) new \<and>
        mset avail = mset (new @ others @ lost) \<and>
        (if pre then list_all (\<lambda>f. \<not> needs_game (deps f)) new
         else ok \<and> lost = [] \<and> (acyc \<longrightarrow> deps_first deps M before \<longrightarrow> deps_first deps M (before @ new))))"

text \<open>The mods that are neither loaded nor to be loaded are being loaded, and have at least this rank.\<close>

definition rest_above :: "string set \<Rightarrow> (string \<Rightarrow> nat) \<Rightarrow> nat \<Rightarrow> string list \<Rightarrow> string list \<Rightarrow> bool" where
  "rest_above M rank r others before \<longleftrightarrow> (\<forall>d\<in>M. d \<in> set others \<or> d \<in> set before \<or> r \<le> rank d)"

definition ranked :: "(string \<Rightarrow> string list) \<Rightarrow> string set \<Rightarrow> (string \<Rightarrow> nat) \<Rightarrow> bool" where
  "ranked deps M rank \<longleftrightarrow> (\<forall>f\<in>M. \<forall>d\<in>set (deps f) \<inter> M. rank d < rank f)"

lemma load_deps_result:
  assumes load: "\<And>d o' s' b'. distinct (d # o') \<Longrightarrow> length o' < n \<Longrightarrow> set (d # o') \<subseteq> M \<Longrightarrow>
        (\<not> pre \<Longrightarrow> ranked deps M rank \<Longrightarrow> rest_above M rank (rank d) o' b') \<Longrightarrow>
        \<exists>new. load_result pre path deps M (ranked deps M rank) b' (d # o') s' (load d o' s') new \<and> (\<not> pre \<longrightarrow> d \<in> set new)"
    and f: "f \<in> M" and ds: "set ds \<subseteq> set (deps f)"
    and o: "distinct others" "length others \<le> n" "set others \<subseteq> M" "\<not> pre \<Longrightarrow> ranked deps M rank \<Longrightarrow> rest_above M rank (rank f) others before"
  shows "\<exists>new. load_result pre path deps M (ranked deps M rank) before others s (load_deps load ds others s) new \<and>
    (\<not> pre \<and> ranked deps M rank \<longrightarrow> set ds \<inter> M \<subseteq> set (before @ new))"
  using ds o
proof (induction ds arbitrary: others s before)
  case Nil
  then show ?case by (intro exI[of _ "[]"]) (auto simp: load_result_def)
next
  case (Cons d ds)
  have rd: "rank d < rank f" if "ranked deps M rank" "d \<in> M"
    using f that Cons.prems(1) by (auto simp: ranked_def)
  have ds: "set ds \<subseteq> set (deps f)" using Cons.prems(1) by simp
  show ?case
  proof (cases "d \<in> set others")
    case False
    obtain new where new: "load_result pre path deps M (ranked deps M rank) before others s (load_deps load ds others s) new"
      "\<not> pre \<and> ranked deps M rank \<longrightarrow> set ds \<inter> M \<subseteq> set (before @ new)"
      using Cons.IH[OF ds Cons.prems(2-5), of s] by blast
    have "\<not> pre \<Longrightarrow> ranked deps M rank \<Longrightarrow> d \<in> M \<Longrightarrow> d \<in> set before" using Cons.prems(5) rd False by (auto simp: rest_above_def)
    with new False show ?thesis by (intro exI[of _ new]) auto
  next
    case True
    then have dM: "d \<in> M" using Cons.prems(4) by auto
    let ?o = "remove1 d others"
    have os: "mset (d # ?o) = mset others" using True by simp
    have dist: "distinct (d # ?o)" using Cons.prems(2) by simp
    have len: "length ?o < n" using length_pos_if_in_set[OF True] True Cons.prems(3) by (auto simp: length_remove1 neq_Nil_conv)
    have sub: "set (d # ?o) \<subseteq> M" using Cons.prems(4) dM set_remove1_subset by fastforce
    have above: "rest_above M rank (rank d) ?o before" if "\<not> pre" "ranked deps M rank"
      unfolding rest_above_def
    proof
      fix e assume "e \<in> M"
      with Cons.prems(5)[OF that] have "e \<in> set others \<or> e \<in> set before \<or> rank f \<le> rank e" by (simp add: rest_above_def)
      with rd[OF that(2) dM] show "e \<in> set ?o \<or> e \<in> set before \<or> rank d \<le> rank e"
        by (cases "e = d") (auto simp: in_set_remove1)
    qed
    from load[OF dist len sub above, of s] obtain new1 ok o1 s1 lost where r: "load d ?o s = Some (ok, o1, s1)"
      "opened_files s1 = opened_files s @ map ((@) path) new1" "mset others = mset (new1 @ o1 @ lost)"
      "if pre then list_all (\<lambda>f. \<not> needs_game (deps f)) new1
       else ok \<and> lost = [] \<and> (ranked deps M rank \<longrightarrow> deps_first deps M before \<longrightarrow> deps_first deps M (before @ new1))"
      "\<not> pre \<longrightarrow> d \<in> set new1"
      unfolding load_result_def os by blast
    have d1: "distinct (new1 @ o1 @ lost)" using Cons.prems(2) r(3) mset_eq_imp_distinct_iff by blast
    have s1: "set others = set (new1 @ o1 @ lost)" using r(3) by (rule mset_eq_setD)
    have l1: "length others = length (new1 @ o1 @ lost)" using r(3) by (rule mset_eq_length)
    show ?thesis
    proof (cases ok)
      case no: False
      with r True show ?thesis by (intro exI[of _ new1]) (auto simp: load_result_def split: if_splits)
    next
      case yes: True
      let ?o1 = "remove1 d o1"
      have same: "?o1 = o1" if "\<not> pre" using r(5) that d1 by (auto intro!: remove1_idem)
      have "distinct ?o1" "length ?o1 \<le> n" "set ?o1 \<subseteq> M"
        using d1 l1 s1 Cons.prems(3,4) set_remove1_subset[of d o1] by (auto simp: length_remove1)
      moreover have "rest_above M rank (rank f) ?o1 (before @ new1)" if "\<not> pre" "ranked deps M rank"
        using Cons.prems(5)[OF that] same[OF that(1)] s1 r(4) that by (auto simp: rest_above_def)
      ultimately obtain new2 where new2: "load_result pre path deps M (ranked deps M rank) (before @ new1) ?o1 s1 (load_deps load ds ?o1 s1) new2"
        "\<not> pre \<and> ranked deps M rank \<longrightarrow> set ds \<inter> M \<subseteq> set ((before @ new1) @ new2)"
        using Cons.IH[OF ds, of ?o1 "before @ new1" s1] by blast
      from new2(1) obtain ok2 o2 s2 lost2 where n: "load_deps load ds ?o1 s1 = Some (ok2, o2, s2)"
        "opened_files s2 = opened_files s1 @ map ((@) path) new2" "mset ?o1 = mset (new2 @ o2 @ lost2)"
        "if pre then list_all (\<lambda>f. \<not> needs_game (deps f)) new2
         else ok2 \<and> lost2 = [] \<and> (ranked deps M rank \<longrightarrow> deps_first deps M (before @ new1) \<longrightarrow> deps_first deps M ((before @ new1) @ new2))"
        unfolding load_result_def by blast
      let ?l = "lost2 @ (if d \<in> set o1 then [d] else []) @ lost"
      have "mset o1 = mset ?o1 + mset (if d \<in> set o1 then [d] else [])"
        by (simp add: remove1_idem)
      then have "mset others = mset ((new1 @ new2) @ o2 @ ?l)" using r(3) n(3) by simp
      moreover have "?l = []" if "\<not> pre" using that r(4,5) n(4) d1 by auto
      moreover have "load_deps load (d # ds) others s = Some (ok2, o2, s2)" using True yes r(1) n(1) by simp
      ultimately have "load_result pre path deps M (ranked deps M rank) before others s (load_deps load (d # ds) others s) (new1 @ new2)"
        unfolding load_result_def using r(2,4) n(2,4)
        by (intro exI[of _ ok2] exI[of _ o2] exI[of _ s2] exI[of _ ?l]) (cases pre; simp)
      with new2(2) r(5) show ?thesis by (intro exI[of _ "new1 @ new2"]) auto
    qed
  qed
qed

lemma loadModMulti_result:
  assumes "distinct (g # others)" "length others < n" "set (g # others) \<subseteq> M"
    "\<not> pre \<Longrightarrow> ranked deps M rank \<Longrightarrow> rest_above M rank (rank g) others before"
  shows "\<exists>new. load_result pre path deps M (ranked deps M rank) before (g # others) s (loadModMulti n K deps path pre g others s) new \<and>
    (\<not> pre \<longrightarrow> g \<in> set new)"
  using assms
proof (induction n arbitrary: g others s before)
  case (Suc n)
  show ?case
  proof (cases "pre \<and> needs_game (deps g)")
    case True
    then show ?thesis
      by (intro exI[of _ "[]"]) (auto simp: load_result_def intro!: exI[of _ "[g]"])
  next
    case False
    have "\<exists>new. load_result pre path deps M (ranked deps M rank) before others s
        (load_deps (loadModMulti n K deps path pre) (deps g) others s) new \<and>
      (\<not> pre \<and> ranked deps M rank \<longrightarrow> set (deps g) \<inter> M \<subseteq> set (before @ new))"
      using Suc.prems by (intro load_deps_result[where n = n and f = g] Suc.IH) auto
    then obtain new ok o1 s1 lost where r: "load_deps (loadModMulti n K deps path pre) (deps g) others s = Some (ok, o1, s1)"
      "opened_files s1 = opened_files s @ map ((@) path) new" "mset others = mset (new @ o1 @ lost)"
      "if pre then list_all (\<lambda>f. \<not> needs_game (deps f)) new
       else ok \<and> lost = [] \<and> (ranked deps M rank \<longrightarrow> deps_first deps M before \<longrightarrow> deps_first deps M (before @ new))"
      "\<not> pre \<and> ranked deps M rank \<longrightarrow> set (deps g) \<inter> M \<subseteq> set (before @ new)"
      unfolding load_result_def by blast
    show ?thesis
    proof (cases ok)
      case no: False
      with r False have "load_result pre path deps M (ranked deps M rank) before (g # others) s (loadModMulti (Suc n) K deps path pre g others s) new"
        by (auto simp: load_result_def split: if_splits intro!: exI[of _ "g # lost"])
      with no r show ?thesis by (intro exI[of _ new]) (auto split: if_splits)
    next
      case yes: True
      have "deps_first deps M before \<longrightarrow> deps_first deps M (before @ new @ [g])" if "\<not> pre" "ranked deps M rank"
        using r(4,5) that deps_first_snoc[of deps M "before @ new" g] by auto
      with r False yes have "load_result pre path deps M (ranked deps M rank) before (g # others) s (loadModMulti (Suc n) K deps path pre g others s) (new @ [g])"
        by (auto simp: load_result_def split: if_splits)
      then show ?thesis by (intro exI[of _ "new @ [g]"]) simp
    qed
  qed
qed simp

lemma load_deps_subset:
  assumes "\<And>d o' s' ok o'' s''. load d o' s' = Some (ok, o'', s'') \<Longrightarrow> set o'' \<subseteq> set o'"
  shows "load_deps load ds others s = Some (ok, others', s') \<Longrightarrow> set others' \<subseteq> set others"
proof (induction ds arbitrary: others s)
  case (Cons d ds)
  show ?case
  proof (cases "d \<in> set others")
    case True
    with Cons.prems obtain b o1 s1 where l: "load d (remove1 d others) s = Some (b, o1, s1)"
      and r: "(if b then load_deps load ds (remove1 d o1) s1 else Some (False, o1, s1)) = Some (ok, others', s')"
      by (auto split: option.splits)
    have "set o1 \<subseteq> set others" using assms[OF l] set_remove1_subset[of d others] by blast
    moreover have "set others' \<subseteq> set o1"
      using r Cons.IH[of "remove1 d o1" s1] set_remove1_subset[of d o1] by (auto split: if_splits)
    ultimately show ?thesis by blast
  qed (use Cons in auto)
qed simp

lemma loadModMulti_subset:
  "loadModMulti n K deps path pre g others s = Some (ok, others', s') \<Longrightarrow> set others' \<subseteq> set others"
proof (induction n arbitrary: g others s ok others' s')
  case (Suc n)
  show ?case
  proof (cases "pre \<and> needs_game (deps g)")
    case False
    with Suc.prems obtain b s1 where "load_deps (loadModMulti n K deps path pre) (deps g) others s = Some (b, others', s1)"
      by (auto split: option.splits if_splits)
    then show ?thesis by (rule load_deps_subset[rotated]) (rule Suc.IH)
  qed (use Suc.prems in auto)
qed simp

lemma load_all_result:
  assumes "distinct todo" "length todo < n" "set todo \<subseteq> M" "\<not> pre \<Longrightarrow> ranked deps M rank \<Longrightarrow> M \<subseteq> set todo \<union> set before"
  shows "\<exists>s' new. load_all n K deps path pre todo s = Some s' \<and> opened_files s' = opened_files s @ map ((@) path) new \<and>
    distinct new \<and> set new \<subseteq> set todo \<and>
    (if pre then list_all (\<lambda>f. \<not> needs_game (deps f)) new
     else set new = set todo \<and> (ranked deps M rank \<longrightarrow> deps_first deps M before \<longrightarrow> deps_first deps M (before @ new)))"
  using assms
proof (induction n arbitrary: todo s before)
  case (Suc n)
  show ?case
  proof (cases todo)
    case Nil
    then show ?thesis by (intro exI[of _ s] exI[of _ "[]"]) simp
  next
    case (Cons g others)
    have "\<exists>new. load_result pre path deps M (ranked deps M rank) before (g # others) s
        (loadModMulti (Suc (length others)) K deps path pre g others s) new \<and> (\<not> pre \<longrightarrow> g \<in> set new)"
      using Suc.prems Cons by (intro loadModMulti_result) (auto simp: rest_above_def)
    then obtain new1 ok o1 s1 lost where r: "loadModMulti (Suc (length others)) K deps path pre g others s = Some (ok, o1, s1)"
      "opened_files s1 = opened_files s @ map ((@) path) new1" "mset (g # others) = mset (new1 @ o1 @ lost)"
      "if pre then list_all (\<lambda>f. \<not> needs_game (deps f)) new1
       else ok \<and> lost = [] \<and> (ranked deps M rank \<longrightarrow> deps_first deps M before \<longrightarrow> deps_first deps M (before @ new1))"
      "\<not> pre \<longrightarrow> g \<in> set new1"
      unfolding load_result_def by blast
    have d1: "distinct (new1 @ o1 @ lost)" using Suc.prems(1) Cons r(3) mset_eq_imp_distinct_iff by blast
    have s1: "set (g # others) = set (new1 @ o1 @ lost)" using r(3) by (rule mset_eq_setD)
    have "distinct o1" using d1 by simp
    moreover have "set o1 \<subseteq> set others" using r(1) by (rule loadModMulti_subset)
    ultimately have "length o1 \<le> length others"
      using Suc.prems(1) Cons card_mono[of "set others" "set o1"] by (simp add: distinct_card)
    then have "length o1 < n" using Suc.prems(2) Cons by simp
    have d2: "distinct o1" using d1 by simp
    have m2: "set o1 \<subseteq> M" using s1 Suc.prems(3) Cons by auto
    have b2: "M \<subseteq> set o1 \<union> set (before @ new1)" if "\<not> pre" "ranked deps M rank"
      using Suc.prems(4)[OF that] s1 Cons r(4) that by auto
    from \<open>length o1 < n\<close> obtain s2 new2 where n: "load_all n K deps path pre o1 s1 = Some s2" "opened_files s2 = opened_files s1 @ map ((@) path) new2"
      "distinct new2" "set new2 \<subseteq> set o1"
      "if pre then list_all (\<lambda>f. \<not> needs_game (deps f)) new2
       else set new2 = set o1 \<and> (ranked deps M rank \<longrightarrow> deps_first deps M (before @ new1) \<longrightarrow> deps_first deps M ((before @ new1) @ new2))"
      using Suc.IH[OF d2 _ m2 b2, of s1] by blast
    show ?thesis
      using r n d1 s1 Cons by (intro exI[of _ s2] exI[of _ "new1 @ new2"]) (auto split: if_splits)
  qed
qed simp

text \<open>
  C40: after the game is loaded, the loading of a directory returns, and opens every mod of it exactly once.
  If the mods do not depend on each other in a cycle (some ranking descends along the dependencies), every mod is
  opened after all mods of the directory it depends on.
\<close>

theorem mods_loaded_in_order:
  "\<exists>s' order. loadModsFromDirectory K deps path False (Some names) s = Some s' \<and>
    opened_files s' = opened_files s @ map ((@) path) order \<and> distinct order \<and> set order = {f \<in> set names. mod_file f} \<and>
    (ranked deps (set order) rank \<longrightarrow> deps_first deps (set order) order)"
proof -
  let ?t = "mods_to_load names"
  have t: "distinct ?t" "set ?t = {f \<in> set names. mod_file f}" by (auto simp: mods_to_load_def)
  obtain s' new where r: "load_all (Suc (length ?t)) K deps path False ?t s = Some s'"
    "opened_files s' = opened_files s @ map ((@) path) new" "distinct new" "set new = set ?t"
    "ranked deps (set ?t) rank \<longrightarrow> deps_first deps (set ?t) new"
    using load_all_result[of ?t "Suc (length ?t)" "set ?t" False deps rank "[]" K path s] t(1) by auto
  then show ?thesis
    by (intro exI[of _ "emit Apply_hooks s'"] exI[of _ new]) (simp add: loadModsFromDirectory_def t(2))
qed

text \<open>Before the game is loaded, no mod that itself needs the game is opened.\<close>

lemma preinit_without_game:
  "\<exists>s' order. loadModsFromDirectory K deps path True (Some names) s = Some s' \<and>
    opened_files s' = opened_files s @ map ((@) path) order \<and> distinct order \<and> set order \<subseteq> {f \<in> set names. mod_file f} \<and>
    list_all (\<lambda>f. \<not> needs_game (deps f)) order"
proof -
  let ?t = "mods_to_load names"
  have t: "distinct ?t" "set ?t = {f \<in> set names. mod_file f}" by (auto simp: mods_to_load_def)
  obtain s' new where r: "load_all (Suc (length ?t)) K deps path True ?t s = Some s'"
    "opened_files s' = opened_files s @ map ((@) path) new" "distinct new" "set new \<subseteq> set ?t" "list_all (\<lambda>f. \<not> needs_game (deps f)) new"
    using load_all_result[of ?t "Suc (length ?t)" "set ?t" True deps "\<lambda>_. 0" "[]" K path s] t(1) by auto
  then show ?thesis
    by (intro exI[of _ "emit Apply_hooks s'"] exI[of _ new]) (simp add: loadModsFromDirectory_def flip: t(2))
qed

section \<open>Loading again and again\<close>

lemma load_deps_ok:
  assumes "\<And>d o' s' ok o'' s''. load d o' s' = Some (ok, o'', s'') \<Longrightarrow> mods_ok s' \<Longrightarrow> mods_ok s''"
  shows "load_deps load ds others s = Some (ok, others', s') \<Longrightarrow> mods_ok s \<Longrightarrow> mods_ok s'"
  by (induction ds arbitrary: others s) (auto split: option.splits if_splits dest: assms)

lemma loadModMulti_ok:
  "loadModMulti n K deps path pre g others s = Some (ok, others', s') \<Longrightarrow> mods_ok s \<Longrightarrow> mods_ok s'"
proof (induction n arbitrary: g others s ok others' s')
  case (Suc n)
  show ?case
  proof (cases "pre \<and> needs_game (deps g)")
    case False
    with Suc.prems obtain b s1 where r: "load_deps (loadModMulti n K deps path pre) (deps g) others s = Some (b, others', s1)"
      "s' = (if b then snd (loadMod K (path @ g) pre s1) else s1)"
      by (auto split: option.splits if_splits)
    have "mods_ok s1" using r(1) Suc.prems(2) by (rule load_deps_ok[rotated]) (rule Suc.IH)
    then show ?thesis using r(2) by (simp add: loadMod_ok)
  qed (use Suc.prems in auto)
qed simp

lemma load_all_ok: "load_all n K deps path pre todo s = Some s' \<Longrightarrow> mods_ok s \<Longrightarrow> mods_ok s'"
  by (induction n arbitrary: todo s) (auto simp del: loadModMulti.simps split: list.splits option.splits dest: loadModMulti_ok)

definition no_mods :: mod_loader where
  "no_mods = \<lparr>mods = Map.empty, events = []\<rparr>"

text \<open>A sequence of directory loads: the path, whether it is before the game, and the names found there, if any.\<close>

fun load_runs :: "mod_linker \<Rightarrow> (string \<Rightarrow> string list) \<Rightarrow> (string \<times> bool \<times> string list option) list \<Rightarrow> mod_loader \<Rightarrow> mod_loader option" where
  "load_runs K deps [] s = Some s"
| "load_runs K deps ((path, pre, dir) # rs) s =
    (case loadModsFromDirectory K deps path pre dir s of None \<Rightarrow> None | Some s \<Rightarrow> load_runs K deps rs s)"

lemma directory_ok:
  assumes "mods_ok s"
  shows "\<exists>s'. loadModsFromDirectory K deps path pre dir s = Some s' \<and> mods_ok s'"
proof (cases dir)
  case (Some names)
  let ?t = "mods_to_load names"
  have "distinct ?t" by (simp add: mods_to_load_def)
  then obtain s' where r: "load_all (Suc (length ?t)) K deps path pre ?t s = Some s'"
    using load_all_result[of ?t "Suc (length ?t)" "set ?t" pre deps "\<lambda>_. 0" "[]" K path s] by auto
  have "mods_ok s'" using load_all_ok[OF r assms] .
  with r Some show ?thesis by (simp add: loadModsFromDirectory_def mods_ok_def)
qed (use assms in \<open>simp add: loadModsFromDirectory_def\<close>)

text \<open>
  However often directories are loaded, before and after the game and in any order, every run returns; the two
  functions of a mod are each called at most once, and a library that was loaded successfully stays
  open exactly once: every further opening of it is closed again.
\<close>

theorem mod_functions_once:
  "\<exists>s. load_runs K deps rs no_mods = Some s \<and>
    (\<forall>h. init_calls h True s \<le> 1 \<and> init_calls h False s \<le> 1 \<and> balance h (events s) = (if mods s h = None then 0 else 1))"
proof -
  have "\<exists>s'. load_runs K deps rs s = Some s' \<and> mods_ok s'" if "mods_ok s" for s
    using that
  proof (induction rs arbitrary: s)
    case (Cons r rs)
    obtain path pre dir where r: "r = (path, pre, dir)" by (cases r)
    from directory_ok[OF Cons.prems, of K deps path pre dir] Cons.IH r show ?case by fastforce
  qed simp
  moreover have "mods_ok no_mods" by (simp add: mods_ok_def no_mods_def mod_meta_def)
  ultimately obtain s where s: "load_runs K deps rs no_mods = Some s" "mods_ok s" by blast
  have "init_calls h True s \<le> 1 \<and> init_calls h False s \<le> 1 \<and> balance h (events s) = (if mods s h = None then 0 else 1)" for h
  proof (intro conjI)
    show "init_calls h True s \<le> 1" using mods_okD(1)[OF s(2), of h] by (rule order_trans) simp
    show "init_calls h False s \<le> 1" using mods_okD(2)[OF s(2), of h] by (rule order_trans) simp
  qed (rule mods_okD(3)[OF s(2)])
  with s(1) show ?thesis by blast
qed

section \<open>Examples\<close>

definition sample_mods :: mod_linker where
  "sample_mods = \<lparr>dlopen_ext = (\<lambda>p. of_nat (length p)), has_function = (\<lambda>_ _. True)\<rparr>"

definition sample_deps :: "string \<Rightarrow> string list" where
  "sample_deps f = (if f = ''liba.so'' then [''libb.so'', ''libc.so''] else [])"

lemma two_in_order:
  assumes "distinct order" "set order = {f \<in> set [a, b]. mod_file f}" "a \<noteq> b" "mod_file a" "mod_file b" "b \<in> set (deps a)"
    "deps_first deps (set order) order"
  shows "order = [b, a]"
proof -
  have s: "set order = {a, b}" using assms(2-5) by auto
  have "length order = 2" using distinct_card[OF assms(1)] s assms(3) by simp
  then obtain x y where o: "order = [x, y]" by (auto simp: numeral_2_eq_2 length_Suc_conv)
  have "x \<noteq> a"
  proof
    assume "x = a"
    then have "order = [] @ a # [y]" using o by simp
    with assms(7) have "set (deps a) \<inter> set order \<subseteq> {}" unfolding deps_first_def by fastforce
    with assms(6) s show False by auto
  qed
  with s o assms(1) show ?thesis by (auto simp: doubleton_eq_iff)
qed

theorem mods_loaded_in_order_witness:
  "\<exists>s'. loadModsFromDirectory sample_mods sample_deps ''/m/'' False (Some [''liba.so'', ''libb.so'']) no_mods = Some s' \<and>
    opened_files s' = [''/m/libb.so'', ''/m/liba.so'']"
proof -
  define a b where "a = ''liba.so''" and "b = ''libb.so''"
  have ab: "a \<noteq> b" "mod_file a" "mod_file b" by (simp_all add: a_def b_def mod_file_def)
  have deps: "sample_deps a = [b, ''libc.so'']" "sample_deps b = []"
    by (simp_all add: sample_deps_def a_def b_def)
  have ne: "''libc.so'' \<noteq> a" by (simp add: a_def)
  let ?rank = "\<lambda>f. if f = a then 1 else 0 :: nat"
  obtain s' order where r: "loadModsFromDirectory sample_mods sample_deps ''/m/'' False (Some [a, b]) no_mods = Some s'"
    "opened_files s' = opened_files no_mods @ map ((@) ''/m/'') order" "distinct order" "set order = {f \<in> set [a, b]. mod_file f}"
    "ranked sample_deps (set order) ?rank \<longrightarrow> deps_first sample_deps (set order) order"
    using mods_loaded_in_order[of sample_mods sample_deps "''/m/''" "[a, b]" no_mods ?rank] by (elim exE conjE) (rule that)
  have "ranked sample_deps (set order) ?rank"
    unfolding ranked_def r(4) using ab(1) ne deps by auto
  with r(5) have "deps_first sample_deps (set order) order" by simp
  then have "order = [b, a]" using two_in_order[OF r(3,4) ab, of sample_deps] deps by simp
  with r(1,2) show ?thesis by (simp add: opened_files_def no_mods_def List.map_filter_def a_def b_def)
qed

text \<open>
  Whether a mod is opened before the game although a mod it needs was refused depends on their names: here
  the refused mod comes first and is forgotten, there the mod that needs it comes first and is refused too.
\<close>

definition game_deps :: "string \<Rightarrow> string \<Rightarrow> string \<Rightarrow> string list" where
  "game_deps refused user f = (if f = refused then [''libminecraftpe.so''] else if f = user then [refused] else [])"

lemma preinit_depends_on_names:
  "map_option opened_files (load_all 3 sample_mods (game_deps ''liba.so'' ''libb.so'') [] True [''liba.so'', ''libb.so''] no_mods) = Some [''libb.so'']"
  "map_option opened_files (load_all 3 sample_mods (game_deps ''libb.so'' ''liba.so'') [] True [''liba.so'', ''libb.so''] no_mods) = Some []"
  by code_simp+

end
