(* ===== verification/Spec2Isabelle.thy ===== *)
theory Spec2Isabelle
  imports Epoll Signalfd Eglut_Events Base64 Text_Input Task_Thread Configuration Arg_Parser
    Shim_Once Shim_Network Shim_Pthread Shim_File Hook Mod_Loader
begin

text \<open>
  \<^bold>\<open>A verification library for the launcher's own components.\<close>

  The repository is a launcher that runs an Android game on desktop systems. Around vendored and
  generated code (the Android linker, the OpenGL loader) it has components of its own in C
  and C++: a translation of the Linux event interface to BSD, a windowing library over X11 and
  EGL, the C library the game is linked against, the hooks and mods of the core, the text field of the client,
  the telemetry client, and small libraries for Base64, property files and the command line. This library models those components from their sources and
  proves what makes them correct. Paths below are relative to \<^verbatim>\<open>src/\<close>.

  \<^bold>\<open>Conventions.\<close> Prelude has the C types as words and lists of bytes, and the state-and-stop
  programs \<open>prog\<close>: a function from a state to an outcome (a result or the reason for
  stopping) and the next state. A null pointer, an access out of bounds, an uncaught
  exception, an overflow of a signed integer and a call of \<open>exit\<close> are reasons for stopping.
  Three small logics go with it: \<open>pres\<close> and \<open>keeps\<close> for invariants and \<open>wp\<close> for results, with a
  rule for each combinator. The locale \<open>transition_system\<close> is the invariant induction that all
  state machines use; \<open>codec\<close> is the contract of print and parse. Code outside the repository (the
  kernel, Xlib, EGL, libpng, HTTP, JSON, zlib, floating-point texts) is an argument of the
  definitions. Where answers matter they come from lists or from a record of functions; what a
  theorem needs of them is a hypothesis or a locale, and a witness shows that it can hold.

  \<^bold>\<open>epoll on kqueue\<close> (\<^verbatim>\<open>epoll-shim/src\<close>). Kqueue is the kernel interface, with its laws as the locales
  \<open>kqueue_kernel\<close> and \<open>descriptor_kernel\<close> and a reference kernel that meets them. Epoll models
  \<^verbatim>\<open>epoll.c\<close>: the flag store kept in the kernel itself (locale \<open>flag_store\<close>, proved of every kernel),
  \<open>epoll_ctl\<close> and \<open>epoll_wait\<close>. Shown: the store returns what was saved and keeps other keys, the
  stored flags after each control operation, removal, the bounds of the wait buffers and the
  event masks reported. Signalfd models \<^verbatim>\<open>signalfd.c\<close> and \<^verbatim>\<open>common.c\<close>: the mutex protocol, unique live
  descriptors in every reachable state, reuse of closed ones, the size of a read.

  \<^bold>\<open>Windows and events\<close> (\<^verbatim>\<open>eglut/src\<close>). Eglut_State has the structures of \<^verbatim>\<open>eglutint.h\<close>, the events, the
  trace of outside calls and the callbacks as arguments. Xinput, Eglut_Native, Uri_List, Eglut and
  Eglut_Events follow \<^verbatim>\<open>xinput.c\<close>, \<^verbatim>\<open>eglut_x11.c\<close> and \<^verbatim>\<open>eglut.c\<close> function by function, up to both event
  loops. Shown: window indices agree in every state that calls and events reach, a new window
  is fresh and current, the pointer grab is what the requests say, relative motion adds up,
  key repeats are merged, the drag-and-drop dialogue (with types in the message or in a property), dropped files
  and the clipboard arrive as sent, the icon buffer stays in bounds, and the use of a closed display
  after a close request. The event loops have fuel, since nothing bounds the number of events; that a run is out of fuel is
  an outcome of its own, and the theorems about runs speak of those that return.

  \<^bold>\<open>The C library of the guest\<close> (\<^verbatim>\<open>libc-shim/src\<close>). The shim gives code built for Android's C library that of
  the host. Shim_Host has what its parts share: the host's headers as a map \<open>h\<close> from macro names to
  values, an argument everywhere, exceptions as values, and the locale \<open>switch_pair\<close> of two
  switches that undo each other. Shim_Errno (\<^verbatim>\<open>errno.cpp\<close>, \<^verbatim>\<open>errno.h\<close>) has both translation tables row by row and the
  wrapper of host calls. Shim_Lazy (\<^verbatim>\<open>pthreads.h\<close> and the static initialisers of \<^verbatim>\<open>pthreads.cpp\<close>) is the machine of
  threads that use a lock for the first time at once; the locale \<open>lazy_object\<close> is interpreted
  on mutexes, condition variables and read-write locks. Shim_Once has \<open>pthread_once\<close> and the chain of
  cleanup handlers, Shim_Pthread the attributes and the making and destroying of host objects.
  Shim_Address and Shim_Network (\<^verbatim>\<open>network.cpp\<close>, \<^verbatim>\<open>network.h\<close>) have the constants, the addresses, the lists of
  addresses with the memory they take, and the socket calls. Shim_File has redirected paths, \<open>open\<close>, \<open>fcntl\<close>,
  \<open>poll\<close> by \<open>select\<close>, mapping flags, \<open>sendfile\<close> and \<open>strlcpy\<close>. Shown: under every interleaving all
  threads get the same live host object and none leaks; the
  routine of \<open>pthread_once\<close> runs once and before any return; the handlers are a stack; error numbers and
  addresses survive both translations; a lookup gives the convertible records in order and
  giving them back restores the memory; results stay within the guest's buffers. Also shown is
  where they do not: \<open>recvmsg\<close> ignores the size of the address buffer, \<open>recv\<close> confuses two flags, destroying a
  busy mutex frees it, file flags are not read back on a host with other numbers, a fixed mapping
  loses its flag, \<open>sendfile\<close> takes a pointer for an offset, and \<open>poll\<close> reports sets that \<open>select\<close> did not fill.

  \<^bold>\<open>Base64 and the text field.\<close> Base64 (\<^verbatim>\<open>base64/src/base64.cpp\<close>): the encoder that writes by index, where an
  access out of range is a failure, never fails and equals RFC 4648 stated on groups of six bits; decoding inverts it. Text_Input (\<^verbatim>\<open>mcpelauncher-client/src/text_input_handler.cpp\<close>, \<^verbatim>\<open>utf8_util.h\<close>):
  the handler on bytes refines an editor on a list of characters with a cursor and a selection.

  \<^bold>\<open>Telemetry\<close> (\<^verbatim>\<open>cll-telemetry\<close>). Event_Batch has the interface of an event queue as the locales
  \<open>event_queue\<close>, \<open>shared_queue\<close> (events may be recorded during an upload) and \<open>storing_queue\<close>, and the
  queue in memory. File_Batch is a queue in one file, over a disk that answers each system call with
  success, a part or an error; the reading, writing and copying loops have termination proofs.
  Multi_Batch is the queue over numbered files. Event_Upload has the queue with a memory buffer and the
  uploader; the locale \<open>buffered_queue\<close> takes any queue that keeps the contract, and \<open>normal\<close> is its instance on
  the files. Event_Manager records events and uploads; its loop has fuel, and one unit for each
  event and one more is shown to be enough. Task_Thread interleaves the worker of a
  delayed task with its callers. Configuration is the download, the cache and the choice of the
  settings, the constructor and destructor of the manager, and what a change of the limits
  does to the queues. Shown: every event is delivered once and in order, or still queued,
  whatever the server answers; queues survive a restart and a torn file; with an accepting
  server everything is delivered, critical events first; requested runs are made under every
  schedule and nobody deadlocks; the cache returns what it was given; failed downloads are
  spaced; new limits keep the queues intact. Also shown is where the code does not do this: an
  event larger than a file blocks its queue, a flush during an upload erases out of
  range, an invalid configuration ends the program, and a request during \<open>terminate\<close> joins a
  thread twice.

  \<^bold>\<open>Hooks and mods\<close> (\<^verbatim>\<open>mcpelauncher-core/src\<close>). Hook models the hook manager (\<^verbatim>\<open>hook.cpp\<close>): libraries, hooked symbols and
  hooks are numbered objects linked by pointers, slots and cells are words of one memory, and the linker is an
  argument. The locale \<open>transition_system\<close> is interpreted on all its operations. Shown: no operation ever
  follows a dangling pointer, the linked hooks of a symbol are a list that creating and deleting change
  at one place, and applying hooks writes the right replacement into every slot. Also shown is that the
  original of a hooked function is read with 32 bits only, and that a late hook never receives it. Mod_Loader models \<^verbatim>\<open>mod_loader.cpp\<close>: its
  recursion has fuel, one unit more than there are files, which is shown to be enough. Shown: each mod is opened once and after those it
  depends on, its functions are called at most once, and no mod that needs the game is opened before it.

  \<^bold>\<open>Texts.\<close> Decimal has the decimal numbers of the C++ library, used by file names and settings.
  Properties (\<^verbatim>\<open>properties-parser\<close>): a saved property file is read back. Arg_Parser (\<^verbatim>\<open>arg-parser\<close>): a command
  line of declared options is understood.

  \<^bold>\<open>How the parts meet.\<close> The upload manager's theorem rests on the contract of two queues
  only; the contract of the buffered queue is proved from that of the queue it wraps, and that
  of the numbered files from the lemmas on one file. Each interface is interpreted on the
  definitions that model the code.

  \<^bold>\<open>Assumptions about time and memory.\<close> Object sizes are below the address space. A callback is a function
  of the state and may also stop; where an invariant of the windows is shown, callbacks are assumed to act by interface
  calls only, to any finite depth. A task's function is assumed to return. Memory that is asked for is given, and a local
  path of the host has 108 bytes, as on Linux.
  Reads of the clock are arguments. The memory model of C++ is sequentially consistent here, which
  the code's use of mutexes justifies for the task threads; for the atomic payload words of
  Shim_Lazy and Shim_Once it is an assumption.

  \<^bold>\<open>Not modelled.\<close> The building of event envelopes, compression and HTTP transfer (JSON, zlib and libcurl
  calls; the queues take the printed event, the uploader the compressed text); the
  incomplete Wayland backend of eglut; the window classes of \<^verbatim>\<open>game-window\<close>, which forward between window systems
  and the client; of \<^verbatim>\<open>libc-shim\<close> the symbol tables and the wrappers that pass their arguments on,
  \<open>ioctl\<close>, streams, directories, \<open>stat\<close> and \<open>sysconf\<close>, the socket option that replaces a send flag on macOS,
  thread names, semaphores and the other functions on thread-specific keys; the loading and patching of the game in \<^verbatim>\<open>mcpelauncher-core\<close> and \<^verbatim>\<open>mcpelauncher-client\<close>, the reading of a mod's
  dependencies from its ELF file and the translation of constructor names;
  the vendored linker and Android headers; generated OpenGL loaders; Qt interfaces, daemons and mods.
\<close>

end
